(* ===== verification/Prelude.thy ===== *)
theory Prelude
  imports Main "HOL-Library.Word"
begin

text \<open>
  Shared vocabulary of the development: the machine integer types of the sources
  (talk/base/basictypes.h), bytes, the collections of simplification rules that the
  component theories fill, and the generic lemmas on words and lists they share.

  The build targets armeabi (jni/Application.mk), a little-endian 32-bit platform:
  \<open>size_t\<close> and \<open>long\<close> have 32 bits there.
\<close>

unbundle bit_operations_syntax

type_synonym u8 = "8 word"
type_synonym u16 = "16 word"
type_synonym u32 = "32 word"
type_synonym u64 = "64 word"
type_synonym byte = "8 word"
type_synonym bytes = "8 word list"

named_theorems wire_simps \<open>round trips of the byte-order routines\<close>
named_theorems buf_simps \<open>effect of the byte buffer operations on the readable bytes\<close>
named_theorems fifo_simps \<open>effect of the FIFO operations on the readable bytes\<close>
named_theorems tcp_frame \<open>fields a PseudoTcp operation leaves alone\<close>

section \<open>Words\<close>

lemma unat_sub_le: "b \<le> a \<Longrightarrow> unat (a - b) = unat a - unat (b :: 'a::len word)"
  by (rule unat_sub)

lemma word_diff_add: "(a :: 'a::len word) + b - a = b"
  by simp

lemma unat_add_less:
  "unat a + unat b < 2 ^ LENGTH('a) \<Longrightarrow> unat (a + b :: 'a::len word) = unat a + unat b"
  by (simp add: unat_word_ariths)

lemma unat_u32_less: "unat (w :: u32) < 4294967296"
  using unsigned_less [of w] by simp

lemma unat_u16_less: "unat (w :: u16) < 65536"
  using unsigned_less [of w] by simp

lemma unat_u8_less: "unat (w :: u8) < 256"
  using unsigned_less [of w] by simp

lemma uint_u32_bounds: "0 \<le> uint (w :: u32)" "uint (w :: u32) < 4294967296"
  using uint_lt2p [of w] by simp_all

lemma uint_diff_u32:
  "uint (a - b :: u32) = (if uint b \<le> uint a then uint a - uint b else uint a - uint b + 4294967296)"
  by (simp add: uint_sub_if')

lemma uint_add_u32:
  "uint (a + b :: u32) = (if uint a + uint b < 4294967296 then uint a + uint b
                          else uint a + uint b - 4294967296)"
  by (simp add: uint_plus_if')

lemma sint_u32:
  "sint (w :: u32) = (if uint w < 2147483648 then uint w else uint w - 4294967296)"
proof -
  have "sint w = (uint w + 2147483648) mod 4294967296 - 2147483648"
    by (simp add: sint_uint signed_take_bit_eq_take_bit_shift take_bit_eq_mod)
  moreover have "(uint w + 2147483648) mod 4294967296 =
      (if uint w < 2147483648 then uint w + 2147483648 else uint w - 2147483648)"
    using uint_u32_bounds [of w] by (simp add: mod_pos_pos_trivial mod_pos_geq)
  ultimately show ?thesis by simp
qed

section \<open>Naturals\<close>

text \<open>A failing ASSERT ends the program: \<open>None\<close>.\<close>

definition ASSERT :: "bool \<Rightarrow> unit option" where
  "ASSERT P = (if P then Some () else None)"

text \<open>Error codes of errno.h on the target, and SOCKET_ERROR.\<close>

definition EWOULDBLOCK :: int where "EWOULDBLOCK = 11"
definition EINVAL :: int where "EINVAL = 22"
definition ECONNABORTED :: int where "ECONNABORTED = 103"
definition ECONNRESET :: int where "ECONNRESET = 104"
definition ENOTCONN :: int where "ENOTCONN = 107"
definition SOCKET_ERROR :: int where "SOCKET_ERROR = - 1"

text \<open>Addition and subtraction of \<open>size_t\<close> values, 32 bits on the target.\<close>

definition size_add :: "nat \<Rightarrow> nat \<Rightarrow> nat" where
  "size_add a b = (a + b) mod 4294967296"

definition size_sub :: "nat \<Rightarrow> nat \<Rightarrow> nat" where
  "size_sub a b = (a + 4294967296 - b) mod 4294967296"

lemma size_add_small: "a + b < 4294967296 \<Longrightarrow> size_add a b = a + b"
  by (simp add: size_add_def)

lemma size_sub_small: "b \<le> a \<Longrightarrow> a < 4294967296 \<Longrightarrow> size_sub a b = a - b"
  by (simp add: size_sub_def le_mod_geq)


lemma mod_wrap:
  assumes "(a::nat) < n" "b \<le> n" "n \<le> a + b"
  shows "(a + b) mod n = b - (n - a)"
proof -
  have "(a + b) mod n = (a + b - n) mod n" using assms by (simp add: le_mod_geq)
  also have "\<dots> = a + b - n" using assms by simp
  finally show ?thesis using assms by simp
qed

section \<open>Lists\<close>

lemma take_drop_split: "n \<le> m \<Longrightarrow> take n xs @ take (m - n) (drop n xs) = take m xs"
  by (metis le_add_diff_inverse take_add)

lemma nth_take_drop: "i < n \<Longrightarrow> m + i < length xs \<Longrightarrow> take n (drop m xs) ! i = xs ! (m + i)"
  by simp

lemma take_append_exact: "length xs = n \<Longrightarrow> take n (xs @ ys) = xs"
  by simp

end
