(* ===== verification/Fifo.thy ===== *)
theory Fifo
  imports Prelude
begin

text \<open>
  talk/base/stream.cc, class FifoBuffer: a byte ring buffer with random access relative to
  the read and to the write position. The fields are those of the class; \<open>f_posted\<close>
  collects the stream events posted to the owner thread. Sizes are \<open>size_t\<close>, 32 bits on
  the target: \<open>nat\<close> below \<open>2 ^ 32\<close>, with the wrap-around written out where a
  caller can make a sum wrap (an offset is any \<open>size_t\<close>). Fresh memory from
  \<open>new char[n]\<close> holds whatever \<open>mem\<close> says. A failing ASSERT aborts this build
  (it defines _DEBUG): the operation returns \<open>None\<close>. The lock is not modelled: every
  operation holds it from start to end.
\<close>

datatype stream_state = SS_CLOSED | SS_OPENING | SS_OPEN
datatype stream_result = SR_ERROR | SR_SUCCESS | SR_BLOCK | SR_EOS
datatype stream_event = SE_READ | SE_WRITE

record fifo =
  f_state :: stream_state
  f_buffer :: bytes
  f_buffer_length :: nat
  f_data_length :: nat
  f_read_position :: nat
  f_posted :: "stream_event list"

definition new_chars :: "(nat \<Rightarrow> byte) \<Rightarrow> nat \<Rightarrow> bytes" where
  "new_chars mem n = map mem [0..<n]"

text \<open>\<open>memcpy (&dst[pos], src, length src)\<close>\<close>

definition memcpy_at :: "bytes \<Rightarrow> nat \<Rightarrow> bytes \<Rightarrow> bytes" where
  "memcpy_at dst pos src = take pos dst @ src @ drop (pos + length src) dst"

section \<open>Operations\<close>

definition FifoBuffer :: "(nat \<Rightarrow> byte) \<Rightarrow> nat \<Rightarrow> fifo" where
  "FifoBuffer mem sz =
     \<lparr>f_state = SS_OPEN, f_buffer = new_chars mem sz, f_buffer_length = sz,
      f_data_length = 0, f_read_position = 0, f_posted = []\<rparr>"

definition GetBuffered :: "fifo \<Rightarrow> nat" where
  "GetBuffered b = f_data_length b"

definition GetState :: "fifo \<Rightarrow> stream_state" where
  "GetState b = f_state b"

definition SetCapacity :: "(nat \<Rightarrow> byte) \<Rightarrow> nat \<Rightarrow> fifo \<Rightarrow> bool \<times> fifo" where
  "SetCapacity mem sz b =
     (if f_data_length b > sz then (False, b)
      else if sz \<noteq> f_buffer_length b
      then (let copy = f_data_length b;
                tail_copy = min copy (f_buffer_length b - f_read_position b);
                buffer = memcpy_at (new_chars mem sz) 0
                           (take tail_copy (drop (f_read_position b) (f_buffer b)));
                buffer = memcpy_at buffer tail_copy (take (copy - tail_copy) (f_buffer b))
            in (True, b\<lparr>f_buffer := buffer, f_read_position := 0, f_buffer_length := sz\<rparr>))
      else (True, b))"

definition ReadOffsetLocked :: "nat \<Rightarrow> nat \<Rightarrow> fifo \<Rightarrow> stream_result \<times> bytes" where
  "ReadOffsetLocked n offset b =
     (if offset \<ge> f_data_length b
      then ((if f_state b \<noteq> SS_CLOSED then SR_BLOCK else SR_EOS), [])
      else (let available = f_data_length b - offset;
                read_position = size_add (f_read_position b) offset mod f_buffer_length b;
                copy = min n available;
                tail_copy = min copy (f_buffer_length b - read_position)
            in (SR_SUCCESS,
                take tail_copy (drop read_position (f_buffer b))
                @ take (copy - tail_copy) (f_buffer b))))"

definition WriteOffsetLocked :: "bytes \<Rightarrow> nat \<Rightarrow> fifo \<Rightarrow> stream_result \<times> nat \<times> fifo" where
  "WriteOffsetLocked p offset b =
     (if f_state b = SS_CLOSED then (SR_EOS, 0, b)
      else if size_add (f_data_length b) offset \<ge> f_buffer_length b then (SR_BLOCK, 0, b)
      else (let available = size_sub (size_sub (f_buffer_length b) (f_data_length b)) offset;
                write_position = size_add (size_add (f_read_position b) (f_data_length b)) offset
                                   mod f_buffer_length b;
                copy = min (length p) available;
                tail_copy = min copy (f_buffer_length b - write_position);
                buffer = memcpy_at (f_buffer b) write_position (take tail_copy p);
                buffer = memcpy_at buffer 0 (take (copy - tail_copy) (drop tail_copy p))
            in (SR_SUCCESS, copy, b\<lparr>f_buffer := buffer\<rparr>)))"

definition ReadOffset :: "nat \<Rightarrow> nat \<Rightarrow> fifo \<Rightarrow> stream_result \<times> bytes" where
  "ReadOffset n offset b = ReadOffsetLocked n offset b"

definition WriteOffset :: "bytes \<Rightarrow> nat \<Rightarrow> fifo \<Rightarrow> stream_result \<times> nat \<times> fifo" where
  "WriteOffset p offset b = WriteOffsetLocked p offset b"

definition FifoRead :: "nat \<Rightarrow> fifo \<Rightarrow> stream_result \<times> bytes \<times> fifo" where
  "FifoRead n b =
     (let was_writable = f_data_length b < f_buffer_length b;
          (result, out) = ReadOffsetLocked n 0 b;
          copy = length out
      in if result = SR_SUCCESS
         then (result, out,
               b\<lparr>f_read_position := size_add (f_read_position b) copy mod f_buffer_length b,
                 f_data_length := f_data_length b - copy,
                 f_posted := (if \<not> was_writable \<and> copy > 0 then f_posted b @ [SE_WRITE]
                              else f_posted b)\<rparr>)
         else (result, out, b))"

definition FifoWrite :: "bytes \<Rightarrow> fifo \<Rightarrow> stream_result \<times> nat \<times> fifo" where
  "FifoWrite p b =
     (let was_readable = f_data_length b > 0;
          (result, copy, b') = WriteOffsetLocked p 0 b
      in if result = SR_SUCCESS
         then (result, copy,
               b'\<lparr>f_data_length := f_data_length b + copy,
                  f_posted := (if \<not> was_readable \<and> copy > 0 then f_posted b @ [SE_READ]
                               else f_posted b)\<rparr>)
         else (result, copy, b'))"

definition FifoClose :: "fifo \<Rightarrow> fifo" where
  "FifoClose b = b\<lparr>f_state := SS_CLOSED\<rparr>"

text \<open>The pointer returned is \<open>&buffer_[read_position_]\<close>; the bytes it gives access to are returned.\<close>

definition GetReadData :: "fifo \<Rightarrow> bytes" where
  "GetReadData b =
     (let sz = (if size_add (f_read_position b) (f_data_length b) \<le> f_buffer_length b
                  then f_data_length b else f_buffer_length b - f_read_position b)
      in take sz (drop (f_read_position b) (f_buffer b)))"

definition ConsumeReadData :: "nat \<Rightarrow> fifo \<Rightarrow> fifo option" where
  "ConsumeReadData sz b =
     (if \<not> sz \<le> f_data_length b then None
      else (let was_writable = f_data_length b < f_buffer_length b
            in Some (b\<lparr>f_read_position := size_add (f_read_position b) sz mod f_buffer_length b,
                       f_data_length := f_data_length b - sz,
                       f_posted := (if \<not> was_writable \<and> sz > 0 then f_posted b @ [SE_WRITE]
                                    else f_posted b)\<rparr>)))"

text \<open>Returns the offset and the size of the contiguous block to write, none when closed.\<close>

definition GetWriteBuffer :: "fifo \<Rightarrow> (nat \<times> nat) option \<times> fifo" where
  "GetWriteBuffer b =
     (if f_state b = SS_CLOSED then (None, b)
      else (let b = (if f_data_length b = 0 then b\<lparr>f_read_position := 0\<rparr> else b);
                write_position = size_add (f_read_position b) (f_data_length b)
                                   mod f_buffer_length b;
                sz = (if write_position > f_read_position b \<or> f_data_length b = 0
                        then f_buffer_length b - write_position
                        else f_read_position b - write_position)
            in (Some (write_position, sz), b)))"

definition ConsumeWriteBuffer :: "nat \<Rightarrow> fifo \<Rightarrow> fifo option" where
  "ConsumeWriteBuffer sz b =
     (if \<not> sz \<le> f_buffer_length b - f_data_length b then None
      else (let was_readable = f_data_length b > 0
            in Some (b\<lparr>f_data_length := f_data_length b + sz,
                       f_posted := (if \<not> was_readable \<and> sz > 0 then f_posted b @ [SE_READ]
                                    else f_posted b)\<rparr>)))"

definition GetWriteRemaining :: "fifo \<Rightarrow> nat" where
  "GetWriteRemaining b = f_buffer_length b - f_data_length b"

section \<open>The ring as a sequence\<close>

text \<open>The byte at logical distance \<open>i\<close> from the read position, and the readable bytes.\<close>

definition fifo_view :: "fifo \<Rightarrow> nat \<Rightarrow> byte" where
  "fifo_view b i = f_buffer b ! ((f_read_position b + i) mod f_buffer_length b)"

definition fifo_contents :: "fifo \<Rightarrow> bytes" where
  "fifo_contents b = map (fifo_view b) [0..<f_data_length b]"

definition fifo_ok :: "fifo \<Rightarrow> bool" where
  "fifo_ok b \<longleftrightarrow>
     length (f_buffer b) = f_buffer_length b \<and> f_data_length b \<le> f_buffer_length b
     \<and> (f_read_position b < f_buffer_length b \<or> f_buffer_length b = 0)
     \<and> f_buffer_length b \<le> 2147483648 \<and> f_state b = SS_OPEN"

lemma fifo_okD:
  assumes "fifo_ok b"
  shows "length (f_buffer b) = f_buffer_length b" "f_data_length b \<le> f_buffer_length b"
    "f_buffer_length b \<le> 2147483648" "f_state b = SS_OPEN"
    "0 < f_buffer_length b \<Longrightarrow> f_read_position b < f_buffer_length b"
  using assms by (auto simp: fifo_ok_def)

lemma length_fifo_contents [simp]: "length (fifo_contents b) = f_data_length b"
  by (simp add: fifo_contents_def)

lemma nth_fifo_contents: "i < f_data_length b \<Longrightarrow> fifo_contents b ! i = fifo_view b i"
  by (simp add: fifo_contents_def)

lemma length_memcpy_at [simp]:
  "pos + length src \<le> length dst \<Longrightarrow> length (memcpy_at dst pos src) = length dst"
  by (simp add: memcpy_at_def)

lemma nth_memcpy_at:
  assumes "pos + length src \<le> length dst" "j < length dst"
  shows "memcpy_at dst pos src ! j
           = (if pos \<le> j \<and> j < pos + length src then src ! (j - pos) else dst ! j)"
  using assms by (auto simp: memcpy_at_def nth_append min_def)

lemma ring_read:
  assumes "rp < bl" "length buf = bl" "n \<le> bl"
  shows "take (min n (bl - rp)) (drop rp buf) @ take (n - min n (bl - rp)) buf
           = map (\<lambda>i. buf ! ((rp + i) mod bl)) [0..<n]"
proof (rule nth_equalityI)
  show len: "length (take (min n (bl - rp)) (drop rp buf) @ take (n - min n (bl - rp)) buf)
      = length (map (\<lambda>i. buf ! ((rp + i) mod bl)) [0..<n])"
    using assms by auto
  fix i assume i: "i < length (take (min n (bl - rp)) (drop rp buf) @ take (n - min n (bl - rp)) buf)"
  then have n: "i < n" using len by simp
  show "(take (min n (bl - rp)) (drop rp buf) @ take (n - min n (bl - rp)) buf) ! i
      = map (\<lambda>i. buf ! ((rp + i) mod bl)) [0..<n] ! i"
  proof (cases "i < bl - rp")
    case True
    then show ?thesis using assms n by (simp add: nth_append)
  next
    case False
    then have "(rp + i) mod bl = i - (bl - rp)"
      using assms n by (intro mod_wrap) auto
    then show ?thesis using assms n False by (simp add: nth_append min_def)
  qed
qed

text \<open>Two copies, one up to the end of the storage and one from its start, write \<open>n\<close> bytes around the ring.\<close>

definition ring_write :: "bytes \<Rightarrow> nat \<Rightarrow> bytes \<Rightarrow> bytes" where
  "ring_write buf wp p =
     (let tl = min (length p) (length buf - wp)
      in memcpy_at (memcpy_at buf wp (take tl p)) 0 (drop tl p))"

lemma length_ring_write:
  assumes "wp < length buf" "length p \<le> length buf"
  shows "length (ring_write buf wp p) = length buf"
  using assms by (simp add: ring_write_def Let_def min_def)

lemma nth_ring_write:
  assumes "wp < length buf" "length p \<le> length buf" "i < length buf"
  shows "ring_write buf wp p ! ((wp + i) mod length buf)
           = (if i < length p then p ! i else buf ! ((wp + i) mod length buf))"
proof -
  let ?tl = "min (length p) (length buf - wp)"
  have l1: "length (memcpy_at buf wp (take ?tl p)) = length buf"
    using assms by simp
  show ?thesis
  proof (cases "wp + i < length buf")
    case True
    then show ?thesis using assms l1
      by (auto simp: ring_write_def Let_def nth_memcpy_at min_def)
  next
    case False
    then have e: "(wp + i) mod length buf = i - (length buf - wp)"
      using assms False by (intro mod_wrap) auto
    have lt: "i - (length buf - wp) < length buf" using assms by simp
    show ?thesis using assms l1 False lt
      by (auto simp: ring_write_def Let_def nth_memcpy_at min_def e)
  qed
qed

section \<open>Every operation on the sequence\<close>

lemma fifo_ok_init: "n \<le> 2147483648 \<Longrightarrow> fifo_ok (FifoBuffer mem n)"
  by (auto simp: fifo_ok_def FifoBuffer_def new_chars_def)

lemma fifo_contents_init [fifo_simps]: "fifo_contents (FifoBuffer mem n) = []"
  by (simp add: fifo_contents_def FifoBuffer_def)

lemma ReadOffset_eq:
  assumes "fifo_ok b" "offset < f_data_length b"
  shows "ReadOffset n offset b = (SR_SUCCESS, take n (drop offset (fifo_contents b)))"
proof -
  note ok = fifo_okD [OF assms(1)]
  have bl: "0 < f_buffer_length b" using ok assms(2) by linarith
  let ?rp = "(f_read_position b + offset) mod f_buffer_length b"
  let ?copy = "min n (f_data_length b - offset)"
  have add: "size_add (f_read_position b) offset = f_read_position b + offset"
    using ok assms(2) bl by (intro size_add_small) auto
  have "take (min ?copy (f_buffer_length b - ?rp)) (drop ?rp (f_buffer b))
        @ take (?copy - min ?copy (f_buffer_length b - ?rp)) (f_buffer b)
      = map (\<lambda>i. f_buffer b ! ((?rp + i) mod f_buffer_length b)) [0..<?copy]"
    using ok assms(2) bl by (intro ring_read) auto
  also have "\<dots> = map (\<lambda>i. fifo_view b (offset + i)) [0..<?copy]"
    by (simp add: fifo_view_def mod_add_left_eq add.assoc)
  also have "\<dots> = take n (drop offset (fifo_contents b))"
    by (rule nth_equalityI) (auto simp: fifo_contents_def)
  finally show ?thesis
    using assms(2) by (simp add: ReadOffset_def ReadOffsetLocked_def Let_def add)
qed

lemma ReadOffset_block:
  assumes "fifo_ok b" "f_data_length b \<le> offset"
  shows "ReadOffset n offset b = (SR_BLOCK, [])"
  using assms by (simp add: ReadOffset_def ReadOffsetLocked_def fifo_okD(4))

lemma WriteOffset_eq:
  assumes "fifo_ok b" "f_data_length b + offset < f_buffer_length b"
  shows "WriteOffset p offset b =
           (let n = min (length p) (f_buffer_length b - f_data_length b - offset)
            in (SR_SUCCESS, n,
                b\<lparr>f_buffer := ring_write (f_buffer b)
                     ((f_read_position b + f_data_length b + offset) mod f_buffer_length b)
                     (take n p)\<rparr>))"
proof -
  note ok = fifo_okD [OF assms(1)]
  have bl: "0 < f_buffer_length b" using assms(2) by linarith
  have a: "size_add (f_data_length b) offset = f_data_length b + offset"
    using ok assms(2) by (intro size_add_small) linarith
  have b: "size_add (size_add (f_read_position b) (f_data_length b)) offset
            = f_read_position b + f_data_length b + offset"
    using ok bl assms(2) by (simp add: size_add_small)
  have c: "size_sub (size_sub (f_buffer_length b) (f_data_length b)) offset
            = f_buffer_length b - f_data_length b - offset"
    using ok assms(2) by (simp add: size_sub_small)
  let ?n = "min (length p) (f_buffer_length b - f_data_length b - offset)"
  let ?tl = "\<lambda>w. min ?n (f_buffer_length b - w)"
  have t: "take (?tl w) (take ?n p) = take (?tl w) p" for w by (simp add: min_def)
  have d: "drop (?tl w) (take ?n p) = take (?n - ?tl w) (drop (?tl w) p)" for w
    by (simp add: drop_take)
  have len: "length (take ?n p) = ?n" by simp
  show ?thesis
    using assms(2) ok(1,4)
    by (simp only: WriteOffset_def WriteOffsetLocked_def a b c Let_def ring_write_def len t d)
       simp
qed

lemma fifo_ok_buffer_length [simp]:
  "fifo_ok b \<Longrightarrow> length buf = f_buffer_length b \<Longrightarrow> fifo_ok (b\<lparr>f_buffer := buf\<rparr>)"
  by (simp add: fifo_ok_def)

text \<open>A write at an offset changes exactly the bytes at that offset past the readable ones.\<close>

lemma WriteOffset_view:
  assumes "fifo_ok b" "f_data_length b + offset + length p \<le> f_buffer_length b" "p \<noteq> []"
  shows "\<exists>b'. WriteOffset p offset b = (SR_SUCCESS, length p, b') \<and> fifo_ok b'
           \<and> f_data_length b' = f_data_length b \<and> f_buffer_length b' = f_buffer_length b
           \<and> (\<forall>i < f_buffer_length b. fifo_view b' i =
                (if f_data_length b + offset \<le> i \<and> i < f_data_length b + offset + length p
                 then p ! (i - (f_data_length b + offset)) else fifo_view b i))"
proof -
  note ok = fifo_okD [OF assms(1)]
  let ?bl = "f_buffer_length b" and ?rp = "f_read_position b"
  let ?d = "f_data_length b + offset"
  have bl: "0 < ?bl" and d: "?d < ?bl" using assms by (cases p; auto)+
  have rp: "?rp < ?bl" using ok bl by blast
  define wp where "wp = (?rp + ?d) mod ?bl"
  have wp: "wp < ?bl" using bl by (simp add: wp_def)
  define b' where "b' = b\<lparr>f_buffer := ring_write (f_buffer b) wp p\<rparr>"
  have eq: "WriteOffset p offset b = (SR_SUCCESS, length p, b')"
  proof -
    have "min (length p) (?bl - f_data_length b - offset) = length p" using assms(2) by simp
    then show ?thesis by (simp add: WriteOffset_eq [OF assms(1) d] b'_def wp_def add.assoc Let_def)
  qed
  have ok': "fifo_ok b'"
    unfolding b'_def using assms ok wp by (simp add: length_ring_write)
  have view: "fifo_view b' i = (if ?d \<le> i \<and> i < ?d + length p then p ! (i - ?d) else fifo_view b i)"
    if i: "i < ?bl" for i
  proof -
    \<comment> \<open>the position of byte i is j steps after the write position\<close>
    define j where "j = (if ?d \<le> i then i - ?d else i + ?bl - ?d)"
    have j: "j < ?bl" using i d by (auto simp: j_def)
    have "(?rp + i) mod ?bl = (wp + j) mod ?bl"
    proof (cases "?d \<le> i")
      case True
      then have "?rp + ?d + j = ?rp + i" by (simp add: j_def)
      then show ?thesis by (metis mod_add_left_eq wp_def)
    next
      case False
      then have "?rp + ?d + j = ?rp + i + ?bl" using d by (simp add: j_def)
      then show ?thesis by (metis mod_add_left_eq mod_add_self2 wp_def)
    qed
    then have "fifo_view b' i = (if j < length p then p ! j else fifo_view b i)"
      using nth_ring_write [of wp "f_buffer b" p j] ok wp j assms(2)
      by (simp add: fifo_view_def b'_def)
    moreover have "j < length p \<longleftrightarrow> ?d \<le> i \<and> i < ?d + length p"
      using assms(2) by (auto simp: j_def)
    moreover have "?d \<le> i \<Longrightarrow> j = i - ?d" by (simp add: j_def)
    ultimately show ?thesis by auto
  qed
  show ?thesis using eq ok' view by (simp add: b'_def)
qed

lemma fifo_contents_cong:
  "f_data_length b' = f_data_length b \<Longrightarrow> (\<And>i. i < f_data_length b \<Longrightarrow> fifo_view b' i = fifo_view b i)
    \<Longrightarrow> fifo_contents b' = fifo_contents b"
  by (simp add: fifo_contents_def)

lemma fifo_Write_eq:
  assumes "fifo_ok b" "f_data_length b + length p \<le> f_buffer_length b"
  shows "\<exists>b'. FifoWrite p b = ((if f_data_length b < f_buffer_length b then SR_SUCCESS else SR_BLOCK),
                  length p, b') \<and> fifo_ok b'
           \<and> fifo_contents b' = fifo_contents b @ p \<and> f_buffer_length b' = f_buffer_length b"
proof (cases "p = []")
  case True
  note ok = fifo_okD [OF assms(1)]
  show ?thesis
  proof (cases "f_data_length b < f_buffer_length b")
    case lt: True
    have W: "WriteOffsetLocked [] 0 b = (SR_SUCCESS, 0, b)"
      using WriteOffset_eq [OF assms(1), of 0 "[]"] lt
      by (simp add: WriteOffset_def ring_write_def Let_def memcpy_at_def)
    show ?thesis using True lt assms(1)
      by (simp add: FifoWrite_def W fifo_contents_def fifo_view_def fifo_ok_def)
  next
    case False
    then have W: "WriteOffsetLocked [] 0 b = (SR_BLOCK, 0, b)"
      using ok by (simp add: WriteOffsetLocked_def size_add_small)
    show ?thesis using True False assms(1) by (simp add: FifoWrite_def W)
  qed
next
  case False
  then have lt: "f_data_length b < f_buffer_length b" using assms(2) by (cases p) auto
  obtain b' where b': "WriteOffset p 0 b = (SR_SUCCESS, length p, b')" "fifo_ok b'"
      "f_data_length b' = f_data_length b" "f_buffer_length b' = f_buffer_length b"
    and v: "\<And>i. i < f_buffer_length b \<Longrightarrow> fifo_view b' i =
                (if f_data_length b \<le> i \<and> i < f_data_length b + length p
                 then p ! (i - f_data_length b) else fifo_view b i)"
    using WriteOffset_view [OF assms(1), of 0 p] assms(2) False by auto
  define b'' where "b'' = snd (snd (FifoWrite p b))"
  have b'': "FifoWrite p b = (SR_SUCCESS, length p, b'')"
    "f_data_length b'' = f_data_length b + length p" "f_buffer_length b'' = f_buffer_length b"
    "fifo_view b'' = fifo_view b'" "fifo_ok b''"
    using b' assms(2)
    by (auto simp: b''_def FifoWrite_def WriteOffset_def fifo_view_def fifo_ok_def)
  have "fifo_contents b'' = fifo_contents b @ p"
  proof (rule nth_equalityI)
    show "length (fifo_contents b'') = length (fifo_contents b @ p)" by (simp add: b'')
    fix i assume "i < length (fifo_contents b'')"
    then have "i < f_data_length b + length p" by (simp add: b'')
    then show "fifo_contents b'' ! i = (fifo_contents b @ p) ! i"
      using v [of i] assms(2) by (simp add: nth_fifo_contents b'' nth_append)
  qed
  then show ?thesis using b'' lt by simp
qed

lemma fifo_view_shift:
  assumes "fifo_ok b" "n \<le> f_data_length b" "0 < f_buffer_length b"
  shows "f_buffer b ! ((size_add (f_read_position b) n mod f_buffer_length b + i) mod f_buffer_length b)
           = fifo_view b (n + i)"
proof -
  note ok = fifo_okD [OF assms(1)]
  have "size_add (f_read_position b) n = f_read_position b + n"
    using ok assms by (intro size_add_small) linarith
  then show ?thesis by (simp add: fifo_view_def mod_add_left_eq add.assoc)
qed

lemma ConsumeReadData_eq:
  assumes "fifo_ok b" "n \<le> f_data_length b"
  shows "\<exists>b'. ConsumeReadData n b = Some b' \<and> fifo_ok b'
           \<and> f_data_length b' = f_data_length b - n \<and> f_buffer_length b' = f_buffer_length b
           \<and> fifo_contents b' = drop n (fifo_contents b)
           \<and> (0 < f_buffer_length b \<longrightarrow> (\<forall>i. fifo_view b' i = fifo_view b (n + i)))"
proof -
  note ok = fifo_okD [OF assms(1)]
  define b' where "b' = the (ConsumeReadData n b)"
  have b': "ConsumeReadData n b = Some b'" "f_data_length b' = f_data_length b - n"
    "f_buffer_length b' = f_buffer_length b"
    using assms(2) by (auto simp: b'_def ConsumeReadData_def Let_def)
  have ok': "fifo_ok b'"
    using assms by (auto simp: b'_def ConsumeReadData_def Let_def fifo_ok_def)
  have v: "fifo_view b' i = fifo_view b (n + i)" if "0 < f_buffer_length b" for i
    using fifo_view_shift [OF assms that] assms(2)
    by (simp add: b'_def ConsumeReadData_def Let_def fifo_view_def)
  have "fifo_contents b' = drop n (fifo_contents b)"
  proof (cases "f_buffer_length b = 0")
    case True
    then show ?thesis using ok(2) b'(2) by (simp add: fifo_contents_def)
  next
    case False
    then show ?thesis using assms(2) b'(2) v
      by (intro nth_equalityI) (auto simp: nth_fifo_contents)
  qed
  then show ?thesis using b' ok' v by blast
qed

lemma ConsumeWriteBuffer_eq:
  assumes "fifo_ok b" "n \<le> f_buffer_length b - f_data_length b"
  shows "\<exists>b'. ConsumeWriteBuffer n b = Some b' \<and> fifo_ok b'
           \<and> f_data_length b' = f_data_length b + n \<and> f_buffer_length b' = f_buffer_length b
           \<and> fifo_view b' = fifo_view b
           \<and> fifo_contents b' = fifo_contents b @ map (fifo_view b) [f_data_length b..<f_data_length b + n]"
proof -
  define b' where "b' = the (ConsumeWriteBuffer n b)"
  have b': "ConsumeWriteBuffer n b = Some b'" "f_data_length b' = f_data_length b + n"
    "f_buffer_length b' = f_buffer_length b" "fifo_view b' = fifo_view b"
    using assms(2) by (auto simp: b'_def ConsumeWriteBuffer_def Let_def fifo_view_def)
  have "fifo_ok b'"
    using assms by (auto simp: b'_def ConsumeWriteBuffer_def Let_def fifo_ok_def)
  moreover have "[0..<f_data_length b + n] = [0..<f_data_length b] @ [f_data_length b..<f_data_length b + n]"
    by (rule upt_add_eq_append) simp
  ultimately show ?thesis using b' by (simp add: fifo_contents_def)
qed

lemma FifoRead_eq:
  assumes "fifo_ok b" "0 < f_data_length b"
  shows "\<exists>b'. FifoRead n b = (SR_SUCCESS, take n (fifo_contents b), b') \<and> fifo_ok b'
           \<and> f_buffer_length b' = f_buffer_length b \<and> fifo_contents b' = drop n (fifo_contents b)
           \<and> (\<forall>i. fifo_view b' i = fifo_view b (min n (f_data_length b) + i))"
proof -
  note ok = fifo_okD [OF assms(1)]
  let ?n = "min n (f_data_length b)"
  have R: "ReadOffsetLocked n 0 b = (SR_SUCCESS, take n (fifo_contents b))"
    using ReadOffset_eq [OF assms, of n] by (simp add: ReadOffset_def)
  define b' where "b' = snd (snd (FifoRead n b))"
  have eq: "FifoRead n b = (SR_SUCCESS, take n (fifo_contents b), b')"
    by (simp add: b'_def FifoRead_def R Let_def)
  have len: "length (take n (fifo_contents b)) = ?n" by simp
  have f: "f_data_length b' = f_data_length b - ?n" "f_buffer_length b' = f_buffer_length b"
    "f_buffer b' = f_buffer b" "f_state b' = f_state b"
    "f_read_position b' = size_add (f_read_position b) ?n mod f_buffer_length b"
    by (simp_all add: b'_def FifoRead_def R Let_def min.commute)
  have bl: "0 < f_buffer_length b" using ok(2) assms(2) by linarith
  have ok': "fifo_ok b'"
    using assms(1) bl by (auto simp: fifo_ok_def f)
  have v: "fifo_view b' i = fifo_view b (?n + i)" for i
    using fifo_view_shift [OF assms(1) _ bl, of ?n] by (simp add: fifo_view_def f)
  have "fifo_contents b' = drop n (fifo_contents b)"
    using v by (intro nth_equalityI) (auto simp: nth_fifo_contents f min_def split: if_splits)
  then show ?thesis using eq ok' f(2) v by blast
qed

lemma FifoRead_block:
  assumes "fifo_ok b" "f_data_length b = 0"
  shows "FifoRead n b = (SR_BLOCK, [], b)"
  using ReadOffset_block [OF assms(1), of 0 n] assms(2)
  by (simp add: FifoRead_def ReadOffset_def Let_def)

lemma fifo_contents_take:
  assumes "fifo_ok b" "f_read_position b = 0"
  shows "fifo_contents b = take (f_data_length b) (f_buffer b)"
  using fifo_okD [OF assms(1)] assms(2)
  by (intro nth_equalityI) (auto simp: nth_fifo_contents fifo_view_def)

lemma SetCapacity_eq:
  assumes "fifo_ok b" "f_data_length b \<le> n" "n \<le> 2147483648"
  shows "\<exists>b'. SetCapacity mem n b = (True, b') \<and> fifo_ok b' \<and> f_buffer_length b' = n
           \<and> f_data_length b' = f_data_length b \<and> fifo_contents b' = fifo_contents b"
proof (cases "n = f_buffer_length b")
  case True
  then show ?thesis using assms by (simp add: SetCapacity_def)
next
  case False
  note ok = fifo_okD [OF assms(1)]
  let ?d = "f_data_length b" and ?rp = "f_read_position b" and ?bl = "f_buffer_length b"
  let ?tl = "min ?d (?bl - ?rp)"
  define b' where "b' = snd (SetCapacity mem n b)"
  have eq: "SetCapacity mem n b = (True, b')"
    using assms(2) False by (simp add: b'_def SetCapacity_def Let_def)
  have f: "f_buffer_length b' = n" "f_data_length b' = ?d" "f_read_position b' = 0"
    "f_state b' = f_state b"
    "f_buffer b' = memcpy_at (memcpy_at (new_chars mem n) 0 (take ?tl (drop ?rp (f_buffer b))))
                     ?tl (take (?d - ?tl) (f_buffer b))"
    using assms(2) False by (simp_all add: b'_def SetCapacity_def Let_def)
  have L: "length (new_chars mem n) = n" by (simp add: new_chars_def)
  have l1: "length (take ?tl (drop ?rp (f_buffer b))) = ?tl"
    and l2: "length (take (?d - ?tl) (f_buffer b)) = ?d - ?tl"
    using ok by auto
  have buf: "f_buffer b' = (take ?tl (drop ?rp (f_buffer b)) @ take (?d - ?tl) (f_buffer b))
                            @ drop ?d (new_chars mem n)"
    using assms(2) l1 l2 by (simp add: f memcpy_at_def L del: take_drop length_take length_drop)
  have ok': "fifo_ok b'"
    using assms l1 l2 ok by (auto simp: fifo_ok_def f(1-4) buf L)
  have l12: "length (take ?tl (drop ?rp (f_buffer b)) @ take (?d - ?tl) (f_buffer b)) = ?d"
    using l1 l2 by simp
  have "fifo_contents b' = take ?tl (drop ?rp (f_buffer b)) @ take (?d - ?tl) (f_buffer b)"
    unfolding fifo_contents_take [OF ok' f(3)] f(2) buf by (rule take_append_exact [OF l12])
  also have "\<dots> = fifo_contents b"
  proof (cases "0 < ?bl")
    case True
    then show ?thesis using ring_read [of ?rp ?bl "f_buffer b" ?d] ok
      by (simp add: fifo_contents_def fifo_view_def [abs_def])
  next
    case False
    then show ?thesis using ok(2) by (simp add: fifo_contents_def)
  qed
  finally show ?thesis using eq ok' f by blast
qed

end
