(* ===== verification/Byte_Queue.thy ===== *)
theory Byte_Queue
  imports Fifo
begin

text \<open>
  The interfaces through which PseudoTcp (talk/p2p/base/pseudotcp.cc) uses its two
  FifoBuffers: a byte queue with random-access reads (the send buffer) and a reassembly
  buffer that also takes writes past its end (the receive buffer). The clients' lemmas are
  proved once against the laws, and FifoBuffer is shown to satisfy them.
\<close>

text \<open>Successive random-access reads of the given lengths, starting at an offset.\<close>

fun read_segments :: "(nat \<Rightarrow> nat \<Rightarrow> 'b \<Rightarrow> stream_result \<times> bytes) \<Rightarrow> 'b \<Rightarrow> nat \<Rightarrow> nat list \<Rightarrow> bytes" where
  "read_segments peek b off [] = []"
| "read_segments peek b off (n # ns) = snd (peek n off b) @ read_segments peek b (off + n) ns"

text \<open>The window past the readable bytes holds the stream \<open>S\<close> at the positions in \<open>C\<close>; its first byte is stream position \<open>pos\<close>.\<close>

definition stream_agree :: "(nat \<Rightarrow> byte) \<Rightarrow> nat \<Rightarrow> nat set \<Rightarrow> (nat \<Rightarrow> byte) \<Rightarrow> bool" where
  "stream_agree win pos C S \<longleftrightarrow> (\<forall>i. pos + i \<in> C \<longrightarrow> win i = S (pos + i))"

locale byte_queue =
  fixes inv :: "'b \<Rightarrow> bool" and contents :: "'b \<Rightarrow> bytes" and capacity :: "'b \<Rightarrow> nat"
    and peek :: "nat \<Rightarrow> nat \<Rightarrow> 'b \<Rightarrow> stream_result \<times> bytes"
    and put :: "bytes \<Rightarrow> 'b \<Rightarrow> stream_result \<times> nat \<times> 'b"
    and consume :: "nat \<Rightarrow> 'b \<Rightarrow> 'b option"
  assumes fits: "inv b \<Longrightarrow> length (contents b) \<le> capacity b"
    and peek_in: "inv b \<Longrightarrow> off < length (contents b) \<Longrightarrow>
          peek n off b = (SR_SUCCESS, take n (drop off (contents b)))"
    and peek_out: "inv b \<Longrightarrow> length (contents b) \<le> off \<Longrightarrow> peek n off b = (SR_BLOCK, [])"
    and put_law: "inv b \<Longrightarrow> length (contents b) + length p \<le> capacity b \<Longrightarrow>
          \<exists>r b'. put p b = (r, length p, b') \<and> inv b' \<and> contents b' = contents b @ p
                 \<and> capacity b' = capacity b"
    and consume_law: "inv b \<Longrightarrow> n \<le> length (contents b) \<Longrightarrow>
          \<exists>b'. consume n b = Some b' \<and> inv b' \<and> contents b' = drop n (contents b)
               \<and> capacity b' = capacity b"
begin

lemma peek_bytes: "inv b \<Longrightarrow> snd (peek n off b) = take n (drop off (contents b))"
  by (cases "off < length (contents b)") (auto simp: peek_in peek_out)

lemma peek_exact:
  assumes "inv b" "off + n \<le> length (contents b)" "0 < n"
  shows "peek n off b = (SR_SUCCESS, take n (drop off (contents b)))"
    and "length (take n (drop off (contents b))) = n"
  using assms by (simp_all add: peek_in)

text \<open>Segments that tile a stretch of the buffer carry exactly its bytes, in order.\<close>

lemma segments_tile:
  "inv b \<Longrightarrow> off + sum_list ns \<le> length (contents b) \<Longrightarrow>
    read_segments peek b off ns = take (sum_list ns) (drop off (contents b))"
proof (induction ns arbitrary: off)
  case Nil
  then show ?case by simp
next
  case (Cons n ns)
  then have "read_segments peek b (off + n) ns = take (sum_list ns) (drop (off + n) (contents b))"
    by simp
  then show ?case using Cons.prems(1)
    by (simp add: peek_bytes take_add add.commute)
qed

text \<open>What went out and what is left make up what came in.\<close>

lemma put_history:
  assumes "inv b" "length (contents b) + length p \<le> capacity b" "gone @ contents b = hist"
    and "put p b = (r, n, b')"
  shows "n = length p \<and> inv b' \<and> capacity b' = capacity b \<and> gone @ contents b' = hist @ p"
  using put_law [OF assms(1,2)] assms(3,4) by auto

lemma consume_history:
  assumes "inv b" "n \<le> length (contents b)" "gone @ contents b = hist" "consume n b = Some b'"
  shows "inv b' \<and> capacity b' = capacity b \<and> (gone @ take n (contents b)) @ contents b' = hist"
  using consume_law [OF assms(1,2)] assms(3,4) by auto

end

locale reassembly_buffer = byte_queue +
  fixes win :: "'b \<Rightarrow> nat \<Rightarrow> byte"
    and poke :: "bytes \<Rightarrow> nat \<Rightarrow> 'b \<Rightarrow> stream_result \<times> nat \<times> 'b"
    and commit :: "nat \<Rightarrow> 'b \<Rightarrow> 'b option"
  assumes poke_law: "inv b \<Longrightarrow> p \<noteq> [] \<Longrightarrow> length (contents b) + off + length p \<le> capacity b \<Longrightarrow>
          \<exists>b'. poke p off b = (SR_SUCCESS, length p, b') \<and> inv b' \<and> contents b' = contents b
               \<and> capacity b' = capacity b
               \<and> (\<forall>i < capacity b - length (contents b).
                    win b' i = (if off \<le> i \<and> i < off + length p then p ! (i - off) else win b i))"
    and commit_law: "inv b \<Longrightarrow> n \<le> capacity b - length (contents b) \<Longrightarrow>
          \<exists>b'. commit n b = Some b' \<and> inv b' \<and> capacity b' = capacity b
               \<and> contents b' = contents b @ map (win b) [0..<n]
               \<and> (\<forall>i. win b' i = win b (n + i))"
    and consume_win: "inv b \<Longrightarrow> n \<le> length (contents b) \<Longrightarrow> 0 < capacity b \<Longrightarrow>
          consume n b = Some b' \<Longrightarrow> win b' = win b"
begin

text \<open>A segment of the stream written at its place extends what the window holds of it.\<close>

lemma poke_agree:
  assumes inv: "inv b" and p: "p \<noteq> []" "length (contents b) + off + length p \<le> capacity b"
    and agree: "stream_agree (win b) pos C S"
    and C: "C \<subseteq> {..< pos + (capacity b - length (contents b))}"
    and S: "\<And>j. j < length p \<Longrightarrow> p ! j = S (pos + off + j)"
  shows "\<exists>b'. poke p off b = (SR_SUCCESS, length p, b') \<and> inv b' \<and> contents b' = contents b
           \<and> capacity b' = capacity b
           \<and> stream_agree (win b') pos (C \<union> {pos + off ..< pos + off + length p}) S"
proof -
  obtain b' where b': "poke p off b = (SR_SUCCESS, length p, b')" "inv b'"
      "contents b' = contents b" "capacity b' = capacity b"
    and w: "\<And>i. i < capacity b - length (contents b) \<Longrightarrow>
             win b' i = (if off \<le> i \<and> i < off + length p then p ! (i - off) else win b i)"
    using poke_law [OF inv p] by blast
  have "win b' i = S (pos + i)" if i: "pos + i \<in> C \<union> {pos + off ..< pos + off + length p}" for i
  proof -
    have "i < capacity b - length (contents b)" using i C p(2) by auto
    note w [OF this]
    moreover have "\<not> (off \<le> i \<and> i < off + length p) \<Longrightarrow> win b i = S (pos + i)"
      using i agree by (auto simp: stream_agree_def)
    moreover have "off \<le> i \<and> i < off + length p \<Longrightarrow> p ! (i - off) = S (pos + i)"
      using S [of "i - off"] by auto
    ultimately show ?thesis by auto
  qed
  then show ?thesis using b' by (auto simp: stream_agree_def)
qed

text \<open>Committing a stretch that is wholly there appends the next bytes of the stream.\<close>

lemma commit_agree:
  assumes "inv b" "n \<le> capacity b - length (contents b)"
    and agree: "stream_agree (win b) pos C S" and C: "{pos ..< pos + n} \<subseteq> C"
  shows "\<exists>b'. commit n b = Some b' \<and> inv b' \<and> capacity b' = capacity b
           \<and> contents b' = contents b @ map S [pos ..< pos + n]
           \<and> stream_agree (win b') (pos + n) C S"
proof -
  obtain b' where b': "commit n b = Some b'" "inv b'" "capacity b' = capacity b"
      "contents b' = contents b @ map (win b) [0..<n]" and w: "\<And>i. win b' i = win b (n + i)"
    using commit_law [OF assms(1,2)] by blast
  have "map (win b) [0..<n] = map (\<lambda>i. S (pos + i)) [0..<n]"
    using agree C by (auto simp: stream_agree_def subset_eq)
  also have "\<dots> = map S [pos ..< pos + n]"
    by (rule nth_equalityI) auto
  finally show ?thesis
    using b' agree by (auto simp: stream_agree_def w add.assoc)
qed

end

section \<open>FifoBuffer is such a buffer\<close>

definition fifo_window :: "fifo \<Rightarrow> nat \<Rightarrow> byte" where
  "fifo_window b i = fifo_view b (f_data_length b + i)"

interpretation fq: byte_queue fifo_ok fifo_contents f_buffer_length ReadOffset FifoWrite ConsumeReadData
proof unfold_locales
  show "length (fifo_contents b) \<le> f_buffer_length b" if "fifo_ok b" for b
    using fifo_okD(2) [OF that] by simp
  show "ReadOffset n off b = (SR_SUCCESS, take n (drop off (fifo_contents b)))"
    if "fifo_ok b" "off < length (fifo_contents b)" for b off n
    using ReadOffset_eq [OF that(1)] that(2) by simp
  show "ReadOffset n off b = (SR_BLOCK, [])"
    if "fifo_ok b" "length (fifo_contents b) \<le> off" for b off n
    using ReadOffset_block [OF that(1)] that(2) by simp
  show "\<exists>r b'. FifoWrite p b = (r, length p, b') \<and> fifo_ok b' \<and> fifo_contents b' = fifo_contents b @ p
          \<and> f_buffer_length b' = f_buffer_length b"
    if "fifo_ok b" "length (fifo_contents b) + length p \<le> f_buffer_length b" for b p
    using fifo_Write_eq [OF that(1), of p] that(2) by auto
  show "\<exists>b'. ConsumeReadData n b = Some b' \<and> fifo_ok b' \<and> fifo_contents b' = drop n (fifo_contents b)
          \<and> f_buffer_length b' = f_buffer_length b"
    if "fifo_ok b" "n \<le> length (fifo_contents b)" for b n
    using ConsumeReadData_eq [OF that(1), of n] that(2) by auto
qed

interpretation fr: reassembly_buffer fifo_ok fifo_contents f_buffer_length ReadOffset FifoWrite
  ConsumeReadData fifo_window WriteOffset ConsumeWriteBuffer
proof unfold_locales
  show "\<exists>b'. WriteOffset p off b = (SR_SUCCESS, length p, b') \<and> fifo_ok b'
          \<and> fifo_contents b' = fifo_contents b \<and> f_buffer_length b' = f_buffer_length b
          \<and> (\<forall>i < f_buffer_length b - length (fifo_contents b).
               fifo_window b' i = (if off \<le> i \<and> i < off + length p then p ! (i - off)
                                   else fifo_window b i))"
    if b: "fifo_ok b" "p \<noteq> []" "length (fifo_contents b) + off + length p \<le> f_buffer_length b" for b p off
  proof -
    obtain b' where b': "WriteOffset p off b = (SR_SUCCESS, length p, b')" "fifo_ok b'"
        "f_data_length b' = f_data_length b" "f_buffer_length b' = f_buffer_length b"
      and v: "\<And>i. i < f_buffer_length b \<Longrightarrow> fifo_view b' i =
                (if f_data_length b + off \<le> i \<and> i < f_data_length b + off + length p
                 then p ! (i - (f_data_length b + off)) else fifo_view b i)"
      using WriteOffset_view [OF b(1) _ b(2), of off] b(3) by auto
    have "fifo_contents b' = fifo_contents b"
      using b'(3) v b(3) by (intro fifo_contents_cong) auto
    moreover have "fifo_window b' i = (if off \<le> i \<and> i < off + length p then p ! (i - off)
                                       else fifo_window b i)"
      if "i < f_buffer_length b - f_data_length b" for i
      using v [of "f_data_length b + i"] that by (auto simp: fifo_window_def b'(3))
    ultimately show ?thesis using b' by auto
  qed
  show "\<exists>b'. ConsumeWriteBuffer n b = Some b' \<and> fifo_ok b' \<and> f_buffer_length b' = f_buffer_length b
          \<and> fifo_contents b' = fifo_contents b @ map (fifo_window b) [0..<n]
          \<and> (\<forall>i. fifo_window b' i = fifo_window b (n + i))"
    if "fifo_ok b" "n \<le> f_buffer_length b - length (fifo_contents b)" for b n
  proof -
    have "map (fifo_view b) [f_data_length b..<f_data_length b + n] = map (fifo_window b) [0..<n]"
      by (rule nth_equalityI) (auto simp: fifo_window_def)
    then show ?thesis
      using ConsumeWriteBuffer_eq [OF that(1), of n] that(2)
      by (auto simp: fifo_window_def add.assoc)
  qed
  show "fifo_window b' = fifo_window b"
    if "fifo_ok b" "n \<le> length (fifo_contents b)" "0 < f_buffer_length b"
      "ConsumeReadData n b = Some b'" for b b' n
    using ConsumeReadData_eq [OF that(1), of n] that(2-4) by (auto simp: fifo_window_def fun_eq_iff)
qed

end
