(* ===== verification/Byte_Order.thy ===== *)
theory Byte_Order
  imports Prelude
begin

text \<open>
  talk/base/byteorder.h: big- and little-endian access to numbers in memory and the
  conversions between host and network order. A \<open>Set\<close> routine stores at a pointer: its
  model is the bytes it stores, first byte first. The target is little-endian, so the memory
  image of a host integer is that of the \<open>SetLE\<close> routine.
\<close>

section \<open>Memory access\<close>

definition Get8 :: "bytes \<Rightarrow> nat \<Rightarrow> u8" where
  "Get8 m offset = m ! offset"

definition SetBE16 :: "u16 \<Rightarrow> bytes" where
  "SetBE16 v = [ucast (drop_bit 8 v), ucast v]"

definition SetBE32 :: "u32 \<Rightarrow> bytes" where
  "SetBE32 v = [ucast (drop_bit 24 v), ucast (drop_bit 16 v), ucast (drop_bit 8 v), ucast v]"

definition SetBE64 :: "u64 \<Rightarrow> bytes" where
  "SetBE64 v = [ucast (drop_bit 56 v), ucast (drop_bit 48 v), ucast (drop_bit 40 v),
     ucast (drop_bit 32 v), ucast (drop_bit 24 v), ucast (drop_bit 16 v), ucast (drop_bit 8 v),
     ucast v]"

definition GetBE16 :: "bytes \<Rightarrow> u16" where
  "GetBE16 m = push_bit 8 (ucast (Get8 m 0)) OR ucast (Get8 m 1)"

definition GetBE32 :: "bytes \<Rightarrow> u32" where
  "GetBE32 m = push_bit 24 (ucast (Get8 m 0)) OR push_bit 16 (ucast (Get8 m 1))
             OR push_bit 8 (ucast (Get8 m 2)) OR ucast (Get8 m 3)"

definition GetBE64 :: "bytes \<Rightarrow> u64" where
  "GetBE64 m = push_bit 56 (ucast (Get8 m 0)) OR push_bit 48 (ucast (Get8 m 1))
             OR push_bit 40 (ucast (Get8 m 2)) OR push_bit 32 (ucast (Get8 m 3))
             OR push_bit 24 (ucast (Get8 m 4)) OR push_bit 16 (ucast (Get8 m 5))
             OR push_bit 8 (ucast (Get8 m 6)) OR ucast (Get8 m 7)"

definition SetLE16 :: "u16 \<Rightarrow> bytes" where
  "SetLE16 v = [ucast v, ucast (drop_bit 8 v)]"

definition SetLE32 :: "u32 \<Rightarrow> bytes" where
  "SetLE32 v = [ucast v, ucast (drop_bit 8 v), ucast (drop_bit 16 v), ucast (drop_bit 24 v)]"

definition SetLE64 :: "u64 \<Rightarrow> bytes" where
  "SetLE64 v = [ucast v, ucast (drop_bit 8 v), ucast (drop_bit 16 v), ucast (drop_bit 24 v),
     ucast (drop_bit 32 v), ucast (drop_bit 40 v), ucast (drop_bit 48 v), ucast (drop_bit 56 v)]"

definition GetLE16 :: "bytes \<Rightarrow> u16" where
  "GetLE16 m = push_bit 8 (ucast (Get8 m 1)) OR ucast (Get8 m 0)"

definition GetLE32 :: "bytes \<Rightarrow> u32" where
  "GetLE32 m = push_bit 24 (ucast (Get8 m 3)) OR push_bit 16 (ucast (Get8 m 2))
             OR push_bit 8 (ucast (Get8 m 1)) OR ucast (Get8 m 0)"

definition GetLE64 :: "bytes \<Rightarrow> u64" where
  "GetLE64 m = push_bit 56 (ucast (Get8 m 7)) OR push_bit 48 (ucast (Get8 m 6))
             OR push_bit 40 (ucast (Get8 m 5)) OR push_bit 32 (ucast (Get8 m 4))
             OR push_bit 24 (ucast (Get8 m 3)) OR push_bit 16 (ucast (Get8 m 2))
             OR push_bit 8 (ucast (Get8 m 1)) OR ucast (Get8 m 0)"

section \<open>Host and network order\<close>

text \<open>The first byte of the host integer 1 is not 0.\<close>

definition IsHostBigEndian :: bool where
  "IsHostBigEndian = (Get8 (SetLE32 1) 0 = 0)"

text \<open>\<open>htons\<close> and \<open>htonl\<close> of the C library reverse the bytes on this target.\<close>

definition HostToNetwork16 :: "u16 \<Rightarrow> u16" where
  "HostToNetwork16 n = GetBE16 (SetLE16 n)"

definition HostToNetwork32 :: "u32 \<Rightarrow> u32" where
  "HostToNetwork32 n = GetBE32 (SetLE32 n)"

definition HostToNetwork64 :: "u64 \<Rightarrow> u64" where
  "HostToNetwork64 n = (if IsHostBigEndian then n else GetBE64 (SetLE64 n))"

definition NetworkToHost16 :: "u16 \<Rightarrow> u16" where
  "NetworkToHost16 n = GetBE16 (SetLE16 n)"

definition NetworkToHost32 :: "u32 \<Rightarrow> u32" where
  "NetworkToHost32 n = GetBE32 (SetLE32 n)"

definition NetworkToHost64 :: "u64 \<Rightarrow> u64" where
  "NetworkToHost64 n = (if IsHostBigEndian then n else GetBE64 (SetLE64 n))"

section \<open>Round trips\<close>

lemma not_IsHostBigEndian [simp]: "\<not> IsHostBigEndian"
  by (simp add: IsHostBigEndian_def SetLE32_def Get8_def)

lemma length_Set [simp]:
  "length (SetBE16 v16) = 2" "length (SetBE32 v32) = 4" "length (SetBE64 v64) = 8"
  "length (SetLE16 v16) = 2" "length (SetLE32 v32) = 4" "length (SetLE64 v64) = 8"
  by (simp_all add: SetBE16_def SetBE32_def SetBE64_def SetLE16_def SetLE32_def SetLE64_def)

lemma SetLE_rev:
  "SetLE16 v16 = rev (SetBE16 v16)" "SetLE32 v32 = rev (SetBE32 v32)" "SetLE64 v64 = rev (SetBE64 v64)"
  by (simp_all add: SetBE16_def SetBE32_def SetBE64_def SetLE16_def SetLE32_def SetLE64_def)

lemma GetBE16_SetBE16 [wire_simps]: "GetBE16 (SetBE16 v) = v"
  by (rule bit_word_eqI) (auto simp: GetBE16_def SetBE16_def Get8_def bit_simps)

lemma octets_32: "n < 32 \<Longrightarrow> n < 8 \<or> (\<exists>r<8. n = 8 + r) \<or> (\<exists>r<8. n = 16 + r) \<or> (\<exists>r<8. n = 24 + (r::nat))"
  by presburger

lemma octets_64:
  "n < 64 \<Longrightarrow> n < 32 \<or> (\<exists>r<8. n = 32 + r) \<or> (\<exists>r<8. n = 40 + r) \<or> (\<exists>r<8. n = 48 + r)
     \<or> (\<exists>r<8. n = 56 + (r::nat))"
  by presburger

lemma GetBE32_SetBE32 [wire_simps]: "GetBE32 (SetBE32 v) = v"
proof (rule bit_word_eqI)
  fix n assume "n < LENGTH(32)"
  then have "n < 8 \<or> (\<exists>r<8. n = 8 + r) \<or> (\<exists>r<8. n = 16 + r) \<or> (\<exists>r<8. n = 24 + r)"
    by (intro octets_32) simp
  then show "bit (GetBE32 (SetBE32 v)) n = bit v n"
    by (elim disjE exE conjE) (simp_all add: GetBE32_def SetBE32_def Get8_def bit_simps)
qed

lemma GetBE64_SetBE64 [wire_simps]: "GetBE64 (SetBE64 v) = v"
proof (rule bit_word_eqI)
  fix n assume "n < LENGTH(64)"
  then have "n < 64" by simp
  from octets_64 [OF this] octets_32 [of n]
  have "(n < 8 \<or> (\<exists>r<8. n = 8 + r) \<or> (\<exists>r<8. n = 16 + r) \<or> (\<exists>r<8. n = 24 + r))
     \<or> (\<exists>r<8. n = 32 + r) \<or> (\<exists>r<8. n = 40 + r) \<or> (\<exists>r<8. n = 48 + r) \<or> (\<exists>r<8. n = 56 + r)"
    by blast
  then show "bit (GetBE64 (SetBE64 v)) n = bit v n"
    by (elim disjE exE conjE) (simp_all add: GetBE64_def SetBE64_def Get8_def bit_simps)
qed

lemma GetBE_GetLE:
  "length m = 2 \<Longrightarrow> GetBE16 m = GetLE16 (rev m)"
  "length m = 4 \<Longrightarrow> GetBE32 m = GetLE32 (rev m)"
  "length m = 8 \<Longrightarrow> GetBE64 m = GetLE64 (rev m)"
  by (simp_all add: GetBE16_def GetLE16_def GetBE32_def GetLE32_def GetBE64_def GetLE64_def
      Get8_def rev_nth)

lemma GetLE_SetLE [wire_simps]:
  "GetLE16 (SetLE16 v16) = v16" "GetLE32 (SetLE32 v32) = v32" "GetLE64 (SetLE64 v64) = v64"
  using GetBE_GetLE(1) [of "SetBE16 v16"] GetBE_GetLE(2) [of "SetBE32 v32"]
    GetBE_GetLE(3) [of "SetBE64 v64"]
  by (simp_all add: SetLE_rev wire_simps)

text \<open>And the other way round: the bytes of the number read are the bytes that were there.\<close>

lemma bit_u8_high [simp]: "8 \<le> n \<Longrightarrow> \<not> bit (w :: u8) n"
  using bit_imp_le_length [of w n] by auto

lemma SetBE16_GetBE16 [wire_simps]: "SetBE16 (GetBE16 [a, b]) = [a, b]"
  by (auto simp: GetBE16_def SetBE16_def Get8_def bit_simps intro!: bit_word_eqI)

lemma SetBE32_GetBE32 [wire_simps]: "SetBE32 (GetBE32 [a, b, c, d]) = [a, b, c, d]"
  by (auto simp: GetBE32_def SetBE32_def Get8_def bit_simps intro!: bit_word_eqI)

lemma SetBE64_GetBE64 [wire_simps]:
  "SetBE64 (GetBE64 [a, b, c, d, e, f, g, h]) = [a, b, c, d, e, f, g, h]"
  by (auto simp: GetBE64_def SetBE64_def Get8_def bit_simps intro!: bit_word_eqI)

text \<open>So converting between host and network order reverses the memory image, and twice is the identity.\<close>

lemma SetLE_HostToNetwork [wire_simps]:
  "SetLE16 (HostToNetwork16 v16) = SetBE16 v16" "SetLE32 (HostToNetwork32 v32) = SetBE32 v32"
  "SetLE64 (HostToNetwork64 v64) = SetBE64 v64"
proof -
  show "SetLE16 (HostToNetwork16 v16) = SetBE16 v16"
    unfolding HostToNetwork16_def SetLE_rev
    by (simp add: SetLE16_def SetBE16_def [of v16] wire_simps)
  show "SetLE32 (HostToNetwork32 v32) = SetBE32 v32"
    unfolding HostToNetwork32_def SetLE_rev
    by (simp add: SetLE32_def SetBE32_def [of v32] wire_simps)
  show "SetLE64 (HostToNetwork64 v64) = SetBE64 v64"
    unfolding HostToNetwork64_def SetLE_rev
    by (simp add: SetLE64_def SetBE64_def [of v64] wire_simps)
qed

lemma GetLE_SetBE [wire_simps]:
  "GetLE16 (SetBE16 v16) = HostToNetwork16 v16" "GetLE32 (SetBE32 v32) = HostToNetwork32 v32"
  "GetLE64 (SetBE64 v64) = HostToNetwork64 v64"
  using GetLE_SetLE(1) [of "HostToNetwork16 v16"] GetLE_SetLE(2) [of "HostToNetwork32 v32"]
    GetLE_SetLE(3) [of "HostToNetwork64 v64"]
  by (simp_all only: SetLE_HostToNetwork)

lemma NetworkToHost_HostToNetwork [wire_simps]:
  "NetworkToHost16 (HostToNetwork16 v16) = v16" "NetworkToHost32 (HostToNetwork32 v32) = v32"
  "NetworkToHost64 (HostToNetwork64 v64) = v64"
  by (simp_all only: NetworkToHost16_def NetworkToHost32_def NetworkToHost64_def
      SetLE_HostToNetwork GetBE16_SetBE16 GetBE32_SetBE32 GetBE64_SetBE64
      not_IsHostBigEndian if_False)

end
