(* ===== verification/Byte_Buffer.thy ===== *)
theory Byte_Buffer
  imports Byte_Order
begin

text \<open>
  talk/base/bytebuffer.cc, class ByteBuffer: a growing buffer of bytes with typed reads at the
  front and writes at the back. \<open>bb_bytes\<close> is the initialised part of the storage
  \<open>bytes_[0 .. end_)\<close>, so \<open>end_\<close> is its length; the storage past \<open>end_\<close> is never read.
  \<open>Length () + len\<close> does not wrap: both count bytes of distinct objects in one 32-bit address
  space. A read that returns false changes nothing: it is \<open>None\<close>.
\<close>

datatype byte_order = ORDER_NETWORK | ORDER_HOST

record byte_buffer =
  bb_bytes :: bytes
  bb_size :: nat
  bb_start :: nat
  bb_order :: byte_order

section \<open>Operations\<close>

definition DEFAULT_SIZE :: nat where
  "DEFAULT_SIZE = 4096"

definition Construct :: "bytes option \<Rightarrow> nat \<Rightarrow> byte_order \<Rightarrow> byte_buffer" where
  "Construct bs len order =
     \<lparr>bb_bytes = (case bs of Some b \<Rightarrow> take len b | None \<Rightarrow> []),
      bb_size = len, bb_start = 0, bb_order = order\<rparr>"

definition ByteBuffer_empty :: "byte_order \<Rightarrow> byte_buffer" where
  "ByteBuffer_empty order = Construct None DEFAULT_SIZE order"

definition ByteBuffer_of :: "bytes \<Rightarrow> byte_order \<Rightarrow> byte_buffer" where
  "ByteBuffer_of bs order = Construct (Some bs) (length bs) order"

definition bb_end :: "byte_buffer \<Rightarrow> nat" where
  "bb_end b = length (bb_bytes b)"

definition Length :: "byte_buffer \<Rightarrow> nat" where
  "Length b = bb_end b - bb_start b"

definition Capacity :: "byte_buffer \<Rightarrow> nat" where
  "Capacity b = bb_size b - bb_start b"

definition Data :: "byte_buffer \<Rightarrow> bytes" where
  "Data b = drop (bb_start b) (bb_bytes b)"

definition ReadBytes :: "nat \<Rightarrow> byte_buffer \<Rightarrow> (bytes \<times> byte_buffer) option" where
  "ReadBytes len b =
     (if len > Length b then None
      else Some (take len (drop (bb_start b) (bb_bytes b)), b\<lparr>bb_start := bb_start b + len\<rparr>))"

definition ReadString :: "bytes \<Rightarrow> nat \<Rightarrow> byte_buffer \<Rightarrow> (bytes \<times> byte_buffer) option" where
  "ReadString val len b =
     (if len > Length b then None
      else Some (val @ take len (drop (bb_start b) (bb_bytes b)), b\<lparr>bb_start := bb_start b + len\<rparr>))"

definition ReadUInt8 :: "byte_buffer \<Rightarrow> (u8 \<times> byte_buffer) option" where
  "ReadUInt8 b = map_option (\<lambda>(m, b'). (Get8 m 0, b')) (ReadBytes 1 b)"

definition ReadUInt16 :: "byte_buffer \<Rightarrow> (u16 \<times> byte_buffer) option" where
  "ReadUInt16 b =
     (case ReadBytes 2 b of None \<Rightarrow> None
      | Some (m, b') \<Rightarrow>
          (let v = GetLE16 m
           in Some (if bb_order b = ORDER_NETWORK then NetworkToHost16 v else v, b')))"

text \<open>Three bytes are read into a zeroed 32-bit integer, from its second byte on in network order.\<close>

definition ReadUInt24 :: "byte_buffer \<Rightarrow> (u32 \<times> byte_buffer) option" where
  "ReadUInt24 b =
     (case ReadBytes 3 b of None \<Rightarrow> None
      | Some (m, b') \<Rightarrow>
          (let v = (if bb_order b = ORDER_NETWORK \<or> IsHostBigEndian
                    then GetLE32 (0 # m) else GetLE32 (m @ [0]))
           in Some (if bb_order b = ORDER_NETWORK then NetworkToHost32 v else v, b')))"

definition ReadUInt32 :: "byte_buffer \<Rightarrow> (u32 \<times> byte_buffer) option" where
  "ReadUInt32 b =
     (case ReadBytes 4 b of None \<Rightarrow> None
      | Some (m, b') \<Rightarrow>
          (let v = GetLE32 m
           in Some (if bb_order b = ORDER_NETWORK then NetworkToHost32 v else v, b')))"

definition ReadUInt64 :: "byte_buffer \<Rightarrow> (u64 \<times> byte_buffer) option" where
  "ReadUInt64 b =
     (case ReadBytes 8 b of None \<Rightarrow> None
      | Some (m, b') \<Rightarrow>
          (let v = GetLE64 m
           in Some (if bb_order b = ORDER_NETWORK then NetworkToHost64 v else v, b')))"

definition Resize :: "nat \<Rightarrow> byte_buffer \<Rightarrow> byte_buffer" where
  "Resize n b =
     (let n = (if n > bb_size b then max n (3 * bb_size b mod 4294967296 div 2) else n);
          len = min (bb_end b - bb_start b) n
      in b\<lparr>bb_bytes := take len (drop (bb_start b) (bb_bytes b)), bb_start := 0, bb_size := n\<rparr>)"

definition WriteBytes :: "bytes \<Rightarrow> byte_buffer \<Rightarrow> byte_buffer" where
  "WriteBytes val b =
     (let len = length val;
          b = (if Length b + len > Capacity b then Resize (Length b + len) b else b)
      in b\<lparr>bb_bytes := bb_bytes b @ val\<rparr>)"

definition WriteUInt8 :: "u8 \<Rightarrow> byte_buffer \<Rightarrow> byte_buffer" where
  "WriteUInt8 val b = WriteBytes [val] b"

definition WriteUInt16 :: "u16 \<Rightarrow> byte_buffer \<Rightarrow> byte_buffer" where
  "WriteUInt16 val b =
     (let v = (if bb_order b = ORDER_NETWORK then HostToNetwork16 val else val)
      in WriteBytes (SetLE16 v) b)"

definition WriteUInt24 :: "u32 \<Rightarrow> byte_buffer \<Rightarrow> byte_buffer" where
  "WriteUInt24 val b =
     (let v = (if bb_order b = ORDER_NETWORK then HostToNetwork32 val else val);
          start = (if bb_order b = ORDER_NETWORK \<or> IsHostBigEndian then 1 else 0)
      in WriteBytes (take 3 (drop start (SetLE32 v))) b)"

definition WriteUInt32 :: "u32 \<Rightarrow> byte_buffer \<Rightarrow> byte_buffer" where
  "WriteUInt32 val b =
     (let v = (if bb_order b = ORDER_NETWORK then HostToNetwork32 val else val)
      in WriteBytes (SetLE32 v) b)"

definition WriteUInt64 :: "u64 \<Rightarrow> byte_buffer \<Rightarrow> byte_buffer" where
  "WriteUInt64 val b =
     (let v = (if bb_order b = ORDER_NETWORK then HostToNetwork64 val else val)
      in WriteBytes (SetLE64 v) b)"

definition WriteString :: "bytes \<Rightarrow> byte_buffer \<Rightarrow> byte_buffer" where
  "WriteString val b = WriteBytes val b"

definition Consume :: "nat \<Rightarrow> byte_buffer \<Rightarrow> byte_buffer option" where
  "Consume n b = (if n > Length b then None else Some (b\<lparr>bb_start := bb_start b + n\<rparr>))"

definition Shift :: "nat \<Rightarrow> byte_buffer \<Rightarrow> byte_buffer option" where
  "Shift n b =
     (if n > Length b then None
      else (let e = Length b - n
            in Some (b\<lparr>bb_bytes := take e (drop (bb_start b + n) (bb_bytes b)), bb_start := 0\<rparr>)))"

section \<open>Effect on the readable bytes\<close>

definition buffer_ok :: "byte_buffer \<Rightarrow> bool" where
  "buffer_ok b \<longleftrightarrow> bb_start b \<le> bb_end b \<and> bb_end b \<le> bb_size b"

lemma Length_Data [buf_simps]: "Length b = length (Data b)"
  by (simp add: Length_def Data_def bb_end_def)

lemma Data_of [buf_simps]: "Data (ByteBuffer_of bs order) = bs"
  by (simp add: ByteBuffer_of_def Construct_def Data_def)

lemma Data_empty [buf_simps]: "Data (ByteBuffer_empty order) = []"
  by (simp add: ByteBuffer_empty_def Construct_def Data_def)

lemma order_of [buf_simps]:
  "bb_order (ByteBuffer_of bs order) = order" "bb_order (ByteBuffer_empty order) = order"
  by (simp_all add: ByteBuffer_of_def ByteBuffer_empty_def Construct_def)

lemma buffer_ok_init: "buffer_ok (ByteBuffer_of bs order)" "buffer_ok (ByteBuffer_empty order)"
  by (simp_all add: buffer_ok_def ByteBuffer_of_def ByteBuffer_empty_def Construct_def bb_end_def)

lemma WriteBytes_effect [buf_simps]:
  assumes "buffer_ok b"
  shows "Data (WriteBytes val b) = Data b @ val" "bb_order (WriteBytes val b) = bb_order b"
    "buffer_ok (WriteBytes val b)"
proof -
  have *: "bb_start b \<le> length (bb_bytes b)" "length (bb_bytes b) \<le> bb_size b"
    using assms by (auto simp: buffer_ok_def bb_end_def)
  show "Data (WriteBytes val b) = Data b @ val" "bb_order (WriteBytes val b) = bb_order b"
    using * by (auto simp: WriteBytes_def Let_def Resize_def Data_def Length_def Capacity_def bb_end_def)
  show "buffer_ok (WriteBytes val b)"
    using * by (auto simp: WriteBytes_def Let_def Resize_def Length_def Capacity_def bb_end_def
        buffer_ok_def)
qed

lemma ReadBytes_effect:
  assumes "buffer_ok b" "ReadBytes n b = Some (m, b')"
  shows "m = take n (Data b)" "Data b' = drop n (Data b)" "length m = n" "buffer_ok b'"
    "bb_order b' = bb_order b"
  using assms by (auto simp: ReadBytes_def Data_def Length_def bb_end_def buffer_ok_def
      add.commute split: if_splits)

lemma ReadBytes_append:
  assumes "Data b = m @ rest" "length m = n"
  shows "ReadBytes n b = Some (m, b\<lparr>bb_start := bb_start b + n\<rparr>)"
    "Data (b\<lparr>bb_start := bb_start b + n\<rparr>) = rest"
proof -
  show "ReadBytes n b = Some (m, b\<lparr>bb_start := bb_start b + n\<rparr>)"
    using assms by (simp add: ReadBytes_def Length_Data) (simp add: Data_def)
  have "drop n (Data b) = rest" using assms by simp
  then show "Data (b\<lparr>bb_start := bb_start b + n\<rparr>) = rest" by (simp add: Data_def add.commute)
qed

lemma ReadBytes_short: "length (Data b) < n \<Longrightarrow> ReadBytes n b = None"
  by (simp add: ReadBytes_def Length_Data)

section \<open>Typed values on the wire\<close>

text \<open>The bytes a value of each type occupies, in the buffer's byte order.\<close>

definition wire16 :: "byte_order \<Rightarrow> u16 \<Rightarrow> bytes" where
  "wire16 ord v = (if ord = ORDER_NETWORK then SetBE16 v else SetLE16 v)"

definition wire24 :: "byte_order \<Rightarrow> u32 \<Rightarrow> bytes" where
  "wire24 ord v = (if ord = ORDER_NETWORK then drop 1 (SetBE32 v) else take 3 (SetLE32 v))"

definition wire32 :: "byte_order \<Rightarrow> u32 \<Rightarrow> bytes" where
  "wire32 ord v = (if ord = ORDER_NETWORK then SetBE32 v else SetLE32 v)"

definition wire64 :: "byte_order \<Rightarrow> u64 \<Rightarrow> bytes" where
  "wire64 ord v = (if ord = ORDER_NETWORK then SetBE64 v else SetLE64 v)"

lemma length_wire [simp]:
  "length (wire16 ord a) = 2" "length (wire24 ord b) = 3" "length (wire32 ord c) = 4"
  "length (wire64 ord d) = 8"
  by (simp_all add: wire16_def wire24_def wire32_def wire64_def)

lemma Write_wire:
  "WriteUInt8 a b = WriteBytes [a] b"
  "WriteUInt16 h b = WriteBytes (wire16 (bb_order b) h) b"
  "WriteUInt24 w b = WriteBytes (wire24 (bb_order b) w) b"
  "WriteUInt32 w b = WriteBytes (wire32 (bb_order b) w) b"
  "WriteUInt64 l b = WriteBytes (wire64 (bb_order b) l) b"
  "WriteString val b = WriteBytes val b"
  by (simp_all add: WriteUInt8_def WriteUInt16_def WriteUInt24_def WriteUInt32_def WriteUInt64_def
      WriteString_def wire16_def wire24_def wire32_def wire64_def wire_simps)

text \<open>The same shape for every typed read: enough bytes give the value and consume its width.\<close>

definition reads_as :: "(byte_buffer \<Rightarrow> ('v \<times> byte_buffer) option) \<Rightarrow> byte_buffer \<Rightarrow> nat \<Rightarrow> 'v \<Rightarrow> bool" where
  "reads_as rd b n v \<longleftrightarrow> rd b = Some (v, b\<lparr>bb_start := bb_start b + n\<rparr>)"

lemma ReadUInt8_wire: "Data b = [a] @ rest \<Longrightarrow> reads_as ReadUInt8 b 1 a"
  using ReadBytes_append(1) [of b "[a]" rest 1] by (simp add: ReadUInt8_def Get8_def reads_as_def)

lemma ReadUInt16_wire: "Data b = wire16 (bb_order b) v @ rest \<Longrightarrow> reads_as ReadUInt16 b 2 v"
  using ReadBytes_append(1) [of b "wire16 (bb_order b) v" rest 2]
  by (simp add: ReadUInt16_def reads_as_def wire16_def wire_simps)

lemma ReadUInt32_wire: "Data b = wire32 (bb_order b) v @ rest \<Longrightarrow> reads_as ReadUInt32 b 4 v"
  using ReadBytes_append(1) [of b "wire32 (bb_order b) v" rest 4]
  by (simp add: ReadUInt32_def reads_as_def wire32_def wire_simps)

lemma ReadUInt64_wire: "Data b = wire64 (bb_order b) v @ rest \<Longrightarrow> reads_as ReadUInt64 b 8 v"
  using ReadBytes_append(1) [of b "wire64 (bb_order b) v" rest 8]
  by (simp add: ReadUInt64_def reads_as_def wire64_def wire_simps)

lemma low_24_bits:
  "SetBE32 (v AND 0xFFFFFF) = 0 # drop 1 (SetBE32 v)"
  "SetLE32 (v AND 0xFFFFFF) = take 3 (SetLE32 v) @ [0]"
proof -
  have m: "(0xFFFFFF :: u32) = mask 24" by (simp add: mask_eq_exp_minus_1)
  show "SetBE32 (v AND 0xFFFFFF) = 0 # drop 1 (SetBE32 v)"
    unfolding m by (auto simp: SetBE32_def bit_simps intro!: bit_word_eqI)
  then show "SetLE32 (v AND 0xFFFFFF) = take 3 (SetLE32 v) @ [0]"
    by (simp add: SetLE_rev SetBE32_def)
qed

lemma ReadUInt24_wire:
  assumes "Data b = wire24 (bb_order b) v @ rest"
  shows "reads_as ReadUInt24 b 3 (v AND 0xFFFFFF)"
proof -
  have "NetworkToHost32 (GetLE32 (0 # drop 1 (SetBE32 v))) = v AND 0xFFFFFF"
    "GetLE32 (take 3 (SetLE32 v) @ [0]) = v AND 0xFFFFFF"
    unfolding low_24_bits [symmetric] by (simp_all only: wire_simps)
  then show ?thesis
    using ReadBytes_append(1) [OF assms, of 3]
    by (auto simp: ReadUInt24_def reads_as_def wire24_def)
qed

lemma reads_as_rest: "Data b = m @ rest \<Longrightarrow> length m = n \<Longrightarrow> Data (b\<lparr>bb_start := bb_start b + n\<rparr>) = rest"
  by (rule ReadBytes_append(2))

lemma bb_start_order [simp]: "bb_order (b\<lparr>bb_start := n\<rparr>) = bb_order b"
  by simp

section \<open>Sequences of typed values\<close>

datatype field = F8 u8 | F16 u16 | F24 u32 | F32 u32 | F64 u64 | FStr bytes

fun wire_field :: "byte_order \<Rightarrow> field \<Rightarrow> bytes" where
  "wire_field ord (F8 a) = [a]"
| "wire_field ord (F16 h) = wire16 ord h"
| "wire_field ord (F24 w) = wire24 ord w"
| "wire_field ord (F32 w) = wire32 ord w"
| "wire_field ord (F64 l) = wire64 ord l"
| "wire_field ord (FStr s) = s"

fun write_field :: "field \<Rightarrow> byte_buffer \<Rightarrow> byte_buffer" where
  "write_field (F8 a) b = WriteUInt8 a b"
| "write_field (F16 h) b = WriteUInt16 h b"
| "write_field (F24 w) b = WriteUInt24 w b"
| "write_field (F32 w) b = WriteUInt32 w b"
| "write_field (F64 l) b = WriteUInt64 l b"
| "write_field (FStr s) b = WriteString s b"

text \<open>Reading a value of the same type (a string of the same length) as the given one.\<close>

fun read_like :: "field \<Rightarrow> byte_buffer \<Rightarrow> (field \<times> byte_buffer) option" where
  "read_like (F8 _) b = map_option (map_prod F8 id) (ReadUInt8 b)"
| "read_like (F16 _) b = map_option (map_prod F16 id) (ReadUInt16 b)"
| "read_like (F24 _) b = map_option (map_prod F24 id) (ReadUInt24 b)"
| "read_like (F32 _) b = map_option (map_prod F32 id) (ReadUInt32 b)"
| "read_like (F64 _) b = map_option (map_prod F64 id) (ReadUInt64 b)"
| "read_like (FStr s) b = map_option (map_prod FStr id) (ReadString [] (length s) b)"

fun write_fields :: "field list \<Rightarrow> byte_buffer \<Rightarrow> byte_buffer" where
  "write_fields [] b = b"
| "write_fields (f # fs) b = write_fields fs (write_field f b)"

fun read_likes :: "field list \<Rightarrow> byte_buffer \<Rightarrow> (field list \<times> byte_buffer) option" where
  "read_likes [] b = Some ([], b)"
| "read_likes (f # fs) b =
     (case read_like f b of None \<Rightarrow> None
      | Some (v, b') \<Rightarrow> map_option (\<lambda>(vs, b''). (v # vs, b'')) (read_likes fs b'))"

text \<open>A 24-bit value keeps its low three bytes.\<close>

fun field_value :: "field \<Rightarrow> field" where
  "field_value (F24 w) = F24 (w AND 0xFFFFFF)"
| "field_value f = f"

lemma write_field_effect:
  assumes "buffer_ok b"
  shows "Data (write_field f b) = Data b @ wire_field (bb_order b) f"
    "bb_order (write_field f b) = bb_order b" "buffer_ok (write_field f b)"
  using assms by (cases f; simp add: Write_wire buf_simps)+

lemma write_fields_effect:
  "buffer_ok b \<Longrightarrow> Data (write_fields fs b) = Data b @ concat (map (wire_field (bb_order b)) fs)
     \<and> bb_order (write_fields fs b) = bb_order b \<and> buffer_ok (write_fields fs b)"
  by (induction fs arbitrary: b) (simp_all add: write_field_effect)

lemma read_like_wire:
  assumes "Data b = wire_field (bb_order b) f @ rest"
  shows "\<exists>b'. read_like f b = Some (field_value f, b') \<and> Data b' = rest \<and> bb_order b' = bb_order b"
proof -
  let ?b' = "b\<lparr>bb_start := bb_start b + length (wire_field (bb_order b) f)\<rparr>"
  have rest: "Data ?b' = rest" using reads_as_rest [OF assms] by simp
  have "read_like f b = Some (field_value f, ?b')"
  proof (cases f)
    case (F8 a)
    then show ?thesis using assms ReadUInt8_wire [of b a] by (simp add: reads_as_def)
  next
    case (F16 h)
    then show ?thesis using assms ReadUInt16_wire [of b h] by (simp add: reads_as_def)
  next
    case (F24 w)
    then show ?thesis using assms ReadUInt24_wire [of b w] by (simp add: reads_as_def)
  next
    case (F32 w)
    then show ?thesis using assms ReadUInt32_wire [of b w] by (simp add: reads_as_def)
  next
    case (F64 l)
    then show ?thesis using assms ReadUInt64_wire [of b l] by (simp add: reads_as_def)
  next
    case (FStr s)
    then show ?thesis using ReadBytes_append(1) [of b s rest "length s"] assms
      by (simp add: ReadString_def ReadBytes_def split: if_splits)
  qed
  then show ?thesis using rest by auto
qed

lemma read_likes_wire:
  "Data b = concat (map (wire_field (bb_order b)) fs) @ rest \<Longrightarrow>
    \<exists>b'. read_likes fs b = Some (map field_value fs, b') \<and> Data b' = rest"
proof (induction fs arbitrary: b)
  case Nil
  then show ?case by simp
next
  case (Cons f fs)
  then obtain b1 where b1: "read_like f b = Some (field_value f, b1)"
      "Data b1 = concat (map (wire_field (bb_order b)) fs) @ rest" "bb_order b1 = bb_order b"
    using read_like_wire [of b f "concat (map (wire_field (bb_order b)) fs) @ rest"] by auto
  from Cons.IH [of b1] b1 obtain b2 where "read_likes fs b1 = Some (map field_value fs, b2)" "Data b2 = rest"
    by auto
  then show ?case using b1 by auto
qed

text \<open>C32: a sequence of typed writes is read back by the same sequence of typed reads.\<close>

theorem byte_buffer_roundtrip:
  "\<exists>b'. read_likes fs (write_fields fs (ByteBuffer_empty order)) = Some (map field_value fs, b')
        \<and> Length b' = 0"
proof -
  have "Data (write_fields fs (ByteBuffer_empty order))
          = concat (map (wire_field (bb_order (write_fields fs (ByteBuffer_empty order)))) fs) @ []"
    using write_fields_effect [OF buffer_ok_init(2), of fs order] by (simp add: buf_simps)
  from read_likes_wire [OF this] show ?thesis by (auto simp: buf_simps)
qed

end
