(* ===== verification/Time_Utils.thy ===== *)
theory Time_Utils
  imports Prelude
begin

text \<open>
  talk/base/timeutils.cc: comparison of 32-bit millisecond timestamps that wrap around.
  The file holds two versions of each comparison, selected by EFFICIENT_IMPLEMENTATION;
  the compiled one has the source's name, the other one the suffix \<open>_ref\<close>. The clock
  itself (gettimeofday) is a parameter wherever it is read.
\<close>

definition LAST_TS :: u32 where
  "LAST_TS = 0xFFFFFFFF"

definition HALF :: u32 where
  "HALF = 0x80000000"

definition TimeAfter :: "u32 \<Rightarrow> int \<Rightarrow> u32" where
  "TimeAfter now elapsed = now + word_of_int elapsed"

definition TimeIsBetween :: "u32 \<Rightarrow> u32 \<Rightarrow> u32 \<Rightarrow> bool" where
  "TimeIsBetween earlier middle later =
     (if earlier \<le> later
      then earlier \<le> middle \<and> middle \<le> later
      else \<not> (later < middle \<and> middle < earlier))"

definition TimeIsLaterOrEqual :: "u32 \<Rightarrow> u32 \<Rightarrow> bool" where
  "TimeIsLaterOrEqual earlier later =
     (let diff = sint (later - earlier)
      in diff \<ge> 0 \<and> (word_of_int diff :: u32) < HALF)"

definition TimeIsLaterOrEqual_ref :: "u32 \<Rightarrow> u32 \<Rightarrow> bool" where
  "TimeIsLaterOrEqual_ref earlier later = TimeIsBetween earlier later (earlier + HALF)"

definition TimeIsLater :: "u32 \<Rightarrow> u32 \<Rightarrow> bool" where
  "TimeIsLater earlier later =
     (let diff = sint (later - earlier)
      in diff > 0 \<and> (word_of_int diff :: u32) < HALF)"

definition TimeIsLater_ref :: "u32 \<Rightarrow> u32 \<Rightarrow> bool" where
  "TimeIsLater_ref earlier later = (\<not> TimeIsBetween later earlier (later + HALF))"

definition TimeDiff :: "u32 \<Rightarrow> u32 \<Rightarrow> int" where
  "TimeDiff later earlier = sint (later - earlier)"

definition TimeDiff_ref :: "u32 \<Rightarrow> u32 \<Rightarrow> int" where
  "TimeDiff_ref later earlier =
     (if TimeIsBetween earlier later (earlier + HALF)
      then (if earlier \<le> later
            then sint (later - earlier)
            else sint (later + (LAST_TS - earlier) + 1))
      else (if later \<le> earlier
            then sint (- (earlier - later))
            else sint (- (earlier + (LAST_TS - later) + 1))))"

definition TimeMax :: "u32 \<Rightarrow> u32 \<Rightarrow> u32" where
  "TimeMax ts1 ts2 = (if TimeIsLaterOrEqual ts1 ts2 then ts2 else ts1)"

definition TimeMin :: "u32 \<Rightarrow> u32 \<Rightarrow> u32" where
  "TimeMin ts1 ts2 = (if TimeIsLaterOrEqual ts1 ts2 then ts1 else ts2)"

section \<open>Characterisation by the forward distance\<close>

text \<open>All comparisons look only at the distance \<open>later - earlier\<close> modulo \<open>2 ^ 32\<close>.\<close>

lemma TimeDiff_eq:
  "TimeDiff later earlier =
     (if uint (later - earlier) < 2147483648 then uint (later - earlier)
      else uint (later - earlier) - 4294967296)"
  by (simp only: TimeDiff_def sint_u32)

lemma TimeIsLaterOrEqual_eq:
  "TimeIsLaterOrEqual earlier later \<longleftrightarrow> uint (later - earlier) < 2147483648"
  using uint_u32_bounds [of "later - earlier"]
  by (simp add: TimeIsLaterOrEqual_def HALF_def word_less_def sint_u32)

lemma TimeIsLater_eq:
  "TimeIsLater earlier later \<longleftrightarrow> 0 < uint (later - earlier) \<and> uint (later - earlier) < 2147483648"
  using uint_u32_bounds [of "later - earlier"]
  by (simp add: TimeIsLater_def HALF_def word_less_def sint_u32)

lemmas time_eqs = TimeDiff_eq TimeIsLaterOrEqual_eq TimeIsLater_eq

lemma TimeIsBetween_HALF:
  "TimeIsBetween earlier later (earlier + HALF) \<longleftrightarrow> uint (later - earlier) \<le> 2147483648"
proof -
  define e l where el: "e = uint earlier" "l = uint later"
  have "0 \<le> e" "e < 4294967296" "0 \<le> l" "l < 4294967296"
    by (simp_all only: el uint_u32_bounds)
  then show ?thesis
    by (auto simp: TimeIsBetween_def HALF_def word_less_def word_le_def uint_diff_u32 uint_add_u32
        simp flip: el)
qed

lemma TimeIsLaterOrEqual_ref_iff:
  "TimeIsLaterOrEqual_ref earlier later \<longleftrightarrow>
     TimeIsLaterOrEqual earlier later \<or> later - earlier = HALF"
proof -
  have "later - earlier = HALF \<longleftrightarrow> uint (later - earlier) = 2147483648"
    by (simp add: word_uint_eq_iff HALF_def del: uint_sub_lem)
  then show ?thesis
    by (auto simp: TimeIsLaterOrEqual_ref_def TimeIsBetween_HALF TimeIsLaterOrEqual_eq)
qed

lemma TimeIsLater_ref_iff: "TimeIsLater_ref earlier later \<longleftrightarrow> TimeIsLater earlier later"
proof -
  define e l where el: "e = uint earlier" "l = uint later"
  have "0 \<le> e" "e < 4294967296" "0 \<le> l" "l < 4294967296"
    by (simp_all only: el uint_u32_bounds)
  then show ?thesis
    by (auto simp: TimeIsLater_ref_def TimeIsBetween_HALF TimeIsLater_eq uint_diff_u32
        simp flip: el)
qed

lemma TimeDiff_ref_eq: "TimeDiff_ref later earlier = TimeDiff later earlier"
proof -
  have last: "LAST_TS = - 1"
    by (simp add: LAST_TS_def)
  have "later + (LAST_TS - earlier) + 1 = later - earlier"
    and "- (earlier + (LAST_TS - later) + 1) = later - earlier"
    unfolding last by (simp_all add: algebra_simps)
  then show ?thesis by (simp only: TimeDiff_ref_def TimeDiff_def minus_diff_eq if_cancel)
qed

text \<open>C33: the compiled comparisons against the alternative ones kept in the same file.\<close>

theorem time_efficient_equiv:
  "TimeDiff later earlier = TimeDiff_ref later earlier
   \<and> TimeIsLater earlier later = TimeIsLater_ref earlier later
   \<and> TimeIsLaterOrEqual_ref earlier later
       = (TimeIsLaterOrEqual earlier later \<or> later - earlier = HALF)
   \<and> \<not> TimeIsLaterOrEqual earlier (earlier + HALF)"
proof -
  have "\<not> TimeIsLaterOrEqual earlier (earlier + HALF)"
    by (simp add: TimeIsLaterOrEqual_eq HALF_def)
  then show ?thesis
    by (simp add: TimeDiff_ref_eq TimeIsLater_ref_iff TimeIsLaterOrEqual_ref_iff)
qed

text \<open>Adding a delay below half the clock's range moves a timestamp forward by exactly that delay.\<close>

lemma TimeDiff_add: "0 \<le> d \<Longrightarrow> d < 2147483648 \<Longrightarrow> TimeDiff (TimeAfter t d) t = d"
  by (simp add: TimeDiff_eq TimeAfter_def unsigned_of_int take_bit_eq_mod)

lemma TimeDiff_refl [simp]: "TimeDiff t t = 0"
  by (simp add: TimeDiff_def)

lemma TimeMax_choice: "TimeMax a b = a \<or> TimeMax a b = b"
  by (simp add: TimeMax_def)

lemma TimeMin_choice: "TimeMin a b = a \<or> TimeMin a b = b"
  by (simp add: TimeMin_def)

end
