(* ===== verification/Pseudo_Tcp.thy ===== *)
theory Pseudo_Tcp
  imports Byte_Queue Byte_Buffer Time_Utils "HOL-Library.Monad_Syntax"
begin

text \<open>
  talk/p2p/base/pseudotcp.cc, class PseudoTcp: a TCP-like byte stream over datagrams. The
  record \<open>tcp\<close> has the class's fields under their names; every method is a function of
  the state. The result \<open>None\<close> is the end of the program: a failing ASSERT (this build
  defines _DEBUG, so \<open>abort\<close> is called), a dereference of \<open>end ()\<close>, a division by zero or
  a read outside an array.

  What is outside the class is a parameter: \<open>tcp_env\<close> holds the clock (the value of the
  n-th call of \<open>Now\<close>), the network (the result of the n-th \<open>TcpWritePacket\<close>, which gets
  the packet) and the contents of fresh memory. The notifications of \<open>IPseudoTcpNotify\<close>
  (\<open>OnTcpOpen\<close>, \<open>OnTcpReadable\<close>, \<open>OnTcpWriteable\<close>, \<open>OnTcpClosed\<close>) are an argument
  \<open>cb\<close>: the application may call back into the object, so a notification maps a state to a state.
  Three fields record the interaction: the number of clock reads, the packets handed to
  the network and the notifications, oldest first. \<open>m_notify\<close> is never null.
  Logging and the disabled keep-alive code (PSEUDO_KEEPALIVE is 0) are left out.
\<close>

section \<open>Constants\<close>

definition PACKET_MAXIMUMS :: "u16 list" where
  "PACKET_MAXIMUMS = [65535, 32000, 17914, 8166, 4352, 2002, 1492, 1006, 508, 296, 0]"

definition MAX_PACKET :: u32 where "MAX_PACKET = 65535"
definition MIN_PACKET :: u32 where "MIN_PACKET = 296"
definition IP_HEADER_SIZE :: u32 where "IP_HEADER_SIZE = 20"
definition UDP_HEADER_SIZE :: u32 where "UDP_HEADER_SIZE = 8"
definition JINGLE_HEADER_SIZE :: u32 where "JINGLE_HEADER_SIZE = 64"
definition DEFAULT_RCV_BUF_SIZE :: u32 where "DEFAULT_RCV_BUF_SIZE = 60 * 1024"
definition DEFAULT_SND_BUF_SIZE :: u32 where "DEFAULT_SND_BUF_SIZE = 90 * 1024"
definition HEADER_SIZE :: u32 where "HEADER_SIZE = 24"

definition PACKET_OVERHEAD :: u32 where
  "PACKET_OVERHEAD = HEADER_SIZE + UDP_HEADER_SIZE + IP_HEADER_SIZE + JINGLE_HEADER_SIZE"

definition MIN_RTO :: u32 where "MIN_RTO = 250"
definition DEF_RTO :: u32 where "DEF_RTO = 3000"
definition MAX_RTO :: u32 where "MAX_RTO = 60000"
definition DEF_ACK_DELAY :: u32 where "DEF_ACK_DELAY = 100"
definition FLAG_CTL :: u8 where "FLAG_CTL = 0x02"
definition FLAG_RST :: u8 where "FLAG_RST = 0x04"
definition CTL_CONNECT :: u8 where "CTL_CONNECT = 0"
definition TCP_OPT_EOL :: u8 where "TCP_OPT_EOL = 0"
definition TCP_OPT_NOOP :: u8 where "TCP_OPT_NOOP = 1"
definition TCP_OPT_MSS :: u8 where "TCP_OPT_MSS = 2"
definition TCP_OPT_WND_SCALE :: u8 where "TCP_OPT_WND_SCALE = 3"
definition DEFAULT_TIMEOUT :: int where "DEFAULT_TIMEOUT = 4000"
definition CLOSED_TIMEOUT :: int where "CLOSED_TIMEOUT = 60 * 1000"

section \<open>State\<close>

datatype tcp_state = TCP_LISTEN | TCP_SYN_SENT | TCP_SYN_RECEIVED | TCP_ESTABLISHED | TCP_CLOSED

instantiation tcp_state :: linorder
begin

fun tcp_rank :: "tcp_state \<Rightarrow> nat" where
  "tcp_rank TCP_LISTEN = 0"
| "tcp_rank TCP_SYN_SENT = 1"
| "tcp_rank TCP_SYN_RECEIVED = 2"
| "tcp_rank TCP_ESTABLISHED = 3"
| "tcp_rank TCP_CLOSED = 4"

definition less_eq_tcp_state :: "tcp_state \<Rightarrow> tcp_state \<Rightarrow> bool" where
  "a \<le> b \<longleftrightarrow> tcp_rank a \<le> tcp_rank b"

definition less_tcp_state :: "tcp_state \<Rightarrow> tcp_state \<Rightarrow> bool" where
  "a < b \<longleftrightarrow> tcp_rank a < tcp_rank b"

instance
proof
  fix x y :: tcp_state
  show "x \<le> y \<Longrightarrow> y \<le> x \<Longrightarrow> x = y"
    by (cases x; cases y) (simp_all add: less_eq_tcp_state_def)
qed (auto simp: less_eq_tcp_state_def less_tcp_state_def)

end

datatype shutdown = SD_NONE | SD_GRACEFUL | SD_FORCEFUL
datatype send_flags = sfNone | sfDelayedAck | sfImmediateAck
datatype write_result = WR_SUCCESS | WR_TOO_LARGE | WR_FAIL
datatype tcp_note = OnTcpOpen | OnTcpReadable | OnTcpWriteable | OnTcpClosed int
datatype tcp_option = OPT_NODELAY | OPT_ACKDELAY | OPT_RCVBUF | OPT_SNDBUF

record segment =
  g_conv :: u32
  g_seq :: u32
  g_ack :: u32
  g_flags :: u8
  g_wnd :: u16
  g_data :: bytes
  g_len :: u32
  g_tsval :: u32
  g_tsecr :: u32

record sseg =
  s_seq :: u32
  s_len :: u32
  s_xmit :: u8
  s_bCtrl :: bool

definition SSegment :: "u32 \<Rightarrow> u32 \<Rightarrow> bool \<Rightarrow> sseg" where
  "SSegment s l c = \<lparr>s_seq = s, s_len = l, s_xmit = 0, s_bCtrl = c\<rparr>"

record rseg =
  r_seq :: u32
  r_len :: u32

record tcp =
  m_shutdown :: shutdown
  m_error :: int
  m_state :: tcp_state
  m_conv :: u32
  m_bReadEnable :: bool
  m_bWriteEnable :: bool
  m_bOutgoing :: bool
  m_lasttraffic :: u32
  m_rlist :: "rseg list"
  m_rbuf_len :: u32
  m_rcv_nxt :: u32
  m_rcv_wnd :: u32
  m_lastrecv :: u32
  m_rwnd_scale :: u8
  m_rbuf :: fifo
  m_slist :: "sseg list"
  m_sbuf_len :: u32
  m_snd_nxt :: u32
  m_snd_wnd :: u32
  m_lastsend :: u32
  m_snd_una :: u32
  m_swnd_scale :: u8
  m_sbuf :: fifo
  m_mss :: u32
  m_msslevel :: nat
  m_largest :: u32
  m_mtu_advise :: u32
  m_rto_base :: u32
  m_ts_recent :: u32
  m_ts_lastack :: u32
  m_rx_rttvar :: u32
  m_rx_srtt :: u32
  m_rx_rto :: u32
  m_ssthresh :: u32
  m_cwnd :: u32
  m_dup_acks :: u8
  m_recover :: u32
  m_t_ack :: u32
  m_use_nagling :: bool
  m_ack_delay :: u32
  m_support_wnd_scale :: bool
  x_now_calls :: nat
  x_sent :: "bytes list"
  x_notes :: "tcp_note list"

record tcp_env =
  env_now :: "nat \<Rightarrow> u32"
  env_write :: "nat \<Rightarrow> bytes \<Rightarrow> write_result"
  env_mem :: "nat \<Rightarrow> byte"

type_synonym callback = "tcp_note \<Rightarrow> tcp \<Rightarrow> tcp option"

section \<open>Helper functions\<close>

definition long_to_bytes :: "u32 \<Rightarrow> bytes" where
  "long_to_bytes val = SetLE32 (HostToNetwork32 val)"

definition short_to_bytes :: "u16 \<Rightarrow> bytes" where
  "short_to_bytes val = SetLE16 (HostToNetwork16 val)"

definition bytes_to_long :: "bytes \<Rightarrow> u32" where
  "bytes_to_long buf = NetworkToHost32 (GetLE32 buf)"

definition bytes_to_short :: "bytes \<Rightarrow> u16" where
  "bytes_to_short buf = NetworkToHost16 (GetLE16 buf)"

definition bound :: "u32 \<Rightarrow> u32 \<Rightarrow> u32 \<Rightarrow> u32" where
  "bound lower middle upper = min (max lower middle) upper"

definition Now :: "tcp_env \<Rightarrow> tcp \<Rightarrow> u32 \<times> tcp" where
  "Now env s = (env_now env (x_now_calls s), s\<lparr>x_now_calls := Suc (x_now_calls s)\<rparr>)"

definition notify :: "callback \<Rightarrow> tcp_note \<Rightarrow> tcp \<Rightarrow> tcp option" where
  "notify cb n s = cb n (s\<lparr>x_notes := x_notes s @ [n]\<rparr>)"

definition sbuf_buffered :: "tcp \<Rightarrow> u32" where
  "sbuf_buffered s = of_nat (GetBuffered (m_sbuf s))"

definition rbuf_space :: "tcp \<Rightarrow> u32" where
  "rbuf_space s = of_nat (GetWriteRemaining (m_rbuf s))"

definition PseudoTcp :: "tcp_env \<Rightarrow> u32 \<Rightarrow> tcp" where
  "PseudoTcp env conv =
     (let now = env_now env 0; mss = MIN_PACKET - PACKET_OVERHEAD
      in \<lparr>m_shutdown = SD_NONE, m_error = 0, m_state = TCP_LISTEN, m_conv = conv,
          m_bReadEnable = True, m_bWriteEnable = False, m_bOutgoing = False, m_lasttraffic = now,
          m_rlist = [], m_rbuf_len = DEFAULT_RCV_BUF_SIZE, m_rcv_nxt = 0,
          m_rcv_wnd = DEFAULT_RCV_BUF_SIZE, m_lastrecv = now, m_rwnd_scale = 0,
          m_rbuf = FifoBuffer (env_mem env) (unat DEFAULT_RCV_BUF_SIZE),
          m_slist = [], m_sbuf_len = DEFAULT_SND_BUF_SIZE, m_snd_nxt = 0, m_snd_wnd = 1,
          m_lastsend = now, m_snd_una = 0, m_swnd_scale = 0,
          m_sbuf = FifoBuffer (env_mem env) (unat DEFAULT_SND_BUF_SIZE),
          m_mss = mss, m_msslevel = 0, m_largest = 0, m_mtu_advise = MAX_PACKET, m_rto_base = 0,
          m_ts_recent = 0, m_ts_lastack = 0, m_rx_rttvar = 0, m_rx_srtt = 0, m_rx_rto = DEF_RTO,
          m_ssthresh = DEFAULT_RCV_BUF_SIZE, m_cwnd = 2 * mss, m_dup_acks = 0, m_recover = 0,
          m_t_ack = 0, m_use_nagling = True, m_ack_delay = DEF_ACK_DELAY,
          m_support_wnd_scale = True, x_now_calls = 1, x_sent = [], x_notes = []\<rparr>)"

section \<open>Sending\<close>

definition queue :: "bytes \<Rightarrow> u32 \<Rightarrow> bool \<Rightarrow> tcp \<Rightarrow> (u32 \<times> tcp) option" where
  "queue data len bCtrl s = do {
     let available_space = of_nat (GetWriteRemaining (m_sbuf s));
     len \<leftarrow> (if len > available_space
             then do { ASSERT (\<not> bCtrl); Some available_space }
             else Some len);
     let s = (if m_slist s \<noteq> [] \<and> s_bCtrl (last (m_slist s)) = bCtrl \<and> s_xmit (last (m_slist s)) = 0
              then s\<lparr>m_slist := butlast (m_slist s) @
                      [(last (m_slist s))\<lparr>s_len := s_len (last (m_slist s)) + len\<rparr>]\<rparr>
              else s\<lparr>m_slist := m_slist s @ [SSegment (m_snd_una s + sbuf_buffered s) len bCtrl]\<rparr>);
     let (result, written, sbuf) = FifoWrite (take (unat len) data) (m_sbuf s);
     Some (of_nat written, s\<lparr>m_sbuf := sbuf\<rparr>)
   }"

definition packet_header :: "u32 \<Rightarrow> u8 \<Rightarrow> u32 \<Rightarrow> tcp \<Rightarrow> bytes" where
  "packet_header seq flags now s =
     long_to_bytes (m_conv s) @ long_to_bytes seq @ long_to_bytes (m_rcv_nxt s) @ [0, flags]
     @ short_to_bytes (ucast (drop_bit (unat (m_rwnd_scale s)) (m_rcv_wnd s)))
     @ long_to_bytes now @ long_to_bytes (m_ts_recent s)"

definition packet :: "tcp_env \<Rightarrow> u32 \<Rightarrow> u8 \<Rightarrow> u32 \<Rightarrow> u32 \<Rightarrow> tcp \<Rightarrow> (write_result \<times> tcp) option" where
  "packet env seq flags offset len s = do {
     ASSERT (HEADER_SIZE + len \<le> MAX_PACKET);
     let (now, s) = Now env s;
     let header = packet_header seq flags now s;
     let s = s\<lparr>m_ts_lastack := m_rcv_nxt s\<rparr>;
     payload \<leftarrow> (if len \<noteq> 0
                 then (let (result, out) = ReadOffset (unat len) (unat offset) (m_sbuf s)
                       in do { ASSERT (result = SR_SUCCESS); ASSERT (of_nat (length out) = len);
                               Some out })
                 else Some []);
     let wres = env_write env (length (x_sent s)) (header @ payload);
     let s = s\<lparr>x_sent := x_sent s @ [header @ payload]\<rparr>;
     if wres \<noteq> WR_SUCCESS \<and> len \<noteq> 0 then Some (wres, s)
     else Some (WR_SUCCESS,
                s\<lparr>m_t_ack := 0, m_lastsend := (if len > 0 then now else m_lastsend s),
                  m_lasttraffic := now, m_bOutgoing := True\<rparr>)
   }"

text \<open>The inner loop of \<open>transmit\<close>: step down the MTU table until a segment gets smaller; \<open>None\<close> inside is "MTU too small".\<close>

function shrink_mss :: "u32 \<Rightarrow> tcp \<Rightarrow> (u32 option \<times> tcp) option" where
  "shrink_mss nTransmit s =
     (if \<not> m_msslevel s + 1 < length PACKET_MAXIMUMS then None
      else if PACKET_MAXIMUMS ! (m_msslevel s + 1) = 0 then Some (None, s)
      else (let level = m_msslevel s + 1;
                mss = ucast (PACKET_MAXIMUMS ! level) - PACKET_OVERHEAD;
                s' = s\<lparr>m_msslevel := level, m_mss := mss, m_cwnd := 2 * mss\<rparr>
            in if mss < nTransmit then Some (Some mss, s') else shrink_mss nTransmit s'))"
  by pat_completeness auto
termination
  by (relation "measure (\<lambda>(n, s). length PACKET_MAXIMUMS - m_msslevel s)") auto

declare shrink_mss.simps [simp del]

lemma shrink_mss_less: "shrink_mss n s = Some (Some n', s') \<Longrightarrow> n' < n"
proof (induction n s rule: shrink_mss.induct)
  case (1 n s)
  from "1.prems" "1.IH" show ?case
    by (subst (asm) shrink_mss.simps) (auto simp: Let_def split: if_splits)
qed

text \<open>The outer loop of \<open>transmit\<close>: the number of bytes sent, or \<open>None\<close> inside for failure.\<close>

function transmit_loop :: "tcp_env \<Rightarrow> u32 \<Rightarrow> u8 \<Rightarrow> u32 \<Rightarrow> tcp \<Rightarrow> (u32 option \<times> tcp) option" where
  "transmit_loop env seq flags nTransmit s =
     (case packet env seq flags (seq - m_snd_una s) nTransmit s of
        None \<Rightarrow> None
      | Some (WR_SUCCESS, s) \<Rightarrow> Some (Some nTransmit, s)
      | Some (WR_FAIL, s) \<Rightarrow> Some (None, s)
      | Some (WR_TOO_LARGE, s) \<Rightarrow>
          (case shrink_mss nTransmit s of
             None \<Rightarrow> None
           | Some (None, s) \<Rightarrow> Some (None, s)
           | Some (Some n, s) \<Rightarrow> transmit_loop env seq flags n s))"
  by pat_completeness auto
termination
  by (relation "measure (\<lambda>(env, seq, flags, n, s). unat n)")
     (auto dest: shrink_mss_less simp: word_less_nat_alt)

declare transmit_loop.simps [simp del]

text \<open>\<open>transmit\<close>: the iterator is the index \<open>i\<close> into \<open>m_slist\<close>.\<close>

definition transmit :: "tcp_env \<Rightarrow> nat \<Rightarrow> u32 \<Rightarrow> tcp \<Rightarrow> (bool \<times> tcp) option" where
  "transmit env i now s =
     (if \<not> i < length (m_slist s) then None
      else let seg = m_slist s ! i in
        if s_xmit seg \<ge> (if m_state s = TCP_ESTABLISHED then 15 else 30) then Some (False, s)
        else case transmit_loop env (s_seq seg) (if s_bCtrl seg then FLAG_CTL else 0)
                    (min (s_len seg) (m_mss s)) s of
          None \<Rightarrow> None
        | Some (None, s) \<Rightarrow> Some (False, s)
        | Some (Some nTransmit, s) \<Rightarrow>
            (let rest = (if nTransmit < s_len seg
                         then [(SSegment (s_seq seg + nTransmit) (s_len seg - nTransmit) (s_bCtrl seg))
                                 \<lparr>s_xmit := s_xmit seg\<rparr>]
                         else []);
                 seg = (if nTransmit < s_len seg then seg\<lparr>s_len := nTransmit\<rparr> else seg);
                 s = (if s_xmit seg = 0 then s\<lparr>m_snd_nxt := m_snd_nxt s + s_len seg\<rparr> else s);
                 seg = seg\<lparr>s_xmit := s_xmit seg + 1\<rparr>;
                 s = s\<lparr>m_slist := take i (m_slist s) @ seg # rest @ drop (Suc i) (m_slist s)\<rparr>
             in Some (True, if m_rto_base s = 0 then s\<lparr>m_rto_base := now\<rparr> else s)))"

end
