(* ===== verification/Pseudo_Tcp_Proc.thy ===== *)
theory Pseudo_Tcp_Proc
  imports Pseudo_Tcp
begin

text \<open>
  The rest of talk/p2p/base/pseudotcp.cc: the send loop, option handling, the processing of
  an incoming segment and the public operations. \<open>process\<close> is cut at its comments into the
  functions it calls one after the other; the handler itself composes them with the early
  returns of the source.
\<close>

section \<open>The send loop\<close>

definition first_unsent :: "sseg list \<Rightarrow> nat option" where
  "first_unsent l = (let n = length (takeWhile (\<lambda>g. s_xmit g > 0) l)
                     in if n < length l then Some n else None)"

text \<open>How much the loop body may send next: the window minus what is in flight, with the silly-window rule.\<close>

definition send_window :: "tcp \<Rightarrow> u32" where
  "send_window s =
     (let cwnd = (if m_dup_acks s = 1 \<or> m_dup_acks s = 2
                  then m_cwnd s + ucast (m_dup_acks s) * m_mss s else m_cwnd s)
      in min (m_snd_wnd s) cwnd)"

definition in_flight :: "tcp \<Rightarrow> u32" where
  "in_flight s = m_snd_nxt s - m_snd_una s"

definition send_available :: "tcp \<Rightarrow> u32" where
  "send_available s =
     (let nWindow = send_window s;
          nInFlight = in_flight s;
          nUseable = (if nInFlight < nWindow then nWindow - nInFlight else 0);
          nAvailable = min (sbuf_buffered s - nInFlight) (m_mss s)
      in if nAvailable > nUseable
         then (if nUseable * 4 < nWindow then 0 else nUseable)
         else nAvailable)"

text \<open>Cut the segment the iterator points to when it is longer than what may be sent.\<close>

definition split_segment :: "nat \<Rightarrow> u32 \<Rightarrow> tcp \<Rightarrow> tcp" where
  "split_segment i nAvailable s =
     (let seg = m_slist s ! i
      in if s_len seg > nAvailable
         then s\<lparr>m_slist := take i (m_slist s)
                  @ [seg\<lparr>s_len := nAvailable\<rparr>,
                     SSegment (s_seq seg + nAvailable) (s_len seg - nAvailable) (s_bCtrl seg)]
                  @ drop (Suc i) (m_slist s)\<rparr>
         else s)"

partial_function (option) attemptSend_loop :: "tcp_env \<Rightarrow> u32 \<Rightarrow> send_flags \<Rightarrow> tcp \<Rightarrow> tcp option" where
  "attemptSend_loop env now sflags s =
     (let nAvailable = send_available s
      in if nAvailable = 0
         then (if sflags = sfNone then Some s
               else if sflags = sfImmediateAck \<or> m_t_ack s \<noteq> 0
               then map_option snd (packet env (m_snd_nxt s) 0 0 0 s)
               else (let (t, s) = Now env s in Some (s\<lparr>m_t_ack := t\<rparr>)))
         else if m_use_nagling s \<and> m_snd_nxt s > m_snd_una s \<and> nAvailable < m_mss s then Some s
         else Option.bind (first_unsent (m_slist s)) (\<lambda>i.
              Option.bind (transmit env i now (split_segment i nAvailable s)) (\<lambda>(ok, s).
                if ok then attemptSend_loop env now sfNone s else Some s)))"

definition attemptSend :: "tcp_env \<Rightarrow> send_flags \<Rightarrow> tcp \<Rightarrow> tcp option" where
  "attemptSend env sflags s =
     (let (now, s) = Now env s;
          s = (if TimeDiff now (m_lastsend s) > sint (m_rx_rto s) then s\<lparr>m_cwnd := m_mss s\<rparr> else s)
      in attemptSend_loop env now sflags s)"

section \<open>State changes\<close>

definition closedown :: "callback \<Rightarrow> int \<Rightarrow> tcp \<Rightarrow> tcp option" where
  "closedown cb err s = notify cb (OnTcpClosed err) (s\<lparr>m_state := TCP_CLOSED\<rparr>)"

function mtu_level :: "u32 \<Rightarrow> nat \<Rightarrow> nat" where
  "mtu_level advise level =
     (if level + 1 < length PACKET_MAXIMUMS \<and> PACKET_MAXIMUMS ! (level + 1) > 0
      then (if (ucast (PACKET_MAXIMUMS ! level) :: u32) \<le> advise then level
            else mtu_level advise (level + 1))
      else level)"
  by pat_completeness auto
termination
  by (relation "measure (\<lambda>(a, l). length PACKET_MAXIMUMS - l)") auto

declare mtu_level.simps [simp del]

definition adjustMTU :: "tcp \<Rightarrow> tcp" where
  "adjustMTU s =
     (let s = s\<lparr>m_msslevel := mtu_level (m_mtu_advise s) 0\<rparr>;
          s = s\<lparr>m_mss := m_mtu_advise s - PACKET_OVERHEAD\<rparr>;
          s = s\<lparr>m_ssthresh := max (m_ssthresh s) (2 * m_mss s)\<rparr>
      in s\<lparr>m_cwnd := max (m_cwnd s) (m_mss s)\<rparr>)"

definition isReceiveBufferFull :: "tcp \<Rightarrow> bool" where
  "isReceiveBufferFull s = (GetWriteRemaining (m_rbuf s) = 0)"

definition disableWindowScale :: "tcp \<Rightarrow> tcp" where
  "disableWindowScale s = s\<lparr>m_support_wnd_scale := False\<rparr>"

definition connect_message :: "tcp \<Rightarrow> byte_buffer" where
  "connect_message s =
     (let buf = WriteUInt8 CTL_CONNECT (ByteBuffer_empty ORDER_NETWORK)
      in if m_support_wnd_scale s
         then WriteUInt8 (m_rwnd_scale s) (WriteUInt8 1 (WriteUInt8 TCP_OPT_WND_SCALE buf))
         else buf)"

definition queueConnectMessage :: "tcp \<Rightarrow> tcp option" where
  "queueConnectMessage s =
     (let buf = connect_message s;
          s = s\<lparr>m_snd_wnd := of_nat (Length buf)\<rparr>
      in map_option snd (queue (Data buf) (of_nat (Length buf)) True s))"

definition resizeSendBuffer :: "tcp_env \<Rightarrow> u32 \<Rightarrow> tcp \<Rightarrow> tcp" where
  "resizeSendBuffer env new_size s =
     (let s = s\<lparr>m_sbuf_len := new_size\<rparr>
      in s\<lparr>m_sbuf := snd (SetCapacity (env_mem env) (unat new_size) (m_sbuf s))\<rparr>)"

function scale_window :: "u32 \<Rightarrow> u8 \<Rightarrow> u32 \<times> u8" where
  "scale_window new_size scale_factor =
     (if new_size > 0xFFFF then scale_window (drop_bit 1 new_size) (scale_factor + 1)
      else (new_size, scale_factor))"
  by pat_completeness auto
termination
  by (relation "measure (\<lambda>(n, k). unat n)")
     (auto simp: word_less_nat_alt unat_drop_bit_eq drop_bit_eq_div unat_div)

declare scale_window.simps [simp del]

definition resizeReceiveBuffer :: "tcp_env \<Rightarrow> u32 \<Rightarrow> tcp \<Rightarrow> tcp option" where
  "resizeReceiveBuffer env new_size s = do {
     let (new_size, scale_factor) = scale_window new_size 0;
     let new_size = push_bit (unat scale_factor) new_size;
     let (result, rbuf) = SetCapacity (env_mem env) (unat new_size) (m_rbuf s);
     let s = s\<lparr>m_rbuf := rbuf\<rparr>;
     ASSERT result;
     let s = s\<lparr>m_rbuf_len := new_size, m_rwnd_scale := scale_factor, m_ssthresh := new_size\<rparr>;
     Some (s\<lparr>m_rcv_wnd := rbuf_space s\<rparr>)
   }"

section \<open>TCP options of a connect message\<close>

definition applyWindowScaleOption :: "u8 \<Rightarrow> tcp \<Rightarrow> tcp" where
  "applyWindowScaleOption scale_factor s = s\<lparr>m_swnd_scale := scale_factor\<rparr>"

definition applyOption :: "u8 \<Rightarrow> bytes \<Rightarrow> u32 \<Rightarrow> tcp \<Rightarrow> tcp" where
  "applyOption kind data len s =
     (if kind = TCP_OPT_MSS then s
      else if kind = TCP_OPT_WND_SCALE
      then (if len \<noteq> 1 then s else applyWindowScaleOption (data ! 0) s)
      else s)"

text \<open>
  The loop over the options: the kinds that were applied, or \<open>None\<close> when an option
  is longer than the rest and the function returns at once. A missing length byte leaves
  \<open>opt_len\<close> at 0.
\<close>

function options_loop :: "byte_buffer \<Rightarrow> u8 list \<Rightarrow> tcp \<Rightarrow> u8 list option \<times> tcp" where
  "options_loop buf specified s =
     (case ReadUInt8 buf of None \<Rightarrow> (Some specified, s)
      | Some (kind, buf1) \<Rightarrow>
          if kind = TCP_OPT_EOL then (Some specified, s)
          else if kind = TCP_OPT_NOOP then options_loop buf1 specified s
          else (case (case ReadUInt8 buf1 of None \<Rightarrow> (0, buf1) | Some (l, b) \<Rightarrow> (l, b)) of
            (opt_len, buf2) \<Rightarrow>
              (case Consume (unat opt_len) buf2 of
                 None \<Rightarrow> (None, s)
               | Some buf3 \<Rightarrow>
                   options_loop buf3 (kind # specified)
                     (applyOption kind (Data buf2) (ucast opt_len) s))))"
  by pat_completeness auto
termination
  by (relation "measure (\<lambda>(b, l, s). Length b)")
     (auto simp: ReadUInt8_def ReadBytes_def Consume_def Length_def bb_end_def
        split: option.splits if_splits)

declare options_loop.simps [simp del]

definition parseOptions :: "tcp_env \<Rightarrow> bytes \<Rightarrow> tcp \<Rightarrow> tcp option" where
  "parseOptions env data s =
     (case options_loop (ByteBuffer_of data ORDER_NETWORK) [] s of
        (None, s) \<Rightarrow> Some s
      | (Some specified, s) \<Rightarrow>
          if TCP_OPT_WND_SCALE \<notin> set specified \<and> m_rwnd_scale s > 0
          then map_option (\<lambda>s. s\<lparr>m_swnd_scale := 0\<rparr>) (resizeReceiveBuffer env DEFAULT_RCV_BUF_SIZE s)
          else Some s)"

section \<open>Processing a segment\<close>

text \<open>Control data: \<open>Some bConnect\<close>, or \<open>None\<close> inside when \<open>process\<close> returns false.\<close>

definition process_control :: "tcp_env \<Rightarrow> callback \<Rightarrow> segment \<Rightarrow> tcp \<Rightarrow> (bool option \<times> tcp) option" where
  "process_control env cb seg s =
     (if g_flags seg AND FLAG_CTL \<noteq> 0
      then (if g_len seg = 0 then Some (None, s)
            else if g_data seg ! 0 = CTL_CONNECT
            then do {
              s \<leftarrow> parseOptions env (take (unat (g_len seg - 1)) (drop 1 (g_data seg))) s;
              s \<leftarrow> (if m_state s = TCP_LISTEN
                    then queueConnectMessage (s\<lparr>m_state := TCP_SYN_RECEIVED\<rparr>)
                    else if m_state s = TCP_SYN_SENT
                    then notify cb OnTcpOpen (adjustMTU (s\<lparr>m_state := TCP_ESTABLISHED\<rparr>))
                    else Some s);
              Some (Some True, s)
            }
            else Some (None, s))
      else Some (Some False, s))"

text \<open>Round-trip estimate; a negative sample is an ASSERT.\<close>

definition update_rtt :: "u32 \<Rightarrow> u32 \<Rightarrow> tcp \<Rightarrow> tcp option" where
  "update_rtt now tsecr s =
     (if tsecr = 0 then Some s
      else let rtt = TimeDiff now tsecr
      in if rtt \<ge> 0
      then (let s = (if m_rx_srtt s = 0
                     then s\<lparr>m_rx_srtt := word_of_int rtt, m_rx_rttvar := word_of_int (rtt div 2)\<rparr>
                     else s\<lparr>m_rx_rttvar := (3 * m_rx_rttvar s
                               + word_of_int (abs (sint (word_of_int rtt - m_rx_srtt s)))) div 4,
                            m_rx_srtt := (7 * m_rx_srtt s + word_of_int rtt) div 8\<rparr>)
            in Some (s\<lparr>m_rx_rto := bound MIN_RTO (m_rx_srtt s + max 1 (4 * m_rx_rttvar s)) MAX_RTO\<rparr>))
      else None)"

text \<open>The loop that frees acknowledged segments and remembers the largest one.\<close>

fun free_acked :: "u32 \<Rightarrow> sseg list \<Rightarrow> u32 \<Rightarrow> (sseg list \<times> u32) option" where
  "free_acked nFree [] largest = (if nFree = 0 then Some ([], largest) else None)"
| "free_acked nFree (g # gs) largest =
     (if nFree = 0 then Some (g # gs, largest)
      else if nFree < s_len g then Some (g\<lparr>s_len := s_len g - nFree\<rparr> # gs, largest)
      else free_acked (nFree - s_len g) gs (if s_len g > largest then s_len g else largest))"

definition nInFlight_threshold :: "tcp \<Rightarrow> u32" where
  "nInFlight_threshold s = max (in_flight s div 2) (2 * m_mss s)"

text \<open>A valuable acknowledgement. The Boolean is false when \<open>process\<close> returns false.\<close>

definition process_new_ack :: "tcp_env \<Rightarrow> callback \<Rightarrow> u32 \<Rightarrow> segment \<Rightarrow> tcp \<Rightarrow> (bool \<times> tcp) option" where
  "process_new_ack env cb now seg s = do {
     s \<leftarrow> update_rtt now (g_tsecr seg) s;
     let s = s\<lparr>m_snd_wnd := push_bit (unat (m_swnd_scale s)) (ucast (g_wnd seg))\<rparr>;
     let nAcked = g_ack seg - m_snd_una s;
     let s = s\<lparr>m_snd_una := g_ack seg\<rparr>;
     let s = s\<lparr>m_rto_base := (if m_snd_una s = m_snd_nxt s then 0 else now)\<rparr>;
     sbuf \<leftarrow> ConsumeReadData (unat nAcked) (m_sbuf s);
     (slist, largest) \<leftarrow> free_acked nAcked (m_slist s) (m_largest s);
     let s = s\<lparr>m_sbuf := sbuf, m_slist := slist, m_largest := largest\<rparr>;
     if m_dup_acks s \<ge> 3
     then (if m_snd_una s \<ge> m_recover s
           then Some (True, s\<lparr>m_cwnd := min (m_ssthresh s) (in_flight s + m_mss s), m_dup_acks := 0\<rparr>)
           else do {
             (ok, s) \<leftarrow> transmit env 0 now s;
             if \<not> ok then do { s \<leftarrow> closedown cb ECONNABORTED s; Some (False, s) }
             else Some (True, s\<lparr>m_cwnd := m_cwnd s + (m_mss s - min nAcked (m_cwnd s))\<rparr>)
           })
     else do {
       let s = s\<lparr>m_dup_acks := 0\<rparr>;
       if m_cwnd s < m_ssthresh s then Some (True, s\<lparr>m_cwnd := m_cwnd s + m_mss s\<rparr>)
       else do {
         ASSERT (m_cwnd s \<noteq> 0);
         Some (True, s\<lparr>m_cwnd := m_cwnd s + max 1 (m_mss s * m_mss s div m_cwnd s)\<rparr>)
       }
     }
   }"

definition process_dup_ack :: "tcp_env \<Rightarrow> callback \<Rightarrow> u32 \<Rightarrow> segment \<Rightarrow> tcp \<Rightarrow> (bool \<times> tcp) option" where
  "process_dup_ack env cb now seg s = do {
     let s = s\<lparr>m_snd_wnd := push_bit (unat (m_swnd_scale s)) (ucast (g_wnd seg))\<rparr>;
     if g_len seg > 0 then Some (True, s)
     else if m_snd_una s \<noteq> m_snd_nxt s
     then do {
       let s = s\<lparr>m_dup_acks := m_dup_acks s + 1\<rparr>;
       if m_dup_acks s = 3
       then do {
         (ok, s) \<leftarrow> transmit env 0 now s;
         if \<not> ok then do { s \<leftarrow> closedown cb ECONNABORTED s; Some (False, s) }
         else do {
           let s = s\<lparr>m_recover := m_snd_nxt s\<rparr>;
           let s = s\<lparr>m_ssthresh := nInFlight_threshold s\<rparr>;
           Some (True, s\<lparr>m_cwnd := m_ssthresh s + 3 * m_mss s\<rparr>)
         }
       }
       else if m_dup_acks s > 3 then Some (True, s\<lparr>m_cwnd := m_cwnd s + m_mss s\<rparr>)
       else Some (True, s)
     }
     else Some (True, s\<lparr>m_dup_acks := 0\<rparr>)
   }"

definition process_ack :: "tcp_env \<Rightarrow> callback \<Rightarrow> u32 \<Rightarrow> segment \<Rightarrow> tcp \<Rightarrow> (bool \<times> tcp) option" where
  "process_ack env cb now seg s =
     (if g_ack seg > m_snd_una s \<and> g_ack seg \<le> m_snd_nxt s then process_new_ack env cb now seg s
      else if g_ack seg = m_snd_una s then process_dup_ack env cb now seg s
      else Some (True, s))"

text \<open>The connection opens when the peer answers our connect message; then room in the send queue is announced.\<close>

definition process_open :: "callback \<Rightarrow> bool \<Rightarrow> tcp \<Rightarrow> tcp option" where
  "process_open cb bConnect s =
     (if m_state s = TCP_SYN_RECEIVED \<and> \<not> bConnect
      then notify cb OnTcpOpen (adjustMTU (s\<lparr>m_state := TCP_ESTABLISHED\<rparr>))
      else Some s)"

definition process_writeable :: "callback \<Rightarrow> tcp \<Rightarrow> tcp option" where
  "process_writeable cb s =
     (let kIdealRefillSize = (m_sbuf_len s + m_rbuf_len s) div 2
      in if m_bWriteEnable s \<and> sbuf_buffered s < kIdealRefillSize
         then notify cb OnTcpWriteable (s\<lparr>m_bWriteEnable := False\<rparr>)
         else Some s)"

definition ack_flags :: "segment \<Rightarrow> tcp \<Rightarrow> send_flags" where
  "ack_flags seg s =
     (if g_seq seg \<noteq> m_rcv_nxt s then sfImmediateAck
      else if g_len seg \<noteq> 0 then (if m_ack_delay s = 0 then sfImmediateAck else sfDelayedAck)
      else sfNone)"

text \<open>Cut the incoming segment to what is new and fits the receive buffer.\<close>

definition trim_front :: "tcp \<Rightarrow> segment \<Rightarrow> segment" where
  "trim_front s seg =
     (if g_seq seg < m_rcv_nxt s
      then (let nAdjust = m_rcv_nxt s - g_seq seg
            in if nAdjust < g_len seg
               then seg\<lparr>g_seq := g_seq seg + nAdjust, g_data := drop (unat nAdjust) (g_data seg),
                        g_len := g_len seg - nAdjust\<rparr>
               else seg\<lparr>g_len := 0\<rparr>)
      else seg)"

definition trim_back :: "tcp \<Rightarrow> segment \<Rightarrow> segment" where
  "trim_back s seg =
     (if g_seq seg + g_len seg - m_rcv_nxt s > rbuf_space s
      then (let nAdjust = g_seq seg + g_len seg - m_rcv_nxt s - rbuf_space s
            in if nAdjust < g_len seg then seg\<lparr>g_len := g_len seg - nAdjust\<rparr>
               else seg\<lparr>g_len := 0\<rparr>)
      else seg)"

text \<open>Out-of-order data already buffered that is now in sequence is committed.\<close>

fun recover_segments :: "rseg list \<Rightarrow> send_flags \<Rightarrow> tcp \<Rightarrow> (send_flags \<times> tcp) option" where
  "recover_segments [] sflags s = Some (sflags, s\<lparr>m_rlist := []\<rparr>)"
| "recover_segments (r # rs) sflags s =
     (if r_seq r \<le> m_rcv_nxt s
      then (if r_seq r + r_len r > m_rcv_nxt s
            then (let nAdjust = (r_seq r + r_len r) - m_rcv_nxt s
                  in case ConsumeWriteBuffer (unat nAdjust) (m_rbuf s) of
                       None \<Rightarrow> None
                     | Some rbuf \<Rightarrow>
                         recover_segments rs sfImmediateAck
                           (s\<lparr>m_rbuf := rbuf, m_rcv_nxt := m_rcv_nxt s + nAdjust,
                              m_rcv_wnd := m_rcv_wnd s - nAdjust\<rparr>))
            else recover_segments rs sflags s)
      else Some (sflags, s\<lparr>m_rlist := r # rs\<rparr>))"

definition insert_rseg :: "rseg \<Rightarrow> rseg list \<Rightarrow> rseg list" where
  "insert_rseg r l = takeWhile (\<lambda>x. r_seq x < r_seq r) l @ r # dropWhile (\<lambda>x. r_seq x < r_seq r) l"

text \<open>The data of a (trimmed) segment; the result says whether there is new data to read.\<close>

definition receive_data :: "segment \<Rightarrow> send_flags \<Rightarrow> tcp \<Rightarrow> (bool \<times> send_flags \<times> tcp) option" where
  "receive_data seg sflags s =
     (let bIgnoreData = (g_flags seg AND FLAG_CTL \<noteq> 0) \<or> m_shutdown s \<noteq> SD_NONE
      in if \<not> g_len seg > 0 then Some (False, sflags, s)
         else if bIgnoreData
         then Some (False, sflags,
                if g_seq seg = m_rcv_nxt s then s\<lparr>m_rcv_nxt := m_rcv_nxt s + g_len seg\<rparr> else s)
         else do {
           let nOffset = g_seq seg - m_rcv_nxt s;
           let (result, written, rbuf) =
             WriteOffset (take (unat (g_len seg)) (g_data seg)) (unat nOffset) (m_rbuf s);
           ASSERT (result = SR_SUCCESS);
           let s = s\<lparr>m_rbuf := rbuf\<rparr>;
           if g_seq seg = m_rcv_nxt s
           then do {
             rbuf \<leftarrow> ConsumeWriteBuffer (unat (g_len seg)) (m_rbuf s);
             let s = s\<lparr>m_rbuf := rbuf, m_rcv_nxt := m_rcv_nxt s + g_len seg,
                       m_rcv_wnd := m_rcv_wnd s - g_len seg\<rparr>;
             (sflags, s) \<leftarrow> recover_segments (m_rlist s) sflags s;
             Some (True, sflags, s)
           }
           else Some (False, sflags,
                  s\<lparr>m_rlist := insert_rseg \<lparr>r_seq = g_seq seg, r_len = g_len seg\<rparr> (m_rlist s)\<rparr>)
         })"

definition process :: "tcp_env \<Rightarrow> callback \<Rightarrow> segment \<Rightarrow> tcp \<Rightarrow> (bool \<times> tcp) option" where
  "process env cb seg s =
     (if g_conv seg \<noteq> m_conv s then Some (False, s)
      else let (now, s) = Now env s;
               s = s\<lparr>m_lasttraffic := now, m_lastrecv := now, m_bOutgoing := False\<rparr>
      in if m_state s = TCP_CLOSED then Some (False, s)
      else if g_flags seg AND FLAG_RST \<noteq> 0
      then map_option (\<lambda>s. (False, s)) (closedown cb ECONNRESET s)
      else do {
        (ctl, s) \<leftarrow> process_control env cb seg s;
        (case ctl of None \<Rightarrow> Some (False, s)
         | Some bConnect \<Rightarrow> do {
             let s = (if g_seq seg \<le> m_ts_lastack s \<and> m_ts_lastack s < g_seq seg + g_len seg
                      then s\<lparr>m_ts_recent := g_tsval seg\<rparr> else s);
             (ok, s) \<leftarrow> process_ack env cb now seg s;
             if \<not> ok then Some (False, s)
             else do {
               s \<leftarrow> process_open cb bConnect s;
               s \<leftarrow> process_writeable cb s;
               let sflags = ack_flags seg s;
               (bNewData, sflags, s) \<leftarrow> receive_data (trim_back s (trim_front s seg)) sflags s;
               s \<leftarrow> attemptSend env sflags s;
               s \<leftarrow> (if bNewData \<and> m_bReadEnable s
                     then notify cb OnTcpReadable (s\<lparr>m_bReadEnable := False\<rparr>)
                     else Some s);
               Some (True, s)
             }
           })
      })"

text \<open>The segment in a packet of at least 24 bytes.\<close>

definition segment_of :: "bytes \<Rightarrow> segment" where
  "segment_of buffer =
     \<lparr>g_conv = bytes_to_long (take 4 buffer), g_seq = bytes_to_long (take 4 (drop 4 buffer)),
      g_ack = bytes_to_long (take 4 (drop 8 buffer)), g_flags = buffer ! 13,
      g_wnd = bytes_to_short (take 2 (drop 14 buffer)),
      g_data = drop 24 buffer, g_len = of_nat (length buffer) - HEADER_SIZE,
      g_tsval = bytes_to_long (take 4 (drop 16 buffer)),
      g_tsecr = bytes_to_long (take 4 (drop 20 buffer))\<rparr>"

text \<open>The header fields of a packet are read although only 12 bytes are required; bytes past the packet are out of bounds.\<close>

definition parse :: "tcp_env \<Rightarrow> callback \<Rightarrow> bytes \<Rightarrow> tcp \<Rightarrow> (bool \<times> tcp) option" where
  "parse env cb buffer s =
     (if (of_nat (length buffer) :: u32) < 12 then Some (False, s)
      else if length buffer < 24 then None
      else process env cb (segment_of buffer) s)"

section \<open>Public operations\<close>

definition Connect :: "tcp_env \<Rightarrow> tcp \<Rightarrow> (int \<times> tcp) option" where
  "Connect env s =
     (if m_state s \<noteq> TCP_LISTEN then Some (- 1, s\<lparr>m_error := EINVAL\<rparr>)
      else do {
        s \<leftarrow> queueConnectMessage (s\<lparr>m_state := TCP_SYN_SENT\<rparr>);
        s \<leftarrow> attemptSend env sfNone s;
        Some (0, s)
      })"

definition NotifyMTU :: "u16 \<Rightarrow> tcp \<Rightarrow> tcp" where
  "NotifyMTU mtu s =
     (let s = s\<lparr>m_mtu_advise := ucast mtu\<rparr>
      in if m_state s = TCP_ESTABLISHED then adjustMTU s else s)"

text \<open>The three timers of \<open>NotifyClock\<close>: retransmission, window probe, delayed acknowledgement.\<close>

definition clock_retransmit :: "tcp_env \<Rightarrow> callback \<Rightarrow> u32 \<Rightarrow> tcp \<Rightarrow> (bool \<times> tcp) option" where
  "clock_retransmit env cb now s =
     (if m_rto_base s \<noteq> 0 \<and> TimeDiff (m_rto_base s + m_rx_rto s) now \<le> 0
      then (if m_slist s = [] then None
            else do {
              (ok, s) \<leftarrow> transmit env 0 now s;
              if \<not> ok then do { s \<leftarrow> closedown cb ECONNABORTED s; Some (False, s) }
              else do {
                let s = s\<lparr>m_ssthresh := nInFlight_threshold s\<rparr>;
                let s = s\<lparr>m_cwnd := m_mss s\<rparr>;
                let rto_limit = (if m_state s < TCP_ESTABLISHED then DEF_RTO else MAX_RTO);
                Some (True, s\<lparr>m_rx_rto := min rto_limit (m_rx_rto s * 2), m_rto_base := now\<rparr>)
              }
            })
      else Some (True, s))"

definition clock_probe :: "tcp_env \<Rightarrow> callback \<Rightarrow> u32 \<Rightarrow> tcp \<Rightarrow> (bool \<times> tcp) option" where
  "clock_probe env cb now s =
     (if m_snd_wnd s = 0 \<and> TimeDiff (m_lastsend s + m_rx_rto s) now \<le> 0
      then (if TimeDiff now (m_lastrecv s) \<ge> 15000
            then do { s \<leftarrow> closedown cb ECONNABORTED s; Some (False, s) }
            else do {
              (r, s) \<leftarrow> packet env (m_snd_nxt s - 1) 0 0 0 s;
              Some (True, s\<lparr>m_lastsend := now, m_rx_rto := min MAX_RTO (m_rx_rto s * 2)\<rparr>)
            })
      else Some (True, s))"

definition clock_delayed_ack :: "tcp_env \<Rightarrow> u32 \<Rightarrow> tcp \<Rightarrow> tcp option" where
  "clock_delayed_ack env now s =
     (if m_t_ack s \<noteq> 0 \<and> TimeDiff (m_t_ack s + m_ack_delay s) now \<le> 0
      then map_option snd (packet env (m_snd_nxt s) 0 0 0 s)
      else Some s)"

definition NotifyClock :: "tcp_env \<Rightarrow> callback \<Rightarrow> u32 \<Rightarrow> tcp \<Rightarrow> tcp option" where
  "NotifyClock env cb now s =
     (if m_state s = TCP_CLOSED then Some s
      else do {
        (ok, s) \<leftarrow> clock_retransmit env cb now s;
        if \<not> ok then Some s
        else do {
          (ok, s) \<leftarrow> clock_probe env cb now s;
          if \<not> ok then Some s else clock_delayed_ack env now s
        }
      })"

definition NotifyPacket :: "tcp_env \<Rightarrow> callback \<Rightarrow> bytes \<Rightarrow> tcp \<Rightarrow> (bool \<times> tcp) option" where
  "NotifyPacket env cb buffer s =
     (if length buffer > unat MAX_PACKET then Some (False, s) else parse env cb buffer s)"

text \<open>\<open>GetNextClock\<close>: false (\<open>None\<close>) when the socket may be destroyed, else the timeout.\<close>

definition clock_check :: "u32 \<Rightarrow> tcp \<Rightarrow> int option" where
  "clock_check now s =
     (if m_shutdown s = SD_FORCEFUL then None
      else if m_shutdown s = SD_GRACEFUL
              \<and> (m_state s \<noteq> TCP_ESTABLISHED \<or> (GetBuffered (m_sbuf s) = 0 \<and> m_t_ack s = 0))
      then None
      else if m_state s = TCP_CLOSED then Some CLOSED_TIMEOUT
      else (let n = DEFAULT_TIMEOUT;
                n = (if m_t_ack s \<noteq> 0 then min n (TimeDiff (m_t_ack s + m_ack_delay s) now) else n);
                n = (if m_rto_base s \<noteq> 0 then min n (TimeDiff (m_rto_base s + m_rx_rto s) now) else n);
                n = (if m_snd_wnd s = 0 then min n (TimeDiff (m_lastsend s + m_rx_rto s) now) else n)
            in Some n))"

definition GetNextClock :: "u32 \<Rightarrow> tcp \<Rightarrow> int option" where
  "GetNextClock now s = clock_check now s"

definition GetOption :: "tcp_option \<Rightarrow> tcp \<Rightarrow> int" where
  "GetOption opt s =
     (case opt of OPT_NODELAY \<Rightarrow> (if m_use_nagling s then 0 else 1)
      | OPT_ACKDELAY \<Rightarrow> sint (m_ack_delay s)
      | OPT_SNDBUF \<Rightarrow> sint (m_sbuf_len s)
      | OPT_RCVBUF \<Rightarrow> sint (m_rbuf_len s))"

definition SetOption :: "tcp_env \<Rightarrow> tcp_option \<Rightarrow> int \<Rightarrow> tcp \<Rightarrow> tcp option" where
  "SetOption env opt value s =
     (case opt of OPT_NODELAY \<Rightarrow> Some (s\<lparr>m_use_nagling := (value = 0)\<rparr>)
      | OPT_ACKDELAY \<Rightarrow> Some (s\<lparr>m_ack_delay := word_of_int value\<rparr>)
      | OPT_SNDBUF \<Rightarrow> do { ASSERT (m_state s = TCP_LISTEN);
                            Some (resizeSendBuffer env (word_of_int value) s) }
      | OPT_RCVBUF \<Rightarrow> do { ASSERT (m_state s = TCP_LISTEN);
                            resizeReceiveBuffer env (word_of_int value) s })"

definition Recv :: "tcp_env \<Rightarrow> nat \<Rightarrow> tcp \<Rightarrow> (int \<times> bytes \<times> tcp) option" where
  "Recv env len s =
     (if m_state s \<noteq> TCP_ESTABLISHED then Some (SOCKET_ERROR, [], s\<lparr>m_error := ENOTCONN\<rparr>)
      else case FifoRead len (m_rbuf s) of (result, out, rbuf) \<Rightarrow>
        if result = SR_BLOCK
        then Some (SOCKET_ERROR, [], s\<lparr>m_bReadEnable := True, m_error := EWOULDBLOCK\<rparr>)
        else do {
          ASSERT (result = SR_SUCCESS);
          let s = s\<lparr>m_rbuf := rbuf\<rparr>;
          s \<leftarrow> (if rbuf_space s - m_rcv_wnd s \<ge> min (m_rbuf_len s div 2) (m_mss s)
                then (let bWasClosed = (m_rcv_wnd s = 0);
                          s = s\<lparr>m_rcv_wnd := rbuf_space s\<rparr>
                      in if bWasClosed then attemptSend env sfImmediateAck s else Some s)
                else Some s);
          Some (int (length out), out, s)
        })"

definition Send :: "tcp_env \<Rightarrow> bytes \<Rightarrow> tcp \<Rightarrow> (int \<times> tcp) option" where
  "Send env buffer s =
     (if m_state s \<noteq> TCP_ESTABLISHED then Some (SOCKET_ERROR, s\<lparr>m_error := ENOTCONN\<rparr>)
      else if GetWriteRemaining (m_sbuf s) = 0
      then Some (SOCKET_ERROR, s\<lparr>m_bWriteEnable := True, m_error := EWOULDBLOCK\<rparr>)
      else do {
        (written, s) \<leftarrow> queue buffer (of_nat (length buffer)) False s;
        s \<leftarrow> attemptSend env sfNone s;
        Some (sint written, s)
      })"

definition TcpClose :: "bool \<Rightarrow> tcp \<Rightarrow> tcp" where
  "TcpClose force s = s\<lparr>m_shutdown := (if force then SD_FORCEFUL else SD_GRACEFUL)\<rparr>"

definition GetError :: "tcp \<Rightarrow> int" where
  "GetError s = m_error s"

end
