(* ===== verification/Send_Queue.thy ===== *)
theory Send_Queue
  imports Pseudo_Tcp_Proc
begin

text \<open>
  The segment list \<open>m_slist\<close> of PseudoTcp (talk/p2p/base/pseudotcp.cc): its segments tile the
  bytes of the send buffer from \<open>m_snd_una\<close> on, and those already transmitted come first and
  make up what is in flight. The list operations that queueing, transmitting, splitting and
  acknowledging perform all keep this.
\<close>

definition seg_total :: "sseg list \<Rightarrow> nat" where
  "seg_total l = (\<Sum>g\<leftarrow>l. unat (s_len g))"

fun seg_chain :: "u32 \<Rightarrow> sseg list \<Rightarrow> bool" where
  "seg_chain a [] = True"
| "seg_chain a (g # gs) = (s_seq g = a \<and> seg_chain (a + s_len g) gs)"

definition slist_inv :: "u32 \<Rightarrow> u32 \<Rightarrow> nat \<Rightarrow> sseg list \<Rightarrow> bool" where
  "slist_inv una nxt dl l \<longleftrightarrow>
     seg_chain una l \<and> seg_total l = dl \<and> unat una + dl < 4294967296
     \<and> (\<exists>sent unsent. l = sent @ unsent \<and> (\<forall>g \<in> set sent. s_xmit g > 0)
          \<and> (\<forall>g \<in> set unsent. s_xmit g = 0) \<and> nxt = una + of_nat (seg_total sent))"

lemma seg_total_simps [simp]:
  "seg_total [] = 0" "seg_total (g # l) = unat (s_len g) + seg_total l"
  "seg_total (l @ l') = seg_total l + seg_total l'"
  by (simp_all add: seg_total_def)

lemma of_nat_unat_u32 [simp]: "(of_nat (unat w) :: u32) = w"
  by simp

lemma seg_chain_append [simp]:
  "seg_chain a (l @ l') \<longleftrightarrow> seg_chain a l \<and> seg_chain (a + of_nat (seg_total l)) l'"
  by (induction l arbitrary: a) (simp_all add: add.assoc)

lemma slist_invE:
  assumes "slist_inv una nxt dl l"
  obtains sent unsent where "l = sent @ unsent" "\<forall>g \<in> set sent. s_xmit g > 0"
    "\<forall>g \<in> set unsent. s_xmit g = 0" "nxt = una + of_nat (seg_total sent)"
    "seg_chain una l" "seg_total l = dl" "unat una + dl < 4294967296"
  using assms by (auto simp: slist_inv_def)

lemma slist_invI:
  assumes "l = sent @ unsent" "\<forall>g \<in> set sent. s_xmit g > 0" "\<forall>g \<in> set unsent. s_xmit g = 0"
    "nxt = una + of_nat (seg_total sent)" "seg_chain una l" "seg_total l = dl"
    "unat una + dl < 4294967296"
  shows "slist_inv una nxt dl l"
  using assms unfolding slist_inv_def by blast

text \<open>Numbers of bytes below \<open>2 ^ 32\<close> survive the conversion to sequence numbers.\<close>

lemma unat_of_nat_u32: "n < 4294967296 \<Longrightarrow> unat (of_nat n :: u32) = n"
  by (simp add: unat_of_nat take_bit_eq_mod)

lemma unat_add_of_nat:
  assumes "unat (a :: u32) + n < 4294967296"
  shows "unat (a + of_nat n) = unat a + n"
  using assms by (subst unat_add_less) (simp_all add: unat_of_nat_u32)

lemma slist_inv_flight:
  assumes "slist_inv una nxt dl l"
  shows "unat (nxt - una) = seg_total (takeWhile (\<lambda>g. s_xmit g > 0) l)"
    and "unat (nxt - una) \<le> dl" and "unat nxt = unat una + unat (nxt - una)" and "una \<le> nxt"
proof -
  from assms obtain sent unsent where *: "l = sent @ unsent" "\<forall>g \<in> set sent. s_xmit g > 0"
      "\<forall>g \<in> set unsent. s_xmit g = 0" "nxt = una + of_nat (seg_total sent)" "seg_total l = dl"
      "unat una + dl < 4294967296"
    by (rule slist_invE)
  have tw: "takeWhile (\<lambda>g. s_xmit g > 0) l = sent"
    using * by (cases unsent) (auto simp: takeWhile_append2)
  have le: "seg_total sent \<le> dl" using * by simp
  then have u: "unat (nxt - una) = seg_total sent"
    using * by (simp add: unat_of_nat_u32)
  show "unat (nxt - una) = seg_total (takeWhile (\<lambda>g. s_xmit g > 0) l)" using u tw by simp
  show "unat (nxt - una) \<le> dl" using u le by simp
  show n: "unat nxt = unat una + unat (nxt - una)"
    using * le u by (simp add: unat_add_of_nat)
  show "una \<le> nxt" using n by (simp add: word_le_nat_alt)
qed

text \<open>The i-th segment is read at its place in the send buffer.\<close>

lemma slist_inv_offset:
  assumes "slist_inv una nxt dl l" "i < length l"
  shows "unat (s_seq (l ! i) - una) = seg_total (take i l)"
    and "seg_total (take i l) + unat (s_len (l ! i)) \<le> dl"
proof -
  from assms(1) have c: "seg_chain una l" "seg_total l = dl" "unat una + dl < 4294967296"
    by (auto simp: slist_inv_def)
  have l: "l = take i l @ l ! i # drop (Suc i) l"
    using assms(2) by (simp add: id_take_nth_drop)
  from c(1) have "s_seq (l ! i) = una + of_nat (seg_total (take i l))"
    by (subst (asm) l) simp
  moreover from c(2) show le: "seg_total (take i l) + unat (s_len (l ! i)) \<le> dl"
    by (subst (asm) l) simp
  ultimately show "unat (s_seq (l ! i) - una) = seg_total (take i l)"
    using c(3) by (simp add: unat_of_nat_u32)
qed

text \<open>Replacing a segment by two adjacent ones keeps the tiling.\<close>

lemma replace_segment:
  assumes "seg_chain una l" "i < length l" "n \<le> s_len (l ! i)"
    and "s_seq a = s_seq (l ! i)" "s_len a = n"
    and "rest = [] \<and> n = s_len (l ! i)
         \<or> (\<exists>b. rest = [b] \<and> s_seq b = s_seq (l ! i) + n \<and> s_len b = s_len (l ! i) - n)"
  shows "seg_chain una (take i l @ a # rest @ drop (Suc i) l)"
    and "seg_total (take i l @ a # rest @ drop (Suc i) l) = seg_total l"
proof -
  have l: "l = take i l @ l ! i # drop (Suc i) l"
    using assms(2) by (simp add: id_take_nth_drop)
  from assms(1) have "seg_chain una (take i l @ l ! i # drop (Suc i) l)"
    using l by simp
  then show "seg_chain una (take i l @ a # rest @ drop (Suc i) l)"
    using assms by (auto simp: add.assoc)
  have "seg_total l = seg_total (take i l) + (unat (s_len (l ! i)) + seg_total (drop (Suc i) l))"
    by (subst l) simp
  moreover have "unat n + unat (s_len (l ! i) - n) = unat (s_len (l ! i))"
    using assms(3) by (simp add: unat_sub word_le_nat_alt)
  ultimately show "seg_total (take i l @ a # rest @ drop (Suc i) l) = seg_total l"
    using assms by auto
qed

section \<open>Transmitting and splitting\<close>

text \<open>The i-th segment is the first unsent one or an already sent one.\<close>

definition sendable :: "sseg list \<Rightarrow> nat \<Rightarrow> bool" where
  "sendable l i \<longleftrightarrow> i < length l \<and> (\<forall>j<i. s_xmit (l ! j) > 0)"

definition transmitted :: "sseg list \<Rightarrow> nat \<Rightarrow> u32 \<Rightarrow> sseg list" where
  "transmitted l i n =
     take i l @ (l ! i)\<lparr>s_len := n, s_xmit := s_xmit (l ! i) + 1\<rparr>
     # (if n < s_len (l ! i)
        then [(SSegment (s_seq (l ! i) + n) (s_len (l ! i) - n) (s_bCtrl (l ! i)))
                \<lparr>s_xmit := s_xmit (l ! i)\<rparr>]
        else [])
     @ drop (Suc i) l"

lemma sent_prefix_length:
  assumes "sent @ unsent = l" "\<forall>g \<in> set unsent. s_xmit g = 0" "i < length l" "s_xmit (l ! i) > 0"
  shows "i < length sent"
proof (rule ccontr)
  assume "\<not> i < length sent"
  then have "l ! i = unsent ! (i - length sent)" "i - length sent < length unsent"
    using assms(1,3) by (auto simp: nth_append)
  then have "l ! i \<in> set unsent" by simp
  then show False using assms(2,4) by auto
qed

lemma first_unsent_prefix:
  assumes "sent @ unsent = l" "\<forall>g \<in> set sent. s_xmit g > 0" "sendable l i" "s_xmit (l ! i) = 0"
    "\<forall>g \<in> set unsent. s_xmit g = 0"
  shows "i = length sent"
proof (rule antisym)
  show "i \<le> length sent"
  proof (rule ccontr)
    assume "\<not> i \<le> length sent"
    then have "length sent < i" "length sent < length l" using assms(3) by (auto simp: sendable_def)
    then have "s_xmit (l ! length sent) > 0" using assms(3) by (simp add: sendable_def)
    moreover have "l ! length sent = unsent ! 0" "0 < length unsent"
      using assms(1) \<open>length sent < length l\<close> by (auto simp: nth_append)
    ultimately show False using assms(5) nth_mem [of 0 unsent] by auto
  qed
  show "length sent \<le> i"
  proof (rule ccontr)
    assume "\<not> length sent \<le> i"
    then have "l ! i \<in> set sent" using assms(1) by (auto simp: nth_append)
    then show False using assms(2,4) by auto
  qed
qed

lemma slist_inv_transmitted:
  assumes inv: "slist_inv una nxt dl l" and i: "sendable l i" and n: "n \<le> s_len (l ! i)"
    and x: "s_xmit (l ! i) + 1 > 0"
  shows "slist_inv una (if s_xmit (l ! i) = 0 then nxt + n else nxt) dl (transmitted l i n)"
proof -
  from inv obtain sent unsent where d: "l = sent @ unsent" "\<forall>g \<in> set sent. s_xmit g > 0"
      "\<forall>g \<in> set unsent. s_xmit g = 0" "nxt = una + of_nat (seg_total sent)"
      "seg_chain una l" "seg_total l = dl" "unat una + dl < 4294967296"
    by (rule slist_invE)
  have il: "i < length l" using i by (simp add: sendable_def)
  let ?a = "(l ! i)\<lparr>s_len := n, s_xmit := s_xmit (l ! i) + 1\<rparr>"
  let ?rest = "if n < s_len (l ! i)
        then [(SSegment (s_seq (l ! i) + n) (s_len (l ! i) - n) (s_bCtrl (l ! i)))
                \<lparr>s_xmit := s_xmit (l ! i)\<rparr>] else []"
  have r: "?rest = [] \<and> n = s_len (l ! i)
         \<or> (\<exists>b. ?rest = [b] \<and> s_seq b = s_seq (l ! i) + n \<and> s_len b = s_len (l ! i) - n)"
    using n by (auto simp: SSegment_def)
  have chain: "seg_chain una (transmitted l i n)"
    unfolding transmitted_def by (rule replace_segment(1) [OF d(5) il n _ _ r]) simp_all
  have "seg_total (transmitted l i n) = seg_total l"
    unfolding transmitted_def by (rule replace_segment(2) [OF d(5) il n _ _ r]) simp_all
  then have total: "seg_total (transmitted l i n) = dl" using d(6) by simp
  show ?thesis
  proof (cases "s_xmit (l ! i) = 0")
    case True
    then have len: "i = length sent" using first_unsent_prefix [OF d(1) [symmetric] d(2) i True d(3)] by simp
    have tk: "take i l = sent" "drop (Suc i) l = tl unsent" using d(1) len by (simp_all add: drop_Suc)
    have sub: "set (tl unsent) \<subseteq> set unsent" by (cases unsent) auto
    have t1: "transmitted l i n = (sent @ [?a]) @ ?rest @ tl unsent"
      by (simp add: transmitted_def tk)
    have t2: "\<forall>g \<in> set (sent @ [?a]). s_xmit g > 0" using d(2) x by auto
    have t3: "\<forall>g \<in> set (?rest @ tl unsent). s_xmit g = 0" using d(3) sub True by auto
    have t4: "nxt + n = una + of_nat (seg_total (sent @ [?a]))" using d(4) by simp
    show ?thesis using slist_invI [OF t1 t2 t3 t4 chain total d(7)] True by simp
  next
    case False
    then have xi: "s_xmit (l ! i) > 0" by (simp add: word_neq_0_conv)
    then have len: "i < length sent" using sent_prefix_length [OF d(1) [symmetric] d(3) il] by simp
    have tk: "take i l = take i sent" "l ! i = sent ! i" "drop (Suc i) l = drop (Suc i) sent @ unsent"
      using d(1) len by (simp_all add: nth_append)
    let ?sent = "take i sent @ ?a # ?rest @ drop (Suc i) sent"
    have t1: "transmitted l i n = ?sent @ unsent"
      by (simp add: transmitted_def tk)
    have t2: "\<forall>g \<in> set ?sent. s_xmit g > 0"
      using d(2) x xi by (auto dest: in_set_takeD in_set_dropD)
    have t4: "nxt = una + of_nat (seg_total ?sent)"
    proof -
      have "seg_total ?sent + seg_total unsent = dl"
        using total t1 by simp
      then have "seg_total ?sent = seg_total sent" using d(1,6) by simp
      then show ?thesis using d(4) by simp
    qed
    show ?thesis using slist_invI [OF t1 t2 d(3) t4 chain total d(7)] False by simp
  qed
qed

lemma slist_inv_split:
  assumes inv: "slist_inv una nxt dl l" and i: "sendable l i" and x: "s_xmit (l ! i) = 0"
    and n: "n \<le> s_len (l ! i)"
  shows "slist_inv una nxt dl (take i l @ [(l ! i)\<lparr>s_len := n\<rparr>,
           SSegment (s_seq (l ! i) + n) (s_len (l ! i) - n) (s_bCtrl (l ! i))] @ drop (Suc i) l)"
proof -
  from inv obtain sent unsent where d: "l = sent @ unsent" "\<forall>g \<in> set sent. s_xmit g > 0"
      "\<forall>g \<in> set unsent. s_xmit g = 0" "nxt = una + of_nat (seg_total sent)"
      "seg_chain una l" "seg_total l = dl" "unat una + dl < 4294967296"
    by (rule slist_invE)
  have il: "i < length l" using i by (simp add: sendable_def)
  let ?a = "(l ! i)\<lparr>s_len := n\<rparr>" and ?b = "SSegment (s_seq (l ! i) + n) (s_len (l ! i) - n) (s_bCtrl (l ! i))"
  have len: "i = length sent" using first_unsent_prefix [OF d(1) [symmetric] d(2) i x d(3)] by simp
  have tk: "take i l = sent" "drop (Suc i) l = tl unsent" using d(1) len by (simp_all add: drop_Suc)
  have sub: "set (tl unsent) \<subseteq> set unsent" by (cases unsent) auto
  have b: "s_seq ?b = s_seq (l ! i) + n" "s_len ?b = s_len (l ! i) - n" "s_xmit ?b = 0"
    by (simp_all add: SSegment_def)
  have r: "[?b] = [] \<and> n = s_len (l ! i)
         \<or> (\<exists>b. [?b] = [b] \<and> s_seq b = s_seq (l ! i) + n \<and> s_len b = s_len (l ! i) - n)"
    using b by blast
  have rep: "seg_chain una (take i l @ ?a # [?b] @ drop (Suc i) l)"
    "seg_total (take i l @ ?a # [?b] @ drop (Suc i) l) = seg_total l"
    by (rule replace_segment [OF d(5) il n _ _ r]; simp)+
  show ?thesis
  proof (rule slist_invI [OF _ d(2) _ d(4) _ _ d(7)])
    show "take i l @ [?a, ?b] @ drop (Suc i) l = sent @ (?a # ?b # tl unsent)" using tk by simp
    show "\<forall>g \<in> set (?a # ?b # tl unsent). s_xmit g = 0" using d(3) sub x b(3) by auto
    show "seg_chain una (take i l @ [?a, ?b] @ drop (Suc i) l)" using rep(1) by (simp only: append_Cons append_Nil)
    show "seg_total (take i l @ [?a, ?b] @ drop (Suc i) l) = dl"
      using rep(2) d(6) by (simp only: append_Cons append_Nil)
  qed
qed

section \<open>Queueing\<close>

definition enqueued :: "u32 \<Rightarrow> nat \<Rightarrow> sseg list \<Rightarrow> u32 \<Rightarrow> bool \<Rightarrow> sseg list" where
  "enqueued una dl l n c =
     (if l \<noteq> [] \<and> s_bCtrl (last l) = c \<and> s_xmit (last l) = 0
      then butlast l @ [(last l)\<lparr>s_len := s_len (last l) + n\<rparr>]
      else l @ [SSegment (una + of_nat dl) n c])"

lemma slist_inv_enqueued:
  assumes inv: "slist_inv una nxt dl l" and n: "unat una + dl + unat n < 4294967296"
  shows "slist_inv una nxt (dl + unat n) (enqueued una dl l n c)"
proof -
  from inv obtain sent unsent where d: "l = sent @ unsent" "\<forall>g \<in> set sent. s_xmit g > 0"
      "\<forall>g \<in> set unsent. s_xmit g = 0" "nxt = una + of_nat (seg_total sent)"
      "seg_chain una l" "seg_total l = dl" "unat una + dl < 4294967296"
    by (rule slist_invE)
  have n': "unat una + (dl + unat n) < 4294967296" using n by simp
  show ?thesis
  proof (cases "l \<noteq> [] \<and> s_bCtrl (last l) = c \<and> s_xmit (last l) = 0")
    case True
    have un: "unsent \<noteq> []"
    proof
      assume "unsent = []"
      then have "s_xmit (last l) > 0" using d(1,2) True by (cases sent rule: rev_cases) auto
      then show False using True by simp
    qed
    then obtain us g where g: "unsent = us @ [g]" by (cases unsent rule: rev_cases) auto
    have len: "unat (s_len g + n) = unat (s_len g) + unat n"
      using d(1,6) n g by (intro unat_add_less) simp
    let ?g = "g\<lparr>s_len := s_len g + n\<rparr>"
    have e: "enqueued una dl l n c = sent @ (us @ [?g])"
      using True d(1) g by (simp add: enqueued_def butlast_append)
    have chain: "seg_chain una (sent @ (us @ [?g]))" using d(1,5) g by simp
    have total: "seg_total (sent @ (us @ [?g])) = dl + unat n" using d(1,6) g len by simp
    have un0: "\<forall>x \<in> set (us @ [?g]). s_xmit x = 0" using d(3) g by simp
    show ?thesis
      unfolding e by (rule slist_invI [OF refl d(2) un0 d(4) chain total n'])
  next
    case False
    let ?g = "SSegment (una + of_nat dl) n c"
    have e: "enqueued una dl l n c = sent @ (unsent @ [?g])"
      using False d(1) by (auto simp: enqueued_def)
    have chain: "seg_chain una (sent @ (unsent @ [?g]))"
      using d(1,5,6) by (auto simp: SSegment_def add.assoc)
    have total: "seg_total (sent @ (unsent @ [?g])) = dl + unat n"
      using d(1,6) by (simp add: SSegment_def)
    have un0: "\<forall>x \<in> set (unsent @ [?g]). s_xmit x = 0" using d(3) by (simp add: SSegment_def)
    show ?thesis
      unfolding e by (rule slist_invI [OF refl d(2) un0 d(4) chain total n'])
  qed
qed

section \<open>Acknowledging\<close>

text \<open>The acknowledged bytes are those of a number of whole transmitted segments.\<close>

definition on_boundary :: "u32 \<Rightarrow> sseg list \<Rightarrow> u32 \<Rightarrow> bool" where
  "on_boundary una l a \<longleftrightarrow>
     (\<exists>k \<le> length l. (\<forall>g \<in> set (take k l). s_xmit g > 0) \<and> a = una + of_nat (seg_total (take k l)))"

lemma free_acked_total:
  "unat n \<le> seg_total l \<Longrightarrow>
    \<exists>l' lg'. free_acked n l lg = Some (l', lg') \<and> seg_total l' = seg_total l - unat n"
proof (induction n l lg rule: free_acked.induct)
  case (1 n lg)
  then show ?case by (simp add: unat_eq_zero)
next
  case (2 n g gs lg)
  show ?case
  proof (cases "n = 0 \<or> n < s_len g")
    case True
    then show ?thesis
      by (auto simp: unat_sub word_le_nat_alt word_less_nat_alt)
  next
    case False
    then have le: "unat (s_len g) \<le> unat n" by (simp add: word_less_nat_alt)
    then have u: "unat (n - s_len g) = unat n - unat (s_len g)"
      by (simp add: unat_sub word_le_nat_alt)
    have "unat (n - s_len g) \<le> seg_total gs" using "2.prems" u le by simp
    then obtain l' lg' where
      "free_acked (n - s_len g) gs (if s_len g > lg then s_len g else lg) = Some (l', lg')"
      "seg_total l' = seg_total gs - unat (n - s_len g)"
      using "2.IH" False by blast
    then show ?thesis using False u le by simp
  qed
qed

lemma free_acked_boundary:
  "seg_total (take k l) < 4294967296 \<Longrightarrow>
    \<exists>j \<le> k. \<exists>lg'. free_acked (of_nat (seg_total (take k l))) l lg = Some (drop j l, lg')
       \<and> seg_total (take j l) = seg_total (take k l)"
proof (induction l arbitrary: k lg)
  case Nil
  then show ?case by (intro exI [of _ 0]) simp
next
  case (Cons g gs)
  show ?case
  proof (cases "seg_total (take k (g # gs)) = 0")
    case True
    then show ?thesis by (intro exI [of _ 0]) (simp del: of_nat_add)
  next
    case False
    then obtain k' where k: "k = Suc k'" by (cases k) auto
    define n :: u32 where "n = of_nat (seg_total (take k (g # gs)))"
    have un: "unat n = unat (s_len g) + seg_total (take k' gs)"
      using Cons.prems k unfolding n_def by (simp add: unat_of_nat_u32 del: of_nat_add)
    have "unat n \<noteq> 0" using un False k by simp
    then have n0: "n \<noteq> 0" by (metis unat_0)
    have ge: "\<not> n < s_len g" using un by (simp add: word_less_nat_alt)
    have m: "n - s_len g = of_nat (seg_total (take k' gs))" unfolding n_def using k by simp
    have small: "seg_total (take k' gs) < 4294967296" using Cons.prems k by simp
    obtain j lg' where j: "j \<le> k'"
      "free_acked (n - s_len g) gs (if s_len g > lg then s_len g else lg) = Some (drop j gs, lg')"
      "seg_total (take j gs) = seg_total (take k' gs)"
      using Cons.IH [OF small, of "if s_len g > lg then s_len g else lg"] unfolding m [symmetric] by blast
    have "free_acked n (g # gs) lg = Some (drop (Suc j) (g # gs), lg')"
      using n0 ge j(2) by simp
    moreover have "seg_total (take (Suc j) (g # gs)) = seg_total (take k (g # gs))"
      using j(3) k by simp
    moreover have "Suc j \<le> k" using j(1) k by simp
    ultimately show ?thesis unfolding n_def by blast
  qed
qed

lemma slist_inv_acked:
  assumes inv: "slist_inv una nxt dl l" and a: "on_boundary una l a"
  shows "\<exists>l' lg'. free_acked (a - una) l lg = Some (l', lg')
           \<and> slist_inv a nxt (dl - unat (a - una)) l' \<and> unat (a - una) \<le> unat (nxt - una)"
proof -
  from inv obtain sent unsent where d: "l = sent @ unsent" "\<forall>g \<in> set sent. s_xmit g > 0"
      "\<forall>g \<in> set unsent. s_xmit g = 0" "nxt = una + of_nat (seg_total sent)"
      "seg_chain una l" "seg_total l = dl" "unat una + dl < 4294967296"
    by (rule slist_invE)
  from a obtain k where k: "k \<le> length l" "\<forall>g \<in> set (take k l). s_xmit g > 0"
      "a = una + of_nat (seg_total (take k l))"
    by (auto simp: on_boundary_def)
  have ksent: "k \<le> length sent"
  proof (rule ccontr)
    assume c: "\<not> k \<le> length sent"
    then obtain u us where u: "unsent = u # us" using k(1) d(1) by (cases unsent) auto
    obtain m where "k = Suc (length sent + m)" using c by (metis less_iff_Suc_add linorder_not_le)
    then have "take k l = sent @ u # take m us" using u d(1) by simp
    then show False using k(2) d(3) u by auto
  qed
  have tot: "seg_total (take j l) + seg_total (drop j l) = dl" for j
    using d(6) by (metis append_take_drop_id seg_total_simps(3))
  have tsent: "take j l = take j sent" if "j \<le> k" for j using that ksent d(1) by simp
  have sent_total: "seg_total sent = seg_total (take j sent) + seg_total (drop j sent)" for j
    by (metis append_take_drop_id seg_total_simps(3))
  have ks: "seg_total (take k l) \<le> seg_total sent"
    using sent_total [of k] tsent [of k] by simp
  have kdl: "seg_total (take k l) \<le> dl" using tot [of k] by simp
  have an: "a - una = of_nat (seg_total (take k l))" using k(3) by simp
  have ua: "unat (a - una) = seg_total (take k l)" using an kdl d(7) by (simp add: unat_of_nat_u32)
  obtain j lg' where j: "j \<le> k" "free_acked (a - una) l lg = Some (drop j l, lg')"
      "seg_total (take j l) = seg_total (take k l)"
    using free_acked_boundary [of k l lg] an kdl d(7) by auto
  have "slist_inv a nxt (dl - unat (a - una)) (drop j l)"
  proof (rule slist_invI [of _ "drop j sent" unsent])
    show "drop j l = drop j sent @ unsent" using d(1) j(1) ksent by simp
    show "\<forall>g \<in> set (drop j sent). s_xmit g > 0" using d(2) by (auto dest: in_set_dropD)
    show "\<forall>g \<in> set unsent. s_xmit g = 0" by (rule d(3))
    have "seg_total sent = seg_total (take j l) + seg_total (drop j sent)"
      using sent_total [of j] tsent [OF j(1)] by simp
    then show "nxt = a + of_nat (seg_total (drop j sent))"
      using d(4) k(3) j(3) by (simp add: add.assoc)
    have "seg_chain una (take j l @ drop j l)" using d(5) by simp
    then show "seg_chain a (drop j l)" using k(3) j(3) by (simp del: append_take_drop_id)
    show "seg_total (drop j l) = dl - unat (a - una)" using tot [of j] j(3) ua by simp
    have "unat a = unat una + seg_total (take k l)"
      unfolding k(3) using kdl d(7) by (intro unat_add_of_nat) simp
    then show "unat a + (dl - unat (a - una)) < 4294967296" using ua kdl d(7) by simp
  qed
  moreover have "unat (nxt - una) = seg_total sent"
    using d(4,6,7) d(1) by (simp add: unat_of_nat_u32)
  ultimately show ?thesis using j(2) ua ks by auto
qed

section \<open>The next segment to send\<close>

lemma first_unsent_spec:
  assumes "first_unsent l = Some i"
  shows "sendable l i" "s_xmit (l ! i) = 0"
proof -
  let ?n = "length (takeWhile (\<lambda>g. s_xmit g > 0) l)"
  have i: "i = ?n" "?n < length l"
    using assms by (auto simp: first_unsent_def Let_def split: if_splits)
  then have "\<not> s_xmit (l ! i) > 0" using nth_length_takeWhile [of "\<lambda>g. s_xmit g > 0" l] by simp
  then show "s_xmit (l ! i) = 0" by (metis word_neq_0_conv)
  have "s_xmit (l ! j) > 0" if "j < ?n" for j
    using that i(2) by (metis nth_mem set_takeWhileD takeWhile_nth)
  then show "sendable l i" using i by (simp add: sendable_def)
qed

text \<open>When fewer bytes are in flight than are buffered there is an unsent segment.\<close>

lemma first_unsent_exists:
  assumes inv: "slist_inv una nxt dl l" and less: "unat (nxt - una) < dl"
  shows "\<exists>i. first_unsent l = Some i"
proof -
  let ?tw = "takeWhile (\<lambda>g. s_xmit g > 0) l"
  have "length ?tw < length l"
  proof (rule ccontr)
    assume "\<not> length ?tw < length l"
    then have "length l \<le> length ?tw" by simp
    then have "?tw = l" by (metis takeWhile_eq_take take_all length_takeWhile_le le_antisym)
    then have "seg_total ?tw = seg_total l" by (rule arg_cong)
    then have "unat (nxt - una) = seg_total l" by (simp only: slist_inv_flight(1) [OF inv])
    then show False using less inv by (simp add: slist_inv_def)
  qed
  then show ?thesis by (simp add: first_unsent_def Let_def)
qed

end
