(* ===== verification/Tcp_Invariant.thy ===== *)
theory Tcp_Invariant
  imports Send_Queue
begin

text \<open>
  The invariant of PseudoTcp (talk/p2p/base/pseudotcp.cc) under which none of its operations
  ends the program, and the first layer of its preservation: sending packets.
  \<open>send_ok\<close> is the part on the send queue and the congestion variables, \<open>recv_ok\<close> the
  part on the receive buffer, \<open>recv_agree S\<close> says that what is buffered comes from the
  stream \<open>S\<close> of the peer, indexed by sequence number.
\<close>

section \<open>The invariant\<close>

definition net_ok :: "tcp \<Rightarrow> bool" where
  "net_ok s \<longleftrightarrow> 0 < m_mss s \<and> m_mss s \<le> 65419 \<and> m_msslevel s \<le> 9 \<and> m_cwnd s \<noteq> 0"

definition send_ok :: "tcp \<Rightarrow> bool" where
  "send_ok s \<longleftrightarrow> fifo_ok (m_sbuf s)
     \<and> slist_inv (m_snd_una s) (m_snd_nxt s) (f_data_length (m_sbuf s)) (m_slist s)
     \<and> net_ok s \<and> 116 < m_mtu_advise s \<and> m_mtu_advise s \<le> 65535 \<and> m_ssthresh s \<noteq> 0
     \<and> (m_rto_base s \<noteq> 0 \<longrightarrow> m_slist s \<noteq> [])
     \<and> m_recover s \<le> m_snd_nxt s"

definition rseg_ok :: "tcp \<Rightarrow> rseg \<Rightarrow> bool" where
  "rseg_ok s r \<longleftrightarrow> unat (r_seq r) + unat (r_len r) < 4294967296
     \<and> unat (r_seq r) + unat (r_len r) \<le> unat (m_rcv_nxt s) + GetWriteRemaining (m_rbuf s)"

definition recv_ok :: "tcp \<Rightarrow> bool" where
  "recv_ok s \<longleftrightarrow> fifo_ok (m_rbuf s) \<and> sorted (map r_seq (m_rlist s))
     \<and> (\<forall>r \<in> set (m_rlist s). rseg_ok s r)"

definition covered :: "rseg list \<Rightarrow> nat set" where
  "covered l = (\<Union>r \<in> set l. {unat (r_seq r) ..< unat (r_seq r) + unat (r_len r)})"

definition agree_on :: "(nat \<Rightarrow> byte) \<Rightarrow> nat set \<Rightarrow> tcp \<Rightarrow> bool" where
  "agree_on S C s \<longleftrightarrow> f_data_length (m_rbuf s) \<le> unat (m_rcv_nxt s)
     \<and> fifo_contents (m_rbuf s)
         = map S [unat (m_rcv_nxt s) - f_data_length (m_rbuf s) ..< unat (m_rcv_nxt s)]
     \<and> stream_agree (fifo_window (m_rbuf s)) (unat (m_rcv_nxt s)) C S"

text \<open>After a close, arriving data is only counted.\<close>

definition recv_agree :: "(nat \<Rightarrow> byte) \<Rightarrow> tcp \<Rightarrow> bool" where
  "recv_agree S s \<longleftrightarrow> (m_shutdown s = SD_NONE \<longrightarrow> agree_on S (covered (m_rlist s)) s)"

text \<open>The fields the receive side consists of, and those the send side keeps besides \<open>m_mss\<close>, \<open>m_msslevel\<close> and \<open>m_cwnd\<close>.\<close>

definition same_recv :: "tcp \<Rightarrow> tcp \<Rightarrow> bool" where
  "same_recv s s' \<longleftrightarrow> m_rbuf s' = m_rbuf s \<and> m_rlist s' = m_rlist s \<and> m_rcv_nxt s' = m_rcv_nxt s
     \<and> m_rwnd_scale s' = m_rwnd_scale s \<and> m_rbuf_len s' = m_rbuf_len s \<and> m_rcv_wnd s' = m_rcv_wnd s
     \<and> m_shutdown s' = m_shutdown s"

definition same_send :: "tcp \<Rightarrow> tcp \<Rightarrow> bool" where
  "same_send s s' \<longleftrightarrow> m_sbuf s' = m_sbuf s \<and> m_slist s' = m_slist s \<and> m_snd_una s' = m_snd_una s
     \<and> m_snd_nxt s' = m_snd_nxt s \<and> m_snd_wnd s' = m_snd_wnd s \<and> m_mtu_advise s' = m_mtu_advise s
     \<and> m_ssthresh s' = m_ssthresh s \<and> m_rto_base s' = m_rto_base s \<and> m_dup_acks s' = m_dup_acks s
     \<and> m_recover s' = m_recover s \<and> m_use_nagling s' = m_use_nagling s \<and> m_rx_rto s' = m_rx_rto s
     \<and> m_state s' = m_state s \<and> m_shutdown s' = m_shutdown s"

definition same_net :: "tcp \<Rightarrow> tcp \<Rightarrow> bool" where
  "same_net s s' \<longleftrightarrow> m_mss s' = m_mss s \<and> m_msslevel s' = m_msslevel s \<and> m_cwnd s' = m_cwnd s"

lemmas same_defs = same_recv_def same_send_def same_net_def

lemma same_refl [simp]: "same_recv s s" "same_send s s" "same_net s s"
  by (simp_all add: same_defs)

lemma same_recv_trans: "same_recv a b \<Longrightarrow> same_recv b c \<Longrightarrow> same_recv a c"
  by (simp add: same_recv_def)

lemma same_send_trans: "same_send a b \<Longrightarrow> same_send b c \<Longrightarrow> same_send a c"
  by (simp add: same_send_def)

lemma send_ok_cong: "same_send s s' \<Longrightarrow> net_ok s' \<Longrightarrow> send_ok s \<Longrightarrow> send_ok s'"
  by (simp add: same_send_def send_ok_def)

lemma net_ok_cong: "same_net s s' \<Longrightarrow> net_ok s \<Longrightarrow> net_ok s'"
  by (simp add: same_net_def net_ok_def)

lemma recv_ok_cong: "same_recv s s' \<Longrightarrow> recv_ok s \<Longrightarrow> recv_ok s'"
  by (simp add: same_recv_def recv_ok_def rseg_ok_def)

lemma recv_agree_cong: "same_recv s s' \<Longrightarrow> recv_agree S s \<Longrightarrow> recv_agree S s'"
  by (simp add: same_recv_def recv_agree_def agree_on_def)

section \<open>Packets\<close>

lemma packet_ok:
  assumes fifo: "fifo_ok (m_sbuf s)" and len: "unat len \<le> 65511"
    and off: "unat offset + unat len \<le> f_data_length (m_sbuf s)"
  shows "\<exists>r s'. packet env seq flags offset len s = Some (r, s')
           \<and> same_send s s' \<and> same_recv s s' \<and> same_net s s' \<and> (len = 0 \<longrightarrow> r = WR_SUCCESS)
           \<and> x_sent s' = x_sent s @ [packet_header seq flags (env_now env (x_now_calls s)) s
                @ take (unat len) (drop (unat offset) (fifo_contents (m_sbuf s)))]"
proof -
  let ?now = "env_now env (x_now_calls s)"
  let ?pay = "take (unat len) (drop (unat offset) (fifo_contents (m_sbuf s)))"
  have hdr: "HEADER_SIZE + len \<le> MAX_PACKET"
  proof -
    have "unat (HEADER_SIZE + len) = 24 + unat len"
      using len by (subst unat_add_less) (simp_all add: HEADER_SIZE_def)
    then show ?thesis using len by (simp add: MAX_PACKET_def word_le_nat_alt)
  qed
  show ?thesis
  proof (cases "len = 0")
    case True
    then show ?thesis
      unfolding packet_def
      by (simp add: Now_def Let_def ASSERT_def same_defs packet_header_def HEADER_SIZE_def MAX_PACKET_def)
  next
    case False
    then have "0 < unat len" by (simp add: unat_gt_0)
    with fq.peek_exact [OF fifo, of "unat offset" "unat len"] off
    have "ReadOffset (unat len) (unat offset) (m_sbuf s) = (SR_SUCCESS, ?pay)" "length ?pay = unat len"
      by simp_all
    then show ?thesis using False
      unfolding packet_def
      by (simp add: Now_def Let_def hdr ASSERT_def same_defs packet_header_def)
  qed
qed

section \<open>Transmitting\<close>

text \<open>The congestion window did not grow, or was set from the segment size.\<close>

definition calm :: "tcp \<Rightarrow> tcp \<Rightarrow> bool" where
  "calm s s' \<longleftrightarrow> m_cwnd s' \<le> max (m_cwnd s) 130838"

lemma calm_refl [simp]: "calm s s"
  by (simp add: calm_def)

lemma calm_trans: "calm a b \<Longrightarrow> calm b c \<Longrightarrow> calm a c"
  by (auto simp: calm_def max_def split: if_splits)

lemma calm_eq: "m_cwnd s' = m_cwnd s \<Longrightarrow> calm s s'"
  by (simp add: calm_def)

lemma PACKET_MAXIMUMS_levels:
  assumes "0 < k" "k \<le> 9"
  shows "PACKET_MAXIMUMS ! k \<noteq> 0" "0 < ucast (PACKET_MAXIMUMS ! k) - PACKET_OVERHEAD"
    "ucast (PACKET_MAXIMUMS ! k) - PACKET_OVERHEAD \<le> 65419"
proof -
  have "k = 1 \<or> k = 2 \<or> k = 3 \<or> k = 4 \<or> k = 5 \<or> k = 6 \<or> k = 7 \<or> k = 8 \<or> k = 9"
    using assms by arith
  then show "PACKET_MAXIMUMS ! k \<noteq> 0" "0 < ucast (PACKET_MAXIMUMS ! k) - PACKET_OVERHEAD"
    "ucast (PACKET_MAXIMUMS ! k) - PACKET_OVERHEAD \<le> 65419"
    by (elim disjE; simp add: PACKET_MAXIMUMS_def PACKET_OVERHEAD_def HEADER_SIZE_def
        UDP_HEADER_SIZE_def IP_HEADER_SIZE_def JINGLE_HEADER_SIZE_def)+
qed

lemma double_mss:
  assumes "0 < m" "m \<le> (65419 :: u32)"
  shows "2 * m \<noteq> 0" "2 * m \<le> 130838" "unat (2 * m) = 2 * unat m"
proof -
  have "unat m * 2 < 4294967296" using assms by (simp add: word_le_nat_alt)
  then show u: "unat (2 * m) = 2 * unat m"
    using unat_mult_lem [of 2 m] by (simp add: mult.commute)
  have "0 < unat m" using assms(1) by (simp add: word_less_nat_alt)
  then have "unat (2 * m) \<noteq> 0" using u by simp
  then show "2 * m \<noteq> 0" by (metis unat_0)
  show "2 * m \<le> 130838" using u assms by (simp add: word_le_nat_alt)
qed

lemma shrink_mss_ok:
  "m_msslevel s \<le> 9 \<Longrightarrow> \<exists>r s'. shrink_mss n s = Some (r, s') \<and> same_send s s' \<and> same_recv s s'
     \<and> (net_ok s \<longrightarrow> net_ok s') \<and> calm s s'
     \<and> x_sent s' = x_sent s
     \<and> (\<forall>n'. r = Some n' \<longrightarrow> 0 < n' \<and> n' < n \<and> n' = m_mss s' \<and> n' \<le> 65419)"
proof (induction n s rule: shrink_mss.induct)
  case (1 n s)
  show ?case
  proof (cases "PACKET_MAXIMUMS ! (m_msslevel s + 1) = 0")
    case True
    then show ?thesis using "1.prems"
      by (subst shrink_mss.simps) (simp add: PACKET_MAXIMUMS_def)
  next
    case False
    let ?level = "m_msslevel s + 1"
    let ?mss = "ucast (PACKET_MAXIMUMS ! ?level) - PACKET_OVERHEAD :: u32"
    let ?s = "s\<lparr>m_msslevel := ?level, m_mss := ?mss, m_cwnd := 2 * ?mss\<rparr>"
    have len: "length PACKET_MAXIMUMS = 11" by (simp add: PACKET_MAXIMUMS_def)
    have level: "?level \<le> 9"
    proof (rule ccontr)
      assume "\<not> ?level \<le> 9"
      then have "?level = 10" using "1.prems" by simp
      then show False using False by (simp add: PACKET_MAXIMUMS_def)
    qed
    note mss = PACKET_MAXIMUMS_levels [OF _ level]
    have new: "same_send s ?s" "same_recv s ?s" "net_ok ?s" "calm s ?s"
      using mss double_mss [of ?mss] level by (auto simp: same_defs net_ok_def calm_def le_max_iff_disj)
    show ?thesis
    proof (cases "?mss < n")
      case True
      then show ?thesis using False new mss level len
        by (subst shrink_mss.simps) (simp add: Let_def)
    next
      case no: False
      have "shrink_mss n s = shrink_mss n ?s"
        using False no level len by (subst shrink_mss.simps) (simp add: Let_def)
      moreover have "\<exists>r s'. shrink_mss n ?s = Some (r, s') \<and> same_send ?s s' \<and> same_recv ?s s'
           \<and> (net_ok ?s \<longrightarrow> net_ok s') \<and> calm ?s s'
           \<and> x_sent s' = x_sent ?s
           \<and> (\<forall>n'. r = Some n' \<longrightarrow> 0 < n' \<and> n' < n \<and> n' = m_mss s' \<and> n' \<le> 65419)"
        using "1.IH" [of ?level ?mss ?s] False no level len by simp
      ultimately show ?thesis
        using new by (auto intro: same_send_trans same_recv_trans calm_trans)
    qed
  qed
qed

text \<open>The loop hands the segment to the network in at least one packet; the payloads get shorter.\<close>

lemma transmit_loop_ok:
  "fifo_ok (m_sbuf s) \<Longrightarrow> net_ok s \<Longrightarrow> unat n \<le> 65419 \<Longrightarrow>
   unat (seq - m_snd_una s) + unat n \<le> f_data_length (m_sbuf s) \<Longrightarrow>
   \<exists>r s'. transmit_loop env seq flags n s = Some (r, s') \<and> same_send s s' \<and> same_recv s s' \<and> net_ok s'
     \<and> calm s s'
     \<and> (\<forall>n'. r = Some n' \<longrightarrow> n' \<le> n \<and> (0 < n \<longrightarrow> 0 < n'))"
proof (induction env seq flags n s rule: transmit_loop.induct)
  case (1 env seq flags n s)
  obtain r s1 where p: "packet env seq flags (seq - m_snd_una s) n s = Some (r, s1)"
      "same_send s s1" "same_recv s s1" "same_net s s1"
    using packet_ok [of s n "seq - m_snd_una s" env seq flags] "1.prems" by auto
  have net1: "net_ok s1" "calm s s1"
    using p(4) "1.prems"(2) by (auto intro: net_ok_cong simp: same_net_def calm_def)
  show ?case
  proof (cases r)
    case WR_SUCCESS
    then show ?thesis using p net1 by (subst transmit_loop.simps) simp
  next
    case WR_FAIL
    then show ?thesis using p net1 by (subst transmit_loop.simps) simp
  next
    case WR_TOO_LARGE
    obtain q s2 where q: "shrink_mss n s1 = Some (q, s2)" "same_send s1 s2" "same_recv s1 s2"
        "net_ok s2" "calm s1 s2"
        "\<And>n'. q = Some n' \<Longrightarrow> 0 < n' \<and> n' < n \<and> n' \<le> 65419"
      using shrink_mss_ok [of s1 n] net1(1) by (auto simp: net_ok_def)
    have same2: "same_send s s2" "same_recv s s2" "calm s s2"
      using p(2,3) net1(2) q(2,3,5) same_send_trans same_recv_trans calm_trans by blast+
    show ?thesis
    proof (cases q)
      case None
      then show ?thesis using p(1) q(1,4) WR_TOO_LARGE same2
        by (subst transmit_loop.simps) simp
    next
      case (Some m)
      have m: "0 < m" "m < n" "m \<le> 65419" using q(6) [OF Some] by auto
      have "fifo_ok (m_sbuf s2)" "m_snd_una s2 = m_snd_una s" "m_sbuf s2 = m_sbuf s"
        using same2(1) "1.prems"(1) by (simp_all add: same_send_def)
      then have "\<exists>r s'. transmit_loop env seq flags m s2 = Some (r, s') \<and> same_send s2 s' \<and> same_recv s2 s'
          \<and> net_ok s' \<and> calm s2 s' \<and> (\<forall>n'. r = Some n' \<longrightarrow> n' \<le> m \<and> (0 < m \<longrightarrow> 0 < n'))"
        using m "1.prems"(4) q(1,4) Some p(1) WR_TOO_LARGE
        by (intro "1.IH" [of "(r, s1)" r s1 "(q, s2)" q s2 m])
           (auto simp: word_le_nat_alt word_less_nat_alt)
      then obtain r' s' where r': "transmit_loop env seq flags m s2 = Some (r', s')"
          "same_send s2 s'" "same_recv s2 s'" "net_ok s'" "calm s2 s'"
          "\<forall>n'. r' = Some n' \<longrightarrow> n' \<le> m \<and> 0 < n'"
        using m(1) by auto
      have "transmit_loop env seq flags n s = Some (r', s')"
        using p(1) q(1) Some WR_TOO_LARGE r'(1) by (subst transmit_loop.simps) simp
      moreover have "same_send s s'" "same_recv s s'" "calm s s'"
        using same2 r'(2,3,5) same_send_trans same_recv_trans calm_trans by blast+
      moreover have "\<forall>n'. r' = Some n' \<longrightarrow> n' \<le> n \<and> (0 < n \<longrightarrow> 0 < n')"
        using r'(6) m(2) by auto
      ultimately show ?thesis using r'(4) by blast
    qed
  qed
qed

text \<open>What the send side keeps when segments are transmitted or split.\<close>

definition same_app :: "tcp \<Rightarrow> tcp \<Rightarrow> bool" where
  "same_app s s' \<longleftrightarrow> m_sbuf s' = m_sbuf s \<and> m_snd_una s' = m_snd_una s \<and> m_snd_wnd s' = m_snd_wnd s
     \<and> m_mtu_advise s' = m_mtu_advise s \<and> m_ssthresh s' = m_ssthresh s
     \<and> m_dup_acks s' = m_dup_acks s \<and> m_recover s' = m_recover s
     \<and> m_use_nagling s' = m_use_nagling s \<and> m_state s' = m_state s \<and> m_shutdown s' = m_shutdown s"

lemma same_app_refl [simp]: "same_app s s"
  by (simp add: same_app_def)

lemma same_app_trans: "same_app a b \<Longrightarrow> same_app b c \<Longrightarrow> same_app a c"
  by (simp add: same_app_def)

lemma same_send_app: "same_send s s' \<Longrightarrow> same_app s s'"
  by (simp add: same_send_def same_app_def)

lemma send_ok_slist:
  assumes "send_ok s" "same_app s s'" "net_ok s'"
    "slist_inv (m_snd_una s) (m_snd_nxt s') (f_data_length (m_sbuf s)) (m_slist s')"
    "m_slist s' \<noteq> []" "m_snd_nxt s \<le> m_snd_nxt s'"
  shows "send_ok s'"
  using assms by (auto simp: send_ok_def same_app_def)

lemma transmit_ok:
  assumes ok: "send_ok s" and i: "sendable (m_slist s) i"
  shows "\<exists>b s'. transmit env i now s = Some (b, s') \<and> send_ok s' \<and> same_recv s s' \<and> same_app s s'
     \<and> calm s s' \<and> (\<not> b \<longrightarrow> same_send s s')
     \<and> (b \<longrightarrow> m_slist s' \<noteq> [] \<and> m_snd_nxt s \<le> m_snd_nxt s' \<and> (\<exists>n \<le> s_len (m_slist s ! i). (0 < s_len (m_slist s ! i) \<longrightarrow> 0 < n)
          \<and> m_slist s' = transmitted (m_slist s) i n
          \<and> m_snd_nxt s' = (if s_xmit (m_slist s ! i) = 0 then m_snd_nxt s + n else m_snd_nxt s)))"
proof -
  let ?l = "m_slist s" and ?seg = "m_slist s ! i"
  let ?limit = "if m_state s = TCP_ESTABLISHED then 15 else 30 :: u8"
  from ok have parts: "fifo_ok (m_sbuf s)" "net_ok s"
    and inv: "slist_inv (m_snd_una s) (m_snd_nxt s) (f_data_length (m_sbuf s)) ?l"
    by (simp_all add: send_ok_def)
  have il: "i < length ?l" using i by (simp add: sendable_def)
  show ?thesis
  proof (cases "s_xmit ?seg \<ge> ?limit")
    case True
    then have "transmit env i now s = Some (False, s)" using il by (simp add: transmit_def)
    then show ?thesis using ok by auto
  next
    case False
    let ?n0 = "min (s_len ?seg) (m_mss s)"
    note off = slist_inv_offset [OF inv il]
    have n0: "unat ?n0 \<le> 65419" "?n0 \<le> s_len ?seg"
      using parts(2) by (auto simp: net_ok_def min_def word_le_nat_alt)
    have bound: "unat (s_seq ?seg - m_snd_una s) + unat ?n0 \<le> f_data_length (m_sbuf s)"
      using off n0(2) by (simp add: word_le_nat_alt)
    obtain r s1 where t: "transmit_loop env (s_seq ?seg) (if s_bCtrl ?seg then FLAG_CTL else 0) ?n0 s
          = Some (r, s1)" "same_send s s1" "same_recv s s1" "net_ok s1"
        "calm s s1"
        "\<forall>n'. r = Some n' \<longrightarrow> n' \<le> ?n0 \<and> (0 < ?n0 \<longrightarrow> 0 < n')"
      using transmit_loop_ok [OF parts(1,2) n0(1) bound] by blast
    show ?thesis
    proof (cases r)
      case None
      then have "transmit env i now s = Some (False, s1)"
        using False il t(1) by (simp add: transmit_def Let_def)
      moreover have "send_ok s1" by (rule send_ok_cong [OF t(2,4) ok])
      ultimately show ?thesis using t(2,3,5) by (auto intro: same_send_app)
    next
      case (Some n)
      have n: "n \<le> s_len ?seg" "0 < s_len ?seg \<longrightarrow> 0 < n"
        using t(6) Some n0(2) parts(2) by (auto simp: net_ok_def min_def split: if_splits)
      have x: "s_xmit ?seg + 1 > 0"
      proof -
        have "unat (s_xmit ?seg) < 30"
          using False by (auto simp: word_le_nat_alt split: if_splits)
        then have "unat (s_xmit ?seg + 1) = unat (s_xmit ?seg) + 1"
          by (subst unat_add_lem [THEN iffD1]) simp_all
        then have "unat (s_xmit ?seg + 1) \<noteq> 0" by simp
        then show ?thesis by (metis unat_0 word_neq_0_conv)
      qed
      note inv' = slist_inv_transmitted [OF inv i n(1) x]
      define s' where "s' = snd (the (transmit env i now s))"
      have s': "transmit env i now s = Some (True, s')"
        "m_slist s' = transmitted ?l i n"
        "m_snd_nxt s' = (if s_xmit ?seg = 0 then m_snd_nxt s + n else m_snd_nxt s)"
        "same_app s s'" "same_recv s s'" "net_ok s'" "calm s s'"
        using t(2-5) False il t(1) Some n(1) unfolding s'_def
        by (auto simp: transmit_def Let_def transmitted_def same_send_def same_app_def same_recv_def
            net_ok_def calm_def)
      have ne: "m_slist s' \<noteq> []" using s'(2) by (simp add: transmitted_def)
      have inv2: "slist_inv (m_snd_una s) (m_snd_nxt s') (f_data_length (m_sbuf s)) (m_slist s')"
        using inv' s'(2,3) by simp
      have mono: "m_snd_nxt s \<le> m_snd_nxt s'"
      proof (cases "s_xmit ?seg = 0")
        case True
        have d: "m_snd_nxt s = m_snd_una s + of_nat (unat (m_snd_nxt s - m_snd_una s))"
          "m_snd_nxt s' = m_snd_una s + of_nat (unat (m_snd_nxt s' - m_snd_una s))" by simp_all
        have "unat (m_snd_nxt s) + unat n < 4294967296"
        proof -
          obtain sent unsent where u: "?l = sent @ unsent" "\<forall>g \<in> set sent. s_xmit g > 0"
              "\<forall>g \<in> set unsent. s_xmit g = 0" "m_snd_nxt s = m_snd_una s + of_nat (seg_total sent)"
              "seg_total ?l = f_data_length (m_sbuf s)"
              "unat (m_snd_una s) + f_data_length (m_sbuf s) < 4294967296"
            using inv by (rule slist_invE)
          have "i = length sent" using first_unsent_prefix [OF u(1) [symmetric] u(2) i True u(3)] by simp
          then have "seg_total (take i ?l) = seg_total sent" using u(1) by simp
          then have "seg_total sent + unat n \<le> f_data_length (m_sbuf s)"
            using off(2) n(1) by (simp add: word_le_nat_alt)
          moreover have "unat (m_snd_nxt s) = unat (m_snd_una s) + seg_total sent"
            using u by (simp add: unat_add_of_nat)
          ultimately show ?thesis using u(6) by simp
        qed
        then have "unat (m_snd_nxt s + n) = unat (m_snd_nxt s) + unat n"
          by (intro unat_add_less) simp
        then show ?thesis using s'(3) True by (simp add: word_le_nat_alt)
      qed (use s'(3) in simp)
      have "send_ok s'" by (rule send_ok_slist [OF ok s'(4,6) inv2 ne mono])
      then show ?thesis using s'(1,4,5,7) ne n mono s'(2,3) by blast
    qed
  qed
qed

section \<open>The send loop ends\<close>

text \<open>Transmitted segments only get followed by more of them, so the peer's boundaries stay boundaries.\<close>

definition extends :: "sseg list \<Rightarrow> sseg list \<Rightarrow> bool" where
  "extends l l' \<longleftrightarrow> (\<exists>rest. l' = takeWhile (\<lambda>g. s_xmit g > 0) l @ rest)"

lemma extends_refl [simp]: "extends l l"
  unfolding extends_def by (metis takeWhile_dropWhile_id)

lemma extends_trans:
  assumes "extends a b" "extends b c"
  shows "extends a c"
proof -
  let ?p = "\<lambda>g. s_xmit g > 0"
  obtain r where r: "b = takeWhile ?p a @ r" using assms(1) by (auto simp: extends_def)
  have "takeWhile ?p b = takeWhile ?p a @ takeWhile ?p r"
    unfolding r by (rule takeWhile_append2) (auto dest: set_takeWhileD)
  then show ?thesis using assms(2) by (auto simp: extends_def)
qed

lemma on_boundary_extends:
  assumes "extends l l'" "on_boundary una l a"
  shows "on_boundary una l' a"
proof -
  let ?p = "\<lambda>g. s_xmit g > 0"
  obtain r where r: "l' = takeWhile ?p l @ r" using assms(1) by (auto simp: extends_def)
  obtain k where k: "k \<le> length l" "\<forall>g \<in> set (take k l). ?p g" "a = una + of_nat (seg_total (take k l))"
    using assms(2) by (auto simp: on_boundary_def)
  have "takeWhile ?p l = take k l @ takeWhile ?p (drop k l)"
    using takeWhile_append2 [of "take k l" ?p "drop k l"] k(2) by simp
  then have e: "take k l' = take k l" "k \<le> length l'" unfolding r using k(1) by simp_all
  then show ?thesis unfolding on_boundary_def using k by (intro exI [of _ k]) (simp add: e)
qed

lemma extends_transmitted:
  assumes "sendable l i" "s_xmit (l ! i) = 0"
  shows "extends l (transmitted l i n)"
proof -
  have "takeWhile (\<lambda>g. s_xmit g > 0) l = take i l"
    using assms by (intro takeWhile_eq_take_P_nth) (auto simp: sendable_def)
  then show ?thesis by (auto simp: extends_def transmitted_def)
qed

lemma extends_split:
  assumes "sendable l i" "s_xmit (l ! i) = 0"
  shows "extends l (take i l @ rest)"
proof -
  have "takeWhile (\<lambda>g. s_xmit g > 0) l = take i l"
    using assms by (intro takeWhile_eq_take_P_nth) (auto simp: sendable_def)
  then show ?thesis by (auto simp: extends_def)
qed

definition unsent_bytes :: "tcp \<Rightarrow> nat" where
  "unsent_bytes s = f_data_length (m_sbuf s) - unat (m_snd_nxt s - m_snd_una s)"

definition unsent_segs :: "tcp \<Rightarrow> nat" where
  "unsent_segs s = length (filter (\<lambda>g. s_xmit g = 0) (m_slist s))"

lemma send_available_pos:
  assumes "send_ok s" "send_available s \<noteq> 0"
  shows "unat (m_snd_nxt s - m_snd_una s) < f_data_length (m_sbuf s)"
proof (rule ccontr)
  assume c: "\<not> unat (m_snd_nxt s - m_snd_una s) < f_data_length (m_sbuf s)"
  have "unat (m_snd_nxt s - m_snd_una s) \<le> f_data_length (m_sbuf s)"
    using assms(1) slist_inv_flight(2) by (auto simp: send_ok_def)
  then have "of_nat (f_data_length (m_sbuf s)) = m_snd_nxt s - m_snd_una s"
    using c of_nat_unat_u32 [of "m_snd_nxt s - m_snd_una s"] by simp
  then have "sbuf_buffered s - in_flight s = 0"
    by (simp add: sbuf_buffered_def in_flight_def GetBuffered_def)
  then show False using assms(2) by (simp add: send_available_def Let_def)
qed

lemma send_available_mss: "send_available s \<le> m_mss s"
  by (auto simp: send_available_def Let_def min_def not_le split: if_splits)

lemma split_segment_ok:
  fixes n :: u32
  assumes ok: "send_ok s" and i: "sendable (m_slist s) i" and x: "s_xmit (m_slist s ! i) = 0"
  defines "s' \<equiv> split_segment i n s"
  shows "send_ok s'" "sendable (m_slist s') i" "s_xmit (m_slist s' ! i) = 0"
    "same_app s s'" "same_recv s s'" "m_snd_nxt s' = m_snd_nxt s" "m_cwnd s' = m_cwnd s"
    "extends (m_slist s) (m_slist s')"
    "s_len (m_slist s' ! i) = min (s_len (m_slist s ! i)) n"
    "\<not> n < s_len (m_slist s ! i) \<Longrightarrow> m_slist s' = m_slist s"
proof -
  let ?seg = "m_slist s ! i"
  let ?cut = "take i (m_slist s) @ [?seg\<lparr>s_len := n\<rparr>,
     SSegment (s_seq ?seg + n) (s_len ?seg - n) (s_bCtrl ?seg)] @ drop (Suc i) (m_slist s)"
  have il: "i < length (m_slist s)" using i by (simp add: sendable_def)
  have s': "s' = (if n < s_len ?seg then s\<lparr>m_slist := ?cut\<rparr> else s)"
    by (simp add: s'_def split_segment_def Let_def)
  have nth: "?cut ! i = ?seg\<lparr>s_len := n\<rparr>" using il by (simp add: nth_append)
  have pre: "?cut ! j = m_slist s ! j" if "j < i" for j using that il by (simp add: nth_append)
  show "same_app s s'" "same_recv s s'" "m_snd_nxt s' = m_snd_nxt s" "m_cwnd s' = m_cwnd s"
    "\<not> n < s_len ?seg \<Longrightarrow> m_slist s' = m_slist s"
    by (simp_all add: s' same_app_def same_recv_def)
  show "extends (m_slist s) (m_slist s')"
    using extends_split [OF i x] by (simp add: s')
  show "s_len (m_slist s' ! i) = min (s_len ?seg) n"
  proof (cases "n < s_len ?seg")
    case True
    then have "m_slist s' ! i = ?seg\<lparr>s_len := n\<rparr>" using nth s' by simp
    then show ?thesis using True by simp
  qed (simp add: s' min_absorb1)
  show "s_xmit (m_slist s' ! i) = 0"
  proof (cases "n < s_len ?seg")
    case True
    then have "m_slist s' ! i = ?seg\<lparr>s_len := n\<rparr>" using nth s' by simp
    then show ?thesis using x by simp
  qed (use x in \<open>simp add: s'\<close>)
  show "sendable (m_slist s') i"
  proof (cases "n < s_len ?seg")
    case True
    then show ?thesis using i il pre by (simp add: s' sendable_def)
  qed (use i in \<open>simp add: s'\<close>)
  show "send_ok s'"
  proof (cases "n < s_len ?seg")
    case True
    have "slist_inv (m_snd_una s) (m_snd_nxt s) (f_data_length (m_sbuf s)) (m_slist s)"
      using ok by (simp add: send_ok_def)
    from slist_inv_split [OF this i x, of n] True
    have "slist_inv (m_snd_una s) (m_snd_nxt s) (f_data_length (m_sbuf s)) ?cut" by simp
    then show ?thesis using ok True by (simp add: s' send_ok_def net_ok_def)
  qed (use ok in \<open>simp add: s'\<close>)
qed

end
