(* ===== verification/Tcp_Send_Proofs.thy ===== *)
theory Tcp_Send_Proofs
  imports Tcp_Invariant
begin

text \<open>
  The send loop of PseudoTcp ends and keeps the invariant; so do queueing, acknowledgements
  and the timers (talk/p2p/base/pseudotcp.cc).
\<close>

section \<open>The send loop\<close>

definition send_post :: "tcp \<Rightarrow> tcp \<Rightarrow> bool" where
  "send_post s s' \<longleftrightarrow> send_ok s' \<and> same_recv s s' \<and> same_app s s' \<and> calm s s'
     \<and> extends (m_slist s) (m_slist s') \<and> m_snd_nxt s \<le> m_snd_nxt s'
     \<and> unat (in_flight s') \<le> max (unat (in_flight s)) (unat (m_snd_wnd s))"

lemma send_post_trans:
  assumes "send_post a b" "send_post b c"
  shows "send_post a c"
proof -
  have "m_snd_wnd b = m_snd_wnd a" using assms(1) by (simp add: send_post_def same_app_def)
  then have "unat (in_flight c) \<le> max (unat (in_flight a)) (unat (m_snd_wnd a))"
    using assms by (auto simp: send_post_def max_def split: if_splits)
  then show ?thesis
    using assms same_recv_trans same_app_trans extends_trans calm_trans order_trans
    unfolding send_post_def by blast
qed

lemma ack_packet_post:
  assumes "send_ok s"
  shows "\<exists>r s'. packet env seq flags 0 0 s = Some (r, s') \<and> send_post s s' \<and> same_send s s'"
proof -
  obtain r s' where p: "packet env seq flags 0 0 s = Some (r, s')" "same_send s s'" "same_recv s s'"
      "same_net s s'"
    using packet_ok [of s 0 0 env seq flags] assms by (auto simp: send_ok_def)
  have "net_ok s'" using p(4) assms by (auto intro: net_ok_cong simp: send_ok_def)
  then have "send_ok s'" using send_ok_cong p(2) assms by blast
  then show ?thesis using p by (auto simp: send_post_def same_send_app same_send_def same_net_def calm_def
      in_flight_def intro: same_send_app)
qed

text \<open>What may be sent next fits what is left of the window.\<close>

lemma send_available_window:
  assumes "send_available s \<noteq> 0"
  shows "in_flight s < send_window s" "send_available s \<le> send_window s - in_flight s"
  using assms by (auto simp: send_available_def Let_def not_less min_le_iff_disj split: if_splits)

text \<open>One round of the loop: split, transmit. The number of unsent bytes or of unsent segments goes down.\<close>

lemma send_round:
  assumes ok: "send_ok s" and av: "send_available s \<noteq> 0"
  shows "\<exists>i b s'. first_unsent (m_slist s) = Some i
     \<and> transmit env i now (split_segment i (send_available s) s) = Some (b, s') \<and> send_post s s'
     \<and> (b \<longrightarrow> unsent_bytes s' < unsent_bytes s
             \<or> unsent_bytes s' = unsent_bytes s \<and> unsent_segs s' < unsent_segs s)"
proof -
  let ?n = "send_available s"
  have inv: "slist_inv (m_snd_una s) (m_snd_nxt s) (f_data_length (m_sbuf s)) (m_slist s)"
    using ok by (simp add: send_ok_def)
  have less: "unat (m_snd_nxt s - m_snd_una s) < f_data_length (m_sbuf s)"
    by (rule send_available_pos [OF ok av])
  obtain i where i: "first_unsent (m_slist s) = Some i"
    using first_unsent_exists [OF inv less] by blast
  note fu = first_unsent_spec [OF i]
  note sp = split_segment_ok [OF ok fu, of ?n]
  let ?s = "split_segment i ?n s"
  obtain b s' where t: "transmit env i now ?s = Some (b, s')" "send_ok s'" "same_recv ?s s'" "same_app ?s s'"
      "calm ?s s'" "\<not> b \<longrightarrow> same_send ?s s'"
    and tb: "b \<longrightarrow> m_slist s' \<noteq> [] \<and> m_snd_nxt ?s \<le> m_snd_nxt s'
          \<and> (\<exists>n \<le> s_len (m_slist ?s ! i). (0 < s_len (m_slist ?s ! i) \<longrightarrow> 0 < n)
          \<and> m_slist s' = transmitted (m_slist ?s) i n
          \<and> m_snd_nxt s' = (if s_xmit (m_slist ?s ! i) = 0 then m_snd_nxt ?s + n else m_snd_nxt ?s))"
    using transmit_ok [OF sp(1,2), of env now] by blast
  have ext: "extends (m_slist ?s) (m_slist s')"
  proof (cases b)
    case True
    then show ?thesis using tb extends_transmitted [OF sp(2,3)] by auto
  next
    case False
    then show ?thesis using t(6) by (simp add: same_send_def)
  qed
  have mono: "m_snd_nxt s \<le> m_snd_nxt s'"
    using tb t(6) sp(6) by (cases b) (auto simp: same_send_def)
  have calm: "calm s ?s" using sp(7) by (simp add: calm_def)
  have flight: "unat (in_flight s') \<le> max (unat (in_flight s)) (unat (m_snd_wnd s))"
  proof (cases b)
    case False
    then show ?thesis using t(6) sp(4,6) by (simp add: same_send_def same_app_def in_flight_def)
  next
    case True
    then obtain k where k: "k \<le> s_len (m_slist ?s ! i)" "m_snd_nxt s' = m_snd_nxt s + k"
      using tb sp(3,6) by auto
    have una: "m_snd_una s' = m_snd_una s" using t(4) sp(4) by (simp add: same_app_def)
    have "k \<le> ?n" using k(1) sp(9) by (simp add: min_def split: if_splits)
    then have "unat k \<le> unat (send_window s - in_flight s)" "in_flight s < send_window s"
      using send_available_window [OF av] by (auto simp: word_le_nat_alt)
    then have "unat (in_flight s) + unat k \<le> unat (send_window s)"
      by (simp add: unat_sub order_less_imp_le word_less_nat_alt)
    moreover have "in_flight s' = in_flight s + k"
      unfolding in_flight_def k(2) una by (simp add: algebra_simps)
    moreover have "send_window s \<le> m_snd_wnd s" by (simp add: send_window_def Let_def)
    ultimately show ?thesis
      by (simp add: word_le_nat_alt) (metis le_trans max.coboundedI2 unat_word_ariths(1) mod_less_eq_dividend)
  qed
  have post: "send_post s s'"
    unfolding send_post_def
    using calm flight t(2,3,4,5) sp(4,5,8) ext mono same_recv_trans same_app_trans extends_trans calm_trans by blast
  have down: "unsent_bytes s' < unsent_bytes s
             \<or> unsent_bytes s' = unsent_bytes s \<and> unsent_segs s' < unsent_segs s" if sent: b
  proof -
    have same: "m_sbuf s' = m_sbuf s" "m_snd_una s' = m_snd_una s"
      using post by (simp_all add: send_post_def same_app_def)
    have inv': "slist_inv (m_snd_una s) (m_snd_nxt s') (f_data_length (m_sbuf s)) (m_slist s')"
      using t(2) same by (simp add: send_ok_def)
    note fl = slist_inv_flight [OF inv] and fl' = slist_inv_flight [OF inv']
    obtain n where n: "0 < s_len (m_slist ?s ! i) \<longrightarrow> 0 < n" "n \<le> s_len (m_slist ?s ! i)"
        "m_slist s' = transmitted (m_slist ?s) i n" "m_snd_nxt s' = m_snd_nxt s + n"
      using tb sent sp(3,6) by auto
    show ?thesis
    proof (cases "s_len (m_slist s ! i) = 0")
      case False
      then have "0 < n" using n(1) sp(9) av by (simp add: min_def word_neq_0_conv split: if_splits)
      then have "m_snd_nxt s \<noteq> m_snd_nxt s'" using n(4) by auto
      with mono have "m_snd_nxt s < m_snd_nxt s'" by (rule order_le_neq_trans)
      then have "unat (m_snd_nxt s) < unat (m_snd_nxt s')" by (simp add: word_less_nat_alt)
      then have "unsent_bytes s' < unsent_bytes s"
        using fl(3) fl'(3,2) same by (simp add: unsent_bytes_def)
      then show ?thesis ..
    next
      case True
      then have nosplit: "m_slist ?s = m_slist s" using sp(10) by simp
      then have "n = 0" using n(2) True by simp
      then have sl: "m_slist s' = take i (m_slist s)
            @ (m_slist s ! i)\<lparr>s_len := 0, s_xmit := s_xmit (m_slist s ! i) + 1\<rparr> # drop (Suc i) (m_slist s)"
        using n(3) nosplit True by (simp add: transmitted_def)
      have il: "i < length (m_slist s)" using fu(1) by (simp add: sendable_def)
      have old: "m_slist s = take i (m_slist s) @ m_slist s ! i # drop (Suc i) (m_slist s)"
        using il by (simp add: id_take_nth_drop)
      have "unsent_segs s' = length (filter (\<lambda>g. s_xmit g = 0) (take i (m_slist s)))
              + length (filter (\<lambda>g. s_xmit g = 0) (drop (Suc i) (m_slist s)))"
        using fu(2) by (simp add: unsent_segs_def sl)
      moreover have "unsent_segs s = length (filter (\<lambda>g. s_xmit g = 0) (take i (m_slist s)))
              + Suc (length (filter (\<lambda>g. s_xmit g = 0) (drop (Suc i) (m_slist s))))"
        unfolding unsent_segs_def by (subst old) (use fu(2) in simp)
      moreover have "unsent_bytes s' = unsent_bytes s"
        using n(4) \<open>n = 0\<close> same by (simp add: unsent_bytes_def)
      ultimately show ?thesis by simp
    qed
  qed
  show ?thesis using i t(1) post down by blast
qed

text \<open>The loop ends, whatever the network answers.\<close>

lemma attemptSend_loop_ok:
  "send_ok s \<Longrightarrow> \<exists>s'. attemptSend_loop env now sflags s = Some s' \<and> send_post s s'"
proof (induction "(unsent_bytes s, unsent_segs s)" arbitrary: s sflags
    rule: wf_induct_rule [OF wf_lex_prod [OF wf_less wf_less]])
  case 1
  show ?case
  proof (cases "send_available s = 0")
    case True
    obtain r s1 where p: "packet env (m_snd_nxt s) 0 0 0 s = Some (r, s1)" "send_post s s1"
      using ack_packet_post [OF 1(2)] by blast
    have refl: "send_post s s" using 1(2) by (simp add: send_post_def)
    have delayed: "send_post s (s\<lparr>x_now_calls := a, m_t_ack := b\<rparr>)" for a b
      using 1(2) by (simp add: send_post_def send_ok_def net_ok_def same_recv_def same_app_def calm_def in_flight_def)
    show ?thesis using True p refl delayed
      by (subst attemptSend_loop.simps) (simp add: Let_def Now_def)
  next
    case False
    obtain i b s1 where r: "first_unsent (m_slist s) = Some i"
        "transmit env i now (split_segment i (send_available s) s) = Some (b, s1)" "send_post s s1"
        "b \<longrightarrow> unsent_bytes s1 < unsent_bytes s
             \<or> unsent_bytes s1 = unsent_bytes s \<and> unsent_segs s1 < unsent_segs s"
      using send_round [OF 1(2) False] by blast
    have refl: "send_post s s" using 1(2) by (simp add: send_post_def)
    have ok1: "send_ok s1" using r(3) by (simp add: send_post_def)
    show ?thesis
    proof (cases b)
      case True
      then have "((unsent_bytes s1, unsent_segs s1), (unsent_bytes s, unsent_segs s))
          \<in> {(x, y). x < y} <*lex*> {(x, y). x < y}"
        using r(4) by auto
      from 1(1) [OF this ok1, of sfNone] obtain s2 where
        "attemptSend_loop env now sfNone s1 = Some s2" "send_post s1 s2" by blast
      then show ?thesis using False r(1,2) True refl send_post_trans [OF r(3)]
        by (subst attemptSend_loop.simps) (auto simp: Let_def)
    next
      case no: False
      then show ?thesis using False r refl
        by (subst attemptSend_loop.simps) (simp add: Let_def)
    qed
  qed
qed

lemma send_ok_fields:
  "send_ok s \<Longrightarrow> send_ok (s\<lparr>x_now_calls := a\<rparr>)"
  "send_ok s \<Longrightarrow> send_ok (s\<lparr>x_notes := ns\<rparr>)"
  by (simp_all add: send_ok_def net_ok_def)

lemma attemptSend_ok:
  assumes ok: "send_ok s"
  shows "\<exists>s'. attemptSend env sflags s = Some s' \<and> send_post s s'"
proof -
  define s1 where "s1 = (if TimeDiff (env_now env (x_now_calls s)) (m_lastsend s) > sint (m_rx_rto s)
     then s\<lparr>x_now_calls := Suc (x_now_calls s), m_cwnd := m_mss s\<rparr>
     else s\<lparr>x_now_calls := Suc (x_now_calls s)\<rparr>)"
  have "m_mss s \<le> 65419" using ok by (simp add: send_ok_def net_ok_def)
  then have "m_mss s \<le> 130838" by (simp add: word_le_nat_alt)
  then have p1: "send_post s s1"
    using ok by (auto simp: s1_def send_post_def send_ok_def net_ok_def same_recv_def same_app_def
        calm_def le_max_iff_disj in_flight_def)
  then have "send_ok s1" by (simp add: send_post_def)
  from attemptSend_loop_ok [OF this, of env "env_now env (x_now_calls s)" sflags]
  obtain s2 where s2: "attemptSend_loop env (env_now env (x_now_calls s)) sflags s1 = Some s2"
      "send_post s1 s2" by blast
  have "attemptSend env sflags s = attemptSend_loop env (env_now env (x_now_calls s)) sflags s1"
    by (simp add: attemptSend_def Now_def s1_def)
  then show ?thesis using s2 send_post_trans [OF p1] by auto
qed

section \<open>Queueing\<close>

lemma extends_enqueued: "extends l (enqueued una dl l n c)"
proof (cases "l \<noteq> [] \<and> s_bCtrl (last l) = c \<and> s_xmit (last l) = 0")
  case True
  then obtain us g where l: "l = us @ [g]" "s_xmit g = 0" by (cases l rule: rev_cases) auto
  have "takeWhile (\<lambda>g. s_xmit g > 0) l = takeWhile (\<lambda>g. s_xmit g > 0) us"
    using l by (simp add: takeWhile_tail)
  moreover have "us = takeWhile (\<lambda>g. s_xmit g > 0) us @ dropWhile (\<lambda>g. s_xmit g > 0) us" by simp
  ultimately show ?thesis using True l unfolding extends_def enqueued_def
    by (metis append.assoc butlast_snoc)
next
  case False
  have "l = takeWhile (\<lambda>g. s_xmit g > 0) l @ dropWhile (\<lambda>g. s_xmit g > 0) l" by simp
  then show ?thesis using False unfolding extends_def enqueued_def by (metis append.assoc)
qed

text \<open>What an operation that may add data at the end of the send queue keeps.\<close>

definition queue_post :: "tcp \<Rightarrow> tcp \<Rightarrow> bool" where
  "queue_post s s' \<longleftrightarrow> send_ok s' \<and> same_recv s s' \<and> calm s s' \<and> extends (m_slist s) (m_slist s')
     \<and> m_snd_una s' = m_snd_una s \<and> m_snd_nxt s \<le> m_snd_nxt s'
     \<and> f_buffer_length (m_sbuf s') = f_buffer_length (m_sbuf s) \<and> m_state s' = m_state s"

lemma queue_post_trans: "queue_post a b \<Longrightarrow> queue_post b c \<Longrightarrow> queue_post a c"
  using same_recv_trans calm_trans extends_trans order_trans by (fastforce simp: queue_post_def)

lemma send_post_queue: "send_post s s' \<Longrightarrow> queue_post s s'"
  by (simp add: send_post_def queue_post_def same_app_def)

lemma queue_ok:
  fixes len :: u32
  defines "w \<equiv> \<lambda>s. min (unat len) (GetWriteRemaining (m_sbuf s))"
  assumes ok: "send_ok s" and data: "length data = unat len"
    and room: "unat (m_snd_una s) + f_data_length (m_sbuf s) + w s < 4294967296"
    and ctrl: "bCtrl \<Longrightarrow> unat len \<le> GetWriteRemaining (m_sbuf s)"
  shows "\<exists>s'. queue data len bCtrl s = Some (of_nat (w s), s') \<and> queue_post s s'
     \<and> fifo_contents (m_sbuf s') = fifo_contents (m_sbuf s) @ take (w s) data
     \<and> m_snd_nxt s' = m_snd_nxt s"
proof -
  let ?b = "m_sbuf s" and ?l = "m_slist s"
  have fifo: "fifo_ok ?b"
    and inv: "slist_inv (m_snd_una s) (m_snd_nxt s) (f_data_length ?b) ?l"
    using ok by (simp_all add: send_ok_def)
  note fok = fifo_okD [OF fifo]
  have space: "unat (of_nat (GetWriteRemaining ?b) :: u32) = GetWriteRemaining ?b"
    using fok by (intro unat_of_nat_u32) (simp add: GetWriteRemaining_def)
  define n :: u32 where "n = of_nat (w s)"
  have n: "unat n = w s"
    unfolding n_def using room by (intro unat_of_nat_u32) simp
  have cut: "(if len > of_nat (GetWriteRemaining ?b)
             then do { ASSERT (\<not> bCtrl); Some (of_nat (GetWriteRemaining ?b)) }
             else Some len) = Some n"
    using ctrl space n by (auto simp: ASSERT_def word_less_nat_alt w_def n_def min_def)
  have fits: "f_data_length ?b + length (take (unat n) data) \<le> f_buffer_length ?b"
    using fok(2) n by (simp add: w_def GetWriteRemaining_def)
  obtain r b' where b': "FifoWrite (take (unat n) data) ?b = (r, length (take (unat n) data), b')" "fifo_ok b'"
      "fifo_contents b' = fifo_contents ?b @ take (unat n) data" "f_buffer_length b' = f_buffer_length ?b"
    using fifo_Write_eq [OF fifo fits] by metis
  have len_n: "length (take (unat n) data) = w s" using data n by (simp add: w_def)
  have dl: "f_data_length b' = f_data_length ?b + unat n"
    using arg_cong [OF b'(3), of length] len_n n by simp
  let ?l' = "enqueued (m_snd_una s) (f_data_length ?b) ?l n bCtrl"
  have q: "queue data len bCtrl s = Some (of_nat (w s), s\<lparr>m_slist := ?l', m_sbuf := b'\<rparr>)"
    unfolding queue_def Let_def cut
    by (simp add: enqueued_def b'(1) len_n [simplified] sbuf_buffered_def GetBuffered_def)
  have inv': "slist_inv (m_snd_una s) (m_snd_nxt s) (f_data_length b') ?l'"
    unfolding dl by (rule slist_inv_enqueued [OF inv]) (use room n in simp)
  have "?l' \<noteq> []" by (simp add: enqueued_def)
  then have "queue_post s (s\<lparr>m_slist := ?l', m_sbuf := b'\<rparr>)"
    using ok inv' b'(2,4) extends_enqueued
    by (simp add: queue_post_def send_ok_def net_ok_def same_recv_def calm_def)
  then show ?thesis using q b'(3) n by auto
qed

section \<open>Acknowledgements\<close>

lemma slist_inv_nonempty:
  assumes "slist_inv una nxt dl l" "una \<noteq> nxt"
  shows "l \<noteq> []"
  using assms by (auto simp: slist_inv_def)

lemma sendable_0 [simp]: "sendable l 0 \<longleftrightarrow> l \<noteq> []"
  by (simp add: sendable_def)

end
