(* ===== verification/Tcp_Ack_Proofs.thy ===== *)
theory Tcp_Ack_Proofs
  imports Tcp_Send_Proofs
begin

text \<open>
  Acknowledgements, control data and the timers of PseudoTcp keep the invariant
  (talk/p2p/base/pseudotcp.cc). The application behind the notifications is held to a
  contract: it keeps the invariant and does not take back what was sent.
\<close>

section \<open>The whole invariant and the contract of the application\<close>

definition listen_ok :: "tcp \<Rightarrow> bool" where
  "listen_ok s \<longleftrightarrow> (m_state s = TCP_LISTEN \<longrightarrow>
     f_data_length (m_sbuf s) = 0 \<and> 4 \<le> f_buffer_length (m_sbuf s) \<and> m_snd_una s = 0)"

definition tcp_ok :: "tcp \<Rightarrow> bool" where
  "tcp_ok s \<longleftrightarrow> send_ok s \<and> recv_ok s \<and> listen_ok s"

definition keeps_agree :: "tcp \<Rightarrow> tcp \<Rightarrow> bool" where
  "keeps_agree s s' \<longleftrightarrow> (\<forall>S. recv_agree S s \<longrightarrow> recv_agree S s')
     \<and> m_rlist s' = m_rlist s \<and> m_rcv_nxt s' = m_rcv_nxt s
     \<and> f_data_length (m_rbuf s') \<le> f_data_length (m_rbuf s)"

definition app_post :: "tcp \<Rightarrow> tcp \<Rightarrow> bool" where
  "app_post s s' \<longleftrightarrow> tcp_ok s' \<and> calm s s' \<and> m_snd_una s' = m_snd_una s
     \<and> extends (m_slist s) (m_slist s') \<and> keeps_agree s s'"

definition good_callback :: "callback \<Rightarrow> bool" where
  "good_callback cb \<longleftrightarrow> (\<forall>n s. tcp_ok s \<longrightarrow> (\<exists>s'. cb n s = Some s' \<and> app_post s s'))"

lemma keeps_agree_refl [simp]: "keeps_agree s s"
  by (simp add: keeps_agree_def)

lemma keeps_agree_trans: "keeps_agree a b \<Longrightarrow> keeps_agree b c \<Longrightarrow> keeps_agree a c"
  by (simp add: keeps_agree_def)

lemma keeps_agree_same: "same_recv s s' \<Longrightarrow> keeps_agree s s'"
  using recv_agree_cong by (auto simp: keeps_agree_def same_recv_def)

lemma app_post_trans: "app_post a b \<Longrightarrow> app_post b c \<Longrightarrow> app_post a c"
  using calm_trans extends_trans keeps_agree_trans by (fastforce simp: app_post_def)

lemma listen_ok_not: "m_state s \<noteq> TCP_LISTEN \<Longrightarrow> listen_ok s"
  by (simp add: listen_ok_def)

lemma send_post_app:
  assumes "tcp_ok s" "send_post s s'"
  shows "app_post s s'"
  using assms recv_ok_cong keeps_agree_same
  by (auto simp: app_post_def tcp_ok_def send_post_def same_app_def listen_ok_def)

lemma notify_ok:
  assumes "good_callback cb" "tcp_ok s"
  shows "\<exists>s'. notify cb n s = Some s' \<and> app_post s s'"
proof -
  let ?s = "s\<lparr>x_notes := x_notes s @ [n]\<rparr>"
  have same: "same_recv s ?s" "same_app s ?s" "m_cwnd ?s = m_cwnd s" "m_slist ?s = m_slist s"
    by (simp_all add: same_recv_def same_app_def)
  have "tcp_ok ?s"
    using assms(2) recv_ok_cong [OF same(1)]
    by (auto simp: tcp_ok_def send_ok_fields listen_ok_def)
  then obtain s' where "cb n ?s = Some s'" "app_post ?s s'"
    using assms(1) unfolding good_callback_def by blast
  moreover have "keeps_agree s ?s" by (rule keeps_agree_same [OF same(1)])
  ultimately show ?thesis
    using keeps_agree_trans by (fastforce simp: notify_def app_post_def calm_def)
qed

lemma closedown_ok:
  assumes "good_callback cb" "tcp_ok s"
  shows "\<exists>s'. closedown cb err s = Some s' \<and> app_post s s'"
proof -
  let ?s = "s\<lparr>m_state := TCP_CLOSED\<rparr>"
  have same: "same_recv s ?s" by (simp add: same_recv_def)
  have "tcp_ok ?s"
    using assms(2) recv_ok_cong [OF same] by (simp add: tcp_ok_def send_ok_def net_ok_def listen_ok_def)
  from notify_ok [OF assms(1) this] obtain s' where s': "notify cb (OnTcpClosed err) ?s = Some s'" "app_post ?s s'"
    by blast
  have "keeps_agree s s'"
    using keeps_agree_trans [OF keeps_agree_same [OF same]] s'(2) by (simp add: app_post_def)
  then show ?thesis using s' by (auto simp: closedown_def app_post_def calm_def)
qed

section \<open>Acknowledgements\<close>

lemma update_rtt_ok:
  assumes "tsecr = 0 \<or> 0 \<le> TimeDiff now tsecr"
  shows "\<exists>a b c. update_rtt now tsecr s = Some (s\<lparr>m_rx_srtt := a, m_rx_rttvar := b, m_rx_rto := c\<rparr>)"
proof (cases "tsecr = 0")
  case True
  show ?thesis
    by (rule exI [of _ "m_rx_srtt s"], rule exI [of _ "m_rx_rttvar s"], rule exI [of _ "m_rx_rto s"])
       (simp add: update_rtt_def True)
next
  case False
  then have "0 \<le> TimeDiff now tsecr" using assms by simp
  then show ?thesis using False by (cases s) (auto simp: update_rtt_def Let_def)
qed

text \<open>Freeing the acknowledged bytes keeps the send queue in order.\<close>

lemma acked_ok:
  assumes ok: "send_ok s" and a: "on_boundary (m_snd_una s) (m_slist s) ack"
  shows "\<exists>sbuf slist largest. ConsumeReadData (unat (ack - m_snd_una s)) (m_sbuf s) = Some sbuf
     \<and> free_acked (ack - m_snd_una s) (m_slist s) (m_largest s) = Some (slist, largest)
     \<and> fifo_ok sbuf \<and> f_buffer_length sbuf = f_buffer_length (m_sbuf s)
     \<and> fifo_contents sbuf = drop (unat (ack - m_snd_una s)) (fifo_contents (m_sbuf s))
     \<and> slist_inv ack (m_snd_nxt s) (f_data_length sbuf) slist"
proof -
  let ?n = "ack - m_snd_una s"
  have fifo: "fifo_ok (m_sbuf s)"
    and inv: "slist_inv (m_snd_una s) (m_snd_nxt s) (f_data_length (m_sbuf s)) (m_slist s)"
    using ok by (simp_all add: send_ok_def)
  obtain slist lg where l: "free_acked ?n (m_slist s) (m_largest s) = Some (slist, lg)"
      "slist_inv ack (m_snd_nxt s) (f_data_length (m_sbuf s) - unat ?n) slist"
      "unat ?n \<le> unat (m_snd_nxt s - m_snd_una s)"
    using slist_inv_acked [OF inv a] by blast
  have "unat ?n \<le> f_data_length (m_sbuf s)"
    using l(3) slist_inv_flight(2) [OF inv] by simp
  from ConsumeReadData_eq [OF fifo this] l show ?thesis by auto
qed

lemma cwnd_grows:
  fixes c m :: u32
  assumes "c < 2147483648" "0 < m" "m \<le> 65419"
  shows "c + m \<noteq> 0"
proof -
  have "unat (c + m) = unat c + unat m"
    using assms by (intro unat_add_less) (simp add: word_less_nat_alt word_le_nat_alt)
  moreover have "0 < unat m" using assms(2) by (simp add: word_less_nat_alt)
  ultimately have "unat (c + m) \<noteq> 0" by simp
  then show ?thesis by (metis unat_0)
qed

lemma cwnd_avoid:
  fixes c m :: u32
  assumes "c < 2147483648" "0 < m" "m \<le> 65419"
  shows "c + max 1 (m * m div c) \<noteq> 0"
proof -
  have mm: "unat (m * m) \<le> 65419 * 65419"
  proof -
    have "unat m * unat m \<le> 65419 * 65419"
      using assms(3) by (intro mult_le_mono) (simp_all add: word_le_nat_alt)
    then show ?thesis by (metis (no_types) le_trans mod_less_eq_dividend unat_word_ariths(2))
  qed
  show ?thesis
  proof (cases "m * m div c \<le> 1")
    case True
    have "unat (c + 1) = unat c + 1"
      using assms(1) by (subst unat_add_less) (simp_all add: word_less_nat_alt)
    then have "unat (c + 1) \<noteq> 0" by simp
    then show ?thesis using True by (metis max_absorb1 unat_0)
  next
    case False
    then have big: "max 1 (m * m div c) = m * m div c" by (intro max_absorb2) (simp add: not_le order_less_imp_le)
    have d: "unat (m * m div c) = unat (m * m) div unat c" by (rule unat_div)
    have c0: "0 < unat c"
    proof (rule ccontr)
      assume "\<not> 0 < unat c"
      then have "unat (m * m div c) = 0" using d by simp
      then show False using False by (simp add: word_le_nat_alt)
    qed
    have "unat c + unat (m * m div c) < 4294967296"
    proof (cases "unat c = 1")
      case True
      then show ?thesis using d mm by simp
    next
      case False
      then have "2 \<le> unat c" using c0 by simp
      then have "unat (m * m) div unat c \<le> unat (m * m) div 2" by (rule div_le_mono2 [OF zero_less_numeral])
      then show ?thesis using d mm assms(1) by (simp add: word_less_nat_alt)
    qed
    then have "unat (c + m * m div c) = unat c + unat (m * m div c)" by (intro unat_add_less) simp
    then have "unat (c + m * m div c) \<noteq> 0" using c0 by simp
    then show ?thesis unfolding big by (metis unat_0)
  qed
qed

lemma cwnd_partial:
  fixes c m n :: u32
  assumes "c < 2147483648" "0 < m" "m \<le> 65419"
  shows "c + (m - min n c) \<noteq> 0"
proof -
  have "c + (m - min n c) = (c - min n c) + m" by (simp add: algebra_simps)
  moreover have "c - min n c < 2147483648"
  proof -
    have "c - min n c \<le> c" by (rule word_sub_le) simp
    then show ?thesis using assms(1) by (rule order_le_less_trans)
  qed
  ultimately show ?thesis using cwnd_grows [OF _ assms(2,3)] by metis
qed

text \<open>What the arrival of an acknowledgement does to the rest of the state.\<close>

definition ack_post :: "tcp \<Rightarrow> tcp \<Rightarrow> bool" where
  "ack_post s s' \<longleftrightarrow> tcp_ok s' \<and> keeps_agree s s'"

lemma app_post_ack: "app_post s s' \<Longrightarrow> ack_post s s'"
  by (simp add: app_post_def ack_post_def)

lemma ack_post_trans: "ack_post a b \<Longrightarrow> ack_post b c \<Longrightarrow> ack_post a c"
  using keeps_agree_trans by (auto simp: ack_post_def)

text \<open>Only the congestion variables change.\<close>

lemma tcp_ok_congestion:
  assumes "tcp_ok s" "c \<noteq> 0" "t \<noteq> 0" "r \<le> m_snd_nxt s"
  shows "ack_post s (s\<lparr>m_cwnd := c, m_ssthresh := t, m_dup_acks := d, m_recover := r\<rparr>)"
proof -
  have "same_recv s (s\<lparr>m_cwnd := c, m_ssthresh := t, m_dup_acks := d, m_recover := r\<rparr>)"
    by (simp add: same_recv_def)
  then show ?thesis using assms recv_ok_cong keeps_agree_same
    by (auto simp: ack_post_def tcp_ok_def send_ok_def net_ok_def listen_ok_def)
qed

lemma retransmit_ok:
  assumes ok: "tcp_ok s" and ne: "m_slist s \<noteq> []"
  shows "\<exists>b s'. transmit env 0 now s = Some (b, s') \<and> ack_post s s' \<and> calm s s' \<and> same_app s s'
     \<and> m_snd_nxt s \<le> m_snd_nxt s' \<and> m_slist s' \<noteq> []"
proof -
  obtain b s' where t: "transmit env 0 now s = Some (b, s')" "send_ok s'" "same_recv s s'" "same_app s s'"
      "calm s s'" "\<not> b \<longrightarrow> same_send s s'" "b \<longrightarrow> m_slist s' \<noteq> [] \<and> m_snd_nxt s \<le> m_snd_nxt s'"
    using transmit_ok [of s 0 env now] assms by (auto simp: tcp_ok_def)
  have "tcp_ok s'"
    using ok t(2,4) recv_ok_cong [OF t(3)] by (simp add: tcp_ok_def same_app_def listen_ok_def)
  then show ?thesis using t keeps_agree_same [OF t(3)] ne
    by (cases b) (auto simp: ack_post_def same_send_def)
qed

lemma calm_small: "calm s s' \<Longrightarrow> m_cwnd s < 2147483648 \<Longrightarrow> m_cwnd s' < 2147483648"
  by (auto simp: calm_def max_def word_less_nat_alt word_le_nat_alt split: if_splits)

lemma process_new_ack_ok:
  assumes ok: "tcp_ok s" and cb: "good_callback cb"
    and range: "m_snd_una s < g_ack seg" "g_ack seg \<le> m_snd_nxt s"
    and bd: "on_boundary (m_snd_una s) (m_slist s) (g_ack seg)"
    and rtt: "g_tsecr seg = 0 \<or> 0 \<le> TimeDiff now (g_tsecr seg)"
    and small: "m_cwnd s < 2147483648"
  shows "\<exists>b s'. process_new_ack env cb now seg s = Some (b, s') \<and> ack_post s s'"
proof -
  have send: "send_ok s" using ok by (simp add: tcp_ok_def)
  obtain a b c where u: "update_rtt now (g_tsecr seg) s = Some (s\<lparr>m_rx_srtt := a, m_rx_rttvar := b, m_rx_rto := c\<rparr>)"
    using update_rtt_ok [OF rtt] by blast
  let ?ack = "g_ack seg" and ?n = "g_ack seg - m_snd_una s"
  obtain sbuf slist lg where f: "ConsumeReadData (unat ?n) (m_sbuf s) = Some sbuf"
      "free_acked ?n (m_slist s) (m_largest s) = Some (slist, lg)" "fifo_ok sbuf"
      "slist_inv ?ack (m_snd_nxt s) (f_data_length sbuf) slist"
      "f_buffer_length sbuf = f_buffer_length (m_sbuf s)"
    using acked_ok [OF send bd] by blast
  define s1 where "s1 = s\<lparr>m_rx_srtt := a, m_rx_rttvar := b, m_rx_rto := c,
      m_snd_wnd := push_bit (unat (m_swnd_scale s)) (ucast (g_wnd seg)), m_snd_una := ?ack,
      m_rto_base := (if ?ack = m_snd_nxt s then 0 else now), m_sbuf := sbuf, m_slist := slist,
      m_largest := lg\<rparr>"
  have same: "same_recv s s1" by (simp add: s1_def same_recv_def)
  have nolisten: "m_state s \<noteq> TCP_LISTEN"
  proof
    assume "m_state s = TCP_LISTEN"
    then have "f_data_length (m_sbuf s) = 0" using ok by (simp add: tcp_ok_def listen_ok_def)
    moreover have "unat (m_snd_nxt s - m_snd_una s) \<le> f_data_length (m_sbuf s)"
      using send slist_inv_flight(2) by (auto simp: send_ok_def)
    ultimately have "m_snd_nxt s = m_snd_una s" by (simp add: unat_eq_zero)
    then show False using range by simp
  qed
  have "?ack \<noteq> m_snd_nxt s \<Longrightarrow> slist \<noteq> []" using slist_inv_nonempty [OF f(4)] by simp
  then have "send_ok s1" using send f(3,4) by (auto simp: s1_def send_ok_def net_ok_def)
  then have ok1: "tcp_ok s1"
    using ok recv_ok_cong [OF same] nolisten by (simp add: tcp_ok_def listen_ok_def s1_def)
  then have post1: "ack_post s s1" using keeps_agree_same [OF same] by (simp add: ack_post_def)
  have mss: "0 < m_mss s1" "m_mss s1 \<le> 65419" "m_cwnd s1 \<noteq> 0" "m_cwnd s1 < 2147483648" "m_ssthresh s1 \<noteq> 0"
    using ok1 small by (simp_all add: tcp_ok_def send_ok_def net_ok_def s1_def)
  have P: "process_new_ack env cb now seg s =
     (if m_dup_acks s1 \<ge> 3
      then (if m_snd_una s1 \<ge> m_recover s1
            then Some (True, s1\<lparr>m_cwnd := min (m_ssthresh s1) (in_flight s1 + m_mss s1), m_dup_acks := 0\<rparr>)
            else do {
              (ok, s) \<leftarrow> transmit env 0 now s1;
              if \<not> ok then do { s \<leftarrow> closedown cb ECONNABORTED s; Some (False, s) }
              else Some (True, s\<lparr>m_cwnd := m_cwnd s + (m_mss s - min ?n (m_cwnd s))\<rparr>)
            })
      else if m_cwnd s1 < m_ssthresh s1
      then Some (True, s1\<lparr>m_cwnd := m_cwnd s1 + m_mss s1, m_dup_acks := 0\<rparr>)
      else Some (True, s1\<lparr>m_cwnd := m_cwnd s1 + max 1 (m_mss s1 * m_mss s1 div m_cwnd s1),
             m_dup_acks := 0\<rparr>))"
    using mss(3) by (simp add: process_new_ack_def u Let_def f(1,2) s1_def ASSERT_def cong: if_cong)
  have congestion: "ack_post s (s1\<lparr>m_cwnd := c, m_dup_acks := 0\<rparr>)" if "c \<noteq> 0" for c
    using ack_post_trans [OF post1 tcp_ok_congestion [OF ok1 that mss(5), of "m_recover s1" 0]] ok1 by (simp add: tcp_ok_def send_ok_def)
  show ?thesis
  proof (cases "m_dup_acks s1 \<ge> 3")
    case no: False
    have "m_cwnd s1 + m_mss s1 \<noteq> 0" by (rule cwnd_grows [OF mss(4,1,2)])
    moreover have "m_cwnd s1 + max 1 (m_mss s1 * m_mss s1 div m_cwnd s1) \<noteq> 0"
      by (rule cwnd_avoid [OF mss(4,1,2)])
    ultimately show ?thesis using no congestion by (auto simp: P)
  next
    case dup: True
    show ?thesis
    proof (cases "m_snd_una s1 \<ge> m_recover s1")
      case True
      have "in_flight s1 \<le> 2147483648"
      proof -
        have "unat (m_snd_nxt s1 - m_snd_una s1) \<le> f_data_length (m_sbuf s1)"
          using ok1 slist_inv_flight(2) by (auto simp: tcp_ok_def send_ok_def)
        moreover have "f_data_length (m_sbuf s1) \<le> 2147483648"
          using ok1 fifo_okD(2,3) by (fastforce simp: tcp_ok_def send_ok_def)
        ultimately show ?thesis by (simp add: in_flight_def word_le_nat_alt)
      qed
      then have "unat (in_flight s1 + m_mss s1) = unat (in_flight s1) + unat (m_mss s1)"
        using mss(2) by (intro unat_add_less) (simp add: word_le_nat_alt)
      moreover have "0 < unat (m_mss s1)" using mss(1) by (simp add: word_less_nat_alt)
      ultimately have "unat (in_flight s1 + m_mss s1) \<noteq> 0" by simp
      then have "in_flight s1 + m_mss s1 \<noteq> 0" by (metis unat_0)
      then have "min (m_ssthresh s1) (in_flight s1 + m_mss s1) \<noteq> 0" using mss(5) by (simp add: min_def)
      from congestion [OF this] show ?thesis using dup True by (auto simp: P)
    next
      case False
      have "m_recover s1 \<le> m_snd_nxt s1" using ok1 dup by (simp add: tcp_ok_def send_ok_def)
      then have "m_snd_una s1 \<noteq> m_snd_nxt s1" using False by auto
      then have "m_slist s1 \<noteq> []"
        using ok1 slist_inv_nonempty by (auto simp: tcp_ok_def send_ok_def)
      from retransmit_ok [OF ok1 this] obtain b s2 where t: "transmit env 0 now s1 = Some (b, s2)"
          "ack_post s1 s2" "calm s1 s2" by blast
      have post2: "ack_post s s2" by (rule ack_post_trans [OF post1 t(2)])
      then have ok2: "tcp_ok s2" by (simp add: ack_post_def)
      show ?thesis
      proof (cases b)
        case no: False
        from closedown_ok [OF cb ok2] obtain s3 where "closedown cb ECONNABORTED s2 = Some s3" "app_post s2 s3"
          by blast
        then show ?thesis using dup False t(1) no ack_post_trans [OF post2 app_post_ack] by (auto simp: P)
      next
        case True
        have "m_cwnd s2 < 2147483648"
          by (rule calm_small [OF t(3) mss(4)])
        then have nz: "m_cwnd s2 + (m_mss s2 - min ?n (m_cwnd s2)) \<noteq> 0"
          using ok2 by (intro cwnd_partial) (simp_all add: tcp_ok_def send_ok_def net_ok_def)
        have "ack_post s2 (s2\<lparr>m_cwnd := m_cwnd s2 + (m_mss s2 - min ?n (m_cwnd s2))\<rparr>)"
          using tcp_ok_congestion [OF ok2 nz, of "m_ssthresh s2" "m_recover s2" "m_dup_acks s2"] ok2
          by (simp add: tcp_ok_def send_ok_def)
        then show ?thesis using dup False t(1) True ack_post_trans [OF post2] by (auto simp: P)
      qed
    qed
  qed
qed

lemma flight_bound:
  assumes "tcp_ok s"
  shows "unat (in_flight s) \<le> 2147483648"
proof -
  have "unat (m_snd_nxt s - m_snd_una s) \<le> f_data_length (m_sbuf s)"
    using assms slist_inv_flight(2) by (auto simp: tcp_ok_def send_ok_def)
  moreover have "f_data_length (m_sbuf s) \<le> 2147483648"
    using assms fifo_okD(2,3) by (fastforce simp: tcp_ok_def send_ok_def)
  ultimately show ?thesis by (simp add: in_flight_def)
qed

lemma threshold_ok:
  assumes "tcp_ok s"
  shows "nInFlight_threshold s \<noteq> 0" "nInFlight_threshold s + 3 * m_mss s \<noteq> 0"
proof -
  have m: "0 < m_mss s" "m_mss s \<le> 65419" using assms by (simp_all add: tcp_ok_def send_ok_def net_ok_def)
  note d = double_mss [OF m]
  have half: "unat (in_flight s div 2) \<le> 1073741824"
    using flight_bound [OF assms] by (simp add: unat_div)
  have t: "unat (nInFlight_threshold s) = max (unat (in_flight s div 2)) (2 * unat (m_mss s))"
    using d(3) by (auto simp: nInFlight_threshold_def max_def word_le_nat_alt)
  have pos: "0 < unat (m_mss s)" "unat (m_mss s) \<le> 65419"
    using m by (simp_all add: word_less_nat_alt word_le_nat_alt)
  then have "unat (nInFlight_threshold s) \<noteq> 0" using t by simp
  then show "nInFlight_threshold s \<noteq> 0" by (metis unat_0)
  have "3 * m_mss s = 2 * m_mss s + m_mss s" by simp
  moreover have "unat (2 * m_mss s + m_mss s) = 3 * unat (m_mss s)"
    using d(3) pos by (subst unat_add_less) simp_all
  ultimately have "unat (3 * m_mss s) = 3 * unat (m_mss s)" by metis
  then have "unat (nInFlight_threshold s + 3 * m_mss s) = unat (nInFlight_threshold s) + 3 * unat (m_mss s)"
    using t half pos by (subst unat_add_less) auto
  then have "unat (nInFlight_threshold s + 3 * m_mss s) \<noteq> 0" using pos by simp
  then show "nInFlight_threshold s + 3 * m_mss s \<noteq> 0" by (metis unat_0)
qed

lemma process_dup_ack_ok:
  assumes ok: "tcp_ok s" and cb: "good_callback cb" and small: "m_cwnd s < 2147483648"
  shows "\<exists>b s'. process_dup_ack env cb now seg s = Some (b, s') \<and> ack_post s s'"
proof -
  define s1 where "s1 = s\<lparr>m_snd_wnd := push_bit (unat (m_swnd_scale s)) (ucast (g_wnd seg))\<rparr>"
  have same: "same_recv s s1" by (simp add: s1_def same_recv_def)
  have post1: "ack_post s s1"
    using ok recv_ok_cong [OF same] keeps_agree_same [OF same]
    by (simp add: ack_post_def tcp_ok_def send_ok_def net_ok_def listen_ok_def s1_def)
  then have ok1: "tcp_ok s1" by (simp add: ack_post_def)
  show ?thesis
  proof (cases "g_len seg > 0 \<or> m_snd_una s1 = m_snd_nxt s1")
    case True
    have "ack_post s (s1\<lparr>m_dup_acks := 0\<rparr>)"
      using ack_post_trans [OF post1 tcp_ok_congestion [OF ok1, of "m_cwnd s1" "m_ssthresh s1" "m_recover s1" 0]]
        ok1 by (simp add: tcp_ok_def send_ok_def net_ok_def)
    then show ?thesis using True post1
      by (auto simp: process_dup_ack_def Let_def simp flip: s1_def)
  next
    case False
    have ne: "m_slist s1 \<noteq> []"
      using ok1 False slist_inv_nonempty by (auto simp: tcp_ok_def send_ok_def)
    have nz: "m_cwnd s1 \<noteq> 0" "m_ssthresh s1 \<noteq> 0" "m_recover s1 \<le> m_snd_nxt s1"
        "0 < m_mss s1" "m_mss s1 \<le> 65419"
      using ok1 by (simp_all add: tcp_ok_def send_ok_def net_ok_def)
    define s2 where "s2 = s1\<lparr>m_dup_acks := m_dup_acks s1 + 1\<rparr>"
    have post2: "ack_post s s2"
      using ack_post_trans [OF post1 tcp_ok_congestion [OF ok1 nz(1-3), of "m_dup_acks s1 + 1"]]
      by (simp add: s2_def)
    then have ok2: "tcp_ok s2" by (simp add: ack_post_def)
    have small2: "m_cwnd s2 < 2147483648" using small by (simp add: s2_def s1_def)
    have P: "process_dup_ack env cb now seg s =
       (if m_dup_acks s2 = 3
        then do {
          (ok, s) \<leftarrow> transmit env 0 now s2;
          if \<not> ok then do { s \<leftarrow> closedown cb ECONNABORTED s; Some (False, s) }
          else (let s = s\<lparr>m_recover := m_snd_nxt s\<rparr>;
                    s = s\<lparr>m_ssthresh := nInFlight_threshold s\<rparr>
                in Some (True, s\<lparr>m_cwnd := m_ssthresh s + 3 * m_mss s\<rparr>))
        }
        else if m_dup_acks s2 > 3 then Some (True, s2\<lparr>m_cwnd := m_cwnd s2 + m_mss s2\<rparr>)
        else Some (True, s2))"
      using False by (simp add: process_dup_ack_def Let_def s2_def s1_def cong: if_cong)
    show ?thesis
    proof (cases "m_dup_acks s2 = 3")
      case no: False
      have "m_cwnd s2 + m_mss s2 \<noteq> 0"
        using nz(4,5) by (intro cwnd_grows small2) (simp_all add: s2_def)
      from ack_post_trans [OF post2 tcp_ok_congestion [OF ok2 this, of "m_ssthresh s2" "m_recover s2" "m_dup_acks s2"]]
      have "ack_post s (s2\<lparr>m_cwnd := m_cwnd s2 + m_mss s2\<rparr>)"
        using ok2 by (simp add: tcp_ok_def send_ok_def)
      then show ?thesis using no post2 by (auto simp: P)
    next
      case three: True
      have "m_slist s2 \<noteq> []" using ne by (simp add: s2_def)
      from retransmit_ok [OF ok2 this] obtain b s3 where t: "transmit env 0 now s2 = Some (b, s3)"
          "ack_post s2 s3" by blast
      have post3: "ack_post s s3" by (rule ack_post_trans [OF post2 t(2)])
      then have ok3: "tcp_ok s3" by (simp add: ack_post_def)
      show ?thesis
      proof (cases b)
        case no: False
        from closedown_ok [OF cb ok3] obtain s4 where "closedown cb ECONNABORTED s3 = Some s4" "app_post s3 s4"
          by blast
        then show ?thesis using three t(1) no ack_post_trans [OF post3 app_post_ack] by (auto simp: P)
      next
        case True
        have th: "nInFlight_threshold (s3\<lparr>m_recover := m_snd_nxt s3\<rparr>) = nInFlight_threshold s3"
          by (simp add: nInFlight_threshold_def in_flight_def)
        have "ack_post s (s3\<lparr>m_cwnd := nInFlight_threshold s3 + 3 * m_mss s3, m_ssthresh := nInFlight_threshold s3,
            m_dup_acks := m_dup_acks s3, m_recover := m_snd_nxt s3\<rparr>)"
          by (rule ack_post_trans [OF post3 tcp_ok_congestion [OF ok3 threshold_ok(2,1) [OF ok3]]]) simp
        moreover have e: "s3\<lparr>m_cwnd := nInFlight_threshold s3 + 3 * m_mss s3, m_ssthresh := nInFlight_threshold s3,
            m_dup_acks := m_dup_acks s3, m_recover := m_snd_nxt s3\<rparr>
          = s3\<lparr>m_recover := m_snd_nxt s3, m_ssthresh := nInFlight_threshold s3,
               m_cwnd := nInFlight_threshold s3 + 3 * m_mss s3\<rparr>" by simp
        ultimately have "ack_post s (s3\<lparr>m_recover := m_snd_nxt s3, m_ssthresh := nInFlight_threshold s3,
               m_cwnd := nInFlight_threshold s3 + 3 * m_mss s3\<rparr>)" by (simp only: e)
        then show ?thesis using three t(1) True by (auto simp: P Let_def th)
      qed
    qed
  qed
qed

end
