(* ===== verification/Tcp_Control_Proofs.thy ===== *)
theory Tcp_Control_Proofs
  imports Tcp_Ack_Proofs
begin

text \<open>
  Connect messages, options, MTU changes and the timers of PseudoTcp keep the invariant
  (talk/p2p/base/pseudotcp.cc).
\<close>

section \<open>The acknowledgement of a segment\<close>

text \<open>The peer acknowledges nothing new or whole segments that were sent, and echoes a timestamp of the past.\<close>

definition ack_sane :: "u32 \<Rightarrow> segment \<Rightarrow> tcp \<Rightarrow> bool" where
  "ack_sane now seg s \<longleftrightarrow> (g_ack seg \<le> m_snd_una s \<or> on_boundary (m_snd_una s) (m_slist s) (g_ack seg))
     \<and> (g_tsecr seg = 0 \<or> 0 \<le> TimeDiff now (g_tsecr seg))"

lemma ack_sane_app: "ack_sane now seg s \<Longrightarrow> app_post s s' \<Longrightarrow> ack_sane now seg s'"
  using on_boundary_extends by (auto simp: ack_sane_def app_post_def)

lemma process_ack_ok:
  assumes "tcp_ok s" "good_callback cb" "ack_sane now seg s" "m_cwnd s < 2147483648"
  shows "\<exists>b s'. process_ack env cb now seg s = Some (b, s') \<and> ack_post s s'"
proof -
  consider "m_snd_una s < g_ack seg" "g_ack seg \<le> m_snd_nxt s" | "g_ack seg = m_snd_una s"
    | "\<not> (m_snd_una s < g_ack seg \<and> g_ack seg \<le> m_snd_nxt s)" "g_ack seg \<noteq> m_snd_una s" by auto
  then show ?thesis
  proof cases
    case 1
    then have "on_boundary (m_snd_una s) (m_slist s) (g_ack seg)"
      using assms(3) by (auto simp: ack_sane_def)
    from process_new_ack_ok [OF assms(1,2) 1 this _ assms(4), of now env] assms(3) show ?thesis
      using 1 by (auto simp: process_ack_def ack_sane_def)
  next
    case 2
    then show ?thesis using process_dup_ack_ok [OF assms(1,2,4), of env now seg]
      by (auto simp: process_ack_def)
  next
    case 3
    then show ?thesis using assms(1) by (auto simp: process_ack_def ack_post_def)
  qed
qed

section \<open>MTU, opening, room to write\<close>

lemma mtu_level_le: "level \<le> 9 \<Longrightarrow> mtu_level a level \<le> 9"
proof (induction a level rule: mtu_level.induct)
  case (1 a level)
  have "level + 1 \<le> 9" if "PACKET_MAXIMUMS ! (level + 1) > 0"
  proof (rule ccontr)
    assume "\<not> level + 1 \<le> 9"
    then have "level = 9" using "1.prems" by simp
    then show False using that by (simp add: PACKET_MAXIMUMS_def)
  qed
  then show ?case using 1 by (subst mtu_level.simps) auto
qed

lemma adjustMTU_ok:
  assumes "tcp_ok s"
  shows "app_post s (adjustMTU s)"
proof -
  let ?m = "m_mtu_advise s - PACKET_OVERHEAD"
  have adv: "116 < m_mtu_advise s" "m_mtu_advise s \<le> 65535" using assms by (simp_all add: tcp_ok_def send_ok_def)
  have o: "PACKET_OVERHEAD = 116"
    by (simp add: PACKET_OVERHEAD_def HEADER_SIZE_def UDP_HEADER_SIZE_def IP_HEADER_SIZE_def JINGLE_HEADER_SIZE_def)
  have u: "unat ?m = unat (m_mtu_advise s) - 116"
    using adv unfolding o by (subst unat_sub) (auto simp: word_le_nat_alt word_less_nat_alt)
  have m: "0 < ?m" "?m \<le> 65419"
    using adv u by (simp_all add: word_le_nat_alt word_less_nat_alt)
  then have m2: "?m \<le> 130838" by (simp add: word_le_nat_alt)
  have nz: "max (m_cwnd s) ?m \<noteq> 0" "max (m_ssthresh s) (2 * ?m) \<noteq> 0"
    using m(1) assms by (auto simp: max_def tcp_ok_def send_ok_def)
  have same: "same_recv s (adjustMTU s)" by (simp add: adjustMTU_def Let_def same_recv_def)
  have "tcp_ok (adjustMTU s)"
    using assms m nz mtu_level_le [of 0 "m_mtu_advise s"] recv_ok_cong [OF same]
    by (auto simp: tcp_ok_def send_ok_def net_ok_def listen_ok_def adjustMTU_def Let_def)
  moreover have "calm s (adjustMTU s)"
    using m2 by (auto simp: calm_def adjustMTU_def Let_def max_def)
  ultimately show ?thesis using keeps_agree_same [OF same]
    by (simp add: app_post_def adjustMTU_def Let_def)
qed

lemma state_change_ok:
  assumes "tcp_ok s" "st \<noteq> TCP_LISTEN"
  shows "app_post s (s\<lparr>m_state := st\<rparr>)"
proof -
  have same: "same_recv s (s\<lparr>m_state := st\<rparr>)" by (simp add: same_recv_def)
  show ?thesis using assms recv_ok_cong [OF same] keeps_agree_same [OF same]
    by (simp add: app_post_def tcp_ok_def send_ok_def net_ok_def listen_ok_def calm_def)
qed

lemma opening_ok:
  assumes ok: "tcp_ok s" and cb: "good_callback cb"
  shows "\<exists>s'. notify cb OnTcpOpen (adjustMTU (s\<lparr>m_state := TCP_ESTABLISHED\<rparr>)) = Some s' \<and> app_post s s'"
proof -
  have a: "app_post s (s\<lparr>m_state := TCP_ESTABLISHED\<rparr>)" by (rule state_change_ok [OF ok]) simp
  have b: "app_post s (adjustMTU (s\<lparr>m_state := TCP_ESTABLISHED\<rparr>))"
    by (rule app_post_trans [OF a adjustMTU_ok]) (use a in \<open>simp add: app_post_def\<close>)
  then have "tcp_ok (adjustMTU (s\<lparr>m_state := TCP_ESTABLISHED\<rparr>))" by (simp add: app_post_def)
  from notify_ok [OF cb this] app_post_trans [OF b] show ?thesis by blast
qed

lemma app_post_refl: "tcp_ok s \<Longrightarrow> app_post s s"
  by (simp add: app_post_def)

lemma process_open_ok:
  assumes "tcp_ok s" "good_callback cb"
  shows "\<exists>s'. process_open cb bConnect s = Some s' \<and> app_post s s'"
  using opening_ok [OF assms] app_post_refl [OF assms(1)] by (simp add: process_open_def)

lemma process_writeable_ok:
  assumes "tcp_ok s" "good_callback cb"
  shows "\<exists>s'. process_writeable cb s = Some s' \<and> app_post s s'"
proof -
  have same: "same_recv s (s\<lparr>m_bWriteEnable := False\<rparr>)" by (simp add: same_recv_def)
  have "app_post s (s\<lparr>m_bWriteEnable := False\<rparr>)"
    using assms(1) recv_ok_cong [OF same] keeps_agree_same [OF same]
    by (simp add: app_post_def tcp_ok_def send_ok_def net_ok_def listen_ok_def calm_def)
  moreover from this have "tcp_ok (s\<lparr>m_bWriteEnable := False\<rparr>)" by (simp add: app_post_def)
  from notify_ok [OF assms(2) this, of OnTcpWriteable]
  obtain s' where "notify cb OnTcpWriteable (s\<lparr>m_bWriteEnable := False\<rparr>) = Some s'"
    "app_post (s\<lparr>m_bWriteEnable := False\<rparr>) s'" by blast
  ultimately have "\<exists>s'. notify cb OnTcpWriteable (s\<lparr>m_bWriteEnable := False\<rparr>) = Some s' \<and> app_post s s'"
    using app_post_trans by blast
  then show ?thesis using app_post_refl [OF assms(1)] by (simp add: process_writeable_def Let_def)
qed

section \<open>Connect messages\<close>

definition only_swnd :: "tcp \<Rightarrow> tcp \<Rightarrow> bool" where
  "only_swnd s s' \<longleftrightarrow> (\<exists>k. s' = s\<lparr>m_swnd_scale := k\<rparr>)"

lemma only_swnd_refl [simp]: "only_swnd s s"
  unfolding only_swnd_def by (rule exI [of _ "m_swnd_scale s"]) simp

lemma only_swnd_trans: "only_swnd a b \<Longrightarrow> only_swnd b c \<Longrightarrow> only_swnd a c"
  by (auto simp: only_swnd_def)

lemma applyOption_swnd: "only_swnd s (applyOption kind data len s)"
  by (auto simp: applyOption_def applyWindowScaleOption_def) (auto simp: only_swnd_def)

lemma options_loop_effect: "only_swnd s (snd (options_loop buf sp s))"
proof (induction buf sp s rule: options_loop.induct)
  case (1 buf sp s)
  show ?case
  proof (cases "ReadUInt8 buf")
    case None
    then show ?thesis by (subst options_loop.simps) simp
  next
    case (Some p)
    obtain kind buf1 where p: "p = (kind, buf1)" by (cases p)
    consider "kind = TCP_OPT_EOL" | "kind \<noteq> TCP_OPT_EOL" "kind = TCP_OPT_NOOP"
      | "kind \<noteq> TCP_OPT_EOL" "kind \<noteq> TCP_OPT_NOOP" by blast
    then show ?thesis
    proof cases
      case 1
      then show ?thesis using Some p by (subst options_loop.simps) simp
    next
      case 2
      then show ?thesis using "1.IH"(1) [OF Some p [symmetric] 2] Some p by (subst options_loop.simps) simp
    next
      case 3
      obtain opt_len buf2 where l: "(case ReadUInt8 buf1 of None \<Rightarrow> (0, buf1) | Some (l, b) \<Rightarrow> (l, b)) = (opt_len, buf2)"
        by (metis surj_pair)
      show ?thesis
      proof (cases "Consume (unat opt_len) buf2")
        case None
        then show ?thesis using 3 l Some p by (subst options_loop.simps) simp
      next
        case (Some buf3)
        note IH = "1.IH"(2) [OF \<open>ReadUInt8 buf = Some p\<close> p [symmetric] 3 l [symmetric] Some]
        have "options_loop buf sp s = options_loop buf3 (kind # sp) (applyOption kind (Data buf2) (ucast opt_len) s)"
          using 3 l Some \<open>ReadUInt8 buf = Some p\<close> p by (subst options_loop.simps) simp
        then show ?thesis using only_swnd_trans [OF applyOption_swnd IH] by simp
      qed
    qed
  qed
qed

lemma scale_window_0: "n \<le> 0xFFFF \<Longrightarrow> scale_window n k = (n, k)"
  by (subst scale_window.simps) (auto dest: leD)

text \<open>The receive buffer may be replaced only while it is empty.\<close>

lemma resizeReceiveBuffer_ok:
  assumes ok: "tcp_ok s" and empty: "f_data_length (m_rbuf s) = 0" "m_rlist s = []"
    and size: "scale_window n 0 = (n', k)" "push_bit (unat k) n' \<noteq> 0" "push_bit (unat k) n' \<le> 2147483648"
  shows "\<exists>s'. resizeReceiveBuffer env n s = Some s' \<and> app_post s s'
     \<and> f_buffer_length (m_rbuf s') = unat (push_bit (unat k) n')
     \<and> m_rcv_wnd s' = push_bit (unat k) n' \<and> m_rbuf_len s' = push_bit (unat k) n'
     \<and> m_rwnd_scale s' = k \<and> f_data_length (m_rbuf s') = 0 \<and> m_rlist s' = []"
proof -
  let ?n = "push_bit (unat k) n'"
  have fifo: "fifo_ok (m_rbuf s)" using ok by (simp add: tcp_ok_def recv_ok_def)
  have n: "unat ?n \<le> 2147483648" using size(3) by (simp add: word_le_nat_alt)
  obtain b' where b': "SetCapacity (env_mem env) (unat ?n) (m_rbuf s) = (True, b')" "fifo_ok b'"
      "f_buffer_length b' = unat ?n" "f_data_length b' = 0" "fifo_contents b' = fifo_contents (m_rbuf s)"
    using SetCapacity_eq [OF fifo _ n, of "env_mem env"] empty(1) by auto
  define s' where "s' = s\<lparr>m_rbuf := b', m_rbuf_len := ?n, m_rwnd_scale := k, m_ssthresh := ?n,
      m_rcv_wnd := ?n\<rparr>"
  have r: "resizeReceiveBuffer env n s = Some s'"
    unfolding resizeReceiveBuffer_def size(1)
    by (simp add: b'(1) ASSERT_def Let_def s'_def rbuf_space_def GetWriteRemaining_def b'(3,4))
  have "recv_ok s'" using b'(2) empty(2) by (simp add: recv_ok_def s'_def)
  then have "tcp_ok s'"
    using ok size(2) by (simp add: tcp_ok_def send_ok_def net_ok_def listen_ok_def s'_def)
  moreover have "keeps_agree s s'"
    using b'(4) empty by (auto simp: keeps_agree_def recv_agree_def agree_on_def s'_def covered_def stream_agree_def fifo_contents_def)
  ultimately have "app_post s s'" by (simp add: app_post_def calm_def s'_def)
  then show ?thesis using r b' empty by (simp add: s'_def)
qed

lemma only_swnd_ok:
  assumes "tcp_ok s" "only_swnd s s'"
  shows "app_post s s'"
proof -
  have "same_recv s s'" using assms(2) by (auto simp: only_swnd_def same_recv_def)
  then show ?thesis using assms recv_ok_cong keeps_agree_same
    by (auto simp: only_swnd_def app_post_def tcp_ok_def send_ok_def net_ok_def listen_ok_def calm_def)
qed

text \<open>A connect message may shrink the receive buffer back to its default size.\<close>

definition resizable :: "tcp \<Rightarrow> bool" where
  "resizable s \<longleftrightarrow> m_rwnd_scale s = 0 \<or> (f_data_length (m_rbuf s) = 0 \<and> m_rlist s = [])"

lemma parseOptions_ok:
  assumes "tcp_ok s" "resizable s"
  shows "\<exists>s'. parseOptions env data s = Some s' \<and> app_post s s' \<and> m_state s' = m_state s"
proof -
  obtain r s1 where o: "options_loop (ByteBuffer_of data ORDER_NETWORK) [] s = (r, s1)" by (metis surj_pair)
  then have sw: "only_swnd s s1" using options_loop_effect [of s "ByteBuffer_of data ORDER_NETWORK" "[]"] by simp
  have post1: "app_post s s1" by (rule only_swnd_ok [OF assms(1) sw])
  have st: "m_state s1 = m_state s" "m_rwnd_scale s1 = m_rwnd_scale s" "m_rbuf s1 = m_rbuf s" "m_rlist s1 = m_rlist s"
    using sw by (auto simp: only_swnd_def)
  show ?thesis
  proof (cases "\<exists>sp. r = Some sp \<and> TCP_OPT_WND_SCALE \<notin> set sp \<and> m_rwnd_scale s1 > 0")
    case False
    then show ?thesis using o post1 st(1) by (auto simp: parseOptions_def split: option.splits)
  next
    case True
    then have empty: "f_data_length (m_rbuf s1) = 0" "m_rlist s1 = []"
      using assms(2) st by (auto simp: resizable_def)
    have sz: "scale_window DEFAULT_RCV_BUF_SIZE 0 = (DEFAULT_RCV_BUF_SIZE, 0)"
      by (rule scale_window_0) (simp add: DEFAULT_RCV_BUF_SIZE_def)
    have "tcp_ok s1" using post1 by (simp add: app_post_def)
    from resizeReceiveBuffer_ok [OF this empty sz, of env]
    obtain s2 where s2: "resizeReceiveBuffer env DEFAULT_RCV_BUF_SIZE s1 = Some s2" "app_post s1 s2"
      by (auto simp: DEFAULT_RCV_BUF_SIZE_def)
    have st2: "m_state s2 = m_state s1"
      using s2(1) by (auto simp: resizeReceiveBuffer_def Let_def ASSERT_def split: prod.splits if_splits)
    have "app_post s2 (s2\<lparr>m_swnd_scale := 0\<rparr>)"
      by (rule only_swnd_ok) (use s2(2) in \<open>auto simp: app_post_def only_swnd_def\<close>)
    then show ?thesis
      using True o s2 st2 st(1) app_post_trans [OF app_post_trans [OF post1 s2(2)]]
      by (auto simp: parseOptions_def)
  qed
qed

text \<open>The connect message is CTL_CONNECT, followed by the window scale option unless it is switched off.\<close>

lemma connect_message_data:
  "Data (connect_message s)
     = CTL_CONNECT # (if m_support_wnd_scale s then [TCP_OPT_WND_SCALE, 1, m_rwnd_scale s] else [])"
  by (simp add: connect_message_def Let_def Write_wire(1) buf_simps buffer_ok_init)

lemma connect_message_length: "Length (connect_message s) \<le> 4" "0 < Length (connect_message s)"
  by (simp_all add: Length_Data connect_message_data)

lemma queueConnectMessage_ok:
  assumes ok: "send_ok s" and empty: "f_data_length (m_sbuf s) = 0" "4 \<le> f_buffer_length (m_sbuf s)"
    "m_snd_una s = 0"
  shows "\<exists>s'. queueConnectMessage s = Some s' \<and> queue_post s s'
     \<and> fifo_contents (m_sbuf s') = Data (connect_message s) \<and> m_snd_nxt s' = m_snd_nxt s"
proof -
  let ?d = "Data (connect_message s)" and ?n = "of_nat (Length (connect_message s)) :: u32"
  let ?s = "s\<lparr>m_snd_wnd := ?n\<rparr>"
  have len: "unat ?n = length ?d"
    using connect_message_length(1) [of s] by (subst unat_of_nat_u32) (simp_all add: Length_Data)
  have l4: "length ?d \<le> 4" using connect_message_length(1) [of s] by (simp add: Length_Data)
  have ok': "send_ok ?s" using ok by (simp add: send_ok_def net_ok_def)
  have space: "unat ?n \<le> GetWriteRemaining (m_sbuf ?s)"
    using l4 len empty by (simp add: GetWriteRemaining_def)
  then have w: "min (unat ?n) (GetWriteRemaining (m_sbuf ?s)) = length ?d" using len by simp
  have room: "unat (m_snd_una ?s) + f_data_length (m_sbuf ?s) + min (unat ?n) (GetWriteRemaining (m_sbuf ?s))
      < 4294967296"
    unfolding w using empty l4 by simp
  from queue_ok [OF ok' len [symmetric] room, of True] space
  obtain s' where s': "queue ?d ?n True ?s = Some (of_nat (length ?d), s')" "queue_post ?s s'"
      "fifo_contents (m_sbuf s') = fifo_contents (m_sbuf s) @ ?d" "m_snd_nxt s' = m_snd_nxt s"
    unfolding w by auto
  have "queue_post s ?s"
    using ok' by (simp add: queue_post_def same_recv_def calm_def)
  then have "queue_post s s'" by (rule queue_post_trans [OF _ s'(2)])
  moreover have "fifo_contents (m_sbuf s) = []" using empty(1) by (simp add: fifo_contents_def)
  ultimately show ?thesis using s' by (auto simp: queueConnectMessage_def Let_def)
qed

lemma process_control_ok:
  assumes ok: "tcp_ok s" and cb: "good_callback cb"
    and rs: "g_flags seg AND FLAG_CTL \<noteq> 0 \<Longrightarrow> resizable s"
  shows "\<exists>ctl s'. process_control env cb seg s = Some (ctl, s') \<and> app_post s s'"
proof (cases "g_flags seg AND FLAG_CTL = 0 \<or> g_len seg = 0 \<or> g_data seg ! 0 \<noteq> CTL_CONNECT")
  case True
  then show ?thesis using app_post_refl [OF ok] by (auto simp: process_control_def)
next
  case False
  obtain s1 where s1: "parseOptions env (take (unat (g_len seg - 1)) (drop 1 (g_data seg))) s = Some s1"
      "app_post s s1" "m_state s1 = m_state s"
    using parseOptions_ok [OF ok rs] False by blast
  have ok1: "tcp_ok s1" using s1(2) by (simp add: app_post_def)
  consider "m_state s1 = TCP_LISTEN" | "m_state s1 = TCP_SYN_SENT"
    | "m_state s1 \<noteq> TCP_LISTEN" "m_state s1 \<noteq> TCP_SYN_SENT" by blast
  then show ?thesis
  proof cases
    case 1
    let ?s = "s1\<lparr>m_state := TCP_SYN_RECEIVED\<rparr>"
    have post: "app_post s1 ?s" by (rule state_change_ok [OF ok1]) simp
    have "send_ok ?s" using post by (simp add: app_post_def tcp_ok_def)
    moreover have "f_data_length (m_sbuf ?s) = 0" "4 \<le> f_buffer_length (m_sbuf ?s)" "m_snd_una ?s = 0"
      using ok1 1 by (simp_all add: tcp_ok_def listen_ok_def)
    ultimately obtain s2 where s2: "queueConnectMessage ?s = Some s2" "queue_post ?s s2"
      using queueConnectMessage_ok by blast
    have "app_post ?s s2"
      using s2(2) post recv_ok_cong keeps_agree_same
      by (auto simp: queue_post_def app_post_def tcp_ok_def listen_ok_def)
    then have "app_post s s2" using app_post_trans [OF app_post_trans [OF s1(2) post]] by blast
    then show ?thesis using False s1(1) 1 s2(1) by (auto simp: process_control_def)
  next
    case 2
    from opening_ok [OF ok1 cb] obtain s2 where
      "notify cb OnTcpOpen (adjustMTU (s1\<lparr>m_state := TCP_ESTABLISHED\<rparr>)) = Some s2" "app_post s1 s2" by blast
    then show ?thesis using False s1(1) 2 app_post_trans [OF s1(2)] by (auto simp: process_control_def)
  next
    case 3
    then show ?thesis using False s1 by (auto simp: process_control_def)
  qed
qed

end
