(* ===== verification/Tcp_Recv_Proofs.thy ===== *)
theory Tcp_Recv_Proofs
  imports Tcp_Control_Proofs
begin

text \<open>
  The receiving side of PseudoTcp (talk/p2p/base/pseudotcp.cc): a segment is cut to what is
  new and fits, written at its place, and what is in sequence is handed over. The bytes
  that become readable are those of the peer's stream, in order, whatever the order,
  overlap and repetition of the segments.
\<close>

section \<open>Segments of a stream\<close>

definition seg_sane :: "segment \<Rightarrow> bool" where
  "seg_sane seg \<longleftrightarrow> unat (g_seq seg) + unat (g_len seg) < 4294967296
     \<and> unat (g_len seg) \<le> length (g_data seg)"

definition seg_from :: "(nat \<Rightarrow> byte) \<Rightarrow> segment \<Rightarrow> bool" where
  "seg_from S seg \<longleftrightarrow> (\<forall>j < unat (g_len seg). g_data seg ! j = S (unat (g_seq seg) + j))"

text \<open>The segment lies in the receive window.\<close>

definition seg_fits :: "tcp \<Rightarrow> segment \<Rightarrow> bool" where
  "seg_fits s seg \<longleftrightarrow> (0 < g_len seg \<longrightarrow> m_rcv_nxt s \<le> g_seq seg
     \<and> unat (g_seq seg) + unat (g_len seg) \<le> unat (m_rcv_nxt s) + GetWriteRemaining (m_rbuf s))"

lemma unat_rbuf_space:
  assumes "fifo_ok (m_rbuf s)"
  shows "unat (rbuf_space s) = GetWriteRemaining (m_rbuf s)"
  unfolding rbuf_space_def
  using fifo_okD(3) [OF assms] by (intro unat_of_nat_u32) (simp add: GetWriteRemaining_def)

lemma trim_front_ok:
  assumes "seg_sane seg"
  shows "seg_sane (trim_front s seg)" "seg_from S seg \<Longrightarrow> seg_from S (trim_front s seg)"
    "g_flags (trim_front s seg) = g_flags seg"
    "0 < g_len (trim_front s seg) \<Longrightarrow> m_rcv_nxt s \<le> g_seq (trim_front s seg)"
    "0 < g_len (trim_front s seg) \<Longrightarrow>
       unat (g_seq (trim_front s seg)) + unat (g_len (trim_front s seg)) = unat (g_seq seg) + unat (g_len seg)"
proof -
  let ?n = "m_rcv_nxt s - g_seq seg"
  have un: "g_seq seg < m_rcv_nxt s \<Longrightarrow> unat ?n = unat (m_rcv_nxt s) - unat (g_seq seg)"
    by (simp add: unat_sub word_less_nat_alt word_le_nat_alt)
  have len: "?n < g_len seg \<Longrightarrow> unat (g_len seg - ?n) = unat (g_len seg) - unat ?n"
    by (simp add: unat_sub word_less_nat_alt word_le_nat_alt)
  have sum: "g_seq seg + ?n = m_rcv_nxt s" by simp
  show "g_flags (trim_front s seg) = g_flags seg" by (simp add: trim_front_def Let_def)
  show "seg_sane (trim_front s seg)"
    using assms un len by (auto simp: seg_sane_def trim_front_def Let_def word_less_nat_alt)
  show "0 < g_len (trim_front s seg) \<Longrightarrow> m_rcv_nxt s \<le> g_seq (trim_front s seg)"
    by (auto simp: trim_front_def Let_def not_less split: if_splits)
  show "0 < g_len (trim_front s seg) \<Longrightarrow>
       unat (g_seq (trim_front s seg)) + unat (g_len (trim_front s seg)) = unat (g_seq seg) + unat (g_len seg)"
    using un len by (auto simp: trim_front_def Let_def word_less_nat_alt split: if_splits)
  show "seg_from S (trim_front s seg)" if src: "seg_from S seg"
  proof (cases "g_seq seg < m_rcv_nxt s \<and> ?n < g_len seg")
    case True
    have "drop (unat ?n) (g_data seg) ! j = S (unat (m_rcv_nxt s) + j)"
      if "j < unat (g_len seg - ?n)" for j
    proof -
      have "unat ?n + j < unat (g_len seg)" using that len True by simp
      moreover have "unat (g_seq seg) + (unat ?n + j) = unat (m_rcv_nxt s) + j"
        using un True by (simp add: word_less_nat_alt)
      then have "S (unat (g_seq seg) + (unat ?n + j)) = S (unat (m_rcv_nxt s) + j)" by (rule arg_cong)
      moreover have "unat ?n + j < length (g_data seg)"
        using \<open>unat ?n + j < unat (g_len seg)\<close> assms by (simp add: seg_sane_def)
      ultimately show ?thesis using src by (simp add: seg_from_def)
    qed
    then show ?thesis using True by (simp add: seg_from_def trim_front_def Let_def)
  qed (use src in \<open>auto simp: seg_from_def trim_front_def Let_def\<close>)
qed

lemma trim_back_ok:
  assumes fifo: "fifo_ok (m_rbuf s)" and sane: "seg_sane seg"
    and front: "0 < g_len seg \<Longrightarrow> m_rcv_nxt s \<le> g_seq seg"
  shows "seg_sane (trim_back s seg)" "seg_from S seg \<Longrightarrow> seg_from S (trim_back s seg)"
    "g_flags (trim_back s seg) = g_flags seg" "seg_fits s (trim_back s seg)"
proof -
  let ?e = "g_seq seg + g_len seg - m_rcv_nxt s"
  note space = unat_rbuf_space [OF fifo]
  have le: "n < m \<Longrightarrow> m - n \<le> m" for n m :: u32
    by (simp add: word_sub_le order_less_imp_le)
  have len: "g_len (trim_back s seg) \<le> g_len seg" "g_seq (trim_back s seg) = g_seq seg"
    "g_data (trim_back s seg) = g_data seg"
    using le [of "?e - rbuf_space s" "g_len seg"] by (auto simp: trim_back_def Let_def)
  then have ulen: "unat (g_len (trim_back s seg)) \<le> unat (g_len seg)" by (simp add: word_le_nat_alt)
  show "g_flags (trim_back s seg) = g_flags seg" by (simp add: trim_back_def Let_def)
  show "seg_sane (trim_back s seg)" using sane len ulen by (simp add: seg_sane_def)
  show "seg_from S seg \<Longrightarrow> seg_from S (trim_back s seg)" using len ulen by (simp add: seg_from_def)
  show "seg_fits s (trim_back s seg)"
  proof (cases "0 < g_len (trim_back s seg)")
    case False
    then show ?thesis by (simp add: seg_fits_def)
  next
    case True
    then have l0: "0 < g_len seg" using len(1) by (meson order_less_le_trans)
    have f: "unat (m_rcv_nxt s) \<le> unat (g_seq seg)" using front [OF l0] by (simp add: word_le_nat_alt)
    have e1: "unat (g_seq seg + g_len seg) = unat (g_seq seg) + unat (g_len seg)"
      using sane by (intro unat_add_less) (simp add: seg_sane_def)
    have e: "unat ?e = unat (g_seq seg) + unat (g_len seg) - unat (m_rcv_nxt s)"
      using f e1 by (subst unat_sub) (simp_all add: word_le_nat_alt)
    show ?thesis
    proof (cases "?e > rbuf_space s")
      case False
      then have "trim_back s seg = seg" by (simp add: trim_back_def)
      moreover have "unat (g_seq seg) + unat (g_len seg) \<le> unat (m_rcv_nxt s) + GetWriteRemaining (m_rbuf s)"
        using False e space f by (simp add: word_less_nat_alt)
      ultimately show ?thesis using f by (simp add: seg_fits_def word_le_nat_alt)
    next
      case big: True
      let ?n = "?e - rbuf_space s"
      have n: "unat ?n = unat ?e - unat (rbuf_space s)"
        using big by (simp add: unat_sub word_less_nat_alt word_le_nat_alt)
      have lt: "?n < g_len seg" using True big by (auto simp: trim_back_def Let_def split: if_splits)
      then have tb: "g_len (trim_back s seg) = g_len seg - ?n" using big by (simp add: trim_back_def Let_def)
      have "unat (g_len seg - ?n) = unat (g_len seg) - unat ?n"
        by (rule unat_sub [OF order_less_imp_le [OF lt]])
      then show ?thesis using tb n e space f lt big len(2)
        by (simp add: seg_fits_def word_less_nat_alt word_le_nat_alt)
    qed
  qed
qed

section \<open>Handing over data that is in sequence\<close>

definition recv_frame :: "tcp \<Rightarrow> tcp \<Rightarrow> bool" where
  "recv_frame s s' \<longleftrightarrow> (\<exists>b n w l. s' = s\<lparr>m_rbuf := b, m_rcv_nxt := n, m_rcv_wnd := w, m_rlist := l\<rparr>)"

lemma recv_frame_trans: "recv_frame a b \<Longrightarrow> recv_frame b c \<Longrightarrow> recv_frame a c"
  by (auto simp: recv_frame_def) blast

lemma recv_frame_send:
  assumes "recv_frame s s'"
  shows "same_send s s'" "same_net s s'" "m_shutdown s' = m_shutdown s" "m_bReadEnable s' = m_bReadEnable s"
  using assms by (auto simp: recv_frame_def same_send_def same_net_def)

text \<open>Committing \<open>n\<close> bytes moves \<open>m_rcv_nxt\<close> and the readable data on by the same amount.\<close>

lemma commit_ok:
  assumes fifo: "fifo_ok (m_rbuf s)" and n: "unat n \<le> GetWriteRemaining (m_rbuf s)"
    and wrap: "unat (m_rcv_nxt s) + unat n < 4294967296"
  obtains b where "ConsumeWriteBuffer (unat n) (m_rbuf s) = Some b" "fifo_ok b"
    "GetWriteRemaining b = GetWriteRemaining (m_rbuf s) - unat n"
    "f_data_length b = f_data_length (m_rbuf s) + unat n"
    "unat (m_rcv_nxt s + n) = unat (m_rcv_nxt s) + unat n"
    "\<And>S C w l. agree_on S C s \<Longrightarrow> {unat (m_rcv_nxt s) ..< unat (m_rcv_nxt s) + unat n} \<subseteq> C \<Longrightarrow>
       agree_on S C (s\<lparr>m_rbuf := b, m_rcv_nxt := m_rcv_nxt s + n, m_rcv_wnd := w, m_rlist := l\<rparr>)"
proof -
  let ?b = "m_rbuf s" and ?pos = "unat (m_rcv_nxt s)"
  have n': "unat n \<le> f_buffer_length ?b - length (fifo_contents ?b)"
    using n by (simp add: GetWriteRemaining_def)
  have u: "unat (m_rcv_nxt s + n) = ?pos + unat n" using wrap by (intro unat_add_less) simp
  obtain b where b: "ConsumeWriteBuffer (unat n) ?b = Some b" "fifo_ok b"
      "f_data_length b = f_data_length ?b + unat n" "f_buffer_length b = f_buffer_length ?b"
    using ConsumeWriteBuffer_eq [OF fifo, of "unat n"] n by (auto simp: GetWriteRemaining_def)
  have agree: "agree_on S C (s\<lparr>m_rbuf := b, m_rcv_nxt := m_rcv_nxt s + n, m_rcv_wnd := w, m_rlist := l\<rparr>)"
    if a: "agree_on S C s" and C: "{?pos ..< ?pos + unat n} \<subseteq> C" for S C w l
  proof -
    have old: "f_data_length ?b \<le> ?pos" "fifo_contents ?b = map S [?pos - f_data_length ?b ..< ?pos]"
        "stream_agree (fifo_window ?b) ?pos C S"
      using a by (simp_all add: agree_on_def)
    from fr.commit_agree [OF fifo n' old(3) C] b(1)
    have new: "fifo_contents b = fifo_contents ?b @ map S [?pos ..< ?pos + unat n]"
        "stream_agree (fifo_window b) (?pos + unat n) C S" by auto
    have "[?pos - f_data_length ?b ..< ?pos] @ [?pos ..< ?pos + unat n] = [?pos - f_data_length ?b ..< ?pos + unat n]"
      using upt_add_eq_append [of "?pos - f_data_length ?b" ?pos "unat n"] by simp
    then have "fifo_contents b = map S [?pos - f_data_length ?b ..< ?pos + unat n]"
      using new(1) old(2) by (metis map_append)
    then show ?thesis using old(1) new(2) b(3) u by (simp add: agree_on_def)
  qed
  have "GetWriteRemaining b = GetWriteRemaining ?b - unat n" using b(3,4) by (simp add: GetWriteRemaining_def)
  then show thesis using that [OF b(1,2) _ b(3) u agree] by blast
qed

lemma covered_mono: "set l \<subseteq> set l' \<Longrightarrow> covered l \<subseteq> covered l'"
  by (auto simp: covered_def)

lemma recover_segments_ok:
  "fifo_ok (m_rbuf s) \<Longrightarrow> sorted (map r_seq rs) \<Longrightarrow> \<forall>r \<in> set rs. rseg_ok s r \<Longrightarrow>
   \<exists>fl' s'. recover_segments rs fl s = Some (fl', s') \<and> recv_frame s s' \<and> recv_ok s'
     \<and> set (m_rlist s') \<subseteq> set rs \<and> (\<forall>r \<in> set (m_rlist s'). m_rcv_nxt s' < r_seq r)
     \<and> m_rcv_nxt s \<le> m_rcv_nxt s'
     \<and> (\<forall>S C. agree_on S C s \<and> covered rs \<subseteq> C \<longrightarrow> agree_on S C s')"
proof (induction rs arbitrary: fl s)
  case Nil
  have "recv_frame s (s\<lparr>m_rlist := []\<rparr>)"
    unfolding recv_frame_def
    by (intro exI [of _ "m_rbuf s"] exI [of _ "m_rcv_nxt s"] exI [of _ "m_rcv_wnd s"] exI [of _ "[]"]) simp
  then show ?case using Nil by (simp add: recv_ok_def agree_on_def)
next
  case (Cons r rs)
  show ?case
  proof (cases "r_seq r \<le> m_rcv_nxt s")
    case False
    have "recv_frame s (s\<lparr>m_rlist := r # rs\<rparr>)"
      unfolding recv_frame_def
      by (intro exI [of _ "m_rbuf s"] exI [of _ "m_rcv_nxt s"] exI [of _ "m_rcv_wnd s"] exI [of _ "r # rs"]) simp
    moreover have "\<forall>r' \<in> set (r # rs). m_rcv_nxt s < r_seq r'"
      using False Cons.prems(2) by (auto simp: not_le intro: order_less_le_trans)
    ultimately show ?thesis using False Cons.prems
      by (simp add: recv_ok_def agree_on_def rseg_ok_def)
  next
    case seq: True
    have r: "unat (r_seq r) + unat (r_len r) < 4294967296"
        "unat (r_seq r) + unat (r_len r) \<le> unat (m_rcv_nxt s) + GetWriteRemaining (m_rbuf s)"
      using Cons.prems(3) by (simp_all add: rseg_ok_def)
    have e: "unat (r_seq r + r_len r) = unat (r_seq r) + unat (r_len r)"
      using r(1) by (intro unat_add_less) simp
    show ?thesis
    proof (cases "r_seq r + r_len r > m_rcv_nxt s")
      case False
      have "\<exists>fl' s'. recover_segments rs fl s = Some (fl', s') \<and> recv_frame s s' \<and> recv_ok s'
         \<and> set (m_rlist s') \<subseteq> set rs \<and> (\<forall>r \<in> set (m_rlist s'). m_rcv_nxt s' < r_seq r)
         \<and> m_rcv_nxt s \<le> m_rcv_nxt s'
         \<and> (\<forall>S C. agree_on S C s \<and> covered rs \<subseteq> C \<longrightarrow> agree_on S C s')"
        using Cons.prems by (intro Cons.IH) auto
      then show ?thesis using seq False covered_mono [of rs "r # rs"]
        by (simp add: set_subset_Cons) (meson order_trans subset_insertI)
    next
      case adv: True
      let ?n = "r_seq r + r_len r - m_rcv_nxt s"
      have un: "unat ?n = unat (r_seq r) + unat (r_len r) - unat (m_rcv_nxt s)"
        using unat_sub [OF order_less_imp_le [OF adv]] e by simp
      have n: "unat ?n \<le> GetWriteRemaining (m_rbuf s)" "unat (m_rcv_nxt s) + unat ?n < 4294967296"
        using un r adv e by (simp_all add: word_less_nat_alt)
      obtain b where b: "ConsumeWriteBuffer (unat ?n) (m_rbuf s) = Some b" "fifo_ok b"
          "GetWriteRemaining b = GetWriteRemaining (m_rbuf s) - unat ?n"
          "unat (m_rcv_nxt s + ?n) = unat (m_rcv_nxt s) + unat ?n"
          "\<And>S C w l. agree_on S C s \<Longrightarrow> {unat (m_rcv_nxt s) ..< unat (m_rcv_nxt s) + unat ?n} \<subseteq> C \<Longrightarrow>
             agree_on S C (s\<lparr>m_rbuf := b, m_rcv_nxt := m_rcv_nxt s + ?n, m_rcv_wnd := w, m_rlist := l\<rparr>)"
        using commit_ok [OF _ n] Cons.prems(1) by metis
      define s1 where "s1 = s\<lparr>m_rbuf := b, m_rcv_nxt := m_rcv_nxt s + ?n, m_rcv_wnd := m_rcv_wnd s - ?n\<rparr>"
      have s1_list: "s1 = s\<lparr>m_rbuf := b, m_rcv_nxt := m_rcv_nxt s + ?n, m_rcv_wnd := m_rcv_wnd s - ?n,
          m_rlist := m_rlist s\<rparr>" by (simp add: s1_def)
      have frame: "recv_frame s s1" unfolding s1_list recv_frame_def by blast
      have mono: "m_rcv_nxt s \<le> m_rcv_nxt s1" using b(4) by (simp add: s1_def word_le_nat_alt)
      have step: "recover_segments (r # rs) fl s = recover_segments rs sfImmediateAck s1"
        using seq adv b(1) by (simp add: Let_def s1_def)
      have "\<exists>fl' s'. recover_segments rs sfImmediateAck s1 = Some (fl', s') \<and> recv_frame s1 s' \<and> recv_ok s'
         \<and> set (m_rlist s') \<subseteq> set rs \<and> (\<forall>r \<in> set (m_rlist s'). m_rcv_nxt s' < r_seq r)
         \<and> m_rcv_nxt s1 \<le> m_rcv_nxt s'
         \<and> (\<forall>S C. agree_on S C s1 \<and> covered rs \<subseteq> C \<longrightarrow> agree_on S C s')"
      proof (rule Cons.IH)
        show "fifo_ok (m_rbuf s1)" using b(2) by (simp add: s1_def)
        show "sorted (map r_seq rs)" using Cons.prems(2) by simp
        show "\<forall>r \<in> set rs. rseg_ok s1 r"
          using Cons.prems(3) b(3,4) n(1) by (auto simp: rseg_ok_def s1_def)
      qed
      then obtain fl' s' where s': "recover_segments rs sfImmediateAck s1 = Some (fl', s')" "recv_frame s1 s'"
          "recv_ok s'" "set (m_rlist s') \<subseteq> set rs" "\<forall>r \<in> set (m_rlist s'). m_rcv_nxt s' < r_seq r"
          "m_rcv_nxt s1 \<le> m_rcv_nxt s'"
          "\<And>S C. agree_on S C s1 \<Longrightarrow> covered rs \<subseteq> C \<Longrightarrow> agree_on S C s'" by blast
      have agree: "agree_on S C s'" if a: "agree_on S C s" and C: "covered (r # rs) \<subseteq> C" for S C
      proof (rule s'(7))
        have "{unat (m_rcv_nxt s) ..< unat (m_rcv_nxt s) + unat ?n} \<subseteq> covered (r # rs)"
          using seq un by (auto simp: covered_def word_le_nat_alt)
        then show "agree_on S C s1" unfolding s1_list using b(5) [OF a] C by blast
        show "covered rs \<subseteq> C" using C covered_mono [of rs "r # rs"] by auto
      qed
      have "recv_frame s s'" by (rule recv_frame_trans [OF frame s'(2)])
      moreover have "m_rcv_nxt s \<le> m_rcv_nxt s'" using mono s'(6) by (rule order_trans)
      moreover have "set (m_rlist s') \<subseteq> set (r # rs)" using s'(4) by auto
      ultimately show ?thesis unfolding step using s'(1,3,5) agree by blast
    qed
  qed
qed

section \<open>The data of a segment\<close>

lemma set_insert_rseg [simp]: "set (insert_rseg r l) = insert r (set l)"
proof -
  have "set l = set (takeWhile (\<lambda>x. r_seq x < r_seq r) l) \<union> set (dropWhile (\<lambda>x. r_seq x < r_seq r) l)"
    by (metis set_append takeWhile_dropWhile_id)
  then show ?thesis by (simp add: insert_rseg_def)
qed

lemma sorted_insert_rseg: "sorted (map r_seq l) \<Longrightarrow> sorted (map r_seq (insert_rseg r l))"
proof (induction l)
  case (Cons x l)
  show ?case
  proof (cases "r_seq x < r_seq r")
    case True
    then have "insert_rseg r (x # l) = x # insert_rseg r l" by (simp add: insert_rseg_def)
    then show ?thesis using Cons True by auto
  next
    case False
    then have "insert_rseg r (x # l) = r # x # l" by (simp add: insert_rseg_def)
    then show ?thesis using Cons.prems False by (auto simp: not_less)
  qed
qed (simp add: insert_rseg_def)

text \<open>A connect message carries no data of the stream; nothing may be buffered when it is counted.\<close>

definition ctl_sane :: "segment \<Rightarrow> tcp \<Rightarrow> bool" where
  "ctl_sane seg s \<longleftrightarrow> (g_flags seg AND FLAG_CTL \<noteq> 0 \<longrightarrow> m_rlist s = [] \<and> f_data_length (m_rbuf s) = 0)"

definition data_post :: "segment \<Rightarrow> tcp \<Rightarrow> tcp \<Rightarrow> bool" where
  "data_post seg s s' \<longleftrightarrow> recv_frame s s' \<and> recv_ok s' \<and> m_rcv_nxt s \<le> m_rcv_nxt s'
     \<and> (\<forall>S. recv_agree S s \<and> seg_from S seg \<longrightarrow> recv_agree S s')
     \<and> (0 < g_len seg \<and> g_seq seg = m_rcv_nxt s
         \<longrightarrow> unat (g_seq seg) + unat (g_len seg) \<le> unat (m_rcv_nxt s'))
     \<and> (0 < g_len seg \<and> g_seq seg = m_rcv_nxt s \<and> g_flags seg AND FLAG_CTL = 0 \<and> m_shutdown s = SD_NONE
         \<longrightarrow> (\<forall>r \<in> set (m_rlist s'). m_rcv_nxt s' < r_seq r))"

lemma recv_frame_refl [simp]: "recv_frame s s"
  unfolding recv_frame_def
  by (rule exI [of _ "m_rbuf s"], rule exI [of _ "m_rcv_nxt s"], rule exI [of _ "m_rcv_wnd s"],
      rule exI [of _ "m_rlist s"]) simp

text \<open>Data that is only counted.\<close>

lemma ignored_data_ok:
  assumes ok: "recv_ok s" and sane: "seg_sane seg" and ctl: "ctl_sane seg s"
    and ign: "g_flags seg AND FLAG_CTL \<noteq> 0 \<or> m_shutdown s \<noteq> SD_NONE" and seq: "g_seq seg = m_rcv_nxt s"
  shows "data_post seg s (s\<lparr>m_rcv_nxt := m_rcv_nxt s + g_len seg\<rparr>)"
proof -
  let ?s = "s\<lparr>m_rcv_nxt := m_rcv_nxt s + g_len seg\<rparr>"
  have u: "unat (m_rcv_nxt s + g_len seg) = unat (m_rcv_nxt s) + unat (g_len seg)"
    using sane seq by (intro unat_add_less) (simp add: seg_sane_def)
  have list: "?s = s\<lparr>m_rbuf := m_rbuf s, m_rcv_nxt := m_rcv_nxt s + g_len seg, m_rcv_wnd := m_rcv_wnd s,
      m_rlist := m_rlist s\<rparr>" by simp
  have "recv_frame s ?s" by (subst list) (unfold recv_frame_def, blast)
  moreover have "recv_ok ?s" using ok u by (fastforce simp: recv_ok_def rseg_ok_def)
  moreover have "recv_agree S ?s" if "recv_agree S s" for S
    using that ign ctl u
    by (auto simp: recv_agree_def agree_on_def ctl_sane_def covered_def stream_agree_def fifo_contents_def)
  ultimately show ?thesis using ign u seq by (auto simp: data_post_def word_le_nat_alt)
qed

lemma receive_data_ok:
  assumes ok: "recv_ok s" and sane: "seg_sane seg" and fits: "seg_fits s seg"
    and ctl: "0 < g_len seg \<Longrightarrow> ctl_sane seg s"
  shows "\<exists>nd fl' s'. receive_data seg fl s = Some (nd, fl', s') \<and> data_post seg s s'"
proof -
  have fifo: "fifo_ok (m_rbuf s)" using ok by (simp add: recv_ok_def)
  have none: "data_post seg s s" if "\<not> (0 < g_len seg \<and> g_seq seg = m_rcv_nxt s)"
    using that ok by (auto simp: data_post_def)
  consider "\<not> g_len seg > 0" | "g_len seg > 0" "g_flags seg AND FLAG_CTL \<noteq> 0 \<or> m_shutdown s \<noteq> SD_NONE"
    | "g_len seg > 0" "g_flags seg AND FLAG_CTL = 0" "m_shutdown s = SD_NONE" by blast
  then show ?thesis
  proof cases
    case 1
    then show ?thesis using none by (auto simp: receive_data_def Let_def)
  next
    case 2
    then show ?thesis using none ignored_data_ok [OF ok sane ctl [OF 2(1)]]
      by (cases "g_seq seg = m_rcv_nxt s") (auto simp: receive_data_def Let_def)
  next
    case 3
    let ?b = "m_rbuf s" and ?pos = "unat (m_rcv_nxt s)" and ?n = "unat (g_len seg)"
    let ?p = "take ?n (g_data seg)" and ?off = "unat (g_seq seg - m_rcv_nxt s)"
    have n0: "0 < ?n" using 3(1) by (simp add: word_less_nat_alt)
    have len: "length ?p = ?n" using sane by (simp add: seg_sane_def)
    then have ne: "?p \<noteq> []" using n0 by auto
    have le: "m_rcv_nxt s \<le> g_seq seg" "unat (g_seq seg) + ?n \<le> ?pos + GetWriteRemaining ?b"
      using fits 3(1) by (simp_all add: seg_fits_def)
    have off: "?off = unat (g_seq seg) - ?pos" using le(1) by (rule unat_sub)
    have off_le: "?pos \<le> unat (g_seq seg)" using le(1) by (simp add: word_le_nat_alt)
    have room: "length (fifo_contents ?b) + ?off + length ?p \<le> f_buffer_length ?b"
      using le(2) off off_le len fifo_okD(2) [OF fifo] by (simp add: GetWriteRemaining_def)
    have Cb: "covered (m_rlist s) \<subseteq> {..< ?pos + (f_buffer_length ?b - length (fifo_contents ?b))}"
      using ok by (fastforce simp: covered_def recv_ok_def rseg_ok_def GetWriteRemaining_def)
    obtain b' where b': "WriteOffset ?p ?off ?b = (SR_SUCCESS, length ?p, b')" "fifo_ok b'"
        "fifo_contents b' = fifo_contents ?b" "f_buffer_length b' = f_buffer_length ?b"
      using fr.poke_law [OF fifo ne room] by blast
    have dl: "f_data_length b' = f_data_length ?b"
      using arg_cong [OF b'(3), of length] by simp
    let ?new = "{unat (g_seq seg) ..< unat (g_seq seg) + ?n}"
    define s1 where "s1 = s\<lparr>m_rbuf := b'\<rparr>"
    have agree1: "agree_on S (covered (m_rlist s) \<union> ?new) s1"
      if a: "agree_on S (covered (m_rlist s)) s" and src: "seg_from S seg" for S
    proof -
      have ag: "stream_agree (fifo_window ?b) ?pos (covered (m_rlist s)) S" using a by (simp add: agree_on_def)
      have S: "?p ! j = S (?pos + ?off + j)" if "j < length ?p" for j
        using that src len off off_le by (simp add: seg_from_def)
      from fr.poke_agree [OF fifo ne room ag Cb S] b'(1)
      have "stream_agree (fifo_window b') ?pos
          (covered (m_rlist s) \<union> {?pos + ?off ..< ?pos + ?off + length ?p}) S" by auto
      moreover have "{?pos + ?off ..< ?pos + ?off + length ?p} = ?new" using off off_le len by simp
      ultimately show ?thesis using a b'(3) dl by (simp add: agree_on_def s1_def)
    qed
    have frame1: "recv_frame s s1"
    proof -
      have "s1 = s\<lparr>m_rbuf := b', m_rcv_nxt := m_rcv_nxt s, m_rcv_wnd := m_rcv_wnd s, m_rlist := m_rlist s\<rparr>"
        by (simp add: s1_def)
      then show ?thesis unfolding recv_frame_def by blast
    qed
    have space1: "GetWriteRemaining b' = GetWriteRemaining ?b"
      using dl b'(4) by (simp add: GetWriteRemaining_def)
    show ?thesis
    proof (cases "g_seq seg = m_rcv_nxt s")
      case False
      let ?r = "\<lparr>r_seq = g_seq seg, r_len = g_len seg\<rparr>"
      let ?s' = "s1\<lparr>m_rlist := insert_rseg ?r (m_rlist s)\<rparr>"
      have R: "receive_data seg fl s = Some (False, fl, ?s')"
        using 3 False b'(1) by (simp add: receive_data_def Let_def ASSERT_def s1_def)
      have "?s' = s\<lparr>m_rbuf := b', m_rcv_nxt := m_rcv_nxt s, m_rcv_wnd := m_rcv_wnd s,
          m_rlist := insert_rseg ?r (m_rlist s)\<rparr>" by (simp add: s1_def)
      then have frame: "recv_frame s ?s'" unfolding recv_frame_def by blast
      have "recv_ok ?s'"
        using ok b'(2) sorted_insert_rseg le(2) sane space1
        by (auto simp: recv_ok_def rseg_ok_def s1_def seg_sane_def)
      moreover have "recv_agree S ?s'" if "recv_agree S s" "seg_from S seg" for S
        using agree1 [OF _ that(2)] that(1) 3(3)
        by (simp add: recv_agree_def agree_on_def s1_def covered_def Un_commute)
      ultimately show ?thesis using R frame False by (auto simp: data_post_def s1_def)
    next
      case True
      have wrap: "?pos + ?n < 4294967296" using sane True by (simp add: seg_sane_def)
      have fit: "?n \<le> GetWriteRemaining (m_rbuf s1)" "fifo_ok (m_rbuf s1)"
        "unat (m_rcv_nxt s1) + ?n < 4294967296"
        using le(2) True space1 b'(2) wrap by (simp_all add: s1_def)
      obtain b where b: "ConsumeWriteBuffer ?n b' = Some b" "fifo_ok b"
          "GetWriteRemaining b = GetWriteRemaining b' - ?n"
          "unat (m_rcv_nxt s + g_len seg) = ?pos + ?n"
          "\<And>S C w l. agree_on S C s1 \<Longrightarrow> {?pos ..< ?pos + ?n} \<subseteq> C \<Longrightarrow>
             agree_on S C (s1\<lparr>m_rbuf := b, m_rcv_nxt := m_rcv_nxt s + g_len seg, m_rcv_wnd := w, m_rlist := l\<rparr>)"
        using commit_ok [OF fit(2,1,3)] by (simp add: s1_def) metis
      define s2 where "s2 = s1\<lparr>m_rbuf := b, m_rcv_nxt := m_rcv_nxt s + g_len seg,
          m_rcv_wnd := m_rcv_wnd s - g_len seg\<rparr>"
      have s2_list: "s2 = s1\<lparr>m_rbuf := b, m_rcv_nxt := m_rcv_nxt s + g_len seg,
          m_rcv_wnd := m_rcv_wnd s - g_len seg, m_rlist := m_rlist s\<rparr>" by (simp add: s2_def s1_def)
      have frame2: "recv_frame s s2"
        by (rule recv_frame_trans [OF frame1]) (unfold s2_list recv_frame_def, blast)
      have pre: "fifo_ok (m_rbuf s2)" "sorted (map r_seq (m_rlist s))" "\<forall>r \<in> set (m_rlist s). rseg_ok s2 r"
        using ok b(2-4) fit(1) space1 by (auto simp: s2_def s1_def recv_ok_def rseg_ok_def)
      obtain fl' s' where s': "recover_segments (m_rlist s) fl s2 = Some (fl', s')" "recv_frame s2 s'" "recv_ok s'"
          "\<forall>r \<in> set (m_rlist s'). m_rcv_nxt s' < r_seq r" "m_rcv_nxt s2 \<le> m_rcv_nxt s'"
          "set (m_rlist s') \<subseteq> set (m_rlist s)"
          "\<And>S C. agree_on S C s2 \<Longrightarrow> covered (m_rlist s) \<subseteq> C \<Longrightarrow> agree_on S C s'"
        using recover_segments_ok [OF pre, of fl] by blast
      have R: "receive_data seg fl s = Some (True, fl', s')"
        using 3 True b'(1) b(1) s'(1) by (simp add: receive_data_def Let_def ASSERT_def s2_def s1_def)
      have frame: "recv_frame s s'" by (rule recv_frame_trans [OF frame2 s'(2)])
      have nxt: "?pos + ?n \<le> unat (m_rcv_nxt s')"
        using s'(5) b(4) by (simp add: s2_def word_le_nat_alt)
      have "recv_agree S s'" if a: "recv_agree S s" and src: "seg_from S seg" for S
      proof -
        let ?C = "covered (m_rlist s) \<union> ?new"
        have a1: "agree_on S ?C s1" using agree1 [OF _ src] a 3(3) by (simp add: recv_agree_def)
        have "agree_on S ?C s2" unfolding s2_list by (rule b(5) [OF a1]) (use True in auto)
        then have "agree_on S ?C s'" by (rule s'(7)) auto
        moreover have "covered (m_rlist s') \<subseteq> ?C" using covered_mono [OF s'(6)] by auto
        ultimately show ?thesis by (auto simp: recv_agree_def agree_on_def stream_agree_def)
      qed
      then show ?thesis using R frame s'(3,4) nxt True
        by (auto simp: data_post_def word_le_nat_alt)
    qed
  qed
qed

end
