(* ===== verification/Tcp_Safety.thy ===== *)
theory Tcp_Safety
  imports Tcp_Recv_Proofs
begin

text \<open>
  No operation of PseudoTcp (talk/p2p/base/pseudotcp.cc) ends the program in a state that
  satisfies the invariant, and every operation keeps it: the handlers, composed of the
  parts treated in the previous theories.
\<close>

section \<open>Incoming segments\<close>

text \<open>
  What is asked of the peer and the network: no sequence number wraps within a segment,
  acknowledgements are at segment boundaries and echo past timestamps, and a connect message
  is either a repetition or arrives before any data is buffered.
\<close>

definition peer_sane :: "u32 \<Rightarrow> segment \<Rightarrow> tcp \<Rightarrow> bool" where
  "peer_sane now seg s \<longleftrightarrow> seg_sane seg \<and> ack_sane now seg s
     \<and> (g_flags seg AND FLAG_CTL \<noteq> 0 \<longrightarrow>
          (m_rlist s = [] \<and> f_data_length (m_rbuf s) = 0)
          \<or> (resizable s \<and> unat (g_seq seg) + unat (g_len seg) \<le> unat (m_rcv_nxt s)))"

lemma trim_front_old:
  assumes "unat (g_seq seg) + unat (g_len seg) \<le> unat (m_rcv_nxt s)"
  shows "g_len (trim_front s seg) = 0"
proof (cases "g_seq seg < m_rcv_nxt s")
  case True
  then have "unat (m_rcv_nxt s - g_seq seg) = unat (m_rcv_nxt s) - unat (g_seq seg)"
    by (simp add: unat_sub order_less_imp_le)
  then have "\<not> m_rcv_nxt s - g_seq seg < g_len seg"
    using assms by (simp add: word_less_nat_alt)
  then show ?thesis using True by (simp add: trim_front_def Let_def)
next
  case False
  then have "unat (g_len seg) = 0" using assms by (simp add: word_less_nat_alt)
  then show ?thesis using False by (simp add: trim_front_def unat_eq_zero)
qed

lemma trim_back_0: "g_len seg = 0 \<Longrightarrow> g_len (trim_back s seg) = 0"
  by (simp add: trim_back_def Let_def)

lemma data_post_send:
  assumes "data_post seg s s'" "send_ok s" "listen_ok s"
  shows "tcp_ok s'"
proof -
  have f: "same_send s s'" "same_net s s'" using assms(1) recv_frame_send by (auto simp: data_post_def)
  have "net_ok s'" using net_ok_cong [OF f(2)] assms(2) by (simp add: send_ok_def)
  then have "send_ok s'" by (rule send_ok_cong [OF f(1) _ assms(2)])
  then show ?thesis using assms(1,3) f(1) by (simp add: tcp_ok_def data_post_def listen_ok_def same_send_def)
qed

text \<open>The trimmed segment, received.\<close>

lemma receive_trimmed_ok:
  assumes ok: "tcp_ok s" and sane: "seg_sane seg"
    and ctl: "g_flags seg AND FLAG_CTL \<noteq> 0 \<Longrightarrow>
       (m_rlist s = [] \<and> f_data_length (m_rbuf s) = 0)
       \<or> unat (g_seq seg) + unat (g_len seg) \<le> unat (m_rcv_nxt s)"
  shows "\<exists>nd fl' s'. receive_data (trim_back s (trim_front s seg)) fl s = Some (nd, fl', s')
     \<and> tcp_ok s' \<and> (\<forall>S. recv_agree S s \<and> seg_from S seg \<longrightarrow> recv_agree S s')"
proof -
  have recv: "recv_ok s" "fifo_ok (m_rbuf s)" using ok by (simp_all add: tcp_ok_def recv_ok_def)
  note tf = trim_front_ok [OF sane, where s = s]
  note tb = trim_back_ok [OF recv(2) tf(1) tf(4)]
  let ?seg = "trim_back s (trim_front s seg)"
  have c: "ctl_sane ?seg s" if "0 < g_len ?seg"
  proof -
    have "0 < g_len (trim_front s seg)"
      using that trim_back_0 [of "trim_front s seg" s] by (metis less_irrefl word_gt_0)
    then have "\<not> unat (g_seq seg) + unat (g_len seg) \<le> unat (m_rcv_nxt s)"
      using trim_front_old by auto
    then show ?thesis using ctl tf(3) tb(3) by (auto simp: ctl_sane_def)
  qed
  obtain nd fl' s' where r: "receive_data ?seg fl s = Some (nd, fl', s')" "data_post ?seg s s'"
    using receive_data_ok [OF recv(1) tb(1,4) c] by blast
  have "tcp_ok s'" by (rule data_post_send [OF r(2)]) (use ok in \<open>simp_all add: tcp_ok_def\<close>)
  moreover have "recv_agree S s'" if "recv_agree S s" "seg_from S seg" for S
    using that tf(2) tb(2) r(2) by (simp add: data_post_def)
  ultimately show ?thesis using r(1) by blast
qed

lemma recv_agree_send_post: "send_post s s' \<Longrightarrow> recv_agree S s \<Longrightarrow> recv_agree S s'"
  using recv_agree_cong by (auto simp: send_post_def)

text \<open>Everything after the acknowledgement.\<close>

definition process_tail :: "tcp_env \<Rightarrow> callback \<Rightarrow> bool \<Rightarrow> segment \<Rightarrow> tcp \<Rightarrow> (bool \<times> tcp) option" where
  "process_tail env cb bConnect seg s = do {
     s \<leftarrow> process_open cb bConnect s;
     s \<leftarrow> process_writeable cb s;
     let sflags = ack_flags seg s;
     (bNewData, sflags, s) \<leftarrow> receive_data (trim_back s (trim_front s seg)) sflags s;
     s \<leftarrow> attemptSend env sflags s;
     s \<leftarrow> (if bNewData \<and> m_bReadEnable s
           then notify cb OnTcpReadable (s\<lparr>m_bReadEnable := False\<rparr>)
           else Some s);
     Some (True, s)
   }"

lemma process_tail_ok:
  assumes ok: "tcp_ok s" and cb: "good_callback cb" and sane: "seg_sane seg"
    and ctl: "g_flags seg AND FLAG_CTL \<noteq> 0 \<Longrightarrow>
       (m_rlist s = [] \<and> f_data_length (m_rbuf s) = 0)
       \<or> unat (g_seq seg) + unat (g_len seg) \<le> unat (m_rcv_nxt s)"
  shows "\<exists>b s'. process_tail env cb bConnect seg s = Some (b, s') \<and> tcp_ok s'
     \<and> (\<forall>S. recv_agree S s \<and> seg_from S seg \<longrightarrow> recv_agree S s')"
proof -
  obtain s1 where s1: "process_open cb bConnect s = Some s1" "app_post s s1"
    using process_open_ok [OF ok cb] by blast
  have ok1: "tcp_ok s1" using s1(2) by (simp add: app_post_def)
  obtain s2 where s2: "process_writeable cb s1 = Some s2" "app_post s1 s2"
    using process_writeable_ok [OF ok1 cb] by blast
  have post2: "app_post s s2" by (rule app_post_trans [OF s1(2) s2(2)])
  then have k2: "keeps_agree s s2" "tcp_ok s2" by (simp_all add: app_post_def)
  have ctl2: "(m_rlist s2 = [] \<and> f_data_length (m_rbuf s2) = 0)
       \<or> unat (g_seq seg) + unat (g_len seg) \<le> unat (m_rcv_nxt s2)" if "g_flags seg AND FLAG_CTL \<noteq> 0"
    using ctl [OF that] k2(1) by (auto simp: keeps_agree_def)
  obtain nd fl s3 where s3: "receive_data (trim_back s2 (trim_front s2 seg)) (ack_flags seg s2) s2 = Some (nd, fl, s3)"
      "tcp_ok s3" "\<And>S. recv_agree S s2 \<Longrightarrow> seg_from S seg \<Longrightarrow> recv_agree S s3"
    using receive_trimmed_ok [OF k2(2) sane ctl2] by blast
  have "send_ok s3" using s3(2) by (simp add: tcp_ok_def)
  then obtain s4 where s4: "attemptSend env fl s3 = Some s4" "send_post s3 s4"
    using attemptSend_ok by blast
  have post4: "app_post s3 s4" by (rule send_post_app [OF s3(2) s4(2)])
  let ?s5 = "s4\<lparr>m_bReadEnable := False\<rparr>"
  have same5: "same_recv s4 ?s5" by (simp add: same_recv_def)
  have "tcp_ok s4" using post4 by (simp add: app_post_def)
  then have ok5: "tcp_ok ?s5"
    using recv_ok_cong [OF same5] by (simp add: tcp_ok_def send_ok_def net_ok_def listen_ok_def)
  have post5: "keeps_agree s3 ?s5"
    using post4 keeps_agree_trans keeps_agree_same [OF same5] by (auto simp: app_post_def)
  obtain s6 where s6: "notify cb OnTcpReadable ?s5 = Some s6" "app_post ?s5 s6"
    using notify_ok [OF cb ok5] by blast
  have k6: "keeps_agree s3 s6" "tcp_ok s6"
    using keeps_agree_trans [OF post5] s6(2) by (simp_all add: app_post_def)
  have k4: "keeps_agree s3 s4" "tcp_ok s4" using post4 by (simp_all add: app_post_def)
  have a: "recv_agree S s3" if "recv_agree S s" "seg_from S seg" for S
    using that k2(1) s3(3) by (simp add: keeps_agree_def)
  show ?thesis
    using s1(1) s2(1) s3(1) s4(1) s6(1) k4 k6 a
    by (cases "nd \<and> m_bReadEnable s4") (auto simp: process_tail_def Let_def keeps_agree_def)
qed

lemma process_split:
  "process env cb seg s =
     (if g_conv seg \<noteq> m_conv s then Some (False, s)
      else let now = env_now env (x_now_calls s);
               s = s\<lparr>x_now_calls := Suc (x_now_calls s), m_lasttraffic := now, m_lastrecv := now,
                     m_bOutgoing := False\<rparr>
      in if m_state s = TCP_CLOSED then Some (False, s)
      else if g_flags seg AND FLAG_RST \<noteq> 0
      then map_option (\<lambda>s. (False, s)) (closedown cb ECONNRESET s)
      else do {
        (ctl, s) \<leftarrow> process_control env cb seg s;
        (case ctl of None \<Rightarrow> Some (False, s)
         | Some bConnect \<Rightarrow> do {
             let s = (if g_seq seg \<le> m_ts_lastack s \<and> m_ts_lastack s < g_seq seg + g_len seg
                      then s\<lparr>m_ts_recent := g_tsval seg\<rparr> else s);
             (ok, s) \<leftarrow> process_ack env cb now seg s;
             if \<not> ok then Some (False, s) else process_tail env cb bConnect seg s
           })
      })"
  unfolding process_def process_tail_def Now_def Let_def prod.case by (rule refl)

text \<open>Fields outside the invariant.\<close>

lemma tcp_ok_clock:
  assumes "tcp_ok s"
  shows "app_post s (s\<lparr>x_now_calls := n, m_lasttraffic := a, m_lastrecv := b, m_bOutgoing := c\<rparr>)"
    "app_post s (s\<lparr>m_ts_recent := d\<rparr>)" "app_post s (s\<lparr>m_error := e\<rparr>)"
    "app_post s (s\<lparr>m_bReadEnable := f, m_error := e\<rparr>)" "app_post s (s\<lparr>m_bWriteEnable := f, m_error := e\<rparr>)"
    "app_post s (s\<lparr>m_lastsend := l, m_rx_rto := r\<rparr>)"
  using assms
  by (simp_all add: app_post_def tcp_ok_def send_ok_def net_ok_def listen_ok_def recv_ok_def rseg_ok_def
      calm_def keeps_agree_def recv_agree_def agree_on_def)

lemma process_ok:
  assumes ok: "tcp_ok s" and cb: "good_callback cb"
    and peer: "peer_sane (env_now env (x_now_calls s)) seg s" and small: "m_cwnd s < 2147483648"
  shows "\<exists>b s'. process env cb seg s = Some (b, s') \<and> tcp_ok s'
     \<and> (\<forall>S. recv_agree S s \<and> seg_from S seg \<longrightarrow> recv_agree S s')"
proof -
  let ?now = "env_now env (x_now_calls s)"
  define s0 where "s0 = s\<lparr>x_now_calls := Suc (x_now_calls s), m_lasttraffic := ?now, m_lastrecv := ?now,
      m_bOutgoing := False\<rparr>"
  have post0: "app_post s s0" unfolding s0_def by (rule tcp_ok_clock(1) [OF ok])
  then have ok0: "tcp_ok s0" by (simp add: app_post_def)
  have st: "m_state s0 = m_state s" by (simp add: s0_def)
  have agree: "\<forall>S. recv_agree S s \<and> seg_from S seg \<longrightarrow> recv_agree S s'" if "keeps_agree s s'" for s'
    using that by (simp add: keeps_agree_def)
  show ?thesis
  proof (cases "g_conv seg \<noteq> m_conv s \<or> m_state s0 = TCP_CLOSED")
    case True
    then show ?thesis using ok ok0 post0 agree
      by (auto simp: process_split Let_def app_post_def st simp flip: s0_def)
  next
    case live: False
    show ?thesis
    proof (cases "g_flags seg AND FLAG_RST \<noteq> 0")
      case True
      obtain s1 where "closedown cb ECONNRESET s0 = Some s1" "app_post s0 s1"
        using closedown_ok [OF cb ok0] by blast
      then show ?thesis using live True app_post_trans [OF post0, of s1] agree
        by (auto simp: process_split Let_def app_post_def st simp flip: s0_def)
    next
      case rst: False
      have ctl: "g_flags seg AND FLAG_CTL \<noteq> 0 \<Longrightarrow> resizable s0"
        using peer by (auto simp: peer_sane_def resizable_def s0_def)
      obtain c s1 where s1: "process_control env cb seg s0 = Some (c, s1)" "app_post s0 s1"
        using process_control_ok [OF ok0 cb ctl] by blast
      have post1: "app_post s s1" by (rule app_post_trans [OF post0 s1(2)])
      show ?thesis
      proof (cases c)
        case None
        then show ?thesis using live rst s1(1) post1 agree
          by (auto simp: process_split Let_def app_post_def st simp flip: s0_def)
      next
        case (Some bConnect)
        define s2 where "s2 = (if g_seq seg \<le> m_ts_lastack s1 \<and> m_ts_lastack s1 < g_seq seg + g_len seg
                      then s1\<lparr>m_ts_recent := g_tsval seg\<rparr> else s1)"
        have ok1: "tcp_ok s1" using post1 by (simp add: app_post_def)
        have post2: "app_post s s2"
          unfolding s2_def using app_post_trans [OF post1 tcp_ok_clock(2) [OF ok1]] post1 by auto
        have ok2: "tcp_ok s2" using post2 by (simp add: app_post_def)
        have sane2: "ack_sane ?now seg s2"
          by (rule ack_sane_app [OF _ post2]) (use peer in \<open>simp add: peer_sane_def\<close>)
        have small2: "m_cwnd s2 < 2147483648"
          by (rule calm_small [OF _ small]) (use post2 in \<open>simp add: app_post_def\<close>)
        obtain k s3 where s3: "process_ack env cb ?now seg s2 = Some (k, s3)" "ack_post s2 s3"
          using process_ack_ok [OF ok2 cb sane2 small2] by blast
        have k3: "keeps_agree s s3" "tcp_ok s3"
          using post2 s3(2) keeps_agree_trans by (auto simp: app_post_def ack_post_def)
        have P: "process env cb seg s = (if \<not> k then Some (False, s3) else process_tail env cb bConnect seg s3)"
          using live rst s1(1) Some s3(1)
          by (auto simp: process_split Let_def st simp flip: s0_def s2_def)
        have ctl3: "(m_rlist s3 = [] \<and> f_data_length (m_rbuf s3) = 0)
             \<or> unat (g_seq seg) + unat (g_len seg) \<le> unat (m_rcv_nxt s3)" if "g_flags seg AND FLAG_CTL \<noteq> 0"
          using that peer k3(1) by (auto simp: peer_sane_def keeps_agree_def)
        have "seg_sane seg" using peer by (simp add: peer_sane_def)
        from process_tail_ok [OF k3(2) cb this ctl3] obtain b s4 where
          s4: "process_tail env cb bConnect seg s3 = Some (b, s4)" "tcp_ok s4"
            "\<And>S. recv_agree S s3 \<Longrightarrow> seg_from S seg \<Longrightarrow> recv_agree S s4" by blast
        show ?thesis
          using P s4 k3 by (cases k) (auto simp: keeps_agree_def)
      qed
    qed
  qed
qed

end
