(* ===== verification/Tcp_Run.thy ===== *)
theory Tcp_Run
  imports Tcp_Safety
begin

text \<open>
  The public operations of PseudoTcp (talk/p2p/base/pseudotcp.cc) as events, runs of events,
  and what holds along every run.
\<close>

section \<open>The operations keep the invariant\<close>

lemma PseudoTcp_ok: "tcp_ok (PseudoTcp env conv)" "recv_agree S (PseudoTcp env conv)"
proof -
  have f: "fifo_ok (FifoBuffer (env_mem env) 92160)" "fifo_ok (FifoBuffer (env_mem env) 61440)"
    by (rule fifo_ok_init; simp)+
  have d: "f_data_length (FifoBuffer m n) = 0" "f_buffer_length (FifoBuffer m n) = n" for m n
    by (simp_all add: FifoBuffer_def)
  have c: "unat DEFAULT_SND_BUF_SIZE = 92160" "unat DEFAULT_RCV_BUF_SIZE = 61440"
    by (simp_all add: DEFAULT_SND_BUF_SIZE_def DEFAULT_RCV_BUF_SIZE_def)
  note sizes = MIN_PACKET_def PACKET_OVERHEAD_def HEADER_SIZE_def UDP_HEADER_SIZE_def IP_HEADER_SIZE_def
    JINGLE_HEADER_SIZE_def MAX_PACKET_def DEFAULT_RCV_BUF_SIZE_def
  show "tcp_ok (PseudoTcp env conv)"
    by (simp add: PseudoTcp_def Let_def tcp_ok_def send_ok_def recv_ok_def listen_ok_def net_ok_def c f d
        slist_inv_def) (simp add: sizes)
  show "recv_agree S (PseudoTcp env conv)"
    by (simp add: PseudoTcp_def Let_def recv_agree_def agree_on_def c d fifo_contents_def covered_def stream_agree_def)
qed

lemma Connect_ok:
  assumes "tcp_ok s"
  shows "\<exists>r s'. Connect env s = Some (r, s') \<and> app_post s s'"
proof (cases "m_state s = TCP_LISTEN")
  case False
  then show ?thesis using tcp_ok_clock(3) [OF assms] by (simp add: Connect_def)
next
  case True
  let ?s = "s\<lparr>m_state := TCP_SYN_SENT\<rparr>"
  have post: "app_post s ?s" by (rule state_change_ok [OF assms]) simp
  then have "send_ok ?s" by (simp add: app_post_def tcp_ok_def)
  moreover have "f_data_length (m_sbuf ?s) = 0" "4 \<le> f_buffer_length (m_sbuf ?s)" "m_snd_una ?s = 0"
    using assms True by (simp_all add: tcp_ok_def listen_ok_def)
  ultimately obtain s1 where s1: "queueConnectMessage ?s = Some s1" "queue_post ?s s1"
    using queueConnectMessage_ok by blast
  have post1: "app_post ?s s1"
    using s1(2) post recv_ok_cong keeps_agree_same
    by (auto simp: queue_post_def app_post_def tcp_ok_def listen_ok_def)
  then have ok1: "tcp_ok s1" "send_ok s1" by (simp_all add: app_post_def tcp_ok_def)
  obtain s2 where s2: "attemptSend env sfNone s1 = Some s2" "send_post s1 s2"
    using attemptSend_ok [OF ok1(2)] by blast
  have "app_post s s2"
    using app_post_trans [OF app_post_trans [OF post post1] send_post_app [OF ok1(1) s2(2)]] .
  then show ?thesis using True s1(1) s2(1) by (simp add: Connect_def)
qed

lemma NotifyMTU_ok:
  assumes "tcp_ok s" "116 < mtu"
  shows "app_post s (NotifyMTU mtu s)"
proof -
  let ?s = "s\<lparr>m_mtu_advise := ucast mtu\<rparr>"
  have "unat mtu < 2 ^ LENGTH(16)" by (rule unsigned_less)
  then have le: "unat mtu \<le> 65535" by simp
  then have u: "unat (ucast mtu :: u32) = unat mtu"
    by (simp add: unsigned_ucast_eq take_bit_nat_eq_self)
  then have "(116 :: u32) < ucast mtu" "(ucast mtu :: u32) \<le> 65535"
    using assms(2) u le by (simp_all add: word_less_nat_alt word_le_nat_alt)
  then have post: "app_post s ?s"
    using assms(1) by (simp add: app_post_def tcp_ok_def send_ok_def net_ok_def listen_ok_def recv_ok_def
        rseg_ok_def calm_def keeps_agree_def recv_agree_def agree_on_def)
  moreover from this have "app_post ?s (adjustMTU ?s)" by (intro adjustMTU_ok) (simp add: app_post_def)
  ultimately show ?thesis using app_post_trans by (auto simp: NotifyMTU_def Let_def)
qed

lemma TcpClose_ok:
  assumes "tcp_ok s"
  shows "app_post s (TcpClose force s)"
  using assms by (simp add: TcpClose_def app_post_def tcp_ok_def send_ok_def net_ok_def listen_ok_def recv_ok_def
        rseg_ok_def calm_def keeps_agree_def recv_agree_def)

lemma Send_ok:
  assumes ok: "tcp_ok s"
    and room: "unat (m_snd_una s) + f_data_length (m_sbuf s) + length buffer < 4294967296"
  shows "\<exists>r s'. Send env buffer s = Some (r, s') \<and> app_post s s'"
proof (cases "m_state s \<noteq> TCP_ESTABLISHED \<or> GetWriteRemaining (m_sbuf s) = 0")
  case True
  then show ?thesis using tcp_ok_clock(3,5) [OF ok] by (auto simp: Send_def)
next
  case False
  let ?n = "of_nat (length buffer) :: u32"
  have n: "unat ?n = length buffer" using room by (intro unat_of_nat_u32) simp
  have send: "send_ok s" using ok by (simp add: tcp_ok_def)
  have r: "unat (m_snd_una s) + f_data_length (m_sbuf s) + min (unat ?n) (GetWriteRemaining (m_sbuf s)) < 4294967296"
    using room n by simp
  obtain s1 where s1: "queue buffer ?n False s = Some (of_nat (min (unat ?n) (GetWriteRemaining (m_sbuf s))), s1)"
      "queue_post s s1"
    using queue_ok [OF send n [symmetric] r, of False] by auto
  have post1: "app_post s s1"
    using s1(2) ok recv_ok_cong keeps_agree_same False
    by (auto simp: queue_post_def app_post_def tcp_ok_def listen_ok_def)
  then have ok1: "tcp_ok s1" "send_ok s1" by (simp_all add: app_post_def tcp_ok_def)
  obtain s2 where s2: "attemptSend env sfNone s1 = Some s2" "send_post s1 s2"
    using attemptSend_ok [OF ok1(2)] by blast
  have "app_post s s2" using app_post_trans [OF post1 send_post_app [OF ok1(1) s2(2)]] .
  then show ?thesis using False s1(1) s2(1) by (simp add: Send_def)
qed

section \<open>Timers\<close>

lemma clock_retransmit_ok:
  assumes ok: "tcp_ok s" and cb: "good_callback cb"
  shows "\<exists>b s'. clock_retransmit env cb now s = Some (b, s') \<and> ack_post s s'"
proof (cases "m_rto_base s \<noteq> 0 \<and> TimeDiff (m_rto_base s + m_rx_rto s) now \<le> 0")
  case False
  then show ?thesis using ok by (auto simp: clock_retransmit_def ack_post_def)
next
  case due: True
  then have ne: "m_slist s \<noteq> []" using ok by (simp add: tcp_ok_def send_ok_def)
  from retransmit_ok [OF ok ne] obtain b s1 where t: "transmit env 0 now s = Some (b, s1)" "ack_post s s1"
      "m_slist s1 \<noteq> []" by blast
  then have ok1: "tcp_ok s1" by (simp add: ack_post_def)
  show ?thesis
  proof (cases b)
    case False
    from closedown_ok [OF cb ok1] obtain s2 where "closedown cb ECONNABORTED s1 = Some s2" "app_post s1 s2" by blast
    then show ?thesis using due ne t(1) False ack_post_trans [OF t(2) app_post_ack]
      by (auto simp: clock_retransmit_def)
  next
    case True
    let ?s2 = "s1\<lparr>m_ssthresh := nInFlight_threshold s1, m_cwnd := m_mss s1,
        m_rx_rto := min (if m_state s1 < TCP_ESTABLISHED then DEF_RTO else MAX_RTO) (m_rx_rto s1 * 2),
        m_rto_base := now\<rparr>"
    have "ack_post s1 ?s2"
      using ok1 threshold_ok(1) [OF ok1] t(3)
      by (auto simp: ack_post_def tcp_ok_def send_ok_def net_ok_def listen_ok_def recv_ok_def rseg_ok_def
          keeps_agree_def recv_agree_def agree_on_def)
    then show ?thesis using due ne t(1) True ack_post_trans [OF t(2)]
      by (auto simp: clock_retransmit_def Let_def)
  qed
qed

lemma ack_packet_ok:
  assumes "tcp_ok s"
  shows "\<exists>r s'. packet env seq flags 0 0 s = Some (r, s') \<and> ack_post s s'"
proof -
  obtain r s' where "packet env seq flags 0 0 s = Some (r, s')" "send_post s s'"
    using ack_packet_post assms by (meson tcp_ok_def)
  then show ?thesis using app_post_ack [OF send_post_app [OF assms]] by blast
qed

lemma clock_probe_ok:
  assumes ok: "tcp_ok s" and cb: "good_callback cb"
  shows "\<exists>b s'. clock_probe env cb now s = Some (b, s') \<and> ack_post s s'"
proof -
  obtain s1 where c: "closedown cb ECONNABORTED s = Some s1" "app_post s s1"
    using closedown_ok [OF cb ok] by blast
  obtain r s2 where p: "packet env (m_snd_nxt s - 1) 0 0 0 s = Some (r, s2)" "ack_post s s2"
    using ack_packet_ok [OF ok] by blast
  have "ack_post s (s2\<lparr>m_lastsend := now, m_rx_rto := min MAX_RTO (m_rx_rto s2 * 2)\<rparr>)"
    by (rule ack_post_trans [OF p(2) app_post_ack [OF tcp_ok_clock(6)]])
      (use p(2) in \<open>simp add: ack_post_def\<close>)
  then show ?thesis using c(1) p(1) app_post_ack [OF c(2)] ok
    by (auto simp: clock_probe_def ack_post_def)
qed

lemma NotifyClock_ok:
  assumes ok: "tcp_ok s" and cb: "good_callback cb"
  shows "\<exists>s'. NotifyClock env cb now s = Some s' \<and> ack_post s s'"
proof -
  have refl: "ack_post s s" using ok by (simp add: ack_post_def)
  obtain b s1 where r: "clock_retransmit env cb now s = Some (b, s1)" "ack_post s s1"
    using clock_retransmit_ok [OF ok cb] by blast
  have ok1: "tcp_ok s1" using r(2) by (simp add: ack_post_def)
  obtain d s2 where p: "clock_probe env cb now s1 = Some (d, s2)" "ack_post s1 s2"
    using clock_probe_ok [OF ok1 cb] by blast
  have post2: "ack_post s s2" by (rule ack_post_trans [OF r(2) p(2)])
  then have ok2: "tcp_ok s2" by (simp add: ack_post_def)
  obtain w s3 where k: "packet env (m_snd_nxt s2) 0 0 0 s2 = Some (w, s3)" "ack_post s2 s3"
    using ack_packet_ok [OF ok2] by blast
  show ?thesis
    using refl r p(1) post2 k(1) ack_post_trans [OF post2 k(2)]
    by (cases b; cases d) (auto simp: NotifyClock_def clock_delayed_ack_def)
qed

section \<open>Reading\<close>

text \<open>The sequence number of the next byte the application reads.\<close>

definition read_pos :: "tcp \<Rightarrow> nat" where
  "read_pos s = unat (m_rcv_nxt s) - f_data_length (m_rbuf s)"

lemma read_buffer_ok:
  assumes ok: "tcp_ok s" and data: "0 < f_data_length (m_rbuf s)"
  shows "\<exists>b'. FifoRead n (m_rbuf s) = (SR_SUCCESS, take n (fifo_contents (m_rbuf s)), b')
     \<and> app_post s (s\<lparr>m_rbuf := b'\<rparr>)
     \<and> f_data_length b' = f_data_length (m_rbuf s) - n"
proof -
  let ?b = "m_rbuf s" and ?k = "min n (f_data_length (m_rbuf s))"
  have fifo: "fifo_ok ?b" using ok by (simp add: tcp_ok_def recv_ok_def)
  obtain b' where b': "FifoRead n ?b = (SR_SUCCESS, take n (fifo_contents ?b), b')" "fifo_ok b'"
      "f_buffer_length b' = f_buffer_length ?b" "fifo_contents b' = drop n (fifo_contents ?b)"
      "\<And>i. fifo_view b' i = fifo_view ?b (?k + i)"
    using FifoRead_eq [OF fifo data, of n] by blast
  have dl: "f_data_length b' = f_data_length ?b - n"
    using arg_cong [OF b'(4), of length] by simp
  have win: "fifo_window b' = fifo_window ?b"
  proof
    fix i
    have "?k + (f_data_length b' + i) = f_data_length ?b + i" using dl by auto
    then have "fifo_view ?b (?k + (f_data_length b' + i)) = fifo_view ?b (f_data_length ?b + i)" by (rule arg_cong)
    then show "fifo_window b' i = fifo_window ?b i" using b'(5) [of "f_data_length b' + i"]
      by (simp only: fifo_window_def)
  qed
  have "recv_ok (s\<lparr>m_rbuf := b'\<rparr>)"
    using ok b'(2,3) dl by (fastforce simp: tcp_ok_def recv_ok_def rseg_ok_def GetWriteRemaining_def)
  then have "tcp_ok (s\<lparr>m_rbuf := b'\<rparr>)"
    using ok by (simp add: tcp_ok_def send_ok_def net_ok_def listen_ok_def)
  moreover have "recv_agree S (s\<lparr>m_rbuf := b'\<rparr>)" if "recv_agree S s" for S
  proof -
    have "drop n [unat (m_rcv_nxt s) - f_data_length ?b ..< unat (m_rcv_nxt s)]
        = [unat (m_rcv_nxt s) - f_data_length ?b + n ..< unat (m_rcv_nxt s)]" by simp
    moreover have "n \<le> f_data_length ?b \<Longrightarrow> f_data_length ?b \<le> unat (m_rcv_nxt s) \<Longrightarrow>
        unat (m_rcv_nxt s) - f_data_length ?b + n = unat (m_rcv_nxt s) - (f_data_length ?b - n)" by simp
    ultimately show ?thesis using that b'(4) dl win
      by (cases "n \<le> f_data_length ?b") (auto simp: recv_agree_def agree_on_def drop_map)
  qed
  ultimately have "app_post s (s\<lparr>m_rbuf := b'\<rparr>)"
    using dl by (simp add: app_post_def calm_def keeps_agree_def)
  then show ?thesis using b'(1) dl by blast
qed

lemma Recv_ok:
  assumes ok: "tcp_ok s"
  shows "\<exists>r out s'. Recv env n s = Some (r, out, s') \<and> app_post s s'
     \<and> length out \<le> n \<and> m_shutdown s' = m_shutdown s
     \<and> f_data_length (m_rbuf s') = f_data_length (m_rbuf s) - length out
     \<and> out = take (length out) (fifo_contents (m_rbuf s))
     \<and> (r = SOCKET_ERROR \<and> out = [] \<or> r = int (length out))"
proof (cases "m_state s \<noteq> TCP_ESTABLISHED")
  case True
  then show ?thesis using tcp_ok_clock(3) [OF ok] by (simp add: Recv_def)
next
  case est: False
  have fifo: "fifo_ok (m_rbuf s)" using ok by (simp add: tcp_ok_def recv_ok_def)
  show ?thesis
  proof (cases "f_data_length (m_rbuf s) = 0")
    case True
    then show ?thesis using est FifoRead_block [OF fifo, of n] tcp_ok_clock(4) [OF ok]
      by (simp add: Recv_def fifo_contents_def)
  next
    case False
    then obtain b where b: "FifoRead n (m_rbuf s) = (SR_SUCCESS, take n (fifo_contents (m_rbuf s)), b)"
        "app_post s (s\<lparr>m_rbuf := b\<rparr>)" "f_data_length b = f_data_length (m_rbuf s) - n"
      using read_buffer_ok [OF ok] by blast
    let ?s1 = "s\<lparr>m_rbuf := b\<rparr>" and ?out = "take n (fifo_contents (m_rbuf s))"
    let ?upd = "rbuf_space ?s1 - m_rcv_wnd ?s1 \<ge> min (m_rbuf_len ?s1 div 2) (m_mss ?s1)"
    let ?s2 = "?s1\<lparr>m_rcv_wnd := rbuf_space ?s1\<rparr>"
    have ok1: "tcp_ok ?s1" using b(2) by (simp add: app_post_def)
    have post2: "app_post ?s1 ?s2"
      using ok1 by (simp add: app_post_def tcp_ok_def send_ok_def net_ok_def listen_ok_def recv_ok_def
          rseg_ok_def calm_def keeps_agree_def recv_agree_def agree_on_def)
    then have ok2: "tcp_ok ?s2" "send_ok ?s2" by (simp_all add: app_post_def tcp_ok_def)
    obtain s3 where s3: "attemptSend env sfImmediateAck ?s2 = Some s3" "send_post ?s2 s3"
      using attemptSend_ok [OF ok2(2)] by blast
    have post: "app_post s ?s2" "app_post s s3"
      using app_post_trans [OF b(2) post2]
        app_post_trans [OF app_post_trans [OF b(2) post2] send_post_app [OF ok2(1) s3(2)]] .
    define s' where "s' = (if ?upd then (if m_rcv_wnd s = 0 then s3 else ?s2) else ?s1)"
    have R: "Recv env n s = Some (int (length ?out), ?out, s')"
      using est b(1) s3(1) by (simp add: Recv_def ASSERT_def Let_def s'_def)
    have same: "m_rbuf s' = b" "m_shutdown s' = m_shutdown s" "app_post s s'"
      using s3(2) post b(2) by (auto simp: s'_def send_post_def same_recv_def)
    have out: "?out = take (length ?out) (fifo_contents (m_rbuf s))"
      by (cases "n \<le> length (fifo_contents (m_rbuf s))") auto
    have "length ?out \<le> n" "f_data_length (m_rbuf s') = f_data_length (m_rbuf s) - length ?out"
      using same(1) b(3) by auto
    then show ?thesis using R same(2,3) out by blast
  qed
qed

section \<open>Options and packets\<close>

lemma scale_window_steps:
  "unat n < 2 ^ (16 + m) \<Longrightarrow> \<exists>j \<le> m. scale_window n k = (drop_bit j n, k + of_nat j)
     \<and> drop_bit j n \<le> 0xFFFF \<and> (0 < j \<longrightarrow> 0x8000 \<le> drop_bit j n)"
proof (induction m arbitrary: n k)
  case 0
  then have "n \<le> 0xFFFF" by (simp add: word_le_nat_alt)
  then show ?case using scale_window_0 by auto
next
  case (Suc m)
  show ?case
  proof (cases "n > 0xFFFF")
    case False
    then show ?thesis using scale_window_0 [of n k] by (intro exI [of _ 0]) (simp add: not_less)
  next
    case True
    have h: "unat (drop_bit 1 n) = unat n div 2" by (simp add: drop_bit_Suc unat_div)
    have "unat n < 2 ^ (16 + m) * 2" using Suc.prems by (simp add: power_add)
    then have "unat (drop_bit 1 n) < 2 ^ (16 + m)" unfolding h by (rule less_mult_imp_div_less)
    from Suc.IH [OF this, of "k + 1"] obtain j where j: "j \<le> m"
      "scale_window (drop_bit 1 n) (k + 1) = (drop_bit j (drop_bit 1 n), k + 1 + of_nat j)"
      "drop_bit j (drop_bit 1 n) \<le> 0xFFFF" "0 < j \<longrightarrow> 0x8000 \<le> drop_bit j (drop_bit 1 n)" by blast
    have "scale_window n k = scale_window (drop_bit 1 n) (k + 1)"
      using True by (subst scale_window.simps) simp
    moreover have "drop_bit j (drop_bit 1 n) = drop_bit (Suc j) n" by (simp add: drop_bit_Suc)
    moreover have "0x8000 \<le> drop_bit 1 n" using True h by (simp add: word_le_nat_alt word_less_nat_alt)
    ultimately show ?thesis using j
      by (intro exI [of _ "Suc j"]) (cases j; auto simp: algebra_simps)
  qed
qed

text \<open>The receive buffer gets the requested size rounded down to a multiple of the scale.\<close>

lemma unat_drop_bit_u32: "unat (drop_bit j (n :: u32)) = unat n div 2 ^ j"
proof -
  have "take_bit LENGTH(32) (unat n) = unat n" by (rule take_bit_nat_eq_self) (rule unsigned_less)
  then show ?thesis by (subst unsigned_drop_bit_eq) (simp only: drop_bit_eq_div)
qed

lemma rounded_size:
  assumes "j \<le> 16"
  shows "unat (push_bit j (drop_bit j (n :: u32))) = unat n div 2 ^ j * 2 ^ j"
proof -
  have "unat n < 2 ^ LENGTH(32)" by (rule unsigned_less)
  then have "unat n div 2 ^ j * 2 ^ j < 2 ^ LENGTH(32)"
    using div_times_less_eq_dividend by (rule le_less_trans [rotated])
  then have "take_bit LENGTH(32) (unat n div 2 ^ j * 2 ^ j) = unat n div 2 ^ j * 2 ^ j"
    by (rule take_bit_nat_eq_self)
  then show ?thesis
    by (subst unsigned_push_bit_eq) (simp only: push_bit_eq_mult unat_drop_bit_u32)
qed

lemma scale_window_sizes:
  assumes "0 < n"
  obtains n' k where "scale_window n 0 = (n', k)" "push_bit (unat k) n' \<noteq> 0" "push_bit (unat k) n' \<le> n"
    "n' \<le> 0xFFFF" "unat k \<le> 16"
proof -
  have "unat n < 2 ^ (16 + 16)" using unsigned_less [of n] by simp
  from scale_window_steps [OF this, of 0] obtain j where j: "j \<le> 16"
      "scale_window n 0 = (drop_bit j n, of_nat j)" "drop_bit j n \<le> 0xFFFF" "0 < j \<longrightarrow> 0x8000 \<le> drop_bit j n"
    by auto
  have k: "unat (of_nat j :: u8) = j" using j(1) by (simp add: unat_of_nat take_bit_nat_eq_self)
  note r = rounded_size [OF j(1), of n]
  have "0 < unat (push_bit j (drop_bit j n))"
  proof (cases "j = 0")
    case True
    then show ?thesis using assms by (simp add: word_less_nat_alt)
  next
    case False
    then have "0x8000 \<le> unat (drop_bit j n)" using j(4) by (simp add: word_le_nat_alt)
    then have "0 < unat (drop_bit j n)" by linarith
    then have "0 < unat n div 2 ^ j" by (simp only: unat_drop_bit_u32)
    then show ?thesis using r by simp
  qed
  then have "push_bit j (drop_bit j n) \<noteq> 0" by (metis less_irrefl unat_0)
  moreover have "push_bit j (drop_bit j n) \<le> n" using r by (simp add: word_le_nat_alt)
  ultimately show thesis using that [OF j(2)] k j(1,3) by simp
qed

lemma SetOption_ok:
  assumes ok: "tcp_ok s"
    and snd: "opt = OPT_SNDBUF \<Longrightarrow> m_state s = TCP_LISTEN \<and> 4 \<le> value \<and> value \<le> 2147483648"
    and rcv: "opt = OPT_RCVBUF \<Longrightarrow> m_state s = TCP_LISTEN \<and> 0 < value \<and> value \<le> 2147483648
       \<and> f_data_length (m_rbuf s) = 0 \<and> m_rlist s = []"
  shows "\<exists>s'. SetOption env opt value s = Some s' \<and> app_post s s'"
proof (cases opt)
  case OPT_NODELAY
  then show ?thesis using ok
    by (simp add: SetOption_def app_post_def tcp_ok_def send_ok_def net_ok_def listen_ok_def recv_ok_def
        rseg_ok_def calm_def keeps_agree_def recv_agree_def agree_on_def)
next
  case OPT_ACKDELAY
  then show ?thesis using ok
    by (simp add: SetOption_def app_post_def tcp_ok_def send_ok_def net_ok_def listen_ok_def recv_ok_def
        rseg_ok_def calm_def keeps_agree_def recv_agree_def agree_on_def)
next
  case OPT_SNDBUF
  note v = snd [OF OPT_SNDBUF]
  have n: "unat (word_of_int value :: u32) = nat value"
    using v by (simp add: unsigned_of_int take_bit_int_eq_self)
  have fifo: "fifo_ok (m_sbuf s)" and empty: "f_data_length (m_sbuf s) = 0"
    using ok v by (simp_all add: tcp_ok_def send_ok_def listen_ok_def)
  have nv: "nat value \<le> 2147483648" using v by (simp add: nat_le_iff)
  obtain b' where b': "SetCapacity (env_mem env) (nat value) (m_sbuf s) = (True, b')" "fifo_ok b'"
      "f_buffer_length b' = nat value" "f_data_length b' = 0"
    using SetCapacity_eq [OF fifo, of "nat value" "env_mem env"] empty nv by auto
  have "app_post s (s\<lparr>m_sbuf_len := word_of_int value, m_sbuf := b'\<rparr>)"
    using ok b' empty v
    by (auto simp: app_post_def tcp_ok_def send_ok_def net_ok_def listen_ok_def recv_ok_def
        rseg_ok_def calm_def keeps_agree_def recv_agree_def agree_on_def)
  then show ?thesis using OPT_SNDBUF v b'(1) n
    by (simp add: SetOption_def ASSERT_def resizeSendBuffer_def)
next
  case OPT_RCVBUF
  note v = rcv [OF OPT_RCVBUF]
  let ?n = "word_of_int value :: u32"
  have n: "unat ?n = nat value" using v by (simp add: unsigned_of_int take_bit_int_eq_self)
  then have "0 < ?n" using v by (simp add: word_less_nat_alt)
  then obtain n' k where sw: "scale_window ?n 0 = (n', k)" "push_bit (unat k) n' \<noteq> 0" "push_bit (unat k) n' \<le> ?n"
    using scale_window_sizes by metis
  have "push_bit (unat k) n' \<le> 2147483648"
  proof -
    have "nat value \<le> 2147483648" using v by (simp add: nat_le_iff)
    then show ?thesis using sw(3) n by (simp add: word_le_nat_alt)
  qed
  from resizeReceiveBuffer_ok [OF ok _ _ sw(1,2) this, of env] v OPT_RCVBUF show ?thesis
    by (auto simp: SetOption_def ASSERT_def)
qed

text \<open>A packet is refused, or is long enough for its header and holds a sane segment.\<close>

definition packet_sane :: "tcp_env \<Rightarrow> tcp \<Rightarrow> bytes \<Rightarrow> bool" where
  "packet_sane env s buf \<longleftrightarrow> length buf < 12 \<or> 65535 < length buf
     \<or> (24 \<le> length buf \<and> peer_sane (env_now env (x_now_calls s)) (segment_of buf) s \<and> m_cwnd s < 2147483648)"

lemma NotifyPacket_ok:
  assumes ok: "tcp_ok s" and cb: "good_callback cb" and p: "packet_sane env s buf"
  shows "\<exists>b s'. NotifyPacket env cb buf s = Some (b, s') \<and> tcp_ok s'
     \<and> (\<forall>S. recv_agree S s \<and> (24 \<le> length buf \<longrightarrow> seg_from S (segment_of buf)) \<longrightarrow> recv_agree S s')"
proof -
  have max: "unat MAX_PACKET = 65535" by (simp add: MAX_PACKET_def)
  consider "65535 < length buf" | "length buf \<le> 65535" "length buf < 12" | "length buf \<le> 65535" "24 \<le> length buf"
      "peer_sane (env_now env (x_now_calls s)) (segment_of buf) s" "m_cwnd s < 2147483648"
    using p not_less unfolding packet_sane_def by blast
  then show ?thesis
  proof cases
    case 1
    then show ?thesis using ok max by (auto simp: NotifyPacket_def)
  next
    case 2
    then have "(of_nat (length buf) :: u32) < 12" by (simp add: word_less_nat_alt unat_of_nat_u32)
    then show ?thesis using ok max 2 by (auto simp: NotifyPacket_def parse_def)
  next
    case 3
    then have "\<not> (of_nat (length buf) :: u32) < 12" by (simp add: word_less_nat_alt unat_of_nat_u32)
    then have "NotifyPacket env cb buf s = process env cb (segment_of buf) s"
      using max 3 by (simp add: NotifyPacket_def parse_def)
    then show ?thesis using process_ok [OF ok cb 3(3,4)] 3(2) by auto
  qed
qed

section \<open>Runs\<close>

datatype tcp_event =
    EvConnect
  | EvPacket bytes
  | EvClock u32
  | EvMTU u16
  | EvSend bytes
  | EvRecv nat
  | EvOption tcp_option int
  | EvClose bool

text \<open>The effect of an event: the bytes handed to the application and the new state.\<close>

fun tcp_handle :: "tcp_env \<Rightarrow> callback \<Rightarrow> tcp_event \<Rightarrow> tcp \<Rightarrow> (bytes \<times> tcp) option" where
  "tcp_handle env cb EvConnect s = map_option (\<lambda>(r, s). ([], s)) (Connect env s)"
| "tcp_handle env cb (EvPacket buf) s = map_option (\<lambda>(r, s). ([], s)) (NotifyPacket env cb buf s)"
| "tcp_handle env cb (EvClock now) s = map_option (\<lambda>s. ([], s)) (NotifyClock env cb now s)"
| "tcp_handle env cb (EvMTU mtu) s = Some ([], NotifyMTU mtu s)"
| "tcp_handle env cb (EvSend buf) s = map_option (\<lambda>(r, s). ([], s)) (Send env buf s)"
| "tcp_handle env cb (EvRecv n) s = map_option (\<lambda>(r, out, s). (out, s)) (Recv env n s)"
| "tcp_handle env cb (EvOption opt value) s = map_option (\<lambda>s. ([], s)) (SetOption env opt value s)"
| "tcp_handle env cb (EvClose force) s = Some ([], TcpClose force s)"

text \<open>What the environment has to respect, event by event.\<close>

fun event_sane :: "tcp_env \<Rightarrow> tcp \<Rightarrow> tcp_event \<Rightarrow> bool" where
  "event_sane env s (EvPacket buf) = packet_sane env s buf"
| "event_sane env s (EvMTU mtu) = (116 < mtu)"
| "event_sane env s (EvSend buf) =
     (unat (m_snd_una s) + f_data_length (m_sbuf s) + length buf < 4294967296)"
| "event_sane env s (EvOption opt value) =
     (case opt of
        OPT_SNDBUF \<Rightarrow> m_state s = TCP_LISTEN \<and> 4 \<le> value \<and> value \<le> 2147483648
      | OPT_RCVBUF \<Rightarrow> m_state s = TCP_LISTEN \<and> 0 < value \<and> value \<le> 2147483648
                      \<and> f_data_length (m_rbuf s) = 0 \<and> m_rlist s = []
      | _ \<Rightarrow> True)"
| "event_sane env s _ = True"

text \<open>Every data packet carries its part of the stream \<open>S\<close>.\<close>

fun event_from :: "(nat \<Rightarrow> byte) \<Rightarrow> tcp_event \<Rightarrow> bool" where
  "event_from S (EvPacket buf) = (24 \<le> length buf \<longrightarrow> seg_from S (segment_of buf))"
| "event_from S _ = True"

lemma tcp_handle_ok:
  assumes ok: "tcp_ok s" and cb: "good_callback cb" and e: "event_sane env s e"
  shows "\<exists>out s'. tcp_handle env cb e s = Some (out, s') \<and> tcp_ok s'
     \<and> (\<forall>S. recv_agree S s \<and> event_from S e \<longrightarrow> recv_agree S s')"
proof (cases e)
  case EvConnect
  then show ?thesis using Connect_ok [OF ok, of env] by (auto simp: app_post_def keeps_agree_def)
next
  case (EvPacket buf)
  then show ?thesis using NotifyPacket_ok [OF ok cb, of env buf] e by auto
next
  case (EvClock now)
  then show ?thesis using NotifyClock_ok [OF ok cb, of env now] by (auto simp: ack_post_def keeps_agree_def)
next
  case (EvMTU mtu)
  then show ?thesis using NotifyMTU_ok [OF ok, of mtu] e by (auto simp: app_post_def keeps_agree_def)
next
  case (EvSend buf)
  then show ?thesis using Send_ok [OF ok, of buf env] e by (auto simp: app_post_def keeps_agree_def)
next
  case (EvRecv n)
  then show ?thesis using Recv_ok [OF ok, of env n] by (fastforce simp: app_post_def keeps_agree_def)
next
  case (EvOption opt v)
  then have "\<exists>s'. SetOption env opt v s = Some s' \<and> app_post s s'"
    using e by (intro SetOption_ok [OF ok]) auto
  then show ?thesis using EvOption by (auto simp: app_post_def keeps_agree_def)
next
  case (EvClose f)
  then show ?thesis using TcpClose_ok [OF ok, of f] by (auto simp: app_post_def keeps_agree_def)
qed

inductive tcp_reachable :: "tcp_env \<Rightarrow> callback \<Rightarrow> (nat \<Rightarrow> byte) \<Rightarrow> tcp \<Rightarrow> bool"
  for env :: tcp_env and cb :: callback and S :: "nat \<Rightarrow> byte" where
  start: "tcp_reachable env cb S (PseudoTcp env conv)"
| step: "tcp_reachable env cb S s \<Longrightarrow> event_sane env s e \<Longrightarrow> event_from S e \<Longrightarrow>
    tcp_handle env cb e s = Some (out, s') \<Longrightarrow> tcp_reachable env cb S s'"

lemma reachable_ok:
  assumes "tcp_reachable env cb S s" "good_callback cb"
  shows "tcp_ok s" "recv_agree S s"
proof -
  from assms(1) have "tcp_ok s \<and> recv_agree S s"
  proof induction
    case (start conv)
    show ?case using PseudoTcp_ok by blast
  next
    case (step s e out s')
    then show ?case using tcp_handle_ok [OF _ assms(2) step.hyps(2)] by fastforce
  qed
  then show "tcp_ok s" "recv_agree S s" by simp_all
qed

end
