(* ===== verification/Tcp_Properties.thy ===== *)
theory Tcp_Properties
  imports Tcp_Run
begin

text \<open>
  What PseudoTcp (talk/p2p/base/pseudotcp.cc) guarantees: it never runs into an assertion,
  the bytes read are the peer's stream, the send loop ends and respects the peer's window,
  headers and options survive the wire.
\<close>

section \<open>Safety of every run\<close>

lemma passive_callback: "good_callback (\<lambda>n s. Some s)"
  by (simp add: good_callback_def app_post_refl)

text \<open>C1: in every reachable state every event the environment may raise is handled without running
  into an ASSERT, a division by zero, an out-of-bounds read or an endless loop.\<close>

theorem tcp_no_abort:
  assumes "tcp_reachable env cb S s" "good_callback cb" "event_sane env s e"
  shows "\<exists>out s'. tcp_handle env cb e s = Some (out, s') \<and> tcp_ok s'"
  using tcp_handle_ok [OF reachable_ok(1) [OF assms(1,2)] assms(2,3)] by blast

definition test_env :: tcp_env where
  "test_env = \<lparr>env_now = (\<lambda>n. 1000 + of_nat n), env_write = (\<lambda>n p. WR_SUCCESS), env_mem = (\<lambda>n. 0)\<rparr>"

theorem tcp_no_abort_witness:
  "\<exists>out s'. tcp_handle test_env (\<lambda>n s. Some s) EvConnect (PseudoTcp test_env 7) = Some (out, s') \<and> tcp_ok s'"
  by (rule tcp_no_abort [OF tcp_reachable.start [of _ _ "\<lambda>i. 0"] passive_callback]) simp

text \<open>C4: while the connection is not being closed, whatever the order, overlap and repetition of the
  data segments, a read returns the bytes of the peer's stream at the read position and advances it.\<close>

theorem tcp_reads_stream:
  assumes "tcp_reachable env cb S s" "good_callback cb" "m_shutdown s = SD_NONE"
    and recv: "Recv env n s = Some (r, out, s')"
  shows "out = map S [read_pos s ..< read_pos s + length out] \<and> length out \<le> n
     \<and> read_pos s' = read_pos s + length out
     \<and> fifo_contents (m_rbuf s) = map S [read_pos s ..< unat (m_rcv_nxt s)]"
proof -
  note ok = reachable_ok [OF assms(1,2)]
  have agree: "agree_on S (covered (m_rlist s)) s" using ok(2) assms(3) by (simp add: recv_agree_def)
  then have c: "fifo_contents (m_rbuf s) = map S [read_pos s ..< unat (m_rcv_nxt s)]"
      "f_data_length (m_rbuf s) \<le> unat (m_rcv_nxt s)"
    by (simp_all add: agree_on_def read_pos_def)
  obtain post: "app_post s s'" "length out \<le> n"
      "f_data_length (m_rbuf s') = f_data_length (m_rbuf s) - length out"
      "out = take (length out) (fifo_contents (m_rbuf s))"
    using Recv_ok [OF ok(1), of env n] recv by auto
  have le: "length out \<le> f_data_length (m_rbuf s)"
    using arg_cong [OF post(4), of length] by simp
  have "out = map S (take (length out) [read_pos s ..< unat (m_rcv_nxt s)])"
    using post(4) c(1) by (simp add: take_map)
  also have "take (length out) [read_pos s ..< unat (m_rcv_nxt s)] = [read_pos s ..< read_pos s + length out]"
    using le c(2) by (intro take_upt) (simp add: read_pos_def)
  finally have "out = map S [read_pos s ..< read_pos s + length out]" .
  moreover have "m_rcv_nxt s' = m_rcv_nxt s" using post(1) by (simp add: app_post_def keeps_agree_def)
  then have "read_pos s' = read_pos s + length out"
    using post(3) le c(2) by (simp add: read_pos_def)
  ultimately show ?thesis using post(2) c(1) by blast
qed

theorem tcp_reads_stream_witness:
  "\<exists>out s'. Recv test_env 5 (PseudoTcp test_env 7) = Some (SOCKET_ERROR, out, s')
     \<and> out = map (\<lambda>i. 0) [read_pos (PseudoTcp test_env 7) ..< read_pos (PseudoTcp test_env 7) + length out]"
proof -
  let ?s = "PseudoTcp test_env 7"
  have r: "Recv test_env 5 ?s = Some (SOCKET_ERROR, [], ?s\<lparr>m_error := ENOTCONN\<rparr>)"
    by (simp add: Recv_def PseudoTcp_def Let_def)
  have "m_shutdown ?s = SD_NONE" by (simp add: PseudoTcp_def Let_def)
  from tcp_reads_stream [OF tcp_reachable.start [of _ _ "\<lambda>i. 0"] passive_callback this r] r
  show ?thesis by blast
qed

section \<open>Sending\<close>

text \<open>C18: the send loop ends, whatever the network answers to each packet, and keeps the invariant.\<close>

theorem attemptSend_terminates:
  assumes "send_ok s"
  shows "\<exists>s'. attemptSend env sflags s = Some s' \<and> send_ok s' \<and> m_snd_nxt s \<le> m_snd_nxt s'"
  using attemptSend_ok [OF assms, of env sflags] by (auto simp: send_post_def)

theorem attemptSend_terminates_witness:
  "\<exists>s'. attemptSend test_env sfImmediateAck (PseudoTcp test_env 7) = Some s' \<and> send_ok s'
     \<and> m_snd_nxt (PseudoTcp test_env 7) \<le> m_snd_nxt s'"
proof (rule attemptSend_terminates)
  show "send_ok (PseudoTcp test_env 7)" using PseudoTcp_ok(1) by (simp add: tcp_ok_def)
qed

text \<open>C19: the send loop never has more bytes in flight than before or than the window the peer announced.\<close>

theorem send_within_window:
  assumes "send_ok s" "attemptSend env sflags s = Some s'"
  shows "unat (in_flight s') \<le> max (unat (in_flight s)) (unat (m_snd_wnd s))"
  using attemptSend_ok [OF assms(1), of env sflags] assms(2) by (auto simp: send_post_def)

theorem send_within_window_witness:
  "\<exists>s'. attemptSend test_env sfNone (PseudoTcp test_env 7) = Some s' \<and> unat (in_flight s') \<le> 1"
proof -
  have ok: "send_ok (PseudoTcp test_env 7)" using PseudoTcp_ok(1) by (simp add: tcp_ok_def)
  then obtain s' where "attemptSend test_env sfNone (PseudoTcp test_env 7) = Some s'"
    using attemptSend_ok by blast
  then show ?thesis using send_within_window [OF ok]
    by (fastforce simp: PseudoTcp_def Let_def in_flight_def)
qed

section \<open>Receiving\<close>

text \<open>C17: a data segment that holds the next expected byte is accepted when there is room; the data it
  connects to is handed over too, and no segment that is now in sequence stays behind.\<close>

theorem in_order_progress:
  assumes ok: "tcp_ok s" and sane: "seg_sane seg"
    and plain: "g_flags seg AND FLAG_CTL = 0" "m_shutdown s = SD_NONE"
    and exp: "g_seq seg \<le> m_rcv_nxt s" "unat (m_rcv_nxt s) < unat (g_seq seg) + unat (g_len seg)"
    and room: "0 < GetWriteRemaining (m_rbuf s)"
  shows "\<exists>fl' s'. receive_data (trim_back s (trim_front s seg)) fl s = Some (True, fl', s')
     \<and> m_rcv_nxt s < m_rcv_nxt s' \<and> (\<forall>r \<in> set (m_rlist s'). m_rcv_nxt s' < r_seq r)"
proof -
  have recv: "recv_ok s" "fifo_ok (m_rbuf s)" using ok by (simp_all add: tcp_ok_def recv_ok_def)
  note tf = trim_front_ok [OF sane, where s = s]
  let ?f = "trim_front s seg" and ?seg = "trim_back s (trim_front s seg)"
  note tb = trim_back_ok [OF recv(2) tf(1) tf(4)]
  have f: "g_seq ?f = m_rcv_nxt s" "0 < g_len ?f"
  proof -
    have "g_seq ?f = m_rcv_nxt s \<and> 0 < g_len ?f"
    proof (cases "g_seq seg < m_rcv_nxt s")
      case True
      then have "unat (m_rcv_nxt s - g_seq seg) = unat (m_rcv_nxt s) - unat (g_seq seg)"
        by (simp add: unat_sub order_less_imp_le)
      then have lt: "m_rcv_nxt s - g_seq seg < g_len seg"
        using exp True by (simp add: word_less_nat_alt)
      then have "0 < unat (g_len seg - (m_rcv_nxt s - g_seq seg))"
        using unat_sub [OF order_less_imp_le [OF lt]] by (simp add: word_less_nat_alt)
      then show ?thesis using True lt by (simp add: trim_front_def Let_def word_less_nat_alt)
    next
      case False
      then have "g_seq seg = m_rcv_nxt s" using exp(1) by simp
      then show ?thesis using exp(2) by (simp add: trim_front_def word_less_nat_alt)
    qed
    then show "g_seq ?f = m_rcv_nxt s" "0 < g_len ?f" by simp_all
  qed
  have b: "g_seq ?seg = m_rcv_nxt s" "0 < g_len ?seg"
  proof -
    have "?f = ?f\<lparr>g_len := g_len ?f\<rparr>" by simp
    have sp: "unat (rbuf_space s) = GetWriteRemaining (m_rbuf s)" by (rule unat_rbuf_space [OF recv(2)])
    have e: "g_seq ?f + g_len ?f - m_rcv_nxt s = g_len ?f" using f(1) by simp
    have sp0: "0 < rbuf_space s" using sp room by (simp add: word_less_nat_alt)
    show "g_seq ?seg = m_rcv_nxt s" using f(1) by (simp add: trim_back_def Let_def)
    show "0 < g_len ?seg"
    proof (cases "g_len ?f > rbuf_space s")
      case True
      then have "g_len ?f - rbuf_space s < g_len ?f"
        using sp0 by (simp add: word_less_nat_alt unat_sub word_le_nat_alt)
      then have "g_len ?seg = rbuf_space s" using True e by (simp add: trim_back_def Let_def)
      then show ?thesis using sp0 by simp
    next
      case False
      then show ?thesis using f e by (simp add: trim_back_def)
    qed
  qed
  have plain': "g_flags ?seg AND FLAG_CTL = 0" using plain(1) tf(3) tb(3) by simp
  have c: "ctl_sane ?seg s" using plain' by (simp add: ctl_sane_def)
  obtain nd fl' s' where r: "receive_data ?seg fl s = Some (nd, fl', s')" "data_post ?seg s s'"
    using receive_data_ok [OF recv(1) tb(1,4) c] by blast
  have nd: "nd"
    using r(1) b plain' plain(2)
    by (auto simp: receive_data_def Let_def split: bind_splits prod.splits if_splits)
  have "unat (m_rcv_nxt s) + unat (g_len ?seg) \<le> unat (m_rcv_nxt s')"
    using r(2) b by (simp add: data_post_def)
  moreover have "0 < unat (g_len ?seg)" using b(2) by (simp add: word_less_nat_alt)
  ultimately have "m_rcv_nxt s < m_rcv_nxt s'" by (simp add: word_less_nat_alt)
  then show ?thesis using r nd b plain' plain(2) by (auto simp: data_post_def)
qed

definition test_segment :: segment where
  "test_segment = \<lparr>g_conv = 7, g_seq = 0, g_ack = 0, g_flags = 0, g_wnd = 100, g_data = [1, 2, 3],
     g_len = 3, g_tsval = 0, g_tsecr = 0\<rparr>"

theorem in_order_progress_witness:
  "\<exists>fl' s'. receive_data (trim_back (PseudoTcp test_env 7) (trim_front (PseudoTcp test_env 7) test_segment))
       sfNone (PseudoTcp test_env 7) = Some (True, fl', s')
     \<and> m_rcv_nxt (PseudoTcp test_env 7) < m_rcv_nxt s' \<and> (\<forall>r \<in> set (m_rlist s'). m_rcv_nxt s' < r_seq r)"
  by (rule in_order_progress [OF PseudoTcp_ok(1)])
     (simp_all add: test_segment_def seg_sane_def PseudoTcp_def Let_def GetWriteRemaining_def FifoBuffer_def
        DEFAULT_RCV_BUF_SIZE_def)

section \<open>On the wire\<close>

lemma length_to_bytes [simp]: "length (long_to_bytes x) = 4" "length (short_to_bytes y) = 2"
  by (simp_all add: long_to_bytes_def short_to_bytes_def SetLE32_def SetLE16_def)

lemma bytes_to_long_bytes [simp]: "bytes_to_long (long_to_bytes x) = x"
  by (simp add: bytes_to_long_def long_to_bytes_def wire_simps)

lemma bytes_to_short_bytes [simp]: "bytes_to_short (short_to_bytes x) = x"
  by (simp add: bytes_to_short_def short_to_bytes_def wire_simps)

text \<open>C30: the receiver reads back every field the sender put into a packet, and its payload.\<close>

theorem packet_header_roundtrip:
  "segment_of (packet_header seq flags now s @ payload) =
     \<lparr>g_conv = m_conv s, g_seq = seq, g_ack = m_rcv_nxt s, g_flags = flags,
      g_wnd = ucast (drop_bit (unat (m_rwnd_scale s)) (m_rcv_wnd s)), g_data = payload,
      g_len = of_nat (length payload), g_tsval = now, g_tsecr = m_ts_recent s\<rparr>"
  by (simp add: segment_of_def packet_header_def HEADER_SIZE_def nth_append)

text \<open>An offer of window scaling in a connect message sets exactly the peer's shift count; the peer that
  does not scale leaves it alone.\<close>

theorem window_scale_negotiation:
  "parseOptions env (drop 1 (Data (connect_message t))) s =
     (if m_support_wnd_scale t then Some (s\<lparr>m_swnd_scale := m_rwnd_scale t\<rparr>)
      else if m_rwnd_scale s > 0
      then map_option (\<lambda>s. s\<lparr>m_swnd_scale := 0\<rparr>) (resizeReceiveBuffer env DEFAULT_RCV_BUF_SIZE s)
      else Some s)"
proof -
  have empty: "options_loop b sp s = (Some sp, s)" if "Data b = []" for b sp s
    using that by (subst options_loop.simps) (simp add: ReadUInt8_def ReadBytes_def Length_Data)
  show ?thesis
  proof (cases "m_support_wnd_scale t")
    case False
    then show ?thesis
      by (simp add: parseOptions_def connect_message_data empty buf_simps)
  next
    case True
    define b where "b = ByteBuffer_of [TCP_OPT_WND_SCALE, 1, m_rwnd_scale t] ORDER_NETWORK"
    define b1 where "b1 = b\<lparr>bb_start := bb_start b + 1\<rparr>"
    define b2 where "b2 = b1\<lparr>bb_start := bb_start b1 + 1\<rparr>"
    define b3 where "b3 = b2\<lparr>bb_start := bb_start b2 + 1\<rparr>"
    have d: "Data b = [TCP_OPT_WND_SCALE] @ ([1] @ [m_rwnd_scale t])" by (simp add: b_def buf_simps)
    have d1: "Data b1 = [1] @ [m_rwnd_scale t]" unfolding b1_def by (rule reads_as_rest [OF d]) simp
    have d2: "Data b2 = [m_rwnd_scale t] @ []" using reads_as_rest [OF d1] by (simp add: b2_def)
    have d3: "Data b3 = []" using reads_as_rest [OF d2] by (simp add: b3_def)
    have r: "ReadUInt8 b = Some (TCP_OPT_WND_SCALE, b1)" "ReadUInt8 b1 = Some (1, b2)"
      using ReadUInt8_wire [OF d] ReadUInt8_wire [OF d1] by (simp_all add: reads_as_def b1_def b2_def)
    have c: "Consume (unat 1) b2 = Some b3"
      using d2 by (simp add: Consume_def Length_Data b3_def)
    have k: "TCP_OPT_WND_SCALE \<noteq> TCP_OPT_EOL" "TCP_OPT_WND_SCALE \<noteq> TCP_OPT_NOOP"
      by (simp_all add: TCP_OPT_WND_SCALE_def TCP_OPT_EOL_def TCP_OPT_NOOP_def)
    have a: "applyOption TCP_OPT_WND_SCALE (Data b2) (ucast (1 :: u8)) s = s\<lparr>m_swnd_scale := m_rwnd_scale t\<rparr>"
      using d2 by (simp add: applyOption_def applyWindowScaleOption_def TCP_OPT_WND_SCALE_def TCP_OPT_MSS_def)
    have "options_loop b [] s = (Some [TCP_OPT_WND_SCALE], s\<lparr>m_swnd_scale := m_rwnd_scale t\<rparr>)"
      using empty [OF d3] by (subst options_loop.simps) (simp only: r c k a if_False option.case prod.case)
    then show ?thesis using True by (simp add: parseOptions_def connect_message_data b_def)
  qed
qed

section \<open>Timers\<close>

text \<open>C31: the wake-up time that GetNextClock reports is right: as long as it is positive, NotifyClock has
  nothing to do, and once it is not, a timer is due.\<close>

theorem next_clock_consistent:
  assumes "GetNextClock now s = Some t"
  shows "(0 < t \<longrightarrow> NotifyClock env cb now s = Some s) \<and> t \<le> CLOSED_TIMEOUT
     \<and> (t \<le> 0 \<longrightarrow> m_state s \<noteq> TCP_CLOSED
          \<and> (m_rto_base s \<noteq> 0 \<and> TimeDiff (m_rto_base s + m_rx_rto s) now \<le> 0
             \<or> m_snd_wnd s = 0 \<and> TimeDiff (m_lastsend s + m_rx_rto s) now \<le> 0
             \<or> m_t_ack s \<noteq> 0 \<and> TimeDiff (m_t_ack s + m_ack_delay s) now \<le> 0))"
  using assms
  by (auto simp: GetNextClock_def clock_check_def Let_def NotifyClock_def clock_retransmit_def
      clock_probe_def clock_delayed_ack_def DEFAULT_TIMEOUT_def CLOSED_TIMEOUT_def min_def split: if_splits)

theorem next_clock_consistent_witness:
  "NotifyClock test_env (\<lambda>n s. Some s) 1000 (PseudoTcp test_env 7) = Some (PseudoTcp test_env 7)"
proof -
  have "GetNextClock 1000 (PseudoTcp test_env 7) = Some 4000"
    by (simp add: GetNextClock_def clock_check_def PseudoTcp_def Let_def DEFAULT_TIMEOUT_def)
  from next_clock_consistent [OF this] show ?thesis by simp
qed

end
