(* ===== verification/Fifo_Spec.thy ===== *)
theory Fifo_Spec
  imports Byte_Queue
begin

















end
