(* ===== verification/Ip_Address.thy ===== *)
theory Ip_Address
  imports Byte_Order "HOL-Library.List_Lexorder"
begin

text \<open>
  talk/base/ipaddress.cc and ipaddress.h: IP addresses of both families. An IPv4 address is its
  s_addr as the host reads it from memory, an IPv6 address its 16 bytes in network order. The
  conversions from and to text are the C library's inet_pton and inet_ntop, the fields of \<open>ip_text\<close>.
\<close>

datatype ip_address = IP_UNSPEC | IP4 u32 | IP6 bytes

text \<open>The constructor from an integer in host byte order.\<close>

definition IPAddress_of :: "u32 \<Rightarrow> ip_address" where
  "IPAddress_of ip_in_host_byte_order = IP4 (HostToNetwork32 ip_in_host_byte_order)"

definition INADDR_ANY :: u32 where "INADDR_ANY = 0"
definition INADDR_LOOPBACK :: u32 where "INADDR_LOOPBACK = 0x7F000001"
definition in6addr_any :: bytes where "in6addr_any = replicate 16 0"
definition in6addr_loopback :: bytes where "in6addr_loopback = replicate 15 0 @ [1]"

definition kMappedPrefix :: bytes where
  "kMappedPrefix = [0, 0, 0, 0, 0, 0, 0, 0, 0, 0, 0xFF, 0xFF]"

definition v4AddressAsHostOrderInteger :: "ip_address \<Rightarrow> u32" where
  "v4AddressAsHostOrderInteger ip = (case ip of IP4 s_addr \<Rightarrow> NetworkToHost32 s_addr | _ \<Rightarrow> 0)"

definition ip_size :: "ip_address \<Rightarrow> nat" where
  "ip_size ip = (case ip of IP4 _ \<Rightarrow> 4 | IP6 _ \<Rightarrow> 16 | IP_UNSPEC \<Rightarrow> 0)"

definition ip_equal :: "ip_address \<Rightarrow> ip_address \<Rightarrow> bool" where
  "ip_equal a b = (case (a, b) of
     (IP4 x, IP4 y) \<Rightarrow> SetLE32 x = SetLE32 y
   | (IP6 x, IP6 y) \<Rightarrow> x = y
   | (IP_UNSPEC, IP_UNSPEC) \<Rightarrow> True
   | _ \<Rightarrow> False)"

text \<open>\<open>memcmp\<close> compares lexicographically; an unspecified address comes first, IPv4 before IPv6.\<close>

definition ip_less :: "ip_address \<Rightarrow> ip_address \<Rightarrow> bool" where
  "ip_less a b = (case (a, b) of
     (IP4 x, IP4 y) \<Rightarrow> NetworkToHost32 x < NetworkToHost32 y
   | (IP6 x, IP6 y) \<Rightarrow> x < y
   | (IP_UNSPEC, IP_UNSPEC) \<Rightarrow> False
   | (IP_UNSPEC, _) \<Rightarrow> True
   | (IP4 _, IP6 _) \<Rightarrow> True
   | _ \<Rightarrow> False)"

definition ip_greater :: "ip_address \<Rightarrow> ip_address \<Rightarrow> bool" where
  "ip_greater a b \<longleftrightarrow> \<not> ip_equal a b \<and> \<not> ip_less a b"

definition IsMappedAddress :: "bytes \<Rightarrow> bool" where
  "IsMappedAddress addr \<longleftrightarrow> take 12 addr = kMappedPrefix"

definition ExtractMappedAddress :: "bytes \<Rightarrow> u32" where
  "ExtractMappedAddress in6 = GetLE32 (drop 12 in6)"

definition Normalized :: "ip_address \<Rightarrow> ip_address" where
  "Normalized ip = (case ip of
     IP6 v6 \<Rightarrow> if \<not> IsMappedAddress v6 then ip else IP4 (ExtractMappedAddress v6)
   | _ \<Rightarrow> ip)"

definition AsIPv6Address :: "ip_address \<Rightarrow> ip_address" where
  "AsIPv6Address ip = (case ip of IP4 s_addr \<Rightarrow> IP6 (kMappedPrefix @ SetLE32 s_addr) | _ \<Rightarrow> ip)"

definition IsPrivateV4 :: "u32 \<Rightarrow> bool" where
  "IsPrivateV4 ip \<longleftrightarrow> drop_bit 24 ip = 127 \<or> drop_bit 24 ip = 10
     \<or> drop_bit 20 ip = (push_bit 4 172 OR 1)
     \<or> drop_bit 16 ip = (push_bit 8 192 OR 168)
     \<or> drop_bit 16 ip = (push_bit 8 169 OR 254)"

definition IPIsAny :: "ip_address \<Rightarrow> bool" where
  "IPIsAny ip = (case ip of
     IP4 _ \<Rightarrow> ip_equal ip (IPAddress_of INADDR_ANY)
   | IP6 _ \<Rightarrow> ip_equal ip (IP6 in6addr_any)
   | IP_UNSPEC \<Rightarrow> False)"

definition IPIsLoopback :: "ip_address \<Rightarrow> bool" where
  "IPIsLoopback ip = (case ip of
     IP4 _ \<Rightarrow> ip_equal ip (IPAddress_of INADDR_LOOPBACK)
   | IP6 _ \<Rightarrow> ip_equal ip (IP6 in6addr_loopback)
   | IP_UNSPEC \<Rightarrow> False)"

definition IPIsPrivate :: "ip_address \<Rightarrow> bool" where
  "IPIsPrivate ip = (case ip of
     IP4 _ \<Rightarrow> IsPrivateV4 (v4AddressAsHostOrderInteger ip)
   | IP6 v6 \<Rightarrow> (v6 ! 0 = 0xFE \<and> v6 ! 1 = 0x80) \<or> IPIsLoopback ip
   | IP_UNSPEC \<Rightarrow> False)"

definition HashIP :: "ip_address \<Rightarrow> u32" where
  "HashIP ip = (case ip of
     IP4 s_addr \<Rightarrow> s_addr
   | IP6 v6 \<Rightarrow> GetLE32 (take 4 v6) XOR GetLE32 (take 4 (drop 4 v6)) XOR GetLE32 (take 4 (drop 8 v6))
               XOR GetLE32 (take 4 (drop 12 v6))
   | IP_UNSPEC \<Rightarrow> 0)"

section \<open>Text and host entries\<close>

record ip_text =
  pton4 :: "bytes \<Rightarrow> u32 option"
  pton6 :: "bytes \<Rightarrow> bytes option"
  ntop4 :: "u32 \<Rightarrow> bytes"
  ntop6 :: "bytes \<Rightarrow> bytes"

text \<open>\<open>c_str\<close> ends at the first zero byte for its reader.\<close>

definition c_str :: "bytes \<Rightarrow> bytes" where
  "c_str s = takeWhile (\<lambda>c. c \<noteq> 0) s"

definition IPToString :: "ip_text \<Rightarrow> ip_address \<Rightarrow> bytes" where
  "IPToString txt ip = (case ip of IP4 s_addr \<Rightarrow> ntop4 txt s_addr | IP6 v6 \<Rightarrow> ntop6 txt v6 | IP_UNSPEC \<Rightarrow> [])"

definition IPFromString :: "ip_text \<Rightarrow> bytes \<Rightarrow> bool \<times> ip_address" where
  "IPFromString txt str =
     (case pton4 txt (c_str str) of
        Some addr \<Rightarrow> (True, IP4 addr)
      | None \<Rightarrow> (case pton6 txt (c_str str) of
                  None \<Rightarrow> (False, IP_UNSPEC)
                | Some addr6 \<Rightarrow> (True, IP6 addr6)))"

text \<open>A hostent: its address family (\<open>None\<close> for one that is neither) and its addresses.\<close>

datatype host_family = HF_INET | HF_INET6

record hostent =
  h_addrtype :: "host_family option"
  h_addr_list :: "bytes list"

definition IPFromHostEnt :: "hostent \<Rightarrow> int \<Rightarrow> ip_address option" where
  "IPFromHostEnt host_ent idx =
     (if 0 \<le> idx \<and> nat idx < length (h_addr_list host_ent)
      then (let requested_address = h_addr_list host_ent ! nat idx
            in case h_addrtype host_ent of
                 Some HF_INET \<Rightarrow> Some (IP4 (GetLE32 (take 4 requested_address)))
               | Some HF_INET6 \<Rightarrow> Some (IP6 requested_address)
               | None \<Rightarrow> None)
      else None)"

section \<open>Prefixes\<close>

definition TruncateIP :: "ip_address \<Rightarrow> int \<Rightarrow> ip_address" where
  "TruncateIP ip len =
     (if len < 0 then IP_UNSPEC
      else case ip of
        IP4 s_addr \<Rightarrow>
          if len > 31 then ip
          else if len = 0 then IPAddress_of INADDR_ANY
          else (let mask = push_bit (32 - nat len) 0xFFFFFFFF :: u32;
                    host_order_ip = NetworkToHost32 s_addr
                in IP4 (HostToNetwork32 (host_order_ip AND mask)))
      | IP6 v6 \<Rightarrow>
          if len > 127 then ip
          else if len = 0 then IP6 in6addr_any
          else (let position = nat len div 32;
                    inner_length = 32 - (nat len - position * 32);
                    inner_mask = ucast (push_bit inner_length 0xFFFFFFFF :: u64) :: u32;
                    word = (\<lambda>i. GetLE32 (take 4 (drop (4 * i) v6)));
                    trunc = (\<lambda>i. if i = position
                                 then HostToNetwork32 (NetworkToHost32 (word i) AND inner_mask)
                                 else if i > position then 0 else word i)
                in IP6 (SetLE32 (trunc 0) @ SetLE32 (trunc 1) @ SetLE32 (trunc 2) @ SetLE32 (trunc 3)))
      | IP_UNSPEC \<Rightarrow> IP_UNSPEC)"

lemma top_bit_size: "w AND 0x80000000 \<noteq> 0 \<Longrightarrow> 2147483648 \<le> unat (w :: u32)"
proof (rule ccontr)
  assume "w AND 0x80000000 \<noteq> 0" and "\<not> 2147483648 \<le> unat w"
  then have "take_bit 31 w = w"
    unfolding word_eq_iff_unsigned [where ?'a = nat]
    by (simp add: unsigned_take_bit_eq take_bit_nat_eq_self_iff)
  moreover have "take_bit 31 w AND 0x80000000 = 0"
    by (simp add: take_bit_eq_mask mask_eq_exp_minus_1 and.assoc)
  ultimately show False using \<open>w AND 0x80000000 \<noteq> 0\<close> by simp
qed

function count_ones :: "u32 \<Rightarrow> int \<Rightarrow> int" where
  "count_ones w bits = (if w AND 0x80000000 \<noteq> 0 then count_ones (push_bit 1 w) (bits + 1) else bits)"
  by auto
termination
proof (relation "measure (\<lambda>(w, b). unat w)", goal_cases)
  case (2 w b)
  then have h: "2147483648 \<le> unat w" by (simp add: top_bit_size)
  have "unat (push_bit 1 w) = (2 * unat w) mod 4294967296"
    by (simp add: push_bit_eq_mult unat_word_ariths mult.commute)
  also have "\<dots> = 2 * unat w - 4294967296"
    using h unat_u32_less [of w] by (simp add: le_mod_geq)
  finally show ?case using h unat_u32_less [of w] by simp
qed simp

declare count_ones.simps [simp del]

definition count_word :: "u32 \<Rightarrow> int \<Rightarrow> int" where
  "count_word word_to_count bits =
     (if word_to_count = 0 then bits
      else if word_to_count = 0xFF000000 then bits + 8
      else if word_to_count = 0xFFFF0000 then bits + 16
      else if word_to_count = 0xFFFFFF00 then bits + 24
      else count_ones word_to_count bits)"

definition CountIPMaskBits :: "ip_address \<Rightarrow> int" where
  "CountIPMaskBits ip =
     (case ip of
        IP4 s_addr \<Rightarrow> count_word (NetworkToHost32 s_addr) 0
      | IP6 v6 \<Rightarrow>
          (let word = (\<lambda>i. GetLE32 (take 4 (drop (4 * i) v6)));
               i = length (takeWhile (\<lambda>i. word i = 0xFFFFFFFF) [0, 1, 2, 3])
           in count_word (if i < 4 then NetworkToHost32 (word i) else 0) (int i * 32))
      | IP_UNSPEC \<Rightarrow> 0)"

section \<open>The order of addresses\<close>

lemma SetLE32_inj: "SetLE32 x = SetLE32 y \<longleftrightarrow> x = y"
  using GetLE_SetLE(2) by metis

lemma NetworkToHost32_inj: "NetworkToHost32 x = NetworkToHost32 y \<longleftrightarrow> x = y"
proof
  assume "NetworkToHost32 x = NetworkToHost32 y"
  then have "HostToNetwork32 x = HostToNetwork32 y" by (simp add: NetworkToHost32_def HostToNetwork32_def)
  then show "x = y" using NetworkToHost_HostToNetwork(2) by metis
qed simp

lemma ip_equal_eq [simp]: "ip_equal a b \<longleftrightarrow> a = b"
  by (cases a; cases b) (simp_all add: ip_equal_def SetLE32_inj)

instantiation ip_address :: linorder
begin

definition less_ip_address :: "ip_address \<Rightarrow> ip_address \<Rightarrow> bool" where
  "less_ip_address a b \<longleftrightarrow> ip_less a b"

definition less_eq_ip_address :: "ip_address \<Rightarrow> ip_address \<Rightarrow> bool" where
  "less_eq_ip_address a b \<longleftrightarrow> ip_less a b \<or> ip_equal a b"

instance
proof
  fix a b c :: ip_address
  show "a < b \<longleftrightarrow> a \<le> b \<and> \<not> b \<le> a"
    by (cases a; cases b) (auto simp: less_ip_address_def less_eq_ip_address_def ip_less_def)
  show "a \<le> a" by (simp add: less_eq_ip_address_def)
  show "a \<le> c" if "a \<le> b" "b \<le> c"
    using that by (cases a; cases b; cases c) (auto simp: less_eq_ip_address_def ip_less_def)
  show "a = b" if "a \<le> b" "b \<le> a"
    using that by (cases a; cases b) (auto simp: less_eq_ip_address_def ip_less_def)
  show "a \<le> b \<or> b \<le> a"
    using NetworkToHost32_inj
    by (cases a; cases b) (auto simp: less_eq_ip_address_def ip_less_def not_less order_le_less)
qed

end

section \<open>Addresses as bits\<close>

text \<open>The bits of a word from the most significant one on, and those of an address in network order.\<close>

definition word_bits :: "u32 \<Rightarrow> bool list" where
  "word_bits w = map (bit w) (rev [0..<32])"

definition host_word :: "bytes \<Rightarrow> nat \<Rightarrow> u32" where
  "host_word v6 i = NetworkToHost32 (GetLE32 (take 4 (drop (4 * i) v6)))"

definition ip_bits :: "ip_address \<Rightarrow> bool list" where
  "ip_bits ip = (case ip of
     IP4 s_addr \<Rightarrow> word_bits (NetworkToHost32 s_addr)
   | IP6 v6 \<Rightarrow> word_bits (host_word v6 0) @ word_bits (host_word v6 1) @ word_bits (host_word v6 2) @ word_bits (host_word v6 3)
   | IP_UNSPEC \<Rightarrow> [])"

lemma length_word_bits [simp]: "length (word_bits w) = 32"
  by (simp add: word_bits_def)

lemma nth_word_bits: "i < 32 \<Longrightarrow> word_bits w ! i = bit w (31 - i)"
  by (simp add: word_bits_def rev_nth)

lemma word_bits_0: "word_bits 0 = replicate 32 False"
  by (rule nth_equalityI) (simp_all add: nth_word_bits)

lemma word_bits_masked:
  assumes "k \<le> 32" "\<And>i. i < 32 \<Longrightarrow> bit m i \<longleftrightarrow> 32 - k \<le> i"
  shows "word_bits (w AND m) = take k (word_bits w) @ replicate (32 - k) False"
  using assms by (intro nth_equalityI) (auto simp: nth_word_bits nth_append bit_and_iff)

lemma top_bit: "w AND 0x80000000 \<noteq> 0 \<longleftrightarrow> bit (w :: u32) 31"
  using and_exp_eq_0_iff_not_bit [of w 31] by simp

text \<open>A word shifted left loses its first bit.\<close>

lemma bit_double: "bit (w * 2 :: u32) n \<longleftrightarrow> 0 < n \<and> n < 32 \<and> bit w (n - 1)"
proof -
  have "w * 2 = push_bit (Suc 0) w" by (simp add: push_bit_eq_mult)
  then show ?thesis by (simp only: bit_push_bit_iff) auto
qed

lemma word_bits_shift: "word_bits w = bit w 31 # butlast (word_bits (push_bit 1 w))"
  by (intro nth_equalityI) (auto simp: nth_word_bits nth_butlast nth_Cons bit_double split: nat.split)

definition leading :: "bool list \<Rightarrow> nat" where
  "leading bs = length (takeWhile id bs)"

lemma count_ones_leading: "count_ones w b = b + int (leading (word_bits w))"
proof (induction w b rule: count_ones.induct)
  case (1 w b)
  show ?case
  proof (cases "w AND 0x80000000 \<noteq> 0")
    case True
    have "last (word_bits (push_bit 1 w)) = False"
      by (simp add: word_bits_def last_map upt_rec bit_double)
    then have "leading (word_bits (push_bit 1 w)) = leading (butlast (word_bits (push_bit 1 w)))"
      by (metis append_butlast_last_id length_word_bits leading_def list.size(3) takeWhile_tail id_apply zero_neq_numeral)
    moreover have "bit w 31" using True top_bit by blast
    ultimately have "leading (word_bits w) = Suc (leading (word_bits (push_bit 1 w)))"
      by (subst word_bits_shift) (simp add: leading_def)
    then show ?thesis using 1 True by (subst count_ones.simps) simp
  next
    case False
    then have "\<not> bit w 31" using top_bit by blast
    then show ?thesis using False by (subst count_ones.simps, subst word_bits_shift) (simp add: leading_def)
  qed
qed

lemma leading_bytes:
  "leading (word_bits 0) = 0" "leading (word_bits 0xFF000000) = 8" "leading (word_bits 0xFFFF0000) = 16"
  "leading (word_bits 0xFFFFFF00) = 24"
  by code_simp+

lemma count_word_leading: "count_word w b = b + int (leading (word_bits w))"
  by (simp add: count_word_def count_ones_leading leading_bytes)

lemma word_bits_ones: "word_bits w = replicate 32 True \<longleftrightarrow> w = 0xFFFFFFFF"
proof -
  have "word_bits 0xFFFFFFFF = replicate 32 True" by code_simp
  moreover have "w = v" if "word_bits w = word_bits v" for v
  proof (rule bit_word_eqI)
    fix n assume "n < LENGTH(32)"
    then show "bit w n = bit v n"
      using arg_cong [OF that, of "\<lambda>l. l ! (31 - n)"] by (simp add: nth_word_bits)
  qed
  ultimately show ?thesis by metis
qed

lemma leading_append: "leading (xs @ ys) = (if xs = replicate (length xs) True then length xs + leading ys else leading xs)"
proof (induction xs)
  case (Cons x xs)
  then show ?case by (cases x) (auto simp: leading_def)
qed (simp add: leading_def)

lemma NetworkToHost32_ones: "NetworkToHost32 w = 0xFFFFFFFF \<longleftrightarrow> w = 0xFFFFFFFF"
proof -
  have "NetworkToHost32 0xFFFFFFFF = 0xFFFFFFFF" by code_simp
  then show ?thesis using NetworkToHost32_inj by metis
qed

lemma count_mask_leading: "CountIPMaskBits ip = int (leading (ip_bits ip))"
proof (cases ip)
  case (IP6 v6)
  have zero: "count_word 0 b = b" for b by (simp add: count_word_def)
  have ones: "leading (word_bits (NetworkToHost32 0xFFFFFFFF)) = 32" by code_simp
  show ?thesis
    by (simp add: IP6 CountIPMaskBits_def ip_bits_def leading_append word_bits_ones Let_def host_word_def
        NetworkToHost32_ones count_word_leading zero ones leading_bytes)
qed (simp_all add: CountIPMaskBits_def ip_bits_def count_word_leading leading_def)

lemma bit_ones: "bit (0xFFFFFFFF :: int) i \<longleftrightarrow> i < 32"
proof -
  have "(0xFFFFFFFF :: int) = mask 32" by (simp add: mask_eq_exp_minus_1)
  then show ?thesis by (simp only: bit_mask_iff) simp
qed

lemma v4_mask_bits:
  assumes "0 < n" "n < 32"
  shows "word_bits (w AND push_bit (32 - n) 0xFFFFFFFF) = take n (word_bits w) @ replicate (32 - n) False"
  using assms by (intro word_bits_masked) (auto simp: bit_push_bit_iff bit_ones)

lemma v6_mask_bits:
  assumes "k < 32"
  shows "word_bits (w AND ucast (push_bit (32 - k) 0xFFFFFFFF :: u64)) = take k (word_bits w) @ replicate (32 - k) False"
  using assms by (intro word_bits_masked) (auto simp: bit_push_bit_iff bit_ones bit_ucast_iff)

lemma host_word_words:
  "host_word (SetLE32 a @ SetLE32 b @ SetLE32 c @ SetLE32 d) 0 = NetworkToHost32 a"
  "host_word (SetLE32 a @ SetLE32 b @ SetLE32 c @ SetLE32 d) (Suc 0) = NetworkToHost32 b"
  "host_word (SetLE32 a @ SetLE32 b @ SetLE32 c @ SetLE32 d) 2 = NetworkToHost32 c"
  "host_word (SetLE32 a @ SetLE32 b @ SetLE32 c @ SetLE32 d) 3 = NetworkToHost32 d"
  by (simp_all add: host_word_def GetLE_SetLE)

lemma ip6_truncated_at:
  assumes "k < 32" "q < 4" "0 < 32 * q + k"
  shows "ip_bits (TruncateIP (IP6 v6) (int (32 * q + k))) =
    take (32 * q + k) (ip_bits (IP6 v6)) @ replicate (128 - (32 * q + k)) False"
proof -
  have zero: "NetworkToHost32 0 = 0" "HostToNetwork32 0 = 0" by code_simp+
  have w: "GetLE32 (take 4 (drop (4 * i) v6)) = HostToNetwork32 (host_word v6 i)" for i
    by (metis NetworkToHost32_inj NetworkToHost_HostToNetwork(2) host_word_def)
  note w' = w [of 0, simplified] w [of 1, simplified] w [of 2, simplified] w [of 3, simplified]
  have pos: "(32 * q + k) div 32 = q" using assms(1) by simp
  have "q = 0 \<or> q = 1 \<or> q = 2 \<or> q = 3" using assms(2) by auto
  then show ?thesis
    using pos assms(1,3) v6_mask_bits [OF assms(1)]
    by (elim disjE; simp add: TruncateIP_def Let_def nat_add_distrib w' ip_bits_def host_word_words
        NetworkToHost_HostToNetwork zero word_bits_0 flip: replicate_add)
qed

lemma ip6_truncated:
  assumes "0 < n" "n < 128"
  shows "ip_bits (TruncateIP (IP6 v6) (int n)) = take n (ip_bits (IP6 v6)) @ replicate (128 - n) False"
  using ip6_truncated_at [of "n mod 32" "n div 32" v6] assms by simp

lemma TruncateIP_bits:
  assumes "n \<le> length (ip_bits ip)"
  shows "ip_bits (TruncateIP ip (int n)) = take n (ip_bits ip) @ replicate (length (ip_bits ip) - n) False"
proof (cases ip)
  case (IP4 a)
  have any: "ip_bits (IPAddress_of INADDR_ANY) = replicate 32 False" by code_simp
  show ?thesis
    using assms any by (auto simp: IP4 TruncateIP_def ip_bits_def Let_def NetworkToHost_HostToNetwork v4_mask_bits)
next
  case (IP6 v6)
  have len: "length (ip_bits (IP6 v6)) = 128" by (simp add: ip_bits_def)
  have any: "ip_bits (IP6 in6addr_any) = replicate 128 False" by code_simp
  consider "n = 0" | "n = 128" | "0 < n" "n < 128" using assms len IP6 by fastforce
  then show ?thesis using ip6_truncated [of n v6] len any by cases (simp_all add: IP6 TruncateIP_def)
qed (use assms in \<open>simp add: ip_bits_def TruncateIP_def\<close>)

lemma leading_mask: "leading (replicate n True @ replicate k False) = n"
  by (induction n; cases k) (simp_all add: leading_def)

text \<open>The mask count is the number of leading one bits of the address in network order, for both families
  and despite the shortcuts for whole bytes.\<close>

theorem CountIPMaskBits_leading: "CountIPMaskBits ip = int (leading (ip_bits ip))"
  by (rule count_mask_leading)

text \<open>C28: truncating an address to a length keeps exactly that many of its leading bits and clears all others,
  whatever the family; so the mask made from the all-ones address is counted as that length.\<close>

theorem TruncateIP_prefix:
  assumes "n \<le> length (ip_bits ip)"
  shows "ip_bits (TruncateIP ip (int n)) = take n (ip_bits ip) @ replicate (length (ip_bits ip) - n) False
     \<and> (ip_bits ip = replicate (length (ip_bits ip)) True \<longrightarrow> CountIPMaskBits (TruncateIP ip (int n)) = int n)"
proof -
  have "take n (ip_bits ip) = replicate n True" if "ip_bits ip = replicate (length (ip_bits ip)) True"
    using assms by (subst that) simp
  then show ?thesis using TruncateIP_bits [OF assms] by (simp add: count_mask_leading leading_mask)
qed

theorem TruncateIP_prefix_witness:
  "ip_bits (TruncateIP (IP6 (replicate 16 0xFF)) (int 57)) = replicate 57 True @ replicate 71 False
     \<and> CountIPMaskBits (TruncateIP (IP6 (replicate 16 0xFF)) (int 57)) = 57"
proof -
  have ones: "ip_bits (IP6 (replicate 16 0xFF)) = replicate 128 True" by code_simp
  then show ?thesis using TruncateIP_prefix [of 57 "IP6 (replicate 16 0xFF)"] by (simp only: length_replicate) simp
qed

end
