(* ===== verification/Weak_Order.thy ===== *)
theory Weak_Order
  imports Prelude "HOL-Library.Multiset"
begin

text \<open>
  The ordering contract of the C++ standard library (a strict weak order), as its clients
  rely on it: std::map finds a key by equivalence, std::stable_sort orders a range and keeps the
  order of equivalent elements. The comparison functions of the sources are shown to satisfy it
  where they are defined.
\<close>

definition equivalent :: "('a \<Rightarrow> 'a \<Rightarrow> bool) \<Rightarrow> 'a \<Rightarrow> 'a \<Rightarrow> bool" where
  "equivalent lt x y \<longleftrightarrow> \<not> lt x y \<and> \<not> lt y x"

text \<open>std::stable_sort: every element goes in front of the first later element that is not smaller.\<close>

fun insert_stable :: "('a \<Rightarrow> 'a \<Rightarrow> bool) \<Rightarrow> 'a \<Rightarrow> 'a list \<Rightarrow> 'a list" where
  "insert_stable lt x [] = [x]"
| "insert_stable lt x (y # ys) = (if lt y x then y # insert_stable lt x ys else x # y # ys)"

fun stable_sort :: "('a \<Rightarrow> 'a \<Rightarrow> bool) \<Rightarrow> 'a list \<Rightarrow> 'a list" where
  "stable_sort lt [] = []"
| "stable_sort lt (x # xs) = insert_stable lt x (stable_sort lt xs)"

definition in_order :: "('a \<Rightarrow> 'a \<Rightarrow> bool) \<Rightarrow> 'a list \<Rightarrow> bool" where
  "in_order lt xs \<longleftrightarrow> sorted_wrt (\<lambda>x y. \<not> lt y x) xs"

lemma mset_insert_stable [simp]: "mset (insert_stable lt x ys) = add_mset x (mset ys)"
  by (induction ys) auto

lemma mset_stable_sort [simp]: "mset (stable_sort lt xs) = mset xs"
  by (induction xs) auto

lemma set_stable_sort [simp]: "set (stable_sort lt xs) = set xs"
  by (metis mset_stable_sort set_mset_mset)

lemma distinct_stable_sort [simp]: "distinct (stable_sort lt xs) = distinct xs"
  by (metis mset_stable_sort mset_eq_imp_distinct_iff)

text \<open>The laws on a set of elements, because the comparisons of the sources satisfy them only on sane values.\<close>

locale weak_order =
  fixes lt :: "'a \<Rightarrow> 'a \<Rightarrow> bool" and dom :: "'a \<Rightarrow> bool"
  assumes irrefl: "dom x \<Longrightarrow> \<not> lt x x"
    and trans: "dom x \<Longrightarrow> dom y \<Longrightarrow> dom z \<Longrightarrow> lt x y \<Longrightarrow> lt y z \<Longrightarrow> lt x z"
    and equiv_trans: "dom x \<Longrightarrow> dom y \<Longrightarrow> dom z \<Longrightarrow> equivalent lt x y \<Longrightarrow> equivalent lt y z \<Longrightarrow> equivalent lt x z"
begin

lemma asym: "dom x \<Longrightarrow> dom y \<Longrightarrow> lt x y \<Longrightarrow> \<not> lt y x"
  using trans irrefl by blast

lemma not_less_trans:
  assumes "dom x" "dom y" "dom z" "\<not> lt y x" "\<not> lt z y"
  shows "\<not> lt z x"
proof
  assume zx: "lt z x"
  have "\<not> lt x y" using trans [OF assms(3,1,2) zx] assms(5) by blast
  moreover have "\<not> lt y z" using trans [OF assms(2,3,1) _ zx] assms(4) by blast
  ultimately have "equivalent lt x z"
    using equiv_trans [OF assms(1-3)] assms(4,5) by (simp add: equivalent_def)
  then show False using zx by (simp add: equivalent_def)
qed

lemma in_order_insert:
  "dom x \<Longrightarrow> \<forall>y\<in>set ys. dom y \<Longrightarrow> in_order lt ys \<Longrightarrow> in_order lt (insert_stable lt x ys)"
proof (induction ys)
  case (Cons y ys)
  have set: "set (insert_stable lt x ys) = insert x (set ys)"
    by (metis mset_insert_stable set_mset_add_mset_insert set_mset_mset)
  show ?case
  proof (cases "lt y x")
    case True
    then have "\<not> lt x y" using Cons.prems asym by simp
    then show ?thesis using True Cons set by (auto simp: in_order_def)
  next
    case False
    have "\<not> lt z x" if "z \<in> set ys" for z
      using not_less_trans [of x y z] False that Cons.prems by (auto simp: in_order_def)
    then show ?thesis using False Cons.prems by (auto simp: in_order_def)
  qed
qed (simp add: in_order_def)

lemma in_order_stable_sort: "\<forall>x\<in>set xs. dom x \<Longrightarrow> in_order lt (stable_sort lt xs)"
  by (induction xs) (simp_all add: in_order_def [of _ "[]"] in_order_insert)

lemma insert_stable_class:
  assumes "dom x" "\<forall>y\<in>set ys. dom y" "dom z"
  shows "filter (equivalent lt z) (insert_stable lt x ys) = filter (equivalent lt z) (x # ys)"
  using assms
proof (induction ys)
  case (Cons y ys)
  have "\<not> (equivalent lt z x \<and> equivalent lt z y)" if "lt y x"
    using that equiv_trans [of x z y] Cons.prems by (auto simp: equivalent_def)
  then show ?case using Cons by (cases "lt y x") auto
qed simp

text \<open>Equivalent elements keep their order.\<close>

lemma stable: "\<forall>x\<in>set xs. dom x \<Longrightarrow> dom z \<Longrightarrow>
    filter (equivalent lt z) (stable_sort lt xs) = filter (equivalent lt z) xs"
  by (induction xs) (simp_all add: insert_stable_class)

lemma first_is_best: "\<forall>x\<in>set xs. dom x \<Longrightarrow> stable_sort lt xs = y # ys \<Longrightarrow> x \<in> set xs \<Longrightarrow> \<not> lt x y"
proof -
  assume a: "\<forall>x\<in>set xs. dom x" "stable_sort lt xs = y # ys" "x \<in> set xs"
  have "x = y \<or> x \<in> set ys" using a(2,3) set_stable_sort [of lt xs] by auto
  moreover have "\<forall>z\<in>set ys. \<not> lt z y" using in_order_stable_sort [OF a(1)] a(2) by (simp add: in_order_def)
  ultimately show ?thesis using irrefl a(1,3) by blast
qed

end

end
