(* ===== verification/Socket_Address.thy ===== *)
theory Socket_Address
  imports Ip_Address Weak_Order
begin

text \<open>
  talk/base/socketaddress.cc: a host name or an IP address with a port. The scope id is only
  written to socket structures and never compared: it is left out. std::string is a list of
  bytes. Name resolution and the own host name are parameters; \<open>None\<close> is a failing ASSERT or
  the exception of \<open>str.at(0)\<close> on an empty string.
\<close>

record sock_addr =
  sa_hostname :: bytes
  sa_ip :: ip_address
  sa_port :: u16
  sa_literal :: bool

definition ascii :: "string \<Rightarrow> bytes" where
  "ascii = map of_char"

section \<open>Constructors and setters\<close>

definition SocketAddress :: sock_addr where
  "SocketAddress = \<lparr>sa_hostname = [], sa_ip = IPAddress_of INADDR_ANY, sa_port = 0, sa_literal = False\<rparr>"

definition SetIP :: "ip_address \<Rightarrow> sock_addr \<Rightarrow> sock_addr" where
  "SetIP ip a = a\<lparr>sa_hostname := [], sa_literal := False, sa_ip := ip\<rparr>"

definition SetIP_host_order :: "u32 \<Rightarrow> sock_addr \<Rightarrow> sock_addr" where
  "SetIP_host_order ip a = a\<lparr>sa_hostname := [], sa_literal := False, sa_ip := IPAddress_of ip\<rparr>"

definition SetIP_name :: "ip_text \<Rightarrow> bytes \<Rightarrow> sock_addr \<Rightarrow> sock_addr" where
  "SetIP_name txt hostname a =
     (case IPFromString txt hostname of (literal, ip) \<Rightarrow>
        a\<lparr>sa_hostname := hostname, sa_literal := literal,
          sa_ip := (if \<not> literal then IPAddress_of INADDR_ANY else ip)\<rparr>)"

definition SetResolvedIP :: "ip_address \<Rightarrow> sock_addr \<Rightarrow> sock_addr" where
  "SetResolvedIP ip a = a\<lparr>sa_ip := ip\<rparr>"

definition SetPort :: "int \<Rightarrow> sock_addr \<Rightarrow> sock_addr option" where
  "SetPort port a = (if 0 \<le> port \<and> port < 65536 then Some (a\<lparr>sa_port := of_int port\<rparr>) else None)"

definition SocketAddress_ip :: "ip_address \<Rightarrow> int \<Rightarrow> sock_addr option" where
  "SocketAddress_ip ip port = SetPort port (SetIP ip SocketAddress)"

definition SocketAddress_host_order :: "u32 \<Rightarrow> int \<Rightarrow> sock_addr option" where
  "SocketAddress_host_order ip port = SetPort port (SetIP_host_order ip SocketAddress)"

definition SocketAddress_name :: "ip_text \<Rightarrow> bytes \<Rightarrow> int \<Rightarrow> sock_addr option" where
  "SocketAddress_name txt hostname port = SetPort port (SetIP_name txt hostname SocketAddress)"

text \<open>Built from a 16-bit port, which SetPort accepts.\<close>

definition SocketAddress_of :: "ip_address \<Rightarrow> u16 \<Rightarrow> sock_addr" where
  "SocketAddress_of ip port = (SetIP ip SocketAddress)\<lparr>sa_port := port\<rparr>"

lemma SocketAddress_of_port: "SocketAddress_ip ip (uint port) = Some (SocketAddress_of ip port)"
  using uint_lt2p [of port] by (simp add: SocketAddress_ip_def SocketAddress_of_def SetPort_def)

section \<open>Predicates\<close>

definition IsAnyIP :: "sock_addr \<Rightarrow> bool" where
  "IsAnyIP a = IPIsAny (sa_ip a)"

definition IsNil :: "sock_addr \<Rightarrow> bool" where
  "IsNil a \<longleftrightarrow> sa_hostname a = [] \<and> IPIsAny (sa_ip a) \<and> sa_port a = 0"

definition IsComplete :: "sock_addr \<Rightarrow> bool" where
  "IsComplete a \<longleftrightarrow> \<not> IPIsAny (sa_ip a) \<and> sa_port a \<noteq> 0"

definition IsLoopbackIP :: "sock_addr \<Rightarrow> bool" where
  "IsLoopbackIP a \<longleftrightarrow> IPIsLoopback (sa_ip a) \<or> IPIsAny (sa_ip a) \<and> c_str (sa_hostname a) = ascii ''localhost''"

definition IsPrivateIP :: "sock_addr \<Rightarrow> bool" where
  "IsPrivateIP a = IPIsPrivate (sa_ip a)"

definition IsUnresolvedIP :: "sock_addr \<Rightarrow> bool" where
  "IsUnresolvedIP a \<longleftrightarrow> IsAnyIP a \<and> \<not> sa_literal a \<and> sa_hostname a \<noteq> []"

definition EqualIPs :: "sock_addr \<Rightarrow> sock_addr \<Rightarrow> bool" where
  "EqualIPs a b \<longleftrightarrow> ip_equal (sa_ip a) (sa_ip b) \<and> (\<not> IPIsAny (sa_ip a) \<or> sa_hostname a = sa_hostname b)"

definition EqualPorts :: "sock_addr \<Rightarrow> sock_addr \<Rightarrow> bool" where
  "EqualPorts a b \<longleftrightarrow> sa_port a = sa_port b"

definition sa_equal :: "sock_addr \<Rightarrow> sock_addr \<Rightarrow> bool" where
  "sa_equal a b \<longleftrightarrow> EqualIPs a b \<and> EqualPorts a b"

definition sa_less :: "sock_addr \<Rightarrow> sock_addr \<Rightarrow> bool" where
  "sa_less a b =
     (if ip_less (sa_ip a) (sa_ip b) then True
      else if ip_less (sa_ip b) (sa_ip a) then False
      else if IsAnyIP b \<and> sa_hostname a < sa_hostname b then True
      else if IsAnyIP b \<and> sa_hostname b < sa_hostname a then False
      else sa_port a < sa_port b)"

definition sa_hash :: "sock_addr \<Rightarrow> u32" where
  "sa_hash a = HashIP (sa_ip a) XOR (ucast (sa_port a) OR push_bit 16 (ucast (sa_port a)))"

text \<open>A resolver answers a name with a host entry and an error code.\<close>

definition ResolveIP :: "(bytes \<Rightarrow> hostent option \<times> int) \<Rightarrow> bool \<Rightarrow> int \<Rightarrow> sock_addr \<Rightarrow> bool \<times> int \<times> sock_addr" where
  "ResolveIP resolver force error a =
     (let (a', error') =
        (if sa_hostname a = [] then (a, error)
         else if \<not> force \<and> \<not> IsAnyIP a then (a, error)
         else (case resolver (c_str (sa_hostname a)) of
                 (Some pHost, errcode) \<Rightarrow>
                   ((case IPFromHostEnt pHost 0 of Some ip \<Rightarrow> a\<lparr>sa_ip := ip\<rparr> | None \<Rightarrow> a), errcode)
               | (None, errcode) \<Rightarrow> (a, errcode)))
      in (\<not> IPIsAny (sa_ip a'), error', a'))"

definition to_lower :: "byte \<Rightarrow> byte" where
  "to_lower c = (if 65 \<le> c \<and> c \<le> 90 then c + 32 else c)"

definition GetLocalIPs :: "(bytes \<Rightarrow> hostent option \<times> int) \<Rightarrow> bytes \<Rightarrow> bool \<times> ip_address list" where
  "GetLocalIPs resolver own_name =
     (if own_name = [] then (False, [])
      else (case resolver own_name of
              (Some pHost, _) \<Rightarrow>
                (let ips = List.map_filter (\<lambda>i. IPFromHostEnt pHost (int i)) [0..<length (h_addr_list pHost)]
                 in (ips \<noteq> [], ips))
            | (None, _) \<Rightarrow> (False, [])))"

definition IsLocalIP :: "(bytes \<Rightarrow> hostent option \<times> int) \<Rightarrow> bytes \<Rightarrow> sock_addr \<Rightarrow> bool" where
  "IsLocalIP resolver own_name a =
     (if IsLoopbackIP a then True
      else if IPIsAny (sa_ip a)
      then sa_hostname a \<noteq> [] \<and> map to_lower (c_str (sa_hostname a)) = map to_lower (c_str own_name)
      else (case GetLocalIPs resolver own_name of (ok, ips) \<Rightarrow> ok \<and> list_ex (ip_equal (sa_ip a)) ips))"

section \<open>Text\<close>

definition digit :: "nat \<Rightarrow> byte" where
  "digit n = 48 + of_nat n"

text \<open>An unsigned number on an output stream.\<close>

fun dec :: "nat \<Rightarrow> bytes" where
  "dec n = (if n < 10 then [digit n] else dec (n div 10) @ [digit (n mod 10)])"

declare dec.simps [simp del]

definition is_digit :: "byte \<Rightarrow> bool" where
  "is_digit c \<longleftrightarrow> 48 \<le> c \<and> c \<le> 57"

definition is_space :: "byte \<Rightarrow> bool" where
  "is_space c \<longleftrightarrow> c = 32 \<or> 9 \<le> c \<and> c \<le> 13"

definition undec :: "bytes \<Rightarrow> nat" where
  "undec ds = foldl (\<lambda>n c. 10 * n + unat (c - 48)) 0 ds"

text \<open>\<open>strtoul\<close> to base 10 with a 32-bit long: white space, a sign, digits; too large is ULONG_MAX.\<close>

definition strtoul :: "bytes \<Rightarrow> u32" where
  "strtoul s =
     (let s = dropWhile is_space s;
          neg = (s \<noteq> [] \<and> hd s = 45);
          s = (if s \<noteq> [] \<and> (hd s = 45 \<or> hd s = 43) then tl s else s);
          n = undec (takeWhile is_digit s)
      in if n > 4294967295 then 4294967295 else if neg then - of_nat n else of_nat n)"

definition rfind :: "byte \<Rightarrow> bytes \<Rightarrow> nat option" where
  "rfind c s = (if c \<in> set s then Some (length s - 1 - length (takeWhile (\<lambda>x. x \<noteq> c) (rev s))) else None)"

definition find_from :: "byte \<Rightarrow> nat \<Rightarrow> bytes \<Rightarrow> nat option" where
  "find_from c i s =
     (if c \<in> set (drop i s) then Some (i + length (takeWhile (\<lambda>x. x \<noteq> c) (drop i s))) else None)"

definition IPAsString :: "ip_text \<Rightarrow> sock_addr \<Rightarrow> bytes" where
  "IPAsString txt a =
     (if \<not> sa_literal a \<and> sa_hostname a \<noteq> [] then sa_hostname a
      else (case sa_ip a of IP6 _ \<Rightarrow> [91] @ IPToString txt (sa_ip a) @ [93] | _ \<Rightarrow> IPToString txt (sa_ip a)))"

definition PortAsString :: "sock_addr \<Rightarrow> bytes" where
  "PortAsString a = dec (unat (sa_port a))"

definition ToString :: "ip_text \<Rightarrow> sock_addr \<Rightarrow> bytes" where
  "ToString txt a = IPAsString txt a @ [58] @ dec (unat (sa_port a))"

definition FromString :: "ip_text \<Rightarrow> bytes \<Rightarrow> sock_addr \<Rightarrow> (bool \<times> sock_addr) option" where
  "FromString txt str a =
     (if str = [] then None
      else if str ! 0 = 91
      then (case rfind 93 str of
              None \<Rightarrow> Some (True, a)
            | Some closebracket \<Rightarrow>
                (case find_from 58 closebracket str of
                   Some colon \<Rightarrow>
                     if colon > closebracket
                     then map_option (\<lambda>a. (True, SetIP_name txt (take (closebracket - 1) (drop 1 str)) a))
                            (SetPort (sint (strtoul (drop (colon + 1) str))) a)
                     else Some (False, a)
                 | None \<Rightarrow> Some (False, a)))
      else (case find_from 58 0 str of
              None \<Rightarrow> Some (False, a)
            | Some pos \<Rightarrow>
                map_option (\<lambda>a. (True, SetIP_name txt (take pos str) a))
                  (SetPort (sint (strtoul (drop (pos + 1) str))) a)))"

definition IPToString_host :: "u32 \<Rightarrow> bytes" where
  "IPToString_host ip =
     dec (unat (drop_bit 24 ip AND 0xff)) @ [46] @ dec (unat (drop_bit 16 ip AND 0xff)) @ [46]
     @ dec (unat (drop_bit 8 ip AND 0xff)) @ [46] @ dec (unat (ip AND 0xff))"

definition StringToIP_host :: "ip_text \<Rightarrow> bytes \<Rightarrow> u32 option" where
  "StringToIP_host txt hostname = map_option NetworkToHost32 (pton4 txt (c_str hostname))"

definition StringToIP_address :: "ip_text \<Rightarrow> bytes \<Rightarrow> ip_address option" where
  "StringToIP_address txt hostname =
     (case pton4 txt (c_str hostname) of
        Some addr4 \<Rightarrow> Some (IP4 addr4)
      | None \<Rightarrow> map_option IP6 (pton6 txt (c_str hostname)))"

definition StringToIP_value :: "ip_text \<Rightarrow> bytes \<Rightarrow> u32" where
  "StringToIP_value txt hostname = (case StringToIP_host txt hostname of None \<Rightarrow> 0 | Some ip \<Rightarrow> ip)"

section \<open>Socket structures\<close>

text \<open>What the functions fill of a sockaddr: family, port and address in network order, scope id.\<close>

datatype sockaddr = SS_UNSPEC | SS_IN u16 u32 | SS_IN6 u16 bytes int

definition ToSockAddr :: "sock_addr \<Rightarrow> sockaddr" where
  "ToSockAddr a = (case sa_ip a of
     IP4 s_addr \<Rightarrow> SS_IN (HostToNetwork16 (sa_port a)) (if IPIsAny (sa_ip a) then INADDR_ANY else s_addr)
   | _ \<Rightarrow> SS_UNSPEC)"

definition FromSockAddr :: "sockaddr \<Rightarrow> sock_addr \<Rightarrow> bool \<times> sock_addr" where
  "FromSockAddr saddr a = (case saddr of
     SS_IN port s_addr \<Rightarrow>
       (True, (SetIP_host_order (NetworkToHost32 s_addr) a)\<lparr>sa_port := NetworkToHost16 port, sa_literal := False\<rparr>)
   | _ \<Rightarrow> (False, a))"

definition ToSockAddrStorageHelper :: "ip_address \<Rightarrow> u16 \<Rightarrow> int \<Rightarrow> sockaddr \<times> nat" where
  "ToSockAddrStorageHelper ip port scope_id = (case ip of
     IP6 v6 \<Rightarrow> (SS_IN6 (HostToNetwork16 port) v6 scope_id, 28)
   | IP4 s_addr \<Rightarrow> (SS_IN (HostToNetwork16 port) s_addr, 16)
   | IP_UNSPEC \<Rightarrow> (SS_UNSPEC, 0))"

definition ToDualStackSockAddrStorage :: "int \<Rightarrow> sock_addr \<Rightarrow> sockaddr \<times> nat" where
  "ToDualStackSockAddrStorage scope_id a = ToSockAddrStorageHelper (AsIPv6Address (sa_ip a)) (sa_port a) scope_id"

definition ToSockAddrStorage :: "int \<Rightarrow> sock_addr \<Rightarrow> sockaddr \<times> nat" where
  "ToSockAddrStorage scope_id a = ToSockAddrStorageHelper (sa_ip a) (sa_port a) scope_id"

definition SocketAddressFromSockAddrStorage :: "sockaddr \<Rightarrow> (sock_addr \<times> int option) option" where
  "SocketAddressFromSockAddrStorage addr = (case addr of
     SS_IN port s_addr \<Rightarrow> Some (SocketAddress_of (IP4 s_addr) (NetworkToHost16 port), None)
   | SS_IN6 port v6 scope_id \<Rightarrow> Some (SocketAddress_of (IP6 v6) (NetworkToHost16 port), Some scope_id)
   | SS_UNSPEC \<Rightarrow> None)"

section \<open>The order of socket addresses\<close>

lemma ip_less_less [simp]: "ip_less a b \<longleftrightarrow> a < b"
  by (simp add: less_ip_address_def)

text \<open>The part of an address that comparisons look at.\<close>

definition sa_key :: "sock_addr \<Rightarrow> ip_address \<times> bytes \<times> u16" where
  "sa_key a = (sa_ip a, if IsAnyIP a then sa_hostname a else [], sa_port a)"

definition key_less :: "ip_address \<times> bytes \<times> u16 \<Rightarrow> ip_address \<times> bytes \<times> u16 \<Rightarrow> bool" where
  "key_less p q = (case (p, q) of ((i, h, n), (j, k, m)) \<Rightarrow> i < j \<or> i = j \<and> (h < k \<or> h = k \<and> n < m))"

lemma sa_less_key: "sa_less a b \<longleftrightarrow> key_less (sa_key a) (sa_key b)"
  by (cases "sa_ip a = sa_ip b") (auto simp: sa_less_def key_less_def sa_key_def IsAnyIP_def)

lemma sa_equal_key: "sa_equal a b \<longleftrightarrow> sa_key a = sa_key b"
  by (auto simp: sa_equal_def EqualIPs_def EqualPorts_def sa_key_def IsAnyIP_def)

lemma key_less_linear: "key_less p q \<or> p = q \<or> key_less q p"
  by (cases p; cases q) (auto simp: key_less_def)

lemma key_less_irrefl [simp]: "\<not> key_less p p"
  by (cases p) (simp add: key_less_def)

lemma key_less_trans: "key_less p q \<Longrightarrow> key_less q r \<Longrightarrow> key_less p r"
  by (cases p; cases q; cases r) (auto simp: key_less_def)

lemma sa_equivalent: "equivalent sa_less a b \<longleftrightarrow> sa_equal a b"
  using key_less_linear [of "sa_key a" "sa_key b"]
  by (auto simp: equivalent_def sa_less_key sa_equal_key)

interpretation addr: weak_order sa_less "\<lambda>_. True"
proof
  show "\<not> sa_less a a" for a by (simp add: sa_less_key)
  show "sa_less a c" if "sa_less a b" "sa_less b c" for a b c
    using that key_less_trans by (simp add: sa_less_key)
  show "equivalent sa_less a c" if "equivalent sa_less a b" "equivalent sa_less b c" for a b c
    using that by (simp add: sa_equivalent sa_equal_key)
qed

text \<open>C26: the order by which std::map keeps connections and the equality by which the code compares
  addresses agree: of two addresses exactly one of less, equal and greater holds, equal ones have the same
  hash, and the order is transitive.\<close>

theorem address_order:
  "(sa_less a b \<and> \<not> sa_equal a b \<and> \<not> sa_less b a \<or> \<not> sa_less a b \<and> sa_equal a b \<and> \<not> sa_less b a
     \<or> \<not> sa_less a b \<and> \<not> sa_equal a b \<and> sa_less b a)
   \<and> (sa_equal a b \<longrightarrow> sa_hash a = sa_hash b) \<and> (sa_less a b \<and> sa_less b c \<longrightarrow> sa_less a c)"
proof -
  have "sa_hash a = sa_hash b" if "sa_equal a b"
    using that by (simp add: sa_equal_def EqualIPs_def EqualPorts_def sa_hash_def)
  moreover have "sa_less a b \<and> sa_less b c \<longrightarrow> sa_less a c" using addr.trans by blast
  moreover have "\<not> (sa_less a b \<and> sa_less b a)" using addr.asym by blast
  moreover have "sa_equal a b \<longleftrightarrow> \<not> sa_less a b \<and> \<not> sa_less b a" by (simp add: sa_equivalent [symmetric] equivalent_def)
  ultimately show ?thesis by blast
qed

theorem address_order_witness:
  "sa_less (SocketAddress_of (IP4 1) 5) (SocketAddress_of (IP6 in6addr_any) 3)
   \<and> sa_hash (SocketAddress_of (IP4 1) 5) = sa_hash ((SocketAddress_of (IP4 1) 5)\<lparr>sa_hostname := [97]\<rparr>)"
proof -
  have "sa_equal (SocketAddress_of (IP4 1) 5) ((SocketAddress_of (IP4 1) 5)\<lparr>sa_hostname := [97]\<rparr>)" by code_simp
  moreover have "sa_less (SocketAddress_of (IP4 1) 5) (SocketAddress_of (IP6 in6addr_any) 3)" by code_simp
  ultimately show ?thesis using address_order by blast
qed

section \<open>Printing and parsing\<close>

text \<open>What the documentation of inet_pton and inet_ntop promises: they are inverse on the addresses, and
  the texts are made of digits and dots, respectively of hexadecimal digits, colons and dots.\<close>

definition ip_text_ok :: "ip_text \<Rightarrow> bool" where
  "ip_text_ok txt \<longleftrightarrow>
     (\<forall>v. pton4 txt (ntop4 txt v) = Some v \<and> ntop4 txt v \<noteq> [] \<and> 58 \<notin> set (ntop4 txt v) \<and> hd (ntop4 txt v) \<noteq> 91
          \<and> 0 \<notin> set (ntop4 txt v))
     \<and> (\<forall>v. length v = 16 \<longrightarrow> pton6 txt (ntop6 txt v) = Some v \<and> pton4 txt (ntop6 txt v) = None
          \<and> 93 \<notin> set (ntop6 txt v) \<and> 0 \<notin> set (ntop6 txt v))"

lemma c_str_id: "0 \<notin> set s \<Longrightarrow> c_str s = s"
  by (auto simp: c_str_def takeWhile_eq_all_conv)

lemma is_digit_digit: "n < 10 \<Longrightarrow> is_digit (digit n) \<and> unat (digit n - 48) = n"
  by (simp add: is_digit_def digit_def word_le_nat_alt unat_word_ariths unat_of_nat)

lemma dec_digits: "list_all is_digit (dec n)"
proof (induction n rule: dec.induct)
  case (1 n)
  then show ?case by (subst dec.simps) (simp add: is_digit_digit)
qed

lemma undec_dec: "undec (dec n) = n"
proof (induction n rule: dec.induct)
  case (1 n)
  then show ?case by (subst dec.simps) (simp add: undec_def is_digit_digit)
qed

lemma dec_nonempty: "dec n \<noteq> []"
  by (subst dec.simps) simp

lemma strtoul_dec:
  assumes "n < 4294967296"
  shows "strtoul (dec n) = of_nat n"
proof -
  obtain c cs where c: "dec n = c # cs" "is_digit c" "list_all is_digit cs"
    using dec_digits [of n] dec_nonempty [of n] by (cases "dec n") auto
  then have "\<not> is_space c" "c \<noteq> 45" "c \<noteq> 43" by (auto simp: is_digit_def is_space_def word_le_nat_alt)
  moreover have tw: "takeWhile is_digit cs = cs"
    using c(3) unfolding takeWhile_eq_all_conv list_all_iff .
  ultimately show ?thesis using c(1,2) assms undec_dec [of n]
    by (simp add: strtoul_def Let_def tw del: takeWhile_eq_all_conv)
qed

lemma takeWhile_neq: "c \<notin> set xs \<Longrightarrow> takeWhile (\<lambda>x. x \<noteq> c) (xs @ c # ys) = xs"
  by (induction xs) auto

lemma set_port_dec: "SetPort (sint (strtoul (dec (unat (p :: u16))))) a = Some (a\<lparr>sa_port := p\<rparr>)"
proof -
  have p: "unat p < 65536" by (rule unat_u16_less)
  have "(of_nat (unat p) :: u32) = ucast p" by simp
  moreover have "uint p < 65536" using uint_lt2p [of p] by simp
  moreover from this have "uint (ucast p :: u32) = uint p" by (simp add: unsigned_ucast_eq take_bit_int_eq_self_iff)
  ultimately have "sint (of_nat (unat p) :: u32) = uint p" by (subst sint_u32) simp
  then show ?thesis using p \<open>uint p < 65536\<close> by (simp add: strtoul_dec SetPort_def)
qed

text \<open>C27: the text of an address with an IP address and no host name is parsed back to that address and port,
  for IPv6 through the square brackets.\<close>

theorem address_text_roundtrip:
  assumes "ip_text_ok txt" "sa_hostname a = []"
    and "case sa_ip a of IP_UNSPEC \<Rightarrow> False | IP4 _ \<Rightarrow> True | IP6 v \<Rightarrow> length v = 16"
  shows "\<exists>a'. FromString txt (ToString txt a) b = Some (True, a') \<and> sa_ip a' = sa_ip a \<and> sa_port a' = sa_port a
     \<and> sa_literal a'"
proof (cases "sa_ip a")
  case (IP4 v)
  have t: "pton4 txt (ntop4 txt v) = Some v" "ntop4 txt v \<noteq> []" "58 \<notin> set (ntop4 txt v)" "hd (ntop4 txt v) \<noteq> 91"
      "0 \<notin> set (ntop4 txt v)" using assms(1) by (auto simp: ip_text_ok_def)
  have str: "ToString txt a = ntop4 txt v @ 58 # dec (unat (sa_port a))"
    using IP4 assms(2) by (simp add: ToString_def IPAsString_def IPToString_def)
  have "(ntop4 txt v @ 58 # dec (unat (sa_port a))) ! 0 \<noteq> 91" using t(2,4) by (cases "ntop4 txt v") auto
  moreover have "find_from 58 0 (ntop4 txt v @ 58 # dec (unat (sa_port a))) = Some (length (ntop4 txt v))"
    using t(3) by (simp add: find_from_def takeWhile_neq)
  ultimately show ?thesis using t IP4
    by (simp add: str FromString_def set_port_dec SetIP_name_def IPFromString_def c_str_id)
next
  case (IP6 v)
  then have len: "length v = 16" using assms(3) by simp
  have t: "pton6 txt (ntop6 txt v) = Some v" "pton4 txt (ntop6 txt v) = None" "93 \<notin> set (ntop6 txt v)"
      "0 \<notin> set (ntop6 txt v)" using assms(1) len by (auto simp: ip_text_ok_def)
  let ?n = "length (ntop6 txt v)"
  let ?d = "dec (unat (sa_port a))"
  have str: "ToString txt a = 91 # ntop6 txt v @ 93 # 58 # ?d"
    using IP6 assms(2) by (simp add: ToString_def IPAsString_def IPToString_def)
  have "93 \<notin> set ?d" using dec_digits [of "unat (sa_port a)"] by (auto simp: list_all_iff is_digit_def)
  then have "takeWhile (\<lambda>x. x \<noteq> 93) (rev ?d @ 58 # 93 # rev (ntop6 txt v) @ [91]) = rev ?d @ [58]"
    by (subst takeWhile_append2) auto
  then have "rfind 93 (91 # ntop6 txt v @ 93 # 58 # ?d) = Some (Suc ?n)" by (simp add: rfind_def)
  moreover have "find_from 58 (Suc ?n) (91 # ntop6 txt v @ 93 # 58 # ?d) = Some (?n + 2)"
    by (simp add: find_from_def)
  ultimately show ?thesis using t IP6
    by (simp add: str FromString_def set_port_dec SetIP_name_def IPFromString_def c_str_id)
qed (use assms(3) in simp)

text \<open>A text encoding of bytes by letters, to exercise the round trip.\<close>

definition letters :: "bytes \<Rightarrow> bytes" where
  "letters bs = concat (map (\<lambda>b. [97 + drop_bit 4 b, 97 + (b AND 15)]) bs)"

fun unletters :: "bytes \<Rightarrow> bytes" where
  "unletters (x # y # s) = (push_bit 4 (x - 97) OR (y - 97)) # unletters s"
| "unletters _ = []"

definition letter_text :: ip_text where
  "letter_text = \<lparr>pton4 = (\<lambda>s. if length s = 8 then Some (GetLE32 (unletters s)) else None),
     pton6 = (\<lambda>s. Some (unletters s)), ntop4 = (\<lambda>v. letters (SetLE32 v)), ntop6 = letters\<rparr>"

lemma byte_split: "push_bit 4 (drop_bit 4 b) OR (b AND 15) = (b :: u8)"
proof (rule bit_word_eqI)
  fix n assume "n < LENGTH(8)"
  have "(15 :: u8) = mask 4" by (simp add: mask_eq_exp_minus_1)
  then show "bit (push_bit 4 (drop_bit 4 b) OR (b AND 15)) n = bit b n"
    using \<open>n < LENGTH(8)\<close> by (simp only: bit_simps) auto
qed

lemma unletters_letters: "unletters (letters bs) = bs"
  by (induction bs) (simp_all add: letters_def byte_split)

lemma letter_ok: "x \<in> set (letters bs) \<Longrightarrow> 97 \<le> x"
proof -
  assume "x \<in> set (letters bs)"
  then obtain b :: u8 where "x = 97 + drop_bit 4 b \<or> x = 97 + (b AND 15)" by (auto simp: letters_def)
  moreover have "unat (drop_bit 4 b) < 16" "unat (b AND 15) < 16"
  proof -
    have "unat (drop_bit 4 b) = unat b div 16" by (simp add: unsigned_drop_bit_eq drop_bit_eq_div unat_div)
    then show "unat (drop_bit 4 b) < 16" using unat_u8_less [of b] by simp
    have "b AND 15 = take_bit 4 b" by (simp add: take_bit_eq_mask mask_eq_exp_minus_1)
    then have "unat (b AND 15) = unat b mod 16"
      by (simp only: unsigned_take_bit_eq) (simp add: take_bit_eq_mod)
    then show "unat (b AND 15) < 16" by simp
  qed
  ultimately show ?thesis by (auto simp: word_le_nat_alt unat_word_ariths)
qed

lemma length_letters: "length (letters bs) = 2 * length bs"
  by (induction bs) (simp_all add: letters_def)

lemma not_letter: "x < 97 \<or> x = 91 \<or> x = 93 \<Longrightarrow> x \<notin> set (letters bs)"
  using letter_ok [of x bs] by auto

lemma letter_text_ok: "ip_text_ok letter_text"
proof -
  have "hd (letters (SetLE32 v)) \<noteq> 91 \<and> letters (SetLE32 v) \<noteq> []" for v
    using not_letter [of 91 "SetLE32 v"] length_letters [of "SetLE32 v"]
    by (metis hd_in_set length_0_conv length_Set(5) mult_is_0 zero_neq_numeral)
  then show ?thesis
    by (simp add: ip_text_ok_def letter_text_def length_letters unletters_letters GetLE_SetLE not_letter)
qed

theorem address_text_roundtrip_witness:
  "\<exists>a'. FromString letter_text (ToString letter_text (SocketAddress_of (IP6 in6addr_loopback) 3478)) SocketAddress
      = Some (True, a') \<and> sa_ip a' = IP6 in6addr_loopback \<and> sa_port a' = 3478 \<and> sa_literal a'"
  using address_text_roundtrip [OF letter_text_ok, of "SocketAddress_of (IP6 in6addr_loopback) 3478" SocketAddress]
  by (simp add: SocketAddress_of_def SetIP_def in6addr_loopback_def)

text \<open>An opening bracket that is never closed is accepted without parsing anything.\<close>

lemma unclosed_bracket_accepted: "93 \<notin> set s \<Longrightarrow> FromString txt (91 # s) a = Some (True, a)"
  by (simp add: FromString_def rfind_def)

end
