(* ===== verification/Stun.thy ===== *)
theory Stun
  imports Byte_Buffer Socket_Address
begin

text \<open>
  talk/p2p/base/stun.cc and stun.h: STUN messages and attributes, their parser and their
  writer. An attribute is its type, its length field and the fields of its class; a message
  has the fields of StunMessage. \<open>None\<close> is a failing ASSERT. \<open>Read\<close> changes the object even
  when it fails, so it returns the success flag, the object and the buffer. The owner of an XOR address attribute is
  null or the message that holds it: only its transaction id is used.
\<close>

section \<open>Constants\<close>

definition STUN_BINDING_REQUEST :: u16 where "STUN_BINDING_REQUEST = 0x0001"
definition STUN_BINDING_RESPONSE :: u16 where "STUN_BINDING_RESPONSE = 0x0101"
definition STUN_BINDING_ERROR_RESPONSE :: u16 where "STUN_BINDING_ERROR_RESPONSE = 0x0111"
definition STUN_SHARED_SECRET_REQUEST :: u16 where "STUN_SHARED_SECRET_REQUEST = 0x0002"
definition STUN_SHARED_SECRET_RESPONSE :: u16 where "STUN_SHARED_SECRET_RESPONSE = 0x0102"
definition STUN_SHARED_SECRET_ERROR_RESPONSE :: u16 where "STUN_SHARED_SECRET_ERROR_RESPONSE = 0x0112"
definition STUN_ALLOCATE_REQUEST :: u16 where "STUN_ALLOCATE_REQUEST = 0x0003"
definition STUN_ALLOCATE_RESPONSE :: u16 where "STUN_ALLOCATE_RESPONSE = 0x0103"
definition STUN_ALLOCATE_ERROR_RESPONSE :: u16 where "STUN_ALLOCATE_ERROR_RESPONSE = 0x0113"
definition STUN_SEND_REQUEST :: u16 where "STUN_SEND_REQUEST = 0x0004"
definition STUN_SEND_RESPONSE :: u16 where "STUN_SEND_RESPONSE = 0x0104"
definition STUN_SEND_ERROR_RESPONSE :: u16 where "STUN_SEND_ERROR_RESPONSE = 0x0114"
definition STUN_DATA_INDICATION :: u16 where "STUN_DATA_INDICATION = 0x0115"

definition STUN_ATTR_MAPPED_ADDRESS :: u16 where "STUN_ATTR_MAPPED_ADDRESS = 0x0001"
definition STUN_ATTR_USERNAME :: u16 where "STUN_ATTR_USERNAME = 0x0006"
definition STUN_ATTR_MESSAGE_INTEGRITY :: u16 where "STUN_ATTR_MESSAGE_INTEGRITY = 0x0008"
definition STUN_ATTR_ERROR_CODE :: u16 where "STUN_ATTR_ERROR_CODE = 0x0009"
definition STUN_ATTR_UNKNOWN_ATTRIBUTES :: u16 where "STUN_ATTR_UNKNOWN_ATTRIBUTES = 0x000a"
definition STUN_ATTR_LIFETIME :: u16 where "STUN_ATTR_LIFETIME = 0x000d"
definition STUN_ATTR_MAGIC_COOKIE :: u16 where "STUN_ATTR_MAGIC_COOKIE = 0x000f"
definition STUN_ATTR_BANDWIDTH :: u16 where "STUN_ATTR_BANDWIDTH = 0x0010"
definition STUN_ATTR_DESTINATION_ADDRESS :: u16 where "STUN_ATTR_DESTINATION_ADDRESS = 0x0011"
definition STUN_ATTR_SOURCE_ADDRESS2 :: u16 where "STUN_ATTR_SOURCE_ADDRESS2 = 0x0012"
definition STUN_ATTR_DATA :: u16 where "STUN_ATTR_DATA = 0x0013"
definition STUN_ATTR_XOR_MAPPED_ADDRESS :: u16 where "STUN_ATTR_XOR_MAPPED_ADDRESS = 0x0020"
definition STUN_ATTR_OPTIONS :: u16 where "STUN_ATTR_OPTIONS = 0x8001"

definition kStunTransactionIdLength :: nat where "kStunTransactionIdLength = 12"
definition kStunMagicCookie :: u32 where "kStunMagicCookie = 0x2112A442"
definition kStunMagicCookieLength :: nat where "kStunMagicCookieLength = 4"
definition kStunLegacyTransactionIdLength :: nat where "kStunLegacyTransactionIdLength = 16"

definition SIZE_UNDEF :: u16 where "SIZE_UNDEF = 0"
definition SIZE_IP4 :: u16 where "SIZE_IP4 = 8"
definition SIZE_IP6 :: u16 where "SIZE_IP6 = 20"
definition UINT32_SIZE :: u16 where "UINT32_SIZE = 4"
definition ERROR_MIN_SIZE :: u16 where "ERROR_MIN_SIZE = 4"

lemmas attr_codes = STUN_ATTR_MAPPED_ADDRESS_def STUN_ATTR_USERNAME_def STUN_ATTR_MESSAGE_INTEGRITY_def
  STUN_ATTR_ERROR_CODE_def STUN_ATTR_UNKNOWN_ATTRIBUTES_def STUN_ATTR_LIFETIME_def
  STUN_ATTR_MAGIC_COOKIE_def STUN_ATTR_BANDWIDTH_def STUN_ATTR_DESTINATION_ADDRESS_def
  STUN_ATTR_SOURCE_ADDRESS2_def STUN_ATTR_DATA_def STUN_ATTR_XOR_MAPPED_ADDRESS_def STUN_ATTR_OPTIONS_def

section \<open>Data\<close>

datatype stun_family = STUN_ADDRESS_UNDEF | STUN_ADDRESS_IPV4 | STUN_ADDRESS_IPV6

text \<open>The classes derived from StunAttribute. The flag of \<open>XorAddress\<close> says that the owner is set; the bytes of a fresh byte string are null.\<close>

datatype attr_body =
    AddressBody sock_addr
  | XorAddressBody bool sock_addr
  | UInt32Body u32
  | ByteStringBody "bytes option"
  | ErrorCodeBody u8 u8 bytes
  | UInt16ListBody "u16 list"

record stun_attr =
  at_type :: u16
  at_length :: u16
  at_body :: attr_body

record stun_message =
  sm_type :: u16
  sm_length :: u16
  sm_tid :: bytes
  sm_attrs :: "stun_attr list"

definition EMPTY_TRANSACTION_ID :: bytes where
  "EMPTY_TRANSACTION_ID = replicate 16 0x30"

section \<open>Attributes\<close>

definition ip_family :: "ip_address \<Rightarrow> stun_family" where
  "ip_family ip = (case ip of IP4 _ \<Rightarrow> STUN_ADDRESS_IPV4 | IP6 _ \<Rightarrow> STUN_ADDRESS_IPV6
                   | IP_UNSPEC \<Rightarrow> STUN_ADDRESS_UNDEF)"

definition family_code :: "stun_family \<Rightarrow> u8" where
  "family_code f = (case f of STUN_ADDRESS_UNDEF \<Rightarrow> 0 | STUN_ADDRESS_IPV4 \<Rightarrow> 1 | STUN_ADDRESS_IPV6 \<Rightarrow> 2)"

definition address_length :: "sock_addr \<Rightarrow> u16" where
  "address_length a = (case ip_family (sa_ip a) of STUN_ADDRESS_IPV4 \<Rightarrow> SIZE_IP4
     | STUN_ADDRESS_IPV6 \<Rightarrow> SIZE_IP6 | STUN_ADDRESS_UNDEF \<Rightarrow> SIZE_UNDEF)"

text \<open>\<open>SetAddress\<close> with \<open>EnsureAddressLength\<close>.\<close>

definition SetAddress :: "sock_addr \<Rightarrow> stun_attr \<Rightarrow> stun_attr" where
  "SetAddress a t = t\<lparr>at_length := address_length a,
     at_body := (case at_body t of XorAddressBody own _ \<Rightarrow> XorAddressBody own a | _ \<Rightarrow> AddressBody a)\<rparr>"

definition attr_SetIP :: "ip_address \<Rightarrow> stun_attr \<Rightarrow> stun_attr" where
  "attr_SetIP ip t =
     (case at_body t of
        AddressBody a \<Rightarrow> SetAddress (SetIP ip a) t
      | XorAddressBody _ a \<Rightarrow> SetAddress (SetIP ip a) t
      | _ \<Rightarrow> t)"

definition attr_SetPort :: "u16 \<Rightarrow> stun_attr \<Rightarrow> stun_attr" where
  "attr_SetPort port t =
     t\<lparr>at_body := (case at_body t of
          AddressBody a \<Rightarrow> AddressBody (a\<lparr>sa_port := port\<rparr>)
        | XorAddressBody own a \<Rightarrow> XorAddressBody own (a\<lparr>sa_port := port\<rparr>)
        | b \<Rightarrow> b)\<rparr>"

definition stun_attr_create :: "u16 \<Rightarrow> u16 \<Rightarrow> stun_attr option" where
  "stun_attr_create ty len =
     (let new = (\<lambda>l b. Some \<lparr>at_type = ty, at_length = l, at_body = b\<rparr>)
      in if ty \<in> {STUN_ATTR_MAPPED_ADDRESS, STUN_ATTR_DESTINATION_ADDRESS, STUN_ATTR_SOURCE_ADDRESS2}
      then (if len \<noteq> SIZE_IP4 \<and> len \<noteq> SIZE_IP6 then None else new len (AddressBody SocketAddress))
      else if ty \<in> {STUN_ATTR_LIFETIME, STUN_ATTR_BANDWIDTH, STUN_ATTR_OPTIONS}
      then (if len \<noteq> UINT32_SIZE then None else new UINT32_SIZE (UInt32Body 0))
      else if ty \<in> {STUN_ATTR_USERNAME, STUN_ATTR_MAGIC_COOKIE, STUN_ATTR_DATA}
      then new len (ByteStringBody None)
      else if ty = STUN_ATTR_MESSAGE_INTEGRITY
      then (if len = 20 then new len (ByteStringBody None) else None)
      else if ty = STUN_ATTR_ERROR_CODE
      then (if len < ERROR_MIN_SIZE then None else new len (ErrorCodeBody 0 0 []))
      else if ty = STUN_ATTR_UNKNOWN_ATTRIBUTES
      then (if len mod 2 = 0 then new len (UInt16ListBody []) else None)
      else if ty = STUN_ATTR_XOR_MAPPED_ADDRESS
      then (if len \<noteq> SIZE_IP4 \<and> len \<noteq> SIZE_IP6 then None else new len (XorAddressBody True SocketAddress))
      else None)"

text \<open>The named factory functions; asking for a type of another class is an ASSERT.\<close>

definition CreateAddress :: "u16 \<Rightarrow> stun_attr option" where
  "CreateAddress ty =
     (if ty \<in> {STUN_ATTR_MAPPED_ADDRESS, STUN_ATTR_DESTINATION_ADDRESS, STUN_ATTR_SOURCE_ADDRESS2}
      then Some \<lparr>at_type = ty, at_length = SIZE_IP4, at_body = AddressBody SocketAddress\<rparr>
      else if ty = STUN_ATTR_XOR_MAPPED_ADDRESS
      then Some \<lparr>at_type = ty, at_length = SIZE_IP4, at_body = XorAddressBody False SocketAddress\<rparr>
      else None)"

definition CreateUInt32 :: "u16 \<Rightarrow> stun_attr option" where
  "CreateUInt32 ty =
     (if ty \<in> {STUN_ATTR_LIFETIME, STUN_ATTR_BANDWIDTH, STUN_ATTR_OPTIONS}
      then Some \<lparr>at_type = ty, at_length = UINT32_SIZE, at_body = UInt32Body 0\<rparr> else None)"

definition CreateByteString :: "u16 \<Rightarrow> stun_attr option" where
  "CreateByteString ty =
     (if ty \<in> {STUN_ATTR_USERNAME, STUN_ATTR_MESSAGE_INTEGRITY, STUN_ATTR_DATA, STUN_ATTR_MAGIC_COOKIE}
      then Some \<lparr>at_type = ty, at_length = 0, at_body = ByteStringBody None\<rparr> else None)"

definition CreateErrorCode :: stun_attr where
  "CreateErrorCode = \<lparr>at_type = STUN_ATTR_ERROR_CODE, at_length = ERROR_MIN_SIZE, at_body = ErrorCodeBody 0 0 []\<rparr>"

definition CreateUnknownAttributes :: stun_attr where
  "CreateUnknownAttributes =
     \<lparr>at_type = STUN_ATTR_UNKNOWN_ATTRIBUTES, at_length = 0, at_body = UInt16ListBody []\<rparr>"

definition ConsumePadding :: "stun_attr \<Rightarrow> byte_buffer \<Rightarrow> byte_buffer" where
  "ConsumePadding t buf =
     (let remainder = unat (at_length t) mod 4
      in if remainder > 0 then (case Consume (4 - remainder) buf of None \<Rightarrow> buf | Some b \<Rightarrow> b) else buf)"

definition WritePadding :: "stun_attr \<Rightarrow> byte_buffer \<Rightarrow> byte_buffer" where
  "WritePadding t buf =
     (let remainder = unat (at_length t) mod 4
      in if remainder > 0 then WriteBytes (replicate (4 - remainder) 0) buf else buf)"

text \<open>\<open>GetXoredIP\<close>: the words of the address in memory are XORed with the cookie and the transaction id.\<close>

definition GetXoredIP :: "bytes option \<Rightarrow> ip_address \<Rightarrow> ip_address" where
  "GetXoredIP owner_tid ip =
     (case owner_tid of None \<Rightarrow> IP_UNSPEC
      | Some tid \<Rightarrow>
          (case ip of
             IP4 s_addr \<Rightarrow> IP4 (s_addr XOR HostToNetwork32 kStunMagicCookie)
           | IP6 v6 \<Rightarrow>
               if length tid = 12
               then IP6 (SetLE32 (GetLE32 (take 4 v6) XOR HostToNetwork32 kStunMagicCookie)
                         @ SetLE32 (GetLE32 (take 4 (drop 4 v6)) XOR GetLE32 (take 4 tid))
                         @ SetLE32 (GetLE32 (take 4 (drop 8 v6)) XOR GetLE32 (take 4 (drop 4 tid)))
                         @ SetLE32 (GetLE32 (take 4 (drop 12 v6)) XOR GetLE32 (take 4 (drop 8 tid))))
               else IP_UNSPEC
           | IP_UNSPEC \<Rightarrow> IP_UNSPEC))"

definition xored_port :: "u16 \<Rightarrow> u16" where
  "xored_port p = p XOR ucast (drop_bit 16 kStunMagicCookie)"

definition ip_bytes :: "ip_address \<Rightarrow> bytes" where
  "ip_bytes ip = (case ip of IP4 s_addr \<Rightarrow> SetLE32 s_addr | IP6 v6 \<Rightarrow> v6 | IP_UNSPEC \<Rightarrow> [])"

section \<open>Reading and writing attributes\<close>

text \<open>Read a value and go on with it, or fail with the object as it is.\<close>

definition read_or :: "(byte_buffer \<Rightarrow> ('v \<times> byte_buffer) option) \<Rightarrow> byte_buffer \<Rightarrow> 'r
    \<Rightarrow> ('v \<Rightarrow> byte_buffer \<Rightarrow> bool \<times> 'r \<times> byte_buffer) \<Rightarrow> bool \<times> 'r \<times> byte_buffer" where
  "read_or rd buf failed k = (case rd buf of None \<Rightarrow> (False, failed, buf) | Some (v, buf') \<Rightarrow> k v buf')"

definition AddressRead :: "stun_attr \<Rightarrow> byte_buffer \<Rightarrow> bool \<times> stun_attr \<times> byte_buffer" where
  "AddressRead t buf =
     read_or ReadUInt8 buf t (\<lambda>dummy buf.
     read_or ReadUInt8 buf t (\<lambda>family buf.
     read_or ReadUInt16 buf t (\<lambda>port buf.
       if family = 1
       then (if at_length t \<noteq> SIZE_IP4 then (False, t, buf)
             else read_or (ReadBytes 4) buf t (\<lambda>v4 buf.
                    (True, SetAddress (SocketAddress_of (IP4 (GetLE32 v4)) port) t, buf)))
       else if family = 2
       then (if at_length t \<noteq> SIZE_IP6 then (False, t, buf)
             else read_or (ReadBytes 16) buf t (\<lambda>v6 buf.
                    (True, SetAddress (SocketAddress_of (IP6 v6) port) t, buf)))
       else (False, t, buf))))"

definition AddressWrite :: "sock_addr \<Rightarrow> byte_buffer \<Rightarrow> byte_buffer" where
  "AddressWrite a buf =
     (if ip_family (sa_ip a) = STUN_ADDRESS_UNDEF then buf
      else WriteBytes (ip_bytes (sa_ip a))
             (WriteUInt16 (sa_port a)
               (WriteUInt8 (family_code (ip_family (sa_ip a))) (WriteUInt8 0 buf))))"

definition body_addr :: "attr_body \<Rightarrow> sock_addr" where
  "body_addr b = (case b of AddressBody a \<Rightarrow> a | XorAddressBody _ a \<Rightarrow> a | _ \<Rightarrow> SocketAddress)"

definition owner_tid :: "bytes \<Rightarrow> bool \<Rightarrow> bytes option" where
  "owner_tid tid own = (if own then Some tid else None)"

definition XorAddressRead :: "bytes \<Rightarrow> bool \<Rightarrow> stun_attr \<Rightarrow> byte_buffer \<Rightarrow> bool \<times> stun_attr \<times> byte_buffer" where
  "XorAddressRead tid own t buf =
     (case AddressRead t buf of (ok, t, buf) \<Rightarrow>
        if \<not> ok then (False, t, buf)
        else (let a = body_addr (at_body t)
              in (True, SetAddress (SocketAddress_of (GetXoredIP (owner_tid tid own) (sa_ip a))
                                                  (xored_port (sa_port a))) t, buf)))"

definition XorAddressWrite :: "bytes \<Rightarrow> bool \<Rightarrow> sock_addr \<Rightarrow> byte_buffer \<Rightarrow> byte_buffer" where
  "XorAddressWrite tid own a buf =
     (if ip_family (sa_ip a) = STUN_ADDRESS_UNDEF then buf
      else (let buf = WriteUInt16 (xored_port (sa_port a))
                        (WriteUInt8 (family_code (ip_family (sa_ip a))) (WriteUInt8 0 buf));
                xored_ip = GetXoredIP (owner_tid tid own) (sa_ip a)
            in if ip_family xored_ip = STUN_ADDRESS_UNDEF then buf
               else WriteBytes (ip_bytes xored_ip) buf))"

definition SetErrorCode :: "u32 \<Rightarrow> stun_attr \<Rightarrow> stun_attr" where
  "SetErrorCode code t =
     (case at_body t of
        ErrorCodeBody _ _ reason \<Rightarrow>
          t\<lparr>at_body := ErrorCodeBody (ucast (drop_bit 8 code AND 0x7)) (ucast (code AND 0xff)) reason\<rparr>
      | _ \<Rightarrow> t)"

definition error_code :: "u8 \<Rightarrow> u8 \<Rightarrow> u32" where
  "error_code cls num = push_bit 8 (ucast cls) OR ucast num"

definition SetErrorClass :: "u8 \<Rightarrow> stun_attr \<Rightarrow> stun_attr" where
  "SetErrorClass eclass t =
     (case at_body t of ErrorCodeBody _ n r \<Rightarrow> t\<lparr>at_body := ErrorCodeBody eclass n r\<rparr> | _ \<Rightarrow> t)"

definition SetNumber :: "u8 \<Rightarrow> stun_attr \<Rightarrow> stun_attr" where
  "SetNumber number t =
     (case at_body t of ErrorCodeBody c _ r \<Rightarrow> t\<lparr>at_body := ErrorCodeBody c number r\<rparr> | _ \<Rightarrow> t)"

definition SetReason :: "bytes \<Rightarrow> stun_attr \<Rightarrow> stun_attr" where
  "SetReason reason t =
     (case at_body t of
        ErrorCodeBody c n _ \<Rightarrow>
          t\<lparr>at_length := ERROR_MIN_SIZE + of_nat (length reason), at_body := ErrorCodeBody c n reason\<rparr>
      | _ \<Rightarrow> t)"

definition body_reason :: "attr_body \<Rightarrow> bytes" where
  "body_reason b = (case b of ErrorCodeBody _ _ reason \<Rightarrow> reason | _ \<Rightarrow> [])"

definition ErrorCodeRead :: "stun_attr \<Rightarrow> byte_buffer \<Rightarrow> bool \<times> stun_attr \<times> byte_buffer" where
  "ErrorCodeRead t buf =
     read_or ReadUInt32 buf t (\<lambda>val buf.
       let t = SetErrorCode val t
       in read_or (ReadString (body_reason (at_body t)) (unat (at_length t) - 4)) buf t (\<lambda>reason buf.
            (True,
             (case at_body t of ErrorCodeBody c n _ \<Rightarrow> t\<lparr>at_body := ErrorCodeBody c n reason\<rparr> | _ \<Rightarrow> t),
             ConsumePadding t buf)))"

definition ByteStringRead :: "stun_attr \<Rightarrow> byte_buffer \<Rightarrow> bool \<times> stun_attr \<times> byte_buffer" where
  "ByteStringRead t buf =
     read_or (ReadBytes (unat (at_length t))) buf t (\<lambda>bs buf.
       (True, t\<lparr>at_body := ByteStringBody (Some bs)\<rparr>, ConsumePadding t buf))"

fun read_types :: "nat \<Rightarrow> byte_buffer \<Rightarrow> u16 list \<Rightarrow> bool \<times> u16 list \<times> byte_buffer" where
  "read_types 0 buf acc = (True, acc, buf)"
| "read_types (Suc k) buf acc = read_or ReadUInt16 buf acc (\<lambda>a buf. read_types k buf (acc @ [a]))"

definition UInt16ListRead :: "stun_attr \<Rightarrow> byte_buffer \<Rightarrow> bool \<times> stun_attr \<times> byte_buffer" where
  "UInt16ListRead t buf =
     (case at_body t of
        UInt16ListBody acc \<Rightarrow>
          (case read_types (unat (at_length t) div 2) buf acc of (ok, l, buf) \<Rightarrow>
             (ok, t\<lparr>at_body := UInt16ListBody l\<rparr>, if ok then ConsumePadding t buf else buf))
      | _ \<Rightarrow> (False, t, buf))"

definition UInt32Read :: "stun_attr \<Rightarrow> byte_buffer \<Rightarrow> bool \<times> stun_attr \<times> byte_buffer" where
  "UInt32Read t buf = read_or ReadUInt32 buf t (\<lambda>v buf. (True, t\<lparr>at_body := UInt32Body v\<rparr>, buf))"

text \<open>The virtual \<open>Read\<close> and \<open>Write\<close>; \<open>tid\<close> is the transaction id of the message that holds the attribute. Writing null bytes of length 0 writes nothing.\<close>

definition attr_read :: "bytes \<Rightarrow> stun_attr \<Rightarrow> byte_buffer \<Rightarrow> bool \<times> stun_attr \<times> byte_buffer" where
  "attr_read tid t buf =
     (case at_body t of
        AddressBody _ \<Rightarrow> AddressRead t buf
      | XorAddressBody own _ \<Rightarrow> XorAddressRead tid own t buf
      | UInt32Body _ \<Rightarrow> UInt32Read t buf
      | ByteStringBody _ \<Rightarrow> ByteStringRead t buf
      | ErrorCodeBody _ _ _ \<Rightarrow> ErrorCodeRead t buf
      | UInt16ListBody _ \<Rightarrow> UInt16ListRead t buf)"

definition UInt32Write :: "u32 \<Rightarrow> byte_buffer \<Rightarrow> byte_buffer" where
  "UInt32Write v buf = WriteUInt32 v buf"

definition ByteStringWrite :: "stun_attr \<Rightarrow> bytes option \<Rightarrow> byte_buffer \<Rightarrow> byte_buffer" where
  "ByteStringWrite t bs buf =
     WritePadding t (case bs of None \<Rightarrow> buf | Some b \<Rightarrow> WriteBytes (take (unat (at_length t)) b) buf)"

definition ErrorCodeWrite :: "stun_attr \<Rightarrow> u8 \<Rightarrow> u8 \<Rightarrow> bytes \<Rightarrow> byte_buffer \<Rightarrow> byte_buffer" where
  "ErrorCodeWrite t c n reason buf = WritePadding t (WriteString reason (WriteUInt32 (error_code c n) buf))"

definition UInt16ListWrite :: "stun_attr \<Rightarrow> u16 list \<Rightarrow> byte_buffer \<Rightarrow> byte_buffer" where
  "UInt16ListWrite t l buf = WritePadding t (foldl (\<lambda>b v. WriteUInt16 v b) buf l)"

definition attr_write :: "bytes \<Rightarrow> stun_attr \<Rightarrow> byte_buffer \<Rightarrow> byte_buffer" where
  "attr_write tid t buf =
     (case at_body t of
        AddressBody a \<Rightarrow> AddressWrite a buf
      | XorAddressBody own a \<Rightarrow> XorAddressWrite tid own a buf
      | UInt32Body v \<Rightarrow> UInt32Write v buf
      | ByteStringBody bs \<Rightarrow> ByteStringWrite t bs buf
      | ErrorCodeBody c n reason \<Rightarrow> ErrorCodeWrite t c n reason buf
      | UInt16ListBody l \<Rightarrow> UInt16ListWrite t l buf)"

section \<open>Setters of single attributes\<close>

definition GetBit :: "nat \<Rightarrow> stun_attr \<Rightarrow> bool option" where
  "GetBit index t = (case at_body t of UInt32Body v \<Rightarrow> if index < 32 then Some (bit v index) else None | _ \<Rightarrow> None)"

definition SetBit :: "nat \<Rightarrow> bool \<Rightarrow> stun_attr \<Rightarrow> stun_attr option" where
  "SetBit index value t =
     (case at_body t of
        UInt32Body v \<Rightarrow>
          if index < 32
          then Some (t\<lparr>at_body := UInt32Body ((v AND NOT (push_bit index 1))
                          OR (if value then push_bit index 1 else 0))\<rparr>)
          else None
      | _ \<Rightarrow> None)"

definition SetValue :: "u32 \<Rightarrow> stun_attr \<Rightarrow> stun_attr" where
  "SetValue bits t = (case at_body t of UInt32Body _ \<Rightarrow> t\<lparr>at_body := UInt32Body bits\<rparr> | _ \<Rightarrow> t)"

definition CopyBytes :: "bytes \<Rightarrow> stun_attr \<Rightarrow> stun_attr" where
  "CopyBytes bs t =
     (let len = of_nat (length bs) :: u16
      in t\<lparr>at_length := len, at_body := ByteStringBody (Some (take (unat len) bs))\<rparr>)"

definition GetByte :: "nat \<Rightarrow> stun_attr \<Rightarrow> u8 option" where
  "GetByte index t =
     (case at_body t of
        ByteStringBody (Some bs) \<Rightarrow> if index < unat (at_length t) then Some (bs ! index) else None
      | _ \<Rightarrow> None)"

definition SetByte :: "nat \<Rightarrow> u8 \<Rightarrow> stun_attr \<Rightarrow> stun_attr option" where
  "SetByte index value t =
     (case at_body t of
        ByteStringBody (Some bs) \<Rightarrow>
          if index < unat (at_length t) then Some (t\<lparr>at_body := ByteStringBody (Some (bs[index := value]))\<rparr>)
          else None
      | _ \<Rightarrow> None)"

definition AddType :: "u16 \<Rightarrow> stun_attr \<Rightarrow> stun_attr" where
  "AddType value t =
     (case at_body t of
        UInt16ListBody l \<Rightarrow>
          t\<lparr>at_length := of_nat (length (l @ [value]) * 2), at_body := UInt16ListBody (l @ [value])\<rparr>
      | _ \<Rightarrow> t)"

text \<open>An index outside the vector is undefined behaviour: \<open>None\<close>.\<close>

definition GetType :: "nat \<Rightarrow> stun_attr \<Rightarrow> u16 option" where
  "GetType index t =
     (case at_body t of UInt16ListBody l \<Rightarrow> if index < length l then Some (l ! index) else None | _ \<Rightarrow> None)"

definition SetListType :: "nat \<Rightarrow> u16 \<Rightarrow> stun_attr \<Rightarrow> stun_attr option" where
  "SetListType index value t =
     (case at_body t of
        UInt16ListBody l \<Rightarrow>
          if index < length l then Some (t\<lparr>at_body := UInt16ListBody (l[index := value])\<rparr>) else None
      | _ \<Rightarrow> None)"

section \<open>Messages\<close>

definition IsValidTransactionId :: "bytes \<Rightarrow> bool" where
  "IsValidTransactionId tid \<longleftrightarrow> length tid = kStunTransactionIdLength \<or> length tid = kStunLegacyTransactionIdLength"

definition StunMessage :: stun_message where
  "StunMessage = \<lparr>sm_type = 0, sm_length = 0, sm_tid = EMPTY_TRANSACTION_ID, sm_attrs = []\<rparr>"

definition IsLegacy :: "stun_message \<Rightarrow> bool option" where
  "IsLegacy m = (if length (sm_tid m) = kStunLegacyTransactionIdLength then Some True
                 else if length (sm_tid m) = kStunTransactionIdLength then Some False else None)"

definition SetMessageType :: "u16 \<Rightarrow> stun_message \<Rightarrow> stun_message" where
  "SetMessageType ty m = m\<lparr>sm_type := ty\<rparr>"

definition SetTransactionID :: "bytes \<Rightarrow> stun_message \<Rightarrow> bool \<times> stun_message" where
  "SetTransactionID str m = (if \<not> IsValidTransactionId str then (False, m) else (True, m\<lparr>sm_tid := str\<rparr>))"

definition set_owner :: "stun_attr \<Rightarrow> stun_attr" where
  "set_owner t = t\<lparr>at_body := (case at_body t of XorAddressBody _ a \<Rightarrow> XorAddressBody True a | b \<Rightarrow> b)\<rparr>"

text \<open>The length with its padding to four bytes.\<close>

definition padded :: "nat \<Rightarrow> nat" where
  "padded n = (if n mod 4 \<noteq> 0 then n + (4 - n mod 4) else n)"

definition AddAttribute :: "stun_attr \<Rightarrow> stun_message \<Rightarrow> stun_message" where
  "AddAttribute t m =
     m\<lparr>sm_attrs := sm_attrs m @ [set_owner t],
       sm_length := sm_length m + of_nat (padded (unat (at_length t)) + 4)\<rparr>"

definition GetAttribute :: "u16 \<Rightarrow> stun_message \<Rightarrow> stun_attr option" where
  "GetAttribute ty m = find (\<lambda>t. at_type t = ty) (sm_attrs m)"

text \<open>The typed getters: \<open>None\<close> is an ASSERT, \<open>Some None\<close> the null pointer.\<close>

definition GetAddress :: "u16 \<Rightarrow> stun_message \<Rightarrow> stun_attr option option" where
  "GetAddress ty m =
     (if ty = STUN_ATTR_MAPPED_ADDRESS
      then Some (case GetAttribute STUN_ATTR_MAPPED_ADDRESS m of
                   None \<Rightarrow> GetAttribute STUN_ATTR_XOR_MAPPED_ADDRESS m | Some t \<Rightarrow> Some t)
      else if ty \<in> {STUN_ATTR_DESTINATION_ADDRESS, STUN_ATTR_SOURCE_ADDRESS2, STUN_ATTR_XOR_MAPPED_ADDRESS}
      then Some (GetAttribute ty m)
      else None)"

definition GetUInt32 :: "u16 \<Rightarrow> stun_message \<Rightarrow> stun_attr option option" where
  "GetUInt32 ty m =
     (if ty \<in> {STUN_ATTR_LIFETIME, STUN_ATTR_BANDWIDTH, STUN_ATTR_OPTIONS} then Some (GetAttribute ty m) else None)"

definition GetByteString :: "u16 \<Rightarrow> stun_message \<Rightarrow> stun_attr option option" where
  "GetByteString ty m =
     (if ty \<in> {STUN_ATTR_USERNAME, STUN_ATTR_MESSAGE_INTEGRITY, STUN_ATTR_DATA, STUN_ATTR_MAGIC_COOKIE}
      then Some (GetAttribute ty m) else None)"

definition GetErrorCode :: "stun_message \<Rightarrow> stun_attr option" where
  "GetErrorCode m = GetAttribute STUN_ATTR_ERROR_CODE m"

definition GetUnknownAttributes :: "stun_message \<Rightarrow> stun_attr option" where
  "GetUnknownAttributes m = GetAttribute STUN_ATTR_UNKNOWN_ATTRIBUTES m"

section \<open>Parsing and writing messages\<close>

text \<open>The length of an attribute of unknown type is rounded up in 16 bits.\<close>

definition padded16 :: "u16 \<Rightarrow> u16" where
  "padded16 len = (if len mod 4 \<noteq> 0 then len + (4 - len mod 4) else len)"

lemma ReadUInt16_Length: "ReadUInt16 b = Some (v, b') \<Longrightarrow> Length b' < Length b"
  by (auto simp: ReadUInt16_def ReadBytes_def Length_def bb_end_def Let_def split: if_splits)

definition no_growth :: "byte_buffer \<Rightarrow> byte_buffer \<Rightarrow> bool" where
  "no_growth b b' \<longleftrightarrow> Length b' \<le> Length b"

lemma read_no_growth:
  "ReadUInt8 b = Some (v8, b') \<Longrightarrow> no_growth b b'" "ReadUInt16 b = Some (v16, b') \<Longrightarrow> no_growth b b'"
  "ReadUInt32 b = Some (v32, b') \<Longrightarrow> no_growth b b'" "ReadBytes n b = Some (bs, b') \<Longrightarrow> no_growth b b'"
  "ReadString val n b = Some (bs, b') \<Longrightarrow> no_growth b b'" "Consume n b = Some b' \<Longrightarrow> no_growth b b'"
  by (auto simp: ReadUInt8_def ReadUInt16_def ReadUInt32_def ReadBytes_def ReadString_def Consume_def
      no_growth_def Length_def bb_end_def Let_def split: if_splits)

lemma no_growth_refl [simp]: "no_growth b b"
  by (simp add: no_growth_def)

lemma no_growth_trans: "no_growth a b \<Longrightarrow> no_growth b c \<Longrightarrow> no_growth a c"
  by (simp add: no_growth_def)

lemma read_or_no_growth:
  assumes "\<And>v b'. rd b = Some (v, b') \<Longrightarrow> no_growth b b'"
    "\<And>v b'. rd b = Some (v, b') \<Longrightarrow> no_growth b' (snd (snd (k v b')))"
  shows "no_growth b (snd (snd (read_or rd b f k)))"
  using assms no_growth_trans by (fastforce simp: read_or_def split: option.splits)

lemma ConsumePadding_no_growth: "no_growth b (ConsumePadding t b)"
  using read_no_growth(6) by (fastforce simp: ConsumePadding_def Let_def split: option.splits)

lemma read_types_no_growth: "no_growth b (snd (snd (read_types k b acc)))"
proof (induction k arbitrary: b acc)
  case (Suc k)
  show ?case unfolding read_types.simps
    by (rule read_or_no_growth [OF read_no_growth(2) Suc])
qed simp

lemma AddressRead_no_growth: "no_growth b (snd (snd (AddressRead t b)))"
  unfolding AddressRead_def
  by (rule read_or_no_growth [OF read_no_growth(1)], assumption)
     (rule read_or_no_growth [OF read_no_growth(1)], assumption,
      rule read_or_no_growth [OF read_no_growth(2)], assumption,
      auto intro!: read_or_no_growth [OF read_no_growth(4)])

lemma attr_read_no_growth: "no_growth b (snd (snd (attr_read tid t b)))"
proof (cases "at_body t")
  case (XorAddressBody own a)
  then show ?thesis using AddressRead_no_growth [of b t]
    by (auto simp: attr_read_def XorAddressRead_def Let_def split: prod.splits)
next
  case (UInt16ListBody l)
  have "no_growth b (if ok then ConsumePadding t b' else b')"
    if "read_types k b l = (ok, l', b')" for k ok l' b'
    using read_types_no_growth [of b k l] that no_growth_trans [OF _ ConsumePadding_no_growth] by auto
  then show ?thesis using UInt16ListBody
    by (auto simp: attr_read_def UInt16ListRead_def split: prod.splits)
next
  case (AddressBody a)
  then show ?thesis using AddressRead_no_growth by (simp add: attr_read_def)
next
  case (UInt32Body v)
  then show ?thesis
    by (auto simp: attr_read_def UInt32Read_def intro!: read_or_no_growth [OF read_no_growth(3)])
next
  case (ByteStringBody bs)
  then show ?thesis
    by (auto simp: attr_read_def ByteStringRead_def ConsumePadding_no_growth
        intro!: read_or_no_growth [OF read_no_growth(4)])
next
  case (ErrorCodeBody c n r)
  then show ?thesis
    by (simp add: attr_read_def ErrorCodeRead_def Let_def)
       (rule read_or_no_growth [OF read_no_growth(3)], assumption,
        rule read_or_no_growth [OF read_no_growth(5)], assumption, simp add: ConsumePadding_no_growth)
qed

lemma attr_read_Length: "(ok, t', b') = attr_read tid t b \<Longrightarrow> Length b' \<le> Length b"
  using attr_read_no_growth [of b tid t] by (metis no_growth_def snd_conv)

text \<open>The loop over the attributes, down to \<open>rest\<close> bytes.\<close>

function read_attrs :: "nat \<Rightarrow> stun_message \<Rightarrow> byte_buffer \<Rightarrow> bool \<times> stun_message \<times> byte_buffer" where
  "read_attrs rest m buf =
     (if \<not> Length buf > rest then (True, m, buf)
      else (case ReadUInt16 buf of None \<Rightarrow> (False, m, buf)
      | Some (attr_type, buf1) \<Rightarrow>
          (case ReadUInt16 buf1 of None \<Rightarrow> (False, m, buf1)
           | Some (attr_length, buf2) \<Rightarrow>
               (case stun_attr_create attr_type attr_length of
                  None \<Rightarrow>
                    (case Consume (unat (padded16 attr_length)) buf2 of
                       None \<Rightarrow> (False, m, buf2)
                     | Some buf3 \<Rightarrow> read_attrs rest m buf3)
                | Some t \<Rightarrow>
                    (case attr_read (sm_tid m) t buf2 of
                       (ok, t', buf3) \<Rightarrow>
                         if \<not> ok then (False, m, buf3)
                         else read_attrs rest (m\<lparr>sm_attrs := sm_attrs m @ [t']\<rparr>) buf3)))))"
  by pat_completeness auto
termination
proof (relation "measure (\<lambda>(r, m, b). Length b)", goal_cases)
  case 2
  then show ?case
    by (clarsimp simp: no_growth_def dest!: ReadUInt16_Length read_no_growth(6))
next
  case 3
  then show ?case
    by (clarsimp dest!: ReadUInt16_Length attr_read_Length)
qed simp

declare read_attrs.simps [simp del]

definition message_read :: "stun_message \<Rightarrow> byte_buffer \<Rightarrow> (bool \<times> stun_message \<times> byte_buffer) option" where
  "message_read m buf =
     (case ReadUInt16 buf of None \<Rightarrow> Some (False, m, buf)
      | Some (ty, buf) \<Rightarrow>
        let m = m\<lparr>sm_type := ty\<rparr> in
        if ty AND 0x8000 \<noteq> 0 then Some (False, m, buf)
        else (case ReadUInt16 buf of None \<Rightarrow> Some (False, m, buf)
        | Some (len, buf) \<Rightarrow>
          let m = m\<lparr>sm_length := len\<rparr> in
          (case ReadString [] kStunMagicCookieLength buf of None \<Rightarrow> Some (False, m, buf)
           | Some (magic_cookie, buf) \<Rightarrow>
             (case ReadString [] kStunTransactionIdLength buf of None \<Rightarrow> Some (False, m, buf)
              | Some (transaction_id, buf) \<Rightarrow>
                let transaction_id =
                      (if NetworkToHost32 (GetLE32 magic_cookie) \<noteq> kStunMagicCookie
                       then magic_cookie @ transaction_id else transaction_id)
                in if \<not> IsValidTransactionId transaction_id then None
                   else let m = m\<lparr>sm_tid := transaction_id\<rparr> in
                        if unat len \<noteq> Length buf then Some (False, m, buf)
                        else (let rest = Length buf - unat len in
                              case read_attrs rest (m\<lparr>sm_attrs := []\<rparr>) buf of
                                (ok, m, buf) \<Rightarrow>
                                  if \<not> ok then Some (False, m, buf)
                                  else if Length buf = rest then Some (True, m, buf) else None)))))"

definition attr_write_all :: "bytes \<Rightarrow> byte_buffer \<Rightarrow> stun_attr \<Rightarrow> byte_buffer" where
  "attr_write_all tid buf t = attr_write tid t (WriteUInt16 (at_length t) (WriteUInt16 (at_type t) buf))"

definition message_write :: "stun_message \<Rightarrow> byte_buffer \<Rightarrow> byte_buffer option" where
  "message_write m buf =
     (case IsLegacy m of None \<Rightarrow> None
      | Some legacy \<Rightarrow>
          let buf = WriteUInt16 (sm_length m) (WriteUInt16 (sm_type m) buf);
              buf = (if \<not> legacy then WriteUInt32 kStunMagicCookie buf else buf);
              buf = WriteString (sm_tid m) buf
          in Some (foldl (attr_write_all (sm_tid m)) buf (sm_attrs m)))"

definition GetStunResponseType :: "u16 \<Rightarrow> u16" where
  "GetStunResponseType request_type =
     (if request_type = STUN_SHARED_SECRET_REQUEST then STUN_SHARED_SECRET_RESPONSE
      else if request_type = STUN_ALLOCATE_REQUEST then STUN_ALLOCATE_RESPONSE
      else if request_type = STUN_SEND_REQUEST then STUN_SEND_RESPONSE
      else STUN_BINDING_RESPONSE)"

definition GetStunErrorResponseType :: "u16 \<Rightarrow> u16" where
  "GetStunErrorResponseType request_type =
     (if request_type = STUN_SHARED_SECRET_REQUEST then STUN_SHARED_SECRET_ERROR_RESPONSE
      else if request_type = STUN_ALLOCATE_REQUEST then STUN_ALLOCATE_ERROR_RESPONSE
      else if request_type = STUN_SEND_REQUEST then STUN_SEND_ERROR_RESPONSE
      else STUN_BINDING_ERROR_RESPONSE)"

end
