(* ===== verification/Wire_Codec.thy ===== *)
theory Wire_Codec
  imports Byte_Buffer
begin

text \<open>
  The contract between the packet formats and class ByteBuffer: what is put at the end of a
  buffer in network order is what a get at its front returns. The typed operations of
  talk/base/bytebuffer.cc satisfy it; the message formats are proved over it.
\<close>

text \<open>\<open>holds b bs\<close>: the buffer is in network order and \<open>bs\<close> are its readable bytes.\<close>

definition holds :: "byte_buffer \<Rightarrow> bytes \<Rightarrow> bool" where
  "holds b bs \<longleftrightarrow> buffer_ok b \<and> bb_order b = ORDER_NETWORK \<and> Data b = bs"

lemma holds_Length: "holds b bs \<Longrightarrow> Length b = length bs"
  by (simp add: holds_def Length_Data)

lemma holds_empty: "holds (ByteBuffer_empty ORDER_NETWORK) []"
  by (simp add: holds_def buffer_ok_init buf_simps)

lemma holds_of: "holds (ByteBuffer_of bs ORDER_NETWORK) bs"
  by (simp add: holds_def buffer_ok_init buf_simps)

lemma holds_WriteBytes: "holds b d \<Longrightarrow> holds (WriteBytes val b) (d @ val)"
  by (simp add: holds_def buf_simps)

lemma holds_advance: "holds b (m @ rest) \<Longrightarrow> length m = n \<Longrightarrow> holds (b\<lparr>bb_start := bb_start b + n\<rparr>) rest"
  using ReadBytes_append(2) [of b m rest n]
  by (auto simp: holds_def Data_def buffer_ok_def bb_end_def dest: arg_cong [where f = length])

locale codec =
  fixes put :: "'v \<Rightarrow> byte_buffer \<Rightarrow> byte_buffer"
    and get :: "byte_buffer \<Rightarrow> ('v \<times> byte_buffer) option"
    and enc :: "'v \<Rightarrow> bytes"
    and ok :: "'v \<Rightarrow> bool"
  assumes put_enc: "ok v \<Longrightarrow> holds b d \<Longrightarrow> holds (put v b) (d @ enc v)"
    and get_enc: "ok v \<Longrightarrow> holds b (enc v @ rest) \<Longrightarrow> \<exists>b'. get b = Some (v, b') \<and> holds b' rest"
begin

lemma put_all: "holds b d \<Longrightarrow> \<forall>v\<in>set vs. ok v \<Longrightarrow>
    holds (foldl (\<lambda>b v. put v b) b vs) (d @ concat (map enc vs))"
proof (induction vs arbitrary: b d)
  case (Cons v vs)
  then show ?case using Cons.IH [OF put_enc [of v b d]] by simp
qed simp

lemma get_put:
  assumes "ok v"
  shows "\<exists>b'. get (put v (ByteBuffer_empty ORDER_NETWORK)) = Some (v, b') \<and> Length b' = 0"
proof -
  have "holds (put v (ByteBuffer_empty ORDER_NETWORK)) (enc v @ [])"
    using put_enc [OF assms holds_empty] by simp
  from get_enc [OF assms this] show ?thesis by (auto dest: holds_Length)
qed

lemma enc_inj:
  assumes "ok v" "ok w" "enc v = enc w"
  shows "v = w"
proof -
  have h: "holds (ByteBuffer_of (enc v) ORDER_NETWORK) (enc v @ [])"
    "holds (ByteBuffer_of (enc v) ORDER_NETWORK) (enc w @ [])"
    using holds_of assms(3) by simp_all
  show ?thesis using get_enc [OF assms(1) h(1)] get_enc [OF assms(2) h(2)] by (elim exE conjE) simp
qed

end

lemma holds_reads_as:
  assumes "holds b (m @ rest)" "reads_as rd b (length m) v"
  shows "\<exists>b'. rd b = Some (v, b') \<and> holds b' rest"
  using assms holds_advance by (auto simp: reads_as_def)

interpretation u8c: codec WriteUInt8 ReadUInt8 "\<lambda>v. [v]" "\<lambda>_. True"
proof
  fix v b rest assume "holds b ([v] @ rest)"
  then show "\<exists>b'. ReadUInt8 b = Some (v, b') \<and> holds b' rest"
    by (rule holds_reads_as) (use \<open>holds b ([v] @ rest)\<close> ReadUInt8_wire in \<open>simp add: holds_def\<close>)
qed (simp add: Write_wire holds_WriteBytes)

interpretation u16c: codec WriteUInt16 ReadUInt16 "wire16 ORDER_NETWORK" "\<lambda>_. True"
proof
  fix v b d assume "holds b d"
  then show "holds (WriteUInt16 v b) (d @ wire16 ORDER_NETWORK v)"
    using holds_WriteBytes [of b d] by (simp add: Write_wire holds_def)
next
  fix v b rest assume a: "holds b (wire16 ORDER_NETWORK v @ rest)"
  then have "reads_as ReadUInt16 b 2 v" using ReadUInt16_wire [of b v rest] by (simp add: holds_def)
  then show "\<exists>b'. ReadUInt16 b = Some (v, b') \<and> holds b' rest"
    using holds_reads_as [OF a] by simp
qed

interpretation u32c: codec WriteUInt32 ReadUInt32 "wire32 ORDER_NETWORK" "\<lambda>_. True"
proof
  fix v b d assume "holds b d"
  then show "holds (WriteUInt32 v b) (d @ wire32 ORDER_NETWORK v)"
    using holds_WriteBytes [of b d] by (simp add: Write_wire holds_def)
next
  fix v b rest assume a: "holds b (wire32 ORDER_NETWORK v @ rest)"
  then have "reads_as ReadUInt32 b 4 v" using ReadUInt32_wire [of b v rest] by (simp add: holds_def)
  then show "\<exists>b'. ReadUInt32 b = Some (v, b') \<and> holds b' rest"
    using holds_reads_as [OF a] by simp
qed

lemma codec_bytes: "codec WriteBytes (ReadBytes n) (\<lambda>v. v) (\<lambda>v. length v = n)"
proof
  fix v :: bytes and b rest assume "length v = n" "holds b (v @ rest)"
  then show "\<exists>b'. ReadBytes n b = Some (v, b') \<and> holds b' rest"
    using ReadBytes_append(1) [of b v rest n] holds_advance by (simp add: holds_def)
qed (simp add: holds_WriteBytes)

lemma codec_string: "codec WriteString (ReadString [] n) (\<lambda>v. v) (\<lambda>v. length v = n)"
proof
  fix v :: bytes and b rest assume a: "length v = n" "holds b (v @ rest)"
  have "ReadString [] n b = ReadBytes n b" by (simp add: ReadString_def ReadBytes_def)
  then show "\<exists>b'. ReadString [] n b = Some (v, b') \<and> holds b' rest"
    using codec.get_enc [OF codec_bytes a] by simp
qed (simp add: WriteString_def holds_WriteBytes)

interpretation bytesc: codec WriteBytes "ReadBytes n" "\<lambda>v. v" "\<lambda>v. length v = n" for n
  by (rule codec_bytes)

interpretation stringc: codec WriteString "ReadString [] n" "\<lambda>v. v" "\<lambda>v. length v = n" for n
  by (rule codec_string)

lemma Consume_holds: "holds b (m @ rest) \<Longrightarrow> length m = n \<Longrightarrow> \<exists>b'. Consume n b = Some b' \<and> holds b' rest"
  using holds_advance holds_Length by (fastforce simp: Consume_def)

end
