(* ===== verification/Stun_Codec.thy ===== *)
theory Stun_Codec
  imports Stun Wire_Codec
begin

text \<open>
  The STUN wire format (talk/p2p/base/stun.cc): what a well-formed message is written as, that
  reading it back gives the message, and what the parser guarantees of any input.
\<close>

section \<open>Well-formed attributes and messages\<close>

definition addr_ok :: "u16 \<Rightarrow> sock_addr \<Rightarrow> bool" where
  "addr_ok len a \<longleftrightarrow> len = address_length a \<and> sa_hostname a = [] \<and> \<not> sa_literal a
     \<and> (case sa_ip a of IP_UNSPEC \<Rightarrow> False | IP4 _ \<Rightarrow> True | IP6 v \<Rightarrow> length v = 16)"

definition attr_ok :: "bytes \<Rightarrow> stun_attr \<Rightarrow> bool" where
  "attr_ok tid t =
     (case at_body t of
        AddressBody a \<Rightarrow>
          at_type t \<in> {STUN_ATTR_MAPPED_ADDRESS, STUN_ATTR_DESTINATION_ADDRESS, STUN_ATTR_SOURCE_ADDRESS2}
          \<and> addr_ok (at_length t) a
      | XorAddressBody own a \<Rightarrow>
          own \<and> at_type t = STUN_ATTR_XOR_MAPPED_ADDRESS \<and> addr_ok (at_length t) a
          \<and> (ip_family (sa_ip a) = STUN_ADDRESS_IPV6 \<longrightarrow> length tid = 12)
      | UInt32Body v \<Rightarrow>
          at_type t \<in> {STUN_ATTR_LIFETIME, STUN_ATTR_BANDWIDTH, STUN_ATTR_OPTIONS} \<and> at_length t = 4
      | ByteStringBody bs \<Rightarrow>
          (at_type t \<in> {STUN_ATTR_USERNAME, STUN_ATTR_MAGIC_COOKIE, STUN_ATTR_DATA}
           \<or> at_type t = STUN_ATTR_MESSAGE_INTEGRITY \<and> at_length t = 20)
          \<and> (case bs of None \<Rightarrow> False | Some b \<Rightarrow> length b = unat (at_length t))
      | ErrorCodeBody c n r \<Rightarrow>
          at_type t = STUN_ATTR_ERROR_CODE \<and> c < 8 \<and> unat (at_length t) = 4 + length r
      | UInt16ListBody l \<Rightarrow>
          at_type t = STUN_ATTR_UNKNOWN_ATTRIBUTES \<and> unat (at_length t) = 2 * length l)"

definition attrs_size :: "stun_attr list \<Rightarrow> nat" where
  "attrs_size ts = sum_list (map (\<lambda>t. padded (unat (at_length t)) + 4) ts)"

text \<open>A legacy id whose first bytes are the magic cookie would be read as a new one.\<close>

definition tid_ok :: "bytes \<Rightarrow> bool" where
  "tid_ok tid \<longleftrightarrow> length tid = 12 \<or> length tid = 16 \<and> take 4 tid \<noteq> SetBE32 kStunMagicCookie"

definition message_ok :: "stun_message \<Rightarrow> bool" where
  "message_ok m \<longleftrightarrow> sm_type m AND 0x8000 = 0 \<and> tid_ok (sm_tid m)
     \<and> (\<forall>t\<in>set (sm_attrs m). attr_ok (sm_tid m) t) \<and> unat (sm_length m) = attrs_size (sm_attrs m)"

section \<open>The bytes on the wire\<close>

definition pad :: "stun_attr \<Rightarrow> bytes" where
  "pad t = (if unat (at_length t) mod 4 > 0 then replicate (4 - unat (at_length t) mod 4) 0 else [])"

definition addr_bytes :: "sock_addr \<Rightarrow> bytes" where
  "addr_bytes a = [0] @ [family_code (ip_family (sa_ip a))] @ wire16 ORDER_NETWORK (sa_port a) @ ip_bytes (sa_ip a)"

definition xored :: "bytes \<Rightarrow> sock_addr \<Rightarrow> sock_addr" where
  "xored tid a = SocketAddress_of (GetXoredIP (Some tid) (sa_ip a)) (xored_port (sa_port a))"

definition body_bytes :: "bytes \<Rightarrow> stun_attr \<Rightarrow> bytes" where
  "body_bytes tid t =
     (case at_body t of
        AddressBody a \<Rightarrow> addr_bytes a
      | XorAddressBody own a \<Rightarrow> addr_bytes (xored tid a)
      | UInt32Body v \<Rightarrow> wire32 ORDER_NETWORK v
      | ByteStringBody bs \<Rightarrow> (case bs of None \<Rightarrow> [] | Some b \<Rightarrow> b) @ pad t
      | ErrorCodeBody c n r \<Rightarrow> wire32 ORDER_NETWORK (error_code c n) @ r @ pad t
      | UInt16ListBody l \<Rightarrow> concat (map (wire16 ORDER_NETWORK) l) @ pad t)"

definition attr_bytes :: "bytes \<Rightarrow> stun_attr \<Rightarrow> bytes" where
  "attr_bytes tid t = wire16 ORDER_NETWORK (at_type t) @ wire16 ORDER_NETWORK (at_length t) @ body_bytes tid t"

definition message_bytes :: "stun_message \<Rightarrow> bytes" where
  "message_bytes m =
     wire16 ORDER_NETWORK (sm_type m) @ wire16 ORDER_NETWORK (sm_length m)
     @ (if length (sm_tid m) = 16 then [] else wire32 ORDER_NETWORK kStunMagicCookie) @ sm_tid m
     @ concat (map (attr_bytes (sm_tid m)) (sm_attrs m))"

section \<open>XORed addresses\<close>

lemma SocketAddress_of_fields [simp]:
  "sa_hostname (SocketAddress_of ip p) = []" "sa_ip (SocketAddress_of ip p) = ip" "sa_port (SocketAddress_of ip p) = p"
  "\<not> sa_literal (SocketAddress_of ip p)"
  by (simp_all add: SocketAddress_of_def SetIP_def)

lemma SocketAddress_of_eta: "sa_hostname a = [] \<Longrightarrow> \<not> sa_literal a \<Longrightarrow> SocketAddress_of (sa_ip a) (sa_port a) = a"
  by (cases a) (simp add: SocketAddress_of_def SetIP_def SocketAddress_def)

lemma SetLE32_GetLE32: "length bs = 4 \<Longrightarrow> SetLE32 (GetLE32 bs) = bs"
proof -
  assume "length bs = 4"
  then obtain a b c d where bs: "bs = [a, b, c, d]"
    by (auto simp: numeral_eq_Suc length_Suc_conv)
  show ?thesis
    using SetBE32_GetBE32 [of d c b a] by (simp add: bs SetLE_rev GetBE_GetLE)
qed

lemma xored_ip_involution:
  assumes "ip_family ip = STUN_ADDRESS_IPV6 \<longrightarrow> length tid = 12"
    "case ip of IP_UNSPEC \<Rightarrow> False | IP4 _ \<Rightarrow> True | IP6 v \<Rightarrow> length v = 16"
  shows "GetXoredIP (Some tid) (GetXoredIP (Some tid) ip) = ip"
proof (cases ip)
  case (IP6 v)
  have v: "length v = 16" "length tid = 12" using assms IP6 by (auto simp: ip_family_def)
  have "take 4 v @ take 4 (drop 4 v) @ take 4 (drop 8 v) @ take 4 (drop 12 v) = v"
    using v(1) append_take_drop_id [of 4 v] append_take_drop_id [of 4 "drop 4 v"] append_take_drop_id [of 4 "drop 8 v"] by simp
  then show ?thesis
    using v by (simp add: GetXoredIP_def IP6 GetLE_SetLE SetLE32_GetLE32 xor.assoc)
qed (use assms in \<open>auto simp: GetXoredIP_def xor.assoc\<close>)

lemma xored_port_involution: "xored_port (xored_port p) = p"
  by (simp add: xored_port_def xor.assoc)

lemma xored_involution:
  assumes "addr_ok len a" "ip_family (sa_ip a) = STUN_ADDRESS_IPV6 \<longrightarrow> length tid = 12"
  shows "xored tid (xored tid a) = a"
  using assms xored_ip_involution [of "sa_ip a" tid]
  by (simp add: xored_def xored_port_involution addr_ok_def)

lemma addr_ok_xored:
  assumes "addr_ok len a" "ip_family (sa_ip a) = STUN_ADDRESS_IPV6 \<longrightarrow> length tid = 12"
  shows "addr_ok len (xored tid a)"
  using assms by (cases "sa_ip a") (auto simp: addr_ok_def xored_def GetXoredIP_def address_length_def ip_family_def)

section \<open>Writing\<close>

lemma holds_WritePadding: "holds b d \<Longrightarrow> holds (WritePadding t b) (d @ pad t)"
  using holds_WriteBytes by (auto simp: WritePadding_def pad_def Let_def)

lemma holds_address:
  assumes "holds b d"
  shows "holds (WriteBytes (ip_bytes ip) (WriteUInt16 p (WriteUInt8 (family_code (ip_family ip)) (WriteUInt8 0 b))))
    (d @ addr_bytes (SocketAddress_of ip p))"
proof -
  note 1 = u8c.put_enc [OF TrueI assms, of 0]
  note 2 = u8c.put_enc [OF TrueI 1, of "family_code (ip_family ip)"]
  note 3 = u16c.put_enc [OF TrueI 2, of p]
  show ?thesis using holds_WriteBytes [OF 3, of "ip_bytes ip"] by (simp add: addr_bytes_def)
qed

lemma family_xored: "addr_ok len a \<Longrightarrow> ip_family (sa_ip a) = STUN_ADDRESS_IPV6 \<longrightarrow> length tid = 12
    \<Longrightarrow> ip_family (GetXoredIP (Some tid) (sa_ip a)) = ip_family (sa_ip a) \<and> ip_family (sa_ip a) \<noteq> STUN_ADDRESS_UNDEF"
  by (cases "sa_ip a") (auto simp: addr_ok_def GetXoredIP_def ip_family_def)

lemma attr_write_holds:
  assumes ok: "attr_ok tid t" and b: "holds b d"
  shows "holds (attr_write tid t b) (d @ body_bytes tid t)"
proof (cases "at_body t")
  case (AddressBody a)
  then have "ip_family (sa_ip a) \<noteq> STUN_ADDRESS_UNDEF"
    using ok by (auto simp: attr_ok_def addr_ok_def ip_family_def split: ip_address.splits)
  then show ?thesis using AddressBody holds_address [OF b, of "sa_ip a" "sa_port a"]
    by (simp add: attr_write_def AddressWrite_def body_bytes_def addr_bytes_def)
next
  case (XorAddressBody own a)
  then have "own" and fam: "ip_family (GetXoredIP (Some tid) (sa_ip a)) = ip_family (sa_ip a)"
      "ip_family (sa_ip a) \<noteq> STUN_ADDRESS_UNDEF"
    using ok family_xored [of "at_length t" a tid] by (auto simp: attr_ok_def)
  then show ?thesis
    using XorAddressBody holds_address [OF b, of "GetXoredIP (Some tid) (sa_ip a)" "xored_port (sa_port a)"]
    by (simp add: attr_write_def XorAddressWrite_def body_bytes_def xored_def owner_tid_def Let_def)
next
  case (UInt32Body v)
  then show ?thesis using u32c.put_enc [OF TrueI b]
    by (simp add: attr_write_def UInt32Write_def body_bytes_def)
next
  case (ByteStringBody bs)
  then obtain x where "bs = Some x" "length x = unat (at_length t)"
    using ok by (auto simp: attr_ok_def split: option.splits)
  then show ?thesis using ByteStringBody holds_WritePadding [OF holds_WriteBytes [OF b]]
    by (simp add: attr_write_def ByteStringWrite_def body_bytes_def)
next
  case (ErrorCodeBody c n r)
  then show ?thesis using holds_WritePadding [OF holds_WriteBytes [OF u32c.put_enc [OF TrueI b]]]
    by (simp add: attr_write_def ErrorCodeWrite_def WriteString_def body_bytes_def)
next
  case (UInt16ListBody l)
  then show ?thesis using holds_WritePadding [OF u16c.put_all [OF b, of l]]
    by (simp add: attr_write_def UInt16ListWrite_def body_bytes_def)
qed

lemma attr_write_all_holds:
  assumes "attr_ok tid t" "holds b d"
  shows "holds (attr_write_all tid b t) (d @ attr_bytes tid t)"
  using attr_write_holds [OF assms(1) u16c.put_enc [OF TrueI u16c.put_enc [OF TrueI assms(2)]]]
  by (simp add: attr_write_all_def attr_bytes_def)

lemma attrs_write_holds:
  "\<forall>t\<in>set ts. attr_ok tid t \<Longrightarrow> holds b d \<Longrightarrow>
    holds (foldl (attr_write_all tid) b ts) (d @ concat (map (attr_bytes tid) ts))"
  using attr_write_all_holds by (induction ts arbitrary: b d) (auto simp flip: append_assoc)

lemma message_write_holds:
  assumes ok: "message_ok m" and b: "holds b d"
  shows "\<exists>b'. message_write m b = Some b' \<and> holds b' (d @ message_bytes m)"
proof -
  have len: "length (sm_tid m) = 12 \<or> length (sm_tid m) = 16" and as: "\<forall>t\<in>set (sm_attrs m). attr_ok (sm_tid m) t"
    using ok by (auto simp: message_ok_def tid_ok_def)
  note h = u16c.put_enc [OF TrueI u16c.put_enc [OF TrueI b], of "sm_length m" "sm_type m"]
  note legacy = attrs_write_holds [OF as holds_WriteBytes [OF h, of "sm_tid m"]]
  note new = attrs_write_holds [OF as holds_WriteBytes [OF u32c.put_enc [OF TrueI h], of "sm_tid m"]]
  show ?thesis
    using len legacy new
    by (auto simp: message_write_def IsLegacy_def kStunLegacyTransactionIdLength_def
        kStunTransactionIdLength_def message_bytes_def WriteString_def Let_def)
qed

section \<open>Reading back\<close>

lemma read_or_Some: "rd b = Some (v, b') \<Longrightarrow> read_or rd b f k = k v b'"
  by (simp add: read_or_def)

lemma ConsumePadding_holds: "holds b (pad t @ rest) \<Longrightarrow> holds (ConsumePadding t b) rest"
  using Consume_holds [of b "pad t" rest "length (pad t)"]
  by (auto simp: ConsumePadding_def pad_def Let_def split: option.splits if_splits)

lemma pad_cong: "at_length t = at_length u \<Longrightarrow> pad t = pad u" "at_length t = at_length u \<Longrightarrow> ConsumePadding t = ConsumePadding u"
  by (auto simp: pad_def ConsumePadding_def)

lemma AddressRead_holds:
  assumes ok: "addr_ok (at_length t) a" and b: "holds b (addr_bytes a @ rest)"
  shows "\<exists>b'. AddressRead t b = (True, SetAddress a t, b') \<and> holds b' rest"
proof -
  let ?fam = "family_code (ip_family (sa_ip a))"
  from b have "holds b ([0] @ [?fam] @ wire16 ORDER_NETWORK (sa_port a) @ ip_bytes (sa_ip a) @ rest)"
    by (simp add: addr_bytes_def)
  then obtain b1 where b1: "ReadUInt8 b = Some (0, b1)"
      "holds b1 ([?fam] @ wire16 ORDER_NETWORK (sa_port a) @ ip_bytes (sa_ip a) @ rest)"
    using u8c.get_enc [OF TrueI] by blast
  then obtain b2 where b2: "ReadUInt8 b1 = Some (?fam, b2)"
      "holds b2 (wire16 ORDER_NETWORK (sa_port a) @ ip_bytes (sa_ip a) @ rest)"
    using u8c.get_enc [OF TrueI] by blast
  then obtain b3 where b3: "ReadUInt16 b2 = Some (sa_port a, b3)" "holds b3 (ip_bytes (sa_ip a) @ rest)"
    using u16c.get_enc [OF TrueI] by blast
  obtain b4 where b4: "ReadBytes (length (ip_bytes (sa_ip a))) b3 = Some (ip_bytes (sa_ip a), b4)" "holds b4 rest"
    using bytesc.get_enc [OF refl b3(2)] by blast
  have "sa_ip a \<noteq> IP_UNSPEC" using ok by (auto simp: addr_ok_def)
  moreover have "SetAddress (SocketAddress_of (sa_ip a) (sa_port a)) t = SetAddress a t"
    using ok by (subst SocketAddress_of_eta) (simp_all add: addr_ok_def)
  ultimately have "AddressRead t b = (True, SetAddress a t, b4)"
    using b1(1) b2(1) b3(1) b4(1) ok
    by (cases "sa_ip a")
       (simp_all add: AddressRead_def read_or_Some addr_ok_def address_length_def ip_family_def family_code_def
          ip_bytes_def GetLE_SetLE)
  then show ?thesis using b4(2) by blast
qed

lemma read_types_holds:
  "holds b (concat (map (wire16 ORDER_NETWORK) l) @ rest) \<Longrightarrow>
    \<exists>b'. read_types (length l) b acc = (True, acc @ l, b') \<and> holds b' rest"
proof (induction l arbitrary: b acc)
  case (Cons v l)
  then obtain b1 where "ReadUInt16 b = Some (v, b1)" "holds b1 (concat (map (wire16 ORDER_NETWORK) l) @ rest)"
    using u16c.get_enc [OF TrueI, of b v "concat (map (wire16 ORDER_NETWORK) l) @ rest"] Cons.prems by auto
  then show ?case using Cons.IH [of b1 "acc @ [v]"] by (simp add: read_or_Some)
qed simp

lemma error_code_fields:
  assumes "c < 8"
  shows "ucast (drop_bit 8 (error_code c n) AND 0x7) = c" "ucast (error_code c n AND 0xff) = n"
proof -
  have m: "(0x7 :: u32) = mask 3" "(0xff :: u32) = mask 8" by (simp_all add: mask_eq_exp_minus_1)
  have "take_bit 3 c = c" unfolding word_eq_iff_unsigned [where ?'a = nat]
    using assms by (simp add: unsigned_take_bit_eq take_bit_nat_eq_self_iff word_less_nat_alt)
  then have c: "\<not> bit c i" if "3 \<le> i" for i
    using that bit_take_bit_iff [of 3 c i] by simp
  show "ucast (drop_bit 8 (error_code c n) AND 0x7) = c" "ucast (error_code c n AND 0xff) = n"
    unfolding m error_code_def using c
    by (auto simp: bit_simps intro!: bit_word_eqI) (meson not_le_imp_less)
qed

definition reads_back :: "bytes \<Rightarrow> stun_attr \<Rightarrow> bool" where
  "reads_back tid t \<longleftrightarrow> (\<forall>b rest. holds b (body_bytes tid t @ rest) \<longrightarrow>
     (\<exists>u b'. stun_attr_create (at_type t) (at_length t) = Some u \<and> attr_read tid u b = (True, t, b') \<and> holds b' rest))"

lemma addr_length_cases: "addr_ok len a \<Longrightarrow> len = SIZE_IP4 \<or> len = SIZE_IP6"
  by (cases "sa_ip a") (auto simp: addr_ok_def address_length_def ip_family_def)

lemma Address_reads_back:
  assumes ok: "attr_ok tid t" and body: "at_body t = AddressBody a"
  shows "reads_back tid t"
  unfolding reads_back_def
proof (intro allI impI)
  fix b rest assume b: "holds b (body_bytes tid t @ rest)"
  let ?u = "\<lparr>at_type = at_type t, at_length = at_length t, at_body = AddressBody SocketAddress\<rparr>"
  have a: "addr_ok (at_length ?u) a" using ok body by (simp add: attr_ok_def)
  have c: "stun_attr_create (at_type t) (at_length t) = Some ?u"
    using ok body by (auto simp: attr_ok_def stun_attr_create_def attr_codes Let_def dest!: addr_length_cases)
  have t: "SetAddress a ?u = t"
    using a body by (cases t) (simp add: SetAddress_def addr_ok_def)
  show "\<exists>u b'. stun_attr_create (at_type t) (at_length t) = Some u \<and> attr_read tid u b = (True, t, b') \<and> holds b' rest"
   
    using AddressRead_holds [OF a, of b rest] b body c t by (simp add: attr_read_def body_bytes_def)
qed

lemma XorAddress_reads_back:
  assumes ok: "attr_ok tid t" and body: "at_body t = XorAddressBody own a"
  shows "reads_back tid t"
  unfolding reads_back_def
proof (intro allI impI)
  fix b rest assume b: "holds b (body_bytes tid t @ rest)"
  let ?u = "\<lparr>at_type = at_type t, at_length = at_length t, at_body = XorAddressBody True SocketAddress\<rparr>"
  have own and six: "ip_family (sa_ip a) = STUN_ADDRESS_IPV6 \<longrightarrow> length tid = 12"
    and a: "addr_ok (at_length t) a" using ok body by (auto simp: attr_ok_def)
  have x: "addr_ok (at_length ?u) (xored tid a)" using addr_ok_xored [OF a six] by simp
  have c: "stun_attr_create (at_type t) (at_length t) = Some ?u"
    using ok body by (auto simp: attr_ok_def stun_attr_create_def attr_codes Let_def dest!: addr_length_cases)
  have t: "SetAddress (xored tid (xored tid a)) (SetAddress (xored tid a) ?u) = t"
    using a body \<open>own\<close> xored_involution [OF a six]
    by (cases t) (simp add: SetAddress_def addr_ok_def)
  obtain b' where "AddressRead ?u b = (True, SetAddress (xored tid a) ?u, b')" "holds b' rest"
    using AddressRead_holds [OF x, of b rest] b body by (auto simp: body_bytes_def)
  then have "XorAddressRead tid True ?u b = (True, t, b')"
    using t by (simp add: XorAddressRead_def Let_def owner_tid_def xored_def SetAddress_def body_addr_def)
  then show "\<exists>u b'. stun_attr_create (at_type t) (at_length t) = Some u \<and> attr_read tid u b = (True, t, b') \<and> holds b' rest"
    using c \<open>holds b' rest\<close> by (simp add: attr_read_def)
qed

lemma UInt32_reads_back:
  assumes ok: "attr_ok tid t" and body: "at_body t = UInt32Body v"
  shows "reads_back tid t"
  unfolding reads_back_def
proof (intro allI impI)
  fix b rest assume b: "holds b (body_bytes tid t @ rest)"
  let ?u = "\<lparr>at_type = at_type t, at_length = UINT32_SIZE, at_body = UInt32Body 0\<rparr>"
  have c: "stun_attr_create (at_type t) (at_length t) = Some ?u"
    using ok body by (simp add: attr_ok_def) (elim conjE disjE; simp add: stun_attr_create_def attr_codes UINT32_SIZE_def Let_def)
  obtain b' where "ReadUInt32 b = Some (v, b')" "holds b' rest"
    using u32c.get_enc [OF TrueI, of b v rest] b body by (auto simp: body_bytes_def)
  then show "\<exists>u b'. stun_attr_create (at_type t) (at_length t) = Some u \<and> attr_read tid u b = (True, t, b') \<and> holds b' rest"
    using c ok body
    by (cases t) (simp add: attr_read_def UInt32Read_def read_or_Some attr_ok_def UINT32_SIZE_def)
qed

lemma ByteString_reads_back:
  assumes ok: "attr_ok tid t" and body: "at_body t = ByteStringBody bs"
  shows "reads_back tid t"
  unfolding reads_back_def
proof (intro allI impI)
  fix b rest assume b: "holds b (body_bytes tid t @ rest)"
  let ?u = "\<lparr>at_type = at_type t, at_length = at_length t, at_body = ByteStringBody None\<rparr>"
  obtain x where x: "bs = Some x" "length x = unat (at_length t)"
    using ok body by (auto simp: attr_ok_def split: option.splits)
  have c: "stun_attr_create (at_type t) (at_length t) = Some ?u"
    using ok body by (simp add: attr_ok_def) (elim conjE disjE; simp add: stun_attr_create_def attr_codes Let_def)
  obtain b' where "ReadBytes (unat (at_length t)) b = Some (x, b')" "holds b' (pad t @ rest)"
    using bytesc.get_enc [OF x(2), of b "pad t @ rest"] b body x(1) by (auto simp: body_bytes_def)
  then show "\<exists>u b'. stun_attr_create (at_type t) (at_length t) = Some u \<and> attr_read tid u b = (True, t, b') \<and> holds b' rest"
    using c body x(1) ConsumePadding_holds [of b' t rest] pad_cong(2) [of ?u t]
    by (cases t) (simp add: attr_read_def ByteStringRead_def read_or_Some)
qed

lemma ErrorCode_reads_back:
  assumes ok: "attr_ok tid t" and body: "at_body t = ErrorCodeBody c n r"
  shows "reads_back tid t"
  unfolding reads_back_def
proof (intro allI impI)
  fix b rest assume b: "holds b (body_bytes tid t @ rest)"
  let ?u = "\<lparr>at_type = at_type t, at_length = at_length t, at_body = ErrorCodeBody 0 0 []\<rparr>"
  have k: "c < 8" "unat (at_length t) - 4 = length r" "at_type t = STUN_ATTR_ERROR_CODE" "\<not> at_length t < 4"
    using ok body by (auto simp: attr_ok_def word_less_nat_alt)
  have cr: "stun_attr_create (at_type t) (at_length t) = Some ?u"
    using k by (simp add: stun_attr_create_def attr_codes ERROR_MIN_SIZE_def Let_def)
  obtain b1 where b1: "ReadUInt32 b = Some (error_code c n, b1)" "holds b1 (r @ pad t @ rest)"
    using u32c.get_enc [OF TrueI, of b _ "r @ pad t @ rest"] b body by (auto simp: body_bytes_def)
  obtain b' where "ReadString [] (unat (at_length t) - 4) b1 = Some (r, b')" "holds b' (pad t @ rest)"
    using stringc.get_enc [OF k(2) [symmetric] b1(2)] by blast
  then show "\<exists>u b'. stun_attr_create (at_type t) (at_length t) = Some u \<and> attr_read tid u b = (True, t, b') \<and> holds b' rest"
    using cr b1(1) body ConsumePadding_holds [of b' t rest]
      pad_cong(2) [of "\<lparr>at_type = at_type t, at_length = at_length t, at_body = ErrorCodeBody c n []\<rparr>" t]
      error_code_fields [OF k(1), of n]
    by (cases t) (simp add: attr_read_def ErrorCodeRead_def read_or_Some SetErrorCode_def body_reason_def)
qed

lemma UInt16List_reads_back:
  assumes ok: "attr_ok tid t" and body: "at_body t = UInt16ListBody l"
  shows "reads_back tid t"
  unfolding reads_back_def
proof (intro allI impI)
  fix b rest assume b: "holds b (body_bytes tid t @ rest)"
  let ?u = "\<lparr>at_type = at_type t, at_length = at_length t, at_body = UInt16ListBody []\<rparr>"
  have k: "at_type t = STUN_ATTR_UNKNOWN_ATTRIBUTES" "unat (at_length t) = 2 * length l"
    using ok body by (auto simp: attr_ok_def)
  then have "unat (at_length t mod 2) = 0" by (simp add: unat_mod)
  then have "at_length t mod 2 = 0" by (simp add: unat_eq_0)
  then have c: "stun_attr_create (at_type t) (at_length t) = Some ?u"
    using k by (simp add: stun_attr_create_def attr_codes Let_def)
  obtain b' where "read_types (length l) b [] = (True, l, b')" "holds b' (pad t @ rest)"
    using read_types_holds [of b l "pad t @ rest" "[]"] b body by (auto simp: body_bytes_def)
  then show "\<exists>u b'. stun_attr_create (at_type t) (at_length t) = Some u \<and> attr_read tid u b = (True, t, b') \<and> holds b' rest"
    using c k(2) body ConsumePadding_holds [of b' t rest]
      pad_cong(2) [of ?u t]
    by (cases t) (simp add: attr_read_def UInt16ListRead_def)
qed

lemma attr_reads_back: "attr_ok tid t \<Longrightarrow> reads_back tid t"
  using Address_reads_back XorAddress_reads_back UInt32_reads_back ByteString_reads_back ErrorCode_reads_back
    UInt16List_reads_back by (cases "at_body t") blast+

section \<open>Messages\<close>

lemma length_concat_wire: "length (concat (map (wire16 ORDER_NETWORK) l)) = 2 * length l"
  by (induction l) auto

lemma length_pad: "length (pad t) + unat (at_length t) = padded (unat (at_length t))"
  by (simp add: pad_def padded_def add.commute)

lemma length_body_bytes:
  assumes "attr_ok tid t"
  shows "length (body_bytes tid t) = padded (unat (at_length t))"
proof (cases "at_body t")
  case (AddressBody a)
  then show ?thesis using assms
    by (cases "sa_ip a") (auto simp: attr_ok_def addr_ok_def body_bytes_def addr_bytes_def address_length_def
        ip_family_def ip_bytes_def SIZE_IP4_def SIZE_IP6_def padded_def)
next
  case (XorAddressBody own a)
  then have "addr_ok (at_length t) (xored tid a)" using assms addr_ok_xored by (auto simp: attr_ok_def)
  then show ?thesis using XorAddressBody
    by (cases "sa_ip (xored tid a)") (auto simp: addr_ok_def body_bytes_def addr_bytes_def address_length_def
        ip_family_def ip_bytes_def SIZE_IP4_def SIZE_IP6_def padded_def)
qed (use assms length_pad [of t] in \<open>auto simp: attr_ok_def body_bytes_def padded_def length_concat_wire split: option.splits\<close>)

lemma length_attrs_bytes:
  "\<forall>t\<in>set ts. attr_ok tid t \<Longrightarrow> length (concat (map (attr_bytes tid) ts)) = attrs_size ts"
  by (induction ts) (simp_all add: attrs_size_def attr_bytes_def length_body_bytes)

lemma read_attrs_step:
  assumes ok: "attr_ok (sm_tid m) t" and b: "holds b (attr_bytes (sm_tid m) t @ rest)"
  shows "\<exists>b'. read_attrs 0 m b = read_attrs 0 (m\<lparr>sm_attrs := sm_attrs m @ [t]\<rparr>) b' \<and> holds b' rest"
proof -
  have "0 < Length b" using holds_Length [OF b] by (simp add: attr_bytes_def)
  obtain b1 where b1: "ReadUInt16 b = Some (at_type t, b1)"
      "holds b1 (wire16 ORDER_NETWORK (at_length t) @ body_bytes (sm_tid m) t @ rest)"
    using u16c.get_enc [OF TrueI, of b] b by (auto simp: attr_bytes_def)
  obtain b2 where b2: "ReadUInt16 b1 = Some (at_length t, b2)" "holds b2 (body_bytes (sm_tid m) t @ rest)"
    using u16c.get_enc [OF TrueI b1(2)] by blast
  obtain u b3 where "stun_attr_create (at_type t) (at_length t) = Some u"
      "attr_read (sm_tid m) u b2 = (True, t, b3)" "holds b3 rest"
    using attr_reads_back [OF ok, unfolded reads_back_def, rule_format, OF b2(2)] by blast
  then show ?thesis using \<open>0 < Length b\<close> b1(1) b2(1) by (subst read_attrs.simps) auto
qed

lemma read_attrs_holds:
  "\<forall>t\<in>set ts. attr_ok (sm_tid m) t \<Longrightarrow> holds b (concat (map (attr_bytes (sm_tid m)) ts)) \<Longrightarrow>
    \<exists>b'. read_attrs 0 m b = (True, m\<lparr>sm_attrs := sm_attrs m @ ts\<rparr>, b') \<and> Length b' = 0"
proof (induction ts arbitrary: m b)
  case Nil
  then show ?case using holds_Length [OF Nil.prems(2)] by (subst read_attrs.simps) simp
next
  case (Cons t ts)
  let ?m = "m\<lparr>sm_attrs := sm_attrs m @ [t]\<rparr>"
  obtain b' where b': "read_attrs 0 m b = read_attrs 0 ?m b'" "holds b' (concat (map (attr_bytes (sm_tid m)) ts))"
    using read_attrs_step [of m t b] Cons.prems by auto
  show ?case using Cons.IH [of ?m b'] Cons.prems(1) b' by auto
qed

lemma cookie_bytes: "length x = 4 \<Longrightarrow> NetworkToHost32 (GetLE32 x) = c \<longleftrightarrow> x = SetBE32 c"
proof -
  assume len: "length x = 4"
  then obtain p q r s where x: "x = [p, q, r, s]" by (auto simp: numeral_eq_Suc length_Suc_conv)
  have "NetworkToHost32 (GetLE32 x) = GetBE32 x"
    using SetLE32_GetLE32 [OF len] by (simp add: NetworkToHost32_def)
  moreover have "GetBE32 x = c \<longleftrightarrow> x = SetBE32 c"
    unfolding x using SetBE32_GetBE32 [of p q r s] by (auto simp: GetBE32_SetBE32)
  ultimately show ?thesis by simp
qed

lemma message_read_holds:
  assumes ok: "message_ok m" and b: "holds b (message_bytes m)"
  shows "\<exists>b'. message_read m0 b = Some (True, m, b') \<and> Length b' = 0"
proof -
  let ?as = "concat (map (attr_bytes (sm_tid m)) (sm_attrs m))"
  have as: "\<forall>t\<in>set (sm_attrs m). attr_ok (sm_tid m) t" and t: "tid_ok (sm_tid m)"
    using ok by (auto simp: message_ok_def)
  define cookie where "cookie = (if length (sm_tid m) = 16 then take 4 (sm_tid m) else SetBE32 kStunMagicCookie)"
  define tid where "tid = (if length (sm_tid m) = 16 then drop 4 (sm_tid m) else sm_tid m)"
  have ct: "length cookie = 4" "length tid = 12"
    "(if cookie \<noteq> SetBE32 kStunMagicCookie then cookie @ tid else tid) = sm_tid m"
    using t by (auto simp: cookie_def tid_def tid_ok_def)
  have "message_bytes m = wire16 ORDER_NETWORK (sm_type m) @ wire16 ORDER_NETWORK (sm_length m) @ cookie @ tid @ ?as"
    by (simp add: message_bytes_def cookie_def tid_def wire32_def)
  with b have "holds b (wire16 ORDER_NETWORK (sm_type m) @ wire16 ORDER_NETWORK (sm_length m) @ cookie @ tid @ ?as)"
    by simp
  then obtain b1 where b1: "ReadUInt16 b = Some (sm_type m, b1)"
      "holds b1 (wire16 ORDER_NETWORK (sm_length m) @ cookie @ tid @ ?as)" using u16c.get_enc [OF TrueI] by blast
  then obtain b2 where b2: "ReadUInt16 b1 = Some (sm_length m, b2)" "holds b2 (cookie @ tid @ ?as)"
    using u16c.get_enc [OF TrueI] by blast
  obtain b3 where b3: "ReadString [] 4 b2 = Some (cookie, b3)" "holds b3 (tid @ ?as)"
    using stringc.get_enc [OF ct(1) b2(2)] by blast
  obtain b4 where b4: "ReadString [] 12 b3 = Some (tid, b4)" "holds b4 ?as"
    using stringc.get_enc [OF ct(2) b3(2)] by blast
  have len: "Length b4 = unat (sm_length m)"
    using holds_Length [OF b4(2)] ok length_attrs_bytes [OF as] by (simp add: message_ok_def)
  let ?m = "\<lparr>sm_type = sm_type m, sm_length = sm_length m, sm_tid = sm_tid m, sm_attrs = []\<rparr>"
  have m: "?m\<lparr>sm_attrs := sm_attrs m\<rparr> = m" by (cases m) simp
  obtain b' where r: "read_attrs 0 ?m b4 = (True, m, b')" "Length b' = 0"
    using read_attrs_holds [of "sm_attrs m" ?m b4] as b4(2) m by auto
  have valid: "IsValidTransactionId (sm_tid m)"
    using t by (auto simp: tid_ok_def IsValidTransactionId_def kStunTransactionIdLength_def
        kStunLegacyTransactionIdLength_def)
  have ty: "sm_type m AND 0x8000 = 0" using ok by (simp add: message_ok_def)
  have fresh: "m0\<lparr>sm_type := sm_type m, sm_length := sm_length m, sm_tid := sm_tid m, sm_attrs := []\<rparr> = ?m"
    by (cases m0) simp
  show ?thesis
    using b1(1) b2(1) b3(1) b4(1) ct(3) valid ty len r
    by (simp add: message_read_def kStunMagicCookieLength_def kStunTransactionIdLength_def
        cookie_bytes [OF ct(1)] Let_def fresh cong: if_cong)
qed

end
