(* ===== verification/Stun_Properties.thy ===== *)
theory Stun_Properties
  imports Stun_Codec
begin

text \<open>
  What the STUN messages of talk/p2p/base/stun.cc guarantee: the round trip of well-formed
  messages, the bookkeeping of the length field, and for any input that the parser does not
  abort and that the casts of the typed getters are right.
\<close>

section \<open>Well-formed messages\<close>

text \<open>C5: writing a well-formed message and reading the bytes back gives the same message, into whatever
  object it is read, and consumes all of them; the length field counts what follows the 20-byte header.\<close>

theorem stun_roundtrip:
  assumes "message_ok m"
  shows "\<exists>b b'. message_write m (ByteBuffer_empty ORDER_NETWORK) = Some b
     \<and> message_read m0 (ByteBuffer_of (Data b) ORDER_NETWORK) = Some (True, m, b') \<and> Length b' = 0
     \<and> Length b = 20 + unat (sm_length m)"
proof -
  obtain b where b: "message_write m (ByteBuffer_empty ORDER_NETWORK) = Some b" "holds b (message_bytes m)"
    using message_write_holds [OF assms holds_empty] by auto
  then have "Data b = message_bytes m" by (simp add: holds_def)
  with message_read_holds [OF assms] holds_of
  obtain b' where "message_read m0 (ByteBuffer_of (Data b) ORDER_NETWORK) = Some (True, m, b')" "Length b' = 0"
    by metis
  moreover have "Length b = 20 + unat (sm_length m)"
    using holds_Length [OF b(2)] assms length_attrs_bytes [of "sm_attrs m" "sm_tid m"]
    by (auto simp: message_ok_def message_bytes_def tid_ok_def)
  ultimately show ?thesis using b(1) by blast
qed

text \<open>The same as a helper for the messages that components exchange.\<close>

lemma message_wire:
  assumes "message_ok m"
  shows "\<exists>buf b'. message_write m (ByteBuffer_empty ORDER_NETWORK) = Some buf
     \<and> message_read StunMessage (ByteBuffer_of (Data buf) ORDER_NETWORK) = Some (True, m, b') \<and> Length b' = 0"
proof -
  obtain b where b: "message_write m (ByteBuffer_empty ORDER_NETWORK) = Some b" "holds b (message_bytes m)"
    using message_write_holds [OF assms holds_empty] by auto
  then have "Data b = message_bytes m" by (simp add: holds_def)
  then show ?thesis using b(1) message_read_holds [OF assms holds_of] by metis
qed

definition test_tid :: bytes where
  "test_tid = [1, 2, 3, 4, 5, 6, 7, 8, 9, 10, 11, 12]"

definition test_attrs :: "stun_attr list" where
  "test_attrs =
     [\<lparr>at_type = STUN_ATTR_USERNAME, at_length = 5, at_body = ByteStringBody (Some [97, 98, 99, 100, 101])\<rparr>,
      \<lparr>at_type = STUN_ATTR_XOR_MAPPED_ADDRESS, at_length = 8,
       at_body = XorAddressBody True (SocketAddress_of (IP4 0x0100007F) 3478)\<rparr>,
      \<lparr>at_type = STUN_ATTR_ERROR_CODE, at_length = 7, at_body = ErrorCodeBody 4 31 [66, 65, 68]\<rparr>]"

definition test_message :: stun_message where
  "test_message = \<lparr>sm_type = STUN_BINDING_RESPONSE, sm_length = 36, sm_tid = test_tid, sm_attrs = test_attrs\<rparr>"

lemma test_message_ok: "message_ok test_message"
  by (simp add: message_ok_def test_message_def test_tid_def test_attrs_def STUN_BINDING_RESPONSE_def tid_ok_def
      attrs_size_def padded_def attr_ok_def addr_ok_def address_length_def ip_family_def SIZE_IP4_def attr_codes)

lemma test_message_roundtrip:
  "\<exists>b b'. message_write test_message (ByteBuffer_empty ORDER_NETWORK) = Some b
     \<and> message_read StunMessage (ByteBuffer_of (Data b) ORDER_NETWORK) = Some (True, test_message, b')"
  using message_write_holds [OF test_message_ok holds_empty] message_read_holds [OF test_message_ok] holds_of
  unfolding holds_def by (metis append_Nil)

theorem stun_roundtrip_witness:
  "\<exists>b b'. message_write test_message (ByteBuffer_empty ORDER_NETWORK) = Some b
     \<and> message_read StunMessage (ByteBuffer_of (Data b) ORDER_NETWORK) = Some (True, test_message, b') \<and> Length b' = 0
     \<and> Length b = 20 + unat (sm_length test_message)"
  by (rule stun_roundtrip [OF test_message_ok])



section \<open>Any input\<close>

text \<open>One round of the loop: it stops with the message as it is, or goes on behind a skipped or a read attribute.\<close>

lemma read_attrs_round:
  assumes "read_attrs rest m b = (ok, m', b')"
  shows "m' = m \<and> (ok \<longrightarrow> Length b' \<le> rest)
     \<or> (\<exists>b2. Length b2 < Length b \<and> read_attrs rest m b2 = (ok, m', b'))
     \<or> (\<exists>b2 b3 ty len u t. Length b3 < Length b \<and> stun_attr_create ty len = Some u
          \<and> attr_read (sm_tid m) u b2 = (True, t, b3)
          \<and> read_attrs rest (m\<lparr>sm_attrs := sm_attrs m @ [t]\<rparr>) b3 = (ok, m', b'))"
proof (cases "\<not> Length b > rest \<or> ReadUInt16 b = None")
  case True
  then show ?thesis using assms by (subst (asm) read_attrs.simps) (auto split: if_splits)
next
  case False
  then obtain x b1 where b1: "ReadUInt16 b = Some (x, b1)" by auto
  show ?thesis
  proof (cases "ReadUInt16 b1")
    case None
    then show ?thesis using assms False b1 by (subst (asm) read_attrs.simps) auto
  next
    case (Some p)
    then obtain y b2 where b2: "ReadUInt16 b1 = Some (y, b2)" by (cases p) auto
    have short: "Length b3 < Length b" if "Length b3 \<le> Length b2" for b3
      using that ReadUInt16_Length [OF b1] ReadUInt16_Length [OF b2] by simp
    have skip: "Length b3 < Length b" if "Consume n b2 = Some b3" for n b3
      using short read_no_growth(6) [OF that] by (simp add: no_growth_def)
    have took: "Length b3 < Length b" if "attr_read tid u b2 = (True, t, b3)" for tid u t b3
      using short attr_read_Length that by metis
    show ?thesis
    proof (cases "stun_attr_create x y")
      case None
      then show ?thesis using assms False b1 b2 skip
        by (subst (asm) read_attrs.simps) (auto split: option.splits)
    next
      case (Some u)
      obtain okt t b3 where t: "attr_read (sm_tid m) u b2 = (okt, t, b3)" by (metis prod_cases3)
      have "(if okt then read_attrs rest (m\<lparr>sm_attrs := sm_attrs m @ [t]\<rparr>) b3 else (False, m, b3)) = (ok, m', b')"
        using assms False b1 b2 t Some by (subst (asm) read_attrs.simps) (simp split: if_splits)
      then show ?thesis using took [of "sm_tid m" u t b3] t Some
        by (cases okt) (metis (full_types), simp)
    qed
  qed
qed

text \<open>What one round of the loop keeps, the loop keeps; it only succeeds when the input is used up.\<close>

lemma read_attrs_rule:
  assumes keep: "\<And>m ty len u b t b'. P m \<Longrightarrow> stun_attr_create ty len = Some u \<Longrightarrow> attr_read (sm_tid m) u b = (True, t, b')
      \<Longrightarrow> P (m\<lparr>sm_attrs := sm_attrs m @ [t]\<rparr>)"
  shows "P m \<Longrightarrow> read_attrs rest m b = (ok, m', b') \<Longrightarrow> P m' \<and> (ok \<longrightarrow> Length b' \<le> rest)"
proof (induction "Length b" arbitrary: m b rule: less_induct)
  case less
  from read_attrs_round [OF less.prems(2)] show ?case
  proof (elim disjE exE conjE)
    fix b2 assume "Length b2 < Length b" "read_attrs rest m b2 = (ok, m', b')"
    then show ?thesis using less.hyps less.prems(1) by blast
  next
    fix b2 b3 ty len u t
    assume "Length b3 < Length b" "stun_attr_create ty len = Some u" "attr_read (sm_tid m) u b2 = (True, t, b3)"
      "read_attrs rest (m\<lparr>sm_attrs := sm_attrs m @ [t]\<rparr>) b3 = (ok, m', b')"
    then show ?thesis using less.hyps keep [OF less.prems(1)] by blast
  qed (use less.prems in simp)
qed

lemma read_lengths:
  "ReadUInt16 b = Some (v, b') \<Longrightarrow> Length b = Length b' + 2"
  "ReadString [] n b = Some (bs, b') \<Longrightarrow> Length b = Length b' + n \<and> length bs = n"
  by (auto simp: ReadUInt16_def ReadBytes_def ReadString_def Length_def bb_end_def Let_def split: if_splits)

lemma read_data:
  "ReadUInt16 b = Some (v, b') \<Longrightarrow> Data b' = drop 2 (Data b)"
  "ReadString [] n b = Some (bs, b') \<Longrightarrow> bs = take n (Data b) \<and> Data b' = drop n (Data b)"
  by (auto simp: ReadUInt16_def ReadBytes_def ReadString_def Data_def Let_def add.commute split: if_splits)

text \<open>The header of a message: it is refused, or the loop runs over exactly the bytes that the length field announces.\<close>

lemma message_read_header:
  obtains (refused) m' b' where "message_read m b = Some (False, m', b')" "sm_attrs m' = sm_attrs m"
  | (attributes) m1 b1 ok m' b' where "read_attrs 0 m1 b1 = (ok, m', b')"
      "message_read m b = (if ok \<and> Length b' \<noteq> 0 then None else Some (ok, m', b'))"
      "sm_attrs m1 = []" "sm_type m1 AND 0x8000 = 0" "IsValidTransactionId (sm_tid m1)" "unat (sm_length m1) + 20 = Length b"
      "length (sm_tid m1) = 12 \<Longrightarrow> sm_tid m1 = take 12 (drop 8 (Data b))"
proof (cases "ReadUInt16 b")
  case None
  then show ?thesis by (intro refused [of m b]) (simp_all add: message_read_def)
next
  case (Some p)
  then obtain ty b1 where b1: "ReadUInt16 b = Some (ty, b1)" by (cases p) auto
  show ?thesis
  proof (cases "ty AND 0x8000 \<noteq> 0 \<or> ReadUInt16 b1 = None")
    case True
    then show ?thesis using b1
      by (intro refused [of "m\<lparr>sm_type := ty\<rparr>" b1]) (auto simp: message_read_def Let_def)
  next
    case False
    then obtain len b2 where b2: "ReadUInt16 b1 = Some (len, b2)" by auto
    let ?m2 = "m\<lparr>sm_type := ty, sm_length := len\<rparr>"
    note lens = read_lengths(1) [OF b1] read_lengths(1) [OF b2]
    show ?thesis
    proof (cases "ReadString [] kStunMagicCookieLength b2")
      case None
      then show ?thesis using b1 b2 False
        by (intro refused [of ?m2 b2]) (auto simp: message_read_def Let_def)
    next
      case (Some q)
      then obtain cookie b3 where b3: "ReadString [] kStunMagicCookieLength b2 = Some (cookie, b3)" by (cases q) auto
      show ?thesis
      proof (cases "ReadString [] kStunTransactionIdLength b3")
        case None
        then show ?thesis using b1 b2 b3 False
          by (intro refused [of ?m2 b3]) (auto simp: message_read_def Let_def)
      next
        case (Some r)
        then obtain tid b4 where b4: "ReadString [] kStunTransactionIdLength b3 = Some (tid, b4)" by (cases r) auto
        define id where "id = (if NetworkToHost32 (GetLE32 cookie) \<noteq> kStunMagicCookie then cookie @ tid else tid)"
        have valid: "IsValidTransactionId id"
          using read_lengths(2) [OF b3] read_lengths(2) [OF b4]
          by (simp add: id_def IsValidTransactionId_def kStunMagicCookieLength_def kStunTransactionIdLength_def
              kStunLegacyTransactionIdLength_def)
        have len4: "Length b = Length b4 + 20"
          using read_lengths(2) [OF b3] read_lengths(2) [OF b4] lens
          by (simp add: kStunMagicCookieLength_def kStunTransactionIdLength_def)
        have tid: "id = take 12 (drop 8 (Data b))" if "length id = 12"
          using read_data(1) [OF b1] read_data(1) [OF b2] read_data(2) [OF b3] read_data(2) [OF b4] that
            read_lengths(2) [OF b3] read_lengths(2) [OF b4]
          by (simp add: id_def kStunMagicCookieLength_def kStunTransactionIdLength_def split: if_splits)
        let ?m3 = "m\<lparr>sm_type := ty, sm_length := len, sm_tid := id\<rparr>"
        let ?m4 = "m\<lparr>sm_type := ty, sm_length := len, sm_tid := id, sm_attrs := []\<rparr>"
        have eq: "message_read m b = (if unat len \<noteq> Length b4 then Some (False, ?m3, b4)
            else case read_attrs 0 ?m4 b4 of (ok, m', b') \<Rightarrow> if ok \<and> Length b' \<noteq> 0 then None else Some (ok, m', b'))"
          using b1 b2 b3 b4 False valid
          by (auto simp: message_read_def Let_def id_def split: prod.splits)
        show ?thesis
        proof (cases "unat len = Length b4")
          case True
          obtain ok m' b' where "read_attrs 0 ?m4 b4 = (ok, m', b')" by (metis prod_cases3)
          then show ?thesis using attributes [of ?m4 b4 ok m' b'] eq True valid False len4 tid by simp
        qed (use eq in \<open>intro refused [of ?m3 b4], simp_all\<close>)
      qed
    qed
  qed
qed

lemma message_read_facts:
  "\<exists>ok m' b'. message_read m b = Some (ok, m', b')
     \<and> (ok \<longrightarrow> sm_type m' AND 0x8000 = 0 \<and> IsValidTransactionId (sm_tid m')
          \<and> unat (sm_length m') + 20 = Length b \<and> Length b' = 0)"
proof (cases rule: message_read_header [of m b])
  case (attributes m1 b1 ok m' b')
  have "(sm_type m' = sm_type m1 \<and> sm_length m' = sm_length m1 \<and> sm_tid m' = sm_tid m1) \<and> (ok \<longrightarrow> Length b' \<le> 0)"
    by (rule read_attrs_rule [OF _ _ attributes(1)]) simp_all
  then show ?thesis using attributes by auto
qed blast

text \<open>C20: the parser handles any input without running into an assertion; when it accepts, the type is not one
  that RTP and RTCP packets have, the transaction id is valid, the length field counts all bytes that
  follow the header, and every one of them has been consumed.\<close>

theorem message_read_total:
  "\<exists>ok m' b'. message_read m b = Some (ok, m', b')
     \<and> (ok \<longrightarrow> sm_type m' AND 0x8000 = 0 \<and> IsValidTransactionId (sm_tid m')
          \<and> unat (sm_length m') + 20 = Length b \<and> Length b' = 0)"
  by (rule message_read_facts)

theorem message_read_total_witness:
  "\<exists>b b'. message_write test_message (ByteBuffer_empty ORDER_NETWORK) = Some b
     \<and> message_read StunMessage (ByteBuffer_of (Data b) ORDER_NETWORK) = Some (True, test_message, b')
     \<and> unat (sm_length test_message) + 20 = Length (ByteBuffer_of (Data b) ORDER_NETWORK) \<and> Length b' = 0"
proof -
  obtain b b' where b: "message_write test_message (ByteBuffer_empty ORDER_NETWORK) = Some b"
      "message_read StunMessage (ByteBuffer_of (Data b) ORDER_NETWORK) = Some (True, test_message, b')"
    using test_message_roundtrip by blast
  then show ?thesis using message_read_total [of StunMessage "ByteBuffer_of (Data b) ORDER_NETWORK"] by auto
qed

section \<open>Classes of attributes\<close>

datatype attr_class = CAddress | CUInt32 | CBytes | CError | CList

definition body_class :: "attr_body \<Rightarrow> attr_class" where
  "body_class x = (case x of AddressBody _ \<Rightarrow> CAddress | XorAddressBody _ _ \<Rightarrow> CAddress | UInt32Body _ \<Rightarrow> CUInt32
     | ByteStringBody _ \<Rightarrow> CBytes | ErrorCodeBody _ _ _ \<Rightarrow> CError | UInt16ListBody _ \<Rightarrow> CList)"

text \<open>The class that a getter casts an attribute of the type to.\<close>

definition class_of_type :: "u16 \<Rightarrow> attr_class option" where
  "class_of_type ty =
     (if ty \<in> {STUN_ATTR_MAPPED_ADDRESS, STUN_ATTR_DESTINATION_ADDRESS, STUN_ATTR_SOURCE_ADDRESS2, STUN_ATTR_XOR_MAPPED_ADDRESS}
      then Some CAddress
      else if ty \<in> {STUN_ATTR_LIFETIME, STUN_ATTR_BANDWIDTH, STUN_ATTR_OPTIONS} then Some CUInt32
      else if ty \<in> {STUN_ATTR_USERNAME, STUN_ATTR_MESSAGE_INTEGRITY, STUN_ATTR_DATA, STUN_ATTR_MAGIC_COOKIE} then Some CBytes
      else if ty = STUN_ATTR_ERROR_CODE then Some CError
      else if ty = STUN_ATTR_UNKNOWN_ATTRIBUTES then Some CList
      else None)"

definition attr_typed :: "stun_attr \<Rightarrow> bool" where
  "attr_typed t \<longleftrightarrow> class_of_type (at_type t) = Some (body_class (at_body t))"

lemma create_typed: "stun_attr_create ty len = Some u \<Longrightarrow> attr_typed u"
  by (simp add: stun_attr_create_def Let_def split: if_splits;
      auto simp: attr_typed_def class_of_type_def body_class_def attr_codes)

text \<open>Reading an attribute changes neither its type nor its class.\<close>

definition same_class :: "stun_attr \<Rightarrow> stun_attr \<Rightarrow> bool" where
  "same_class t u \<longleftrightarrow> at_type t = at_type u \<and> body_class (at_body t) = body_class (at_body u)"

lemma same_class_refl [simp]: "same_class t t"
  by (simp add: same_class_def)

lemma same_class_trans: "same_class s t \<Longrightarrow> same_class t u \<Longrightarrow> same_class s u"
  by (simp add: same_class_def)

lemma SetAddress_class: "body_class (at_body t) = CAddress \<Longrightarrow> same_class t (SetAddress a t)"
  by (auto simp: SetAddress_def same_class_def body_class_def split: attr_body.splits)

lemma read_or_class:
  "same_class t f \<Longrightarrow> (\<And>v b. same_class t (fst (snd (k v b)))) \<Longrightarrow> same_class t (fst (snd (read_or rd b f k)))"
  by (simp add: read_or_def split: option.splits prod.splits)

lemma AddressRead_class: "body_class (at_body t) = CAddress \<Longrightarrow> same_class t (fst (snd (AddressRead t b)))"
  using SetAddress_class by (auto simp: AddressRead_def intro!: read_or_class)

lemma XorAddressRead_class:
  assumes "body_class (at_body t) = CAddress"
  shows "same_class t (fst (snd (XorAddressRead tid own t b)))"
proof -
  obtain ok u b' where r: "AddressRead t b = (ok, u, b')" by (metis prod_cases3)
  then have u: "same_class t u" using AddressRead_class [OF assms, of b] by simp
  then have "body_class (at_body u) = CAddress" using assms by (simp add: same_class_def)
  then show ?thesis
    using r same_class_trans [OF u SetAddress_class] u by (simp add: XorAddressRead_def Let_def)
qed

lemma attr_read_class: "same_class t (fst (snd (attr_read tid t b)))"
proof (cases "at_body t")
  case (ErrorCodeBody c n r)
  have "same_class t (SetErrorCode v t)" for v
    using ErrorCodeBody by (simp add: SetErrorCode_def same_class_def body_class_def)
  then show ?thesis using ErrorCodeBody
    by (auto simp: attr_read_def ErrorCodeRead_def Let_def intro!: read_or_class)
       (auto simp: SetErrorCode_def same_class_def body_class_def)
next
  case (UInt32Body v)
  then have "same_class t (t\<lparr>at_body := UInt32Body w\<rparr>)" for w by (simp add: same_class_def body_class_def)
  then show ?thesis using UInt32Body by (simp add: attr_read_def UInt32Read_def read_or_class)
next
  case (ByteStringBody bs)
  then have "same_class t (t\<lparr>at_body := ByteStringBody w\<rparr>)" for w by (simp add: same_class_def body_class_def)
  then show ?thesis using ByteStringBody by (simp add: attr_read_def ByteStringRead_def read_or_class)
next
  case (UInt16ListBody l)
  then have "same_class t (t\<lparr>at_body := UInt16ListBody w\<rparr>)" for w by (simp add: same_class_def body_class_def)
  then show ?thesis using UInt16ListBody by (simp add: attr_read_def UInt16ListRead_def split: prod.splits)
qed (use AddressRead_class XorAddressRead_class in \<open>simp_all add: attr_read_def body_class_def\<close>)

lemma message_read_typed:
  assumes "message_read m b = Some (ok, m', b')" "list_all attr_typed (sm_attrs m)"
  shows "list_all attr_typed (sm_attrs m')"
proof (cases rule: message_read_header [of m b])
  case (attributes m1 b1 ok1 m2 b2)
  have keep: "list_all attr_typed (sm_attrs (n\<lparr>sm_attrs := sm_attrs n @ [t]\<rparr>))"
    if "list_all attr_typed (sm_attrs n)" "stun_attr_create ty len = Some u" "attr_read (sm_tid n) u c = (True, t, c')"
    for n ty len u t c c'
    using that create_typed [OF that(2)] attr_read_class [of u "sm_tid n" c]
    by (simp add: same_class_def attr_typed_def)
  have "list_all attr_typed (sm_attrs m2) \<and> (ok1 \<longrightarrow> Length b2 \<le> 0)"
    by (rule read_attrs_rule [where P = "\<lambda>n. list_all attr_typed (sm_attrs n)", OF keep _ attributes(1)])
       (simp_all add: attributes(3))
  then show ?thesis using attributes(2) assms(1) by (auto split: if_splits)
qed (use assms in simp)

text \<open>Even a message that was not read to its end has a valid id.\<close>

lemma read_attrs_tid:
  assumes "read_attrs rest m b = (ok, m', b')"
  shows "sm_tid m' = sm_tid m"
proof -
  have "sm_tid m' = sm_tid m \<and> (ok \<longrightarrow> Length b' \<le> rest)"
    by (rule read_attrs_rule [where P = "\<lambda>n. sm_tid n = sm_tid m", OF _ _ assms]) simp_all
  then show ?thesis by simp
qed

lemma message_read_tid:
  assumes "message_read m b = Some (ok, m', b')" "IsValidTransactionId (sm_tid m)"
  shows "IsValidTransactionId (sm_tid m')"
  using assms by (auto simp: message_read_def Let_def dest: read_attrs_tid split: option.splits prod.splits if_splits)

text \<open>The byte strings of a message that was read are as long as their length fields say.\<close>

definition attr_filled :: "stun_attr \<Rightarrow> bool" where
  "attr_filled t \<longleftrightarrow> (\<forall>s. at_body t = ByteStringBody s \<longrightarrow> (\<exists>bs. s = Some bs \<and> length bs = unat (at_length t)))"

lemma attr_read_filled:
  assumes "attr_read tid t b = (True, t', b')"
  shows "attr_filled t'"
proof (cases "body_class (at_body t) = CBytes")
  case True
  then obtain s where s: "at_body t = ByteStringBody s" by (cases "at_body t") (auto simp: body_class_def)
  then obtain bs b1 where bs: "ReadBytes (unat (at_length t)) b = Some (bs, b1)" "t' = t\<lparr>at_body := ByteStringBody (Some bs)\<rparr>"
    using assms by (auto simp: attr_read_def ByteStringRead_def read_or_def split: option.splits)
  then have "length bs = unat (at_length t)"
    by (auto simp: ReadBytes_def Length_def bb_end_def split: if_splits)
  then show ?thesis using bs(2) by (simp add: attr_filled_def)
next
  case False
  then have "body_class (at_body t') \<noteq> CBytes" using attr_read_class [of t tid b] assms by (simp add: same_class_def)
  then show ?thesis by (auto simp: attr_filled_def body_class_def)
qed

lemma message_read_filled:
  assumes "message_read m b = Some (ok, m', b')" "list_all attr_filled (sm_attrs m)"
  shows "list_all attr_filled (sm_attrs m')"
proof (cases rule: message_read_header [of m b])
  case (attributes m1 b1 ok1 m2 b2)
  have "list_all attr_filled (sm_attrs m2) \<and> (ok1 \<longrightarrow> Length b2 \<le> 0)"
    by (rule read_attrs_rule [OF _ _ attributes(1)]) (simp_all add: attributes(3) attr_read_filled)
  then show ?thesis using attributes(2) assms(1) by (simp split: if_splits)
qed (use assms in simp)

lemma GetAttribute_typed:
  assumes "list_all attr_typed (sm_attrs m)" "GetAttribute ty m = Some t"
  shows "class_of_type ty = Some (body_class (at_body t))"
  using assms by (auto simp: GetAttribute_def list_all_iff attr_typed_def find_Some_iff dest!: nth_mem)

text \<open>C21: whatever a message is read from, a typed getter only ever returns an attribute that is an object of the
  class that the getter casts to; reading an attribute never changes its class.\<close>

theorem getters_type_safe:
  assumes "list_all attr_typed (sm_attrs m)" "message_read m b = Some (ok, m', b')"
  shows "list_all attr_typed (sm_attrs m')
     \<and> (GetAddress ty m' = Some (Some t) \<longrightarrow> body_class (at_body t) = CAddress)
     \<and> (GetUInt32 ty m' = Some (Some t) \<longrightarrow> body_class (at_body t) = CUInt32)
     \<and> (GetByteString ty m' = Some (Some t) \<longrightarrow> body_class (at_body t) = CBytes)
     \<and> (GetErrorCode m' = Some t \<longrightarrow> body_class (at_body t) = CError)
     \<and> (GetUnknownAttributes m' = Some t \<longrightarrow> body_class (at_body t) = CList)"
proof -
  note typed = message_read_typed [OF assms(2,1)]
  note get = GetAttribute_typed [OF typed]
  have "body_class (at_body t) = CAddress" if "GetAddress ty m' = Some (Some t)"
    using that by (auto simp: GetAddress_def class_of_type_def dest!: get split: if_splits option.splits)
  moreover have "body_class (at_body t) = CUInt32" if "GetUInt32 ty m' = Some (Some t)"
    using that by (auto simp: GetUInt32_def class_of_type_def attr_codes dest!: get split: if_splits)
  moreover have "body_class (at_body t) = CBytes" if "GetByteString ty m' = Some (Some t)"
    using that by (auto simp: GetByteString_def class_of_type_def attr_codes dest!: get split: if_splits)
  moreover have "body_class (at_body t) = CError" if "GetErrorCode m' = Some t"
    using get [of STUN_ATTR_ERROR_CODE t] that by (simp add: GetErrorCode_def class_of_type_def attr_codes)
  moreover have "body_class (at_body t) = CList" if "GetUnknownAttributes m' = Some t"
    using get [of STUN_ATTR_UNKNOWN_ATTRIBUTES t] that by (simp add: GetUnknownAttributes_def class_of_type_def attr_codes)
  ultimately show ?thesis using typed by blast
qed

theorem getters_type_safe_witness:
  "\<exists>b b'. message_write test_message (ByteBuffer_empty ORDER_NETWORK) = Some b
     \<and> message_read StunMessage (ByteBuffer_of (Data b) ORDER_NETWORK) = Some (True, test_message, b')
     \<and> list_all attr_typed (sm_attrs test_message)"
proof -
  obtain b b' where b: "message_write test_message (ByteBuffer_empty ORDER_NETWORK) = Some b"
      "message_read StunMessage (ByteBuffer_of (Data b) ORDER_NETWORK) = Some (True, test_message, b')"
    using test_message_roundtrip by blast
  have "list_all attr_typed (sm_attrs StunMessage)" by (simp add: StunMessage_def)
  from getters_type_safe [OF this b(2)] b show ?thesis by blast
qed

section \<open>Where the code does not do what it means to\<close>

text \<open>The length of an unknown attribute is rounded up in 16 bits: the largest three wrap to 0, and an
  attribute that claims 65533 bytes in a message of four is accepted.\<close>

lemma padded16_wraps: "padded16 65533 = 0" "padded16 65534 = 0" "padded16 65535 = 0"
  by (simp_all add: padded16_def)

text \<open>An XORed IPv6 address in a message with a legacy id is announced with 20 bytes and written with four.\<close>

lemma xor_ipv6_legacy_short:
  assumes "at_body t = XorAddressBody True (SocketAddress_of (IP6 v) p)" "length tid = 16"
  shows "at_length (SetAddress (SocketAddress_of (IP6 v) p) t) = 20"
    "length (Data (attr_write tid t (ByteBuffer_empty ORDER_NETWORK))) = 4"
proof -
  show "at_length (SetAddress (SocketAddress_of (IP6 v) p) t) = 20"
    by (simp add: SetAddress_def address_length_def ip_family_def SIZE_IP6_def)
  have "attr_write tid t (ByteBuffer_empty ORDER_NETWORK) =
      WriteUInt16 (xored_port p) (WriteUInt8 2 (WriteUInt8 0 (ByteBuffer_empty ORDER_NETWORK)))"
    using assms by (simp add: attr_write_def XorAddressWrite_def ip_family_def family_code_def GetXoredIP_def
        owner_tid_def Let_def)
  moreover have "holds (WriteUInt16 (xored_port p) (WriteUInt8 2 (WriteUInt8 0 (ByteBuffer_empty ORDER_NETWORK))))
      ((([] @ [0]) @ [2]) @ wire16 ORDER_NETWORK (xored_port p))"
    by (rule u16c.put_enc [OF TrueI u8c.put_enc [OF TrueI u8c.put_enc [OF TrueI holds_empty]]])
  ultimately show "length (Data (attr_write tid t (ByteBuffer_empty ORDER_NETWORK))) = 4"
    by (simp add: holds_def)
qed

end
