(* ===== verification/Stun_Request.thy ===== *)
theory Stun_Request
  imports Stun_Codec Time_Utils
begin

text \<open>
  talk/p2p/base/stunrequest.cc: outstanding STUN requests, their retransmission and the matching
  of responses. Request objects live in a heap; the messages that the manager posts to its
  thread are the list of (delay, request) that are still pending. The virtual methods of a
  request class are \<open>request_class\<close>; the calls of its callbacks are the events an operation returns, to be carried
  out after it: the callbacks of port.cc do not touch the manager, those of stunport.cc and relayport.cc only send
  new requests, which does not interfere with the deletion of the one that is done. \<open>None\<close> is a failing ASSERT or the use of a deleted object.
\<close>

section \<open>State\<close>

record stun_request =
  rq_count :: nat
  rq_timeout :: bool
  rq_managed :: bool
  rq_id :: bytes
  rq_msg :: stun_message
  rq_tstamp :: u32

record request_class =
  rc_prepare :: "stun_message \<Rightarrow> stun_message"
  rc_next_delay :: "stun_request \<Rightarrow> int \<times> stun_request"

datatype request_event =
    SendPacket bytes nat
  | OnResponse stun_request stun_message
  | OnErrorResponse stun_request stun_message
  | OnTimeout stun_request

record request_manager =
  rm_heap :: "nat \<Rightarrow> stun_request option"
  rm_requests :: "(bytes \<times> nat) list"
  rm_posted :: "(int \<times> nat) list"

definition MAX_SENDS :: nat where "MAX_SENDS = 9"
definition DELAY_UNIT :: int where "DELAY_UNIT = 100"
definition DELAY_MAX_FACTOR :: int where "DELAY_MAX_FACTOR = 16"

definition StunRequestManager :: request_manager where
  "StunRequestManager = \<lparr>rm_heap = (\<lambda>_. None), rm_requests = [], rm_posted = []\<rparr>"

section \<open>Requests\<close>

text \<open>The random transaction id is a parameter; the second constructor leaves the time stamp uninitialised.\<close>

definition StunRequest :: "bytes \<Rightarrow> stun_request" where
  "StunRequest tid = \<lparr>rq_count = 0, rq_timeout = False, rq_managed = False, rq_id = tid,
     rq_msg = snd (SetTransactionID tid StunMessage), rq_tstamp = 0\<rparr>"

definition StunRequest_of :: "u32 \<Rightarrow> stun_message \<Rightarrow> stun_request" where
  "StunRequest_of garbage request = \<lparr>rq_count = 0, rq_timeout = False, rq_managed = False,
     rq_id = sm_tid request, rq_msg = request, rq_tstamp = garbage\<rparr>"

definition Construct_request :: "request_class \<Rightarrow> stun_request \<Rightarrow> stun_request option" where
  "Construct_request cls r =
     (if sm_type (rq_msg r) = 0
      then (let r = r\<lparr>rq_msg := rc_prepare cls (rq_msg r)\<rparr>
            in if sm_tid (rq_msg r) = rq_id r \<and> sm_type (rq_msg r) \<noteq> 0 then Some r else None)
      else Some r)"

definition Elapsed :: "u32 \<Rightarrow> stun_request \<Rightarrow> u32" where
  "Elapsed now r = now - rq_tstamp r"

definition GetNextDelay :: "stun_request \<Rightarrow> int \<times> stun_request" where
  "GetNextDelay r =
     (DELAY_UNIT * min (2 ^ rq_count r) DELAY_MAX_FACTOR,
      r\<lparr>rq_count := rq_count r + 1, rq_timeout := rq_timeout r \<or> rq_count r + 1 = MAX_SENDS\<rparr>)"

section \<open>The manager\<close>

definition thread_clear :: "nat \<Rightarrow> request_manager \<Rightarrow> request_manager" where
  "thread_clear p m = m\<lparr>rm_posted := filter (\<lambda>e. snd e \<noteq> p) (rm_posted m)\<rparr>"

definition thread_post :: "int \<Rightarrow> nat \<Rightarrow> request_manager \<Rightarrow> request_manager" where
  "thread_post delay p m = m\<lparr>rm_posted := rm_posted m @ [(delay, p)]\<rparr>"

definition SendDelayed :: "request_class \<Rightarrow> nat \<Rightarrow> int \<Rightarrow> request_manager \<Rightarrow> request_manager option" where
  "SendDelayed cls p delay m =
     (case rm_heap m p of None \<Rightarrow> None
      | Some r \<Rightarrow>
        if rq_managed r \<or> map_of (rm_requests m) (rq_id r) \<noteq> None then None
        else (case Construct_request cls (r\<lparr>rq_managed := True\<rparr>) of None \<Rightarrow> None
              | Some r \<Rightarrow>
                  Some (thread_post delay p
                    (m\<lparr>rm_heap := (rm_heap m)(p \<mapsto> r), rm_requests := (rq_id r, p) # rm_requests m\<rparr>))))"

definition SendRequest :: "request_class \<Rightarrow> nat \<Rightarrow> request_manager \<Rightarrow> request_manager option" where
  "SendRequest cls p m = SendDelayed cls p 0 m"

definition Remove :: "nat \<Rightarrow> request_manager \<Rightarrow> request_manager option" where
  "Remove p m =
     (case rm_heap m p of None \<Rightarrow> None
      | Some r \<Rightarrow>
        if \<not> rq_managed r then None
        else (case map_of (rm_requests m) (rq_id r) of None \<Rightarrow> Some m
              | Some q \<Rightarrow>
                  if q \<noteq> p then None
                  else Some (thread_clear p
                    (m\<lparr>rm_requests := filter (\<lambda>e. fst e \<noteq> rq_id r) (rm_requests m)\<rparr>))))"

definition delete_request :: "nat \<Rightarrow> request_manager \<Rightarrow> request_manager option" where
  "delete_request p m =
     (case Remove p m of None \<Rightarrow> None
      | Some m \<Rightarrow> Some ((thread_clear p m)\<lparr>rm_heap := (rm_heap m)(p := None)\<rparr>))"

fun delete_all :: "nat list \<Rightarrow> request_manager \<Rightarrow> request_manager option" where
  "delete_all [] m = Some m"
| "delete_all (p # ps) m = (case delete_request p m of None \<Rightarrow> None | Some m \<Rightarrow> delete_all ps m)"

definition ClearRequests :: "request_manager \<Rightarrow> request_manager option" where
  "ClearRequests m = delete_all (map snd (rm_requests m)) m"

lemma Remove_shrinks: "Remove p m = Some m' \<Longrightarrow> length (rm_requests m') \<le> length (rm_requests m)"
  by (auto simp: Remove_def thread_clear_def split: option.splits if_splits)

lemma delete_shrinks: "delete_request p m = Some m' \<Longrightarrow> length (rm_requests m') \<le> length (rm_requests m)"
  using Remove_shrinks by (fastforce simp: delete_request_def thread_clear_def split: option.splits)

text \<open>The destructor erases each entry before it deletes the request.\<close>

function destroy_manager :: "request_manager \<Rightarrow> request_manager option" where
  "destroy_manager m =
     (case rm_requests m of [] \<Rightarrow> Some m
      | (tid, p) # rest \<Rightarrow>
          (case delete_request p (m\<lparr>rm_requests := rest\<rparr>) of None \<Rightarrow> None | Some m' \<Rightarrow> destroy_manager m'))"
  by auto
termination
  by (relation "measure (\<lambda>m. length (rm_requests m))") (auto dest!: delete_shrinks)

declare destroy_manager.simps [simp del]

definition CheckResponse :: "stun_message \<Rightarrow> request_manager \<Rightarrow> (bool \<times> request_event list \<times> request_manager) option" where
  "CheckResponse msg m =
     (case map_of (rm_requests m) (sm_tid msg) of None \<Rightarrow> Some (False, [], m)
      | Some p \<Rightarrow>
        (case rm_heap m p of None \<Rightarrow> None
         | Some r \<Rightarrow>
           if sm_type msg = GetStunResponseType (sm_type (rq_msg r))
           then map_option (\<lambda>m. (True, [OnResponse r msg], m)) (delete_request p m)
           else if sm_type msg = GetStunErrorResponseType (sm_type (rq_msg r))
           then map_option (\<lambda>m. (True, [OnErrorResponse r msg], m)) (delete_request p m)
           else Some (False, [], m)))"

definition kStunTransactionIdOffset :: nat where "kStunTransactionIdOffset = 8"

definition CheckResponse_data :: "bytes \<Rightarrow> request_manager \<Rightarrow> (bool \<times> request_event list \<times> request_manager) option" where
  "CheckResponse_data data m =
     (if length data < 20 then Some (False, [], m)
      else (let tid = take kStunTransactionIdLength (drop kStunTransactionIdOffset data)
            in if map_of (rm_requests m) tid = None then Some (False, [], m)
               else (case message_read StunMessage (ByteBuffer_of data ORDER_NETWORK) of
                       None \<Rightarrow> None
                     | Some (ok, msg, _) \<Rightarrow> if \<not> ok then Some (False, [], m) else CheckResponse msg m)))"

text \<open>\<open>OnMessage\<close> of a request whose posted message the thread delivers.\<close>

definition OnMessage :: "request_class \<Rightarrow> u32 \<Rightarrow> nat \<Rightarrow> request_manager \<Rightarrow> (request_event list \<times> request_manager) option" where
  "OnMessage cls now p m =
     (case rm_heap m p of None \<Rightarrow> None
      | Some r \<Rightarrow>
        if \<not> rq_managed r then None
        else if rq_timeout r then map_option (\<lambda>m. ([OnTimeout r], m)) (delete_request p m)
        else (let r = r\<lparr>rq_tstamp := now\<rparr> in
              case message_write (rq_msg r) (ByteBuffer_empty ORDER_NETWORK) of None \<Rightarrow> None
              | Some buf \<Rightarrow>
                  (let (delay, r) = rc_next_delay cls r
                   in Some ([SendPacket (Data buf) p], thread_post delay p (m\<lparr>rm_heap := (rm_heap m)(p \<mapsto> r)\<rparr>)))))"

definition dispatch :: "request_class \<Rightarrow> u32 \<Rightarrow> nat \<Rightarrow> request_manager \<Rightarrow> (request_event list \<times> request_manager) option" where
  "dispatch cls now i m =
     (if i < length (rm_posted m)
      then OnMessage cls now (snd (rm_posted m ! i))
             (m\<lparr>rm_posted := take i (rm_posted m) @ drop (Suc i) (rm_posted m)\<rparr>)
      else Some ([], m))"

definition new_request :: "nat \<Rightarrow> stun_request \<Rightarrow> request_manager \<Rightarrow> request_manager" where
  "new_request p r m = m\<lparr>rm_heap := (rm_heap m)(p \<mapsto> r)\<rparr>"

end
