(* ===== verification/Stun_Request_Proofs.thy ===== *)
theory Stun_Request_Proofs
  imports Stun_Request Stun_Properties
begin

text \<open>
  The manager of outstanding STUN requests keeps its books: every outstanding request is a live
  object under its own transaction id and has exactly one message pending on the thread.
\<close>

section \<open>The invariant\<close>

definition request_ok :: "bytes \<Rightarrow> stun_request \<Rightarrow> bool" where
  "request_ok tid r \<longleftrightarrow> rq_managed r \<and> rq_id r = tid \<and> sm_tid (rq_msg r) = tid \<and> sm_type (rq_msg r) \<noteq> 0
     \<and> IsValidTransactionId tid"

definition objects_ok :: "request_manager \<Rightarrow> bool" where
  "objects_ok m \<longleftrightarrow> distinct (map fst (rm_requests m))
     \<and> (\<forall>(tid, p) \<in> set (rm_requests m). \<exists>r. rm_heap m p = Some r \<and> request_ok tid r)"

definition manager_ok :: "request_manager \<Rightarrow> bool" where
  "manager_ok m \<longleftrightarrow> objects_ok m \<and> mset (map snd (rm_posted m)) = mset (map snd (rm_requests m))"

lemma manager_ok_init: "manager_ok StunRequestManager"
  by (simp add: manager_ok_def objects_ok_def StunRequestManager_def)

lemma object_of:
  assumes "objects_ok m" "(tid, p) \<in> set (rm_requests m)"
  obtains r where "rm_heap m p = Some r" "request_ok tid r"
  using assms by (auto simp: objects_ok_def)

lemma object_ex: "objects_ok m \<Longrightarrow> (tid, p) \<in> set (rm_requests m) \<Longrightarrow> \<exists>r. rm_heap m p = Some r \<and> request_ok tid r"
  by (auto simp: objects_ok_def)

lemma heap_update_ok:
  assumes "objects_ok m" "\<And>t q. (t, q) \<in> set (rm_requests m) \<Longrightarrow> \<exists>s. h q = Some s \<and> request_ok t s"
  shows "objects_ok (m\<lparr>rm_heap := h\<rparr>)"
  using assms by (auto simp: objects_ok_def)

lemma map_of_object: "objects_ok m \<Longrightarrow> map_of (rm_requests m) tid = Some p \<longleftrightarrow> (tid, p) \<in> set (rm_requests m)"
  by (simp add: objects_ok_def)

lemma same_object:
  assumes "objects_ok m" "(tid, p) \<in> set (rm_requests m)" "(tid', p) \<in> set (rm_requests m)"
  shows "tid = tid'"
  using object_of [OF assms(1,2)] object_of [OF assms(1,3)] by (metis option.inject request_ok_def)

lemma filter_id:
  assumes "objects_ok m" "(tid, p) \<in> set (rm_requests m)"
  shows "filter (\<lambda>e. fst e \<noteq> tid) (rm_requests m) = filter (\<lambda>e. snd e \<noteq> p) (rm_requests m)"
proof (rule filter_cong [OF refl])
  fix e assume "e \<in> set (rm_requests m)"
  then have e: "(fst e, snd e) \<in> set (rm_requests m)" by simp
  show "fst e \<noteq> tid \<longleftrightarrow> snd e \<noteq> p"
  proof
    assume "fst e \<noteq> tid"
    then show "snd e \<noteq> p" using same_object [OF assms(1,2), of "fst e"] e by auto
  next
    assume "snd e \<noteq> p"
    then show "fst e \<noteq> tid" using map_of_object [OF assms(1)] assms(2) e by (metis option.inject)
  qed
qed

section \<open>Deleting\<close>

definition without :: "nat \<Rightarrow> request_manager \<Rightarrow> request_manager" where
  "without p m = m\<lparr>rm_heap := (rm_heap m)(p := None), rm_requests := filter (\<lambda>e. snd e \<noteq> p) (rm_requests m),
     rm_posted := filter (\<lambda>e. snd e \<noteq> p) (rm_posted m)\<rparr>"

lemma delete_request_eq:
  assumes "objects_ok m" "(tid, p) \<in> set (rm_requests m)"
  shows "delete_request p m = Some (without p m)"
proof -
  obtain r where r: "rm_heap m p = Some r" "request_ok tid r" by (rule object_of [OF assms])
  have "map_of (rm_requests m) tid = Some p" using map_of_object assms by blast
  then show ?thesis
    using r filter_id [OF assms]
    by (simp add: delete_request_def Remove_def request_ok_def thread_clear_def without_def)
qed

lemma mset_without: "mset (map snd (filter (\<lambda>e. snd e \<noteq> p) xs)) = filter_mset (\<lambda>q. q \<noteq> p) (mset (map snd xs))"
  by (induction xs) auto

lemma without_ok:
  assumes "objects_ok m" "filter_mset (\<lambda>q. q \<noteq> p) (mset (map snd (rm_posted m)))
      = filter_mset (\<lambda>q. q \<noteq> p) (mset (map snd (rm_requests m)))"
  shows "manager_ok (without p m)"
  using assms mset_without [of p "rm_posted m"] mset_without [of p "rm_requests m"]
  by (auto simp: manager_ok_def objects_ok_def without_def distinct_map_filter)

lemma delete_all_ok:
  "manager_ok m \<Longrightarrow> distinct ps \<Longrightarrow> set ps \<subseteq> snd ` set (rm_requests m) \<Longrightarrow>
    \<exists>m'. delete_all ps m = Some m' \<and> manager_ok m' \<and> rm_requests m' = filter (\<lambda>e. snd e \<notin> set ps) (rm_requests m)"
proof (induction ps arbitrary: m)
  case (Cons p ps)
  have ok: "objects_ok m" using Cons.prems(1) by (simp add: manager_ok_def)
  obtain tid where "(tid, p) \<in> set (rm_requests m)" using Cons.prems(3) by auto
  then have d: "delete_request p m = Some (without p m)" using delete_request_eq ok by blast
  have ok': "manager_ok (without p m)" using without_ok [OF ok] Cons.prems(1) by (simp add: manager_ok_def)
  have "set ps \<subseteq> snd ` set (rm_requests (without p m))"
    using Cons.prems(2,3) by (auto simp: without_def image_iff subset_iff) fastforce
  then show ?case using Cons.IH [OF ok'] Cons.prems(2) d by (auto simp: without_def intro: filter_cong)
qed simp

lemma distinct_objects:
  assumes "objects_ok m"
  shows "distinct (map snd (rm_requests m))"
proof -
  have "distinct (rm_requests m)" using assms by (simp add: objects_ok_def distinct_map)
  moreover have "inj_on snd (set (rm_requests m))"
    using same_object [OF assms] by (intro inj_onI) (metis prod.collapse)
  ultimately show ?thesis by (simp add: distinct_map)
qed

lemma ClearRequests_ok:
  assumes "manager_ok m"
  shows "\<exists>m'. ClearRequests m = Some m' \<and> manager_ok m' \<and> rm_requests m' = []"
  using delete_all_ok [OF assms, of "map snd (rm_requests m)"] distinct_objects [of m] assms
  by (auto simp: ClearRequests_def manager_ok_def)

section \<open>Responses\<close>

lemma CheckResponse_ok:
  assumes "manager_ok m"
  shows "\<exists>ok evs m'. CheckResponse msg m = Some (ok, evs, m') \<and> manager_ok m'
     \<and> (if ok then \<exists>p. (sm_tid msg, p) \<in> set (rm_requests m) \<and> m' = without p m else m' = m)"
proof (cases "map_of (rm_requests m) (sm_tid msg)")
  case (Some p)
  have obj: "objects_ok m" using assms by (simp add: manager_ok_def)
  then have p: "(sm_tid msg, p) \<in> set (rm_requests m)" using Some map_of_object by blast
  obtain r where r: "rm_heap m p = Some r" "request_ok (sm_tid msg) r" by (rule object_of [OF obj p])
  have "manager_ok (without p m)" using without_ok [OF obj] assms by (simp add: manager_ok_def)
  then show ?thesis using delete_request_eq [OF obj p] assms p r by (auto simp: CheckResponse_def Some)
qed (use assms in \<open>auto simp: CheckResponse_def\<close>)

lemma CheckResponse_data_ok:
  assumes "manager_ok m"
  shows "\<exists>ok evs m'. CheckResponse_data data m = Some (ok, evs, m') \<and> manager_ok m'"
proof -
  obtain ok msg b where "message_read StunMessage (ByteBuffer_of data ORDER_NETWORK) = Some (ok, msg, b)"
    using message_read_header [of StunMessage "ByteBuffer_of data ORDER_NETWORK"] read_attrs_rule [of "\<lambda>_. True"]
    by (metis (full_types) bot_nat_0.extremum_uniqueI)
  then show ?thesis using CheckResponse_ok [OF assms, of msg] assms by (auto simp: CheckResponse_data_def Let_def)
qed

section \<open>Sending\<close>

text \<open>What the manager relies on of the virtual methods of a request class.\<close>

locale request_client =
  fixes cls :: request_class
  assumes prepare_tid: "sm_tid (rc_prepare cls msg) = sm_tid msg"
    and prepare_type: "sm_type (rc_prepare cls msg) \<noteq> 0"
    and delay_frame: "rc_next_delay cls r = (d, r') \<Longrightarrow>
          rq_id r' = rq_id r \<and> rq_msg r' = rq_msg r \<and> rq_managed r' = rq_managed r"
begin

lemma Construct_ok:
  assumes "rq_id r = sm_tid (rq_msg r)" "rq_managed r" "IsValidTransactionId (rq_id r)"
  shows "\<exists>r'. Construct_request cls r = Some r' \<and> request_ok (rq_id r) r'"
  using assms prepare_tid prepare_type
  by (auto simp: Construct_request_def request_ok_def Let_def)

lemma SendDelayed_ok:
  assumes ok: "manager_ok m" and r: "rm_heap m p = Some r" "\<not> rq_managed r" "rq_id r = sm_tid (rq_msg r)"
    "IsValidTransactionId (rq_id r)" "map_of (rm_requests m) (rq_id r) = None"
  shows "\<exists>m'. SendDelayed cls p delay m = Some m' \<and> manager_ok m'"
proof -
  obtain r' where r': "Construct_request cls (r\<lparr>rq_managed := True\<rparr>) = Some r'" "request_ok (rq_id r) r'"
    using Construct_ok [of "r\<lparr>rq_managed := True\<rparr>"] r(3,4) by auto
  have new: "p \<notin> snd ` set (rm_requests m)" "rq_id r \<notin> fst ` set (rm_requests m)"
    using ok r(1,2,5) by (auto simp: manager_ok_def objects_ok_def request_ok_def map_of_eq_None_iff)
  have "\<exists>r. ((rm_heap m)(p \<mapsto> r')) q = Some r \<and> request_ok tid r" if "(tid, q) \<in> set (rm_requests m)" for tid q
    using object_ex [of m tid q] ok new(1) that by (auto simp: manager_ok_def image_iff)
  then show ?thesis using ok r r' new
    by (auto simp: SendDelayed_def thread_post_def manager_ok_def objects_ok_def request_ok_def)
qed

lemma OnMessage_ok:
  assumes obj: "objects_ok m" and p: "(tid, p) \<in> set (rm_requests m)"
    and posted: "add_mset p (mset (map snd (rm_posted m))) = mset (map snd (rm_requests m))"
  shows "\<exists>evs m'. OnMessage cls now p m = Some (evs, m') \<and> manager_ok m'"
proof -
  obtain r where r: "rm_heap m p = Some r" "request_ok tid r" by (rule object_of [OF obj p])
  show ?thesis
  proof (cases "rq_timeout r")
    case True
    have "filter_mset (\<lambda>q. q \<noteq> p) (mset (map snd (rm_posted m)))
        = filter_mset (\<lambda>q. q \<noteq> p) (mset (map snd (rm_requests m)))"
      using posted [symmetric] by simp
    then show ?thesis using without_ok [OF obj] True r delete_request_eq [OF obj p]
      by (simp add: OnMessage_def request_ok_def)
  next
    case False
    let ?r = "r\<lparr>rq_tstamp := now\<rparr>"
    obtain d r' where d: "rc_next_delay cls ?r = (d, r')" by (cases "rc_next_delay cls ?r")
    then have r': "request_ok tid r'" using delay_frame [OF d] r(2) by (simp add: request_ok_def)
    have "IsLegacy (rq_msg r) \<noteq> None"
      using r(2) by (auto simp: request_ok_def IsLegacy_def IsValidTransactionId_def)
    then obtain buf where w: "message_write (rq_msg r) (ByteBuffer_empty ORDER_NETWORK) = Some buf"
      by (auto simp: message_write_def Let_def)
    have "\<exists>s. ((rm_heap m)(p \<mapsto> r')) q = Some s \<and> request_ok t s" if "(t, q) \<in> set (rm_requests m)" for t q
      using object_ex [OF obj that] same_object [OF obj p, of t] that r' by (cases "q = p") auto
    then have "objects_ok (m\<lparr>rm_heap := (rm_heap m)(p \<mapsto> r')\<rparr>)" by (rule heap_update_ok [OF obj])
    then have "manager_ok (thread_post d p (m\<lparr>rm_heap := (rm_heap m)(p \<mapsto> r')\<rparr>))"
      using posted by (simp add: manager_ok_def objects_ok_def thread_post_def)
    then show ?thesis using r False w d by (simp add: OnMessage_def request_ok_def)
  qed
qed

lemma dispatch_ok:
  assumes "manager_ok m"
  shows "\<exists>evs m'. dispatch cls now i m = Some (evs, m') \<and> manager_ok m'"
proof (cases "i < length (rm_posted m)")
  case True
  let ?p = "snd (rm_posted m ! i)"
  let ?m = "m\<lparr>rm_posted := take i (rm_posted m) @ drop (Suc i) (rm_posted m)\<rparr>"
  have split: "rm_posted m = take i (rm_posted m) @ rm_posted m ! i # drop (Suc i) (rm_posted m)"
    using True by (rule id_take_nth_drop)
  have "add_mset ?p (mset (map snd (rm_posted ?m))) = mset (map snd (rm_posted m))"
    by (subst (2) split) simp
  then have posted: "add_mset ?p (mset (map snd (rm_posted ?m))) = mset (map snd (rm_requests ?m))"
    using assms by (simp add: manager_ok_def)
  then have "?p \<in># mset (map snd (rm_requests ?m))" by (metis union_single_eq_member)
  then obtain tid where "(tid, ?p) \<in> set (rm_requests ?m)" by auto
  moreover have "objects_ok ?m" using assms by (simp add: manager_ok_def objects_ok_def)
  ultimately show ?thesis using OnMessage_ok posted True by (simp add: dispatch_def)
qed (use assms in \<open>simp add: dispatch_def\<close>)

end

section \<open>Runs\<close>

datatype manager_event =
    EvSendRequest nat stun_request int
  | EvDispatch u32 nat
  | EvResponse stun_message
  | EvData bytes
  | EvClearRequests

fun manager_handle :: "request_class \<Rightarrow> manager_event \<Rightarrow> request_manager \<Rightarrow> (request_event list \<times> request_manager) option" where
  "manager_handle cls (EvSendRequest p r delay) m = map_option (\<lambda>m. ([], m)) (SendDelayed cls p delay (new_request p r m))"
| "manager_handle cls (EvDispatch now i) m = dispatch cls now i m"
| "manager_handle cls (EvResponse msg) m = map_option snd (CheckResponse msg m)"
| "manager_handle cls (EvData data) m = map_option snd (CheckResponse_data data m)"
| "manager_handle cls EvClearRequests m = map_option (\<lambda>m. ([], m)) (ClearRequests m)"

text \<open>A request that is sent is a new object, made by one of the constructors, with an id that is not in use.\<close>

fun manager_event_sane :: "request_manager \<Rightarrow> manager_event \<Rightarrow> bool" where
  "manager_event_sane m (EvSendRequest p r delay) \<longleftrightarrow> rm_heap m p = None \<and> \<not> rq_managed r \<and> rq_id r = sm_tid (rq_msg r)
     \<and> IsValidTransactionId (rq_id r) \<and> map_of (rm_requests m) (rq_id r) = None"
| "manager_event_sane m _ \<longleftrightarrow> True"

inductive manager_reachable :: "request_class \<Rightarrow> request_manager \<Rightarrow> bool" for cls where
  start: "manager_reachable cls StunRequestManager"
| step: "manager_reachable cls m \<Longrightarrow> manager_event_sane m e \<Longrightarrow> manager_handle cls e m = Some (evs, m')
    \<Longrightarrow> manager_reachable cls m'"

context request_client
begin

lemma handle_ok:
  assumes "manager_ok m" "manager_event_sane m e"
  shows "\<exists>evs m'. manager_handle cls e m = Some (evs, m') \<and> manager_ok m'"
proof (cases e)
  case (EvSendRequest p r delay)
  then have fresh: "rm_heap m p = None" using assms(2) by simp
  have "\<exists>s. ((rm_heap m)(p \<mapsto> r)) q = Some s \<and> request_ok t s" if "(t, q) \<in> set (rm_requests m)" for t q
    using object_ex [of m t q] that assms(1) fresh by (cases "q = p") (auto simp: manager_ok_def)
  then have "manager_ok (new_request p r m)"
    using assms(1) heap_update_ok [of m "(rm_heap m)(p \<mapsto> r)"] by (simp add: manager_ok_def new_request_def)
  from SendDelayed_ok [OF this, of p r delay] show ?thesis
    using assms(2) EvSendRequest by (auto simp: new_request_def)
next
  case (EvResponse msg)
  then show ?thesis using CheckResponse_ok [OF assms(1), of msg] by auto
next
  case (EvData data)
  then show ?thesis using CheckResponse_data_ok [OF assms(1), of data] by auto
next
  case EvClearRequests
  then show ?thesis using ClearRequests_ok [OF assms(1)] by auto
qed (use dispatch_ok [OF assms(1)] in simp)

lemma reachable_manager_ok: "manager_reachable cls m \<Longrightarrow> manager_ok m"
proof (induction rule: manager_reachable.induct)
  case (step m e evs m')
  then show ?case using handle_ok [of m e] by auto
qed (rule manager_ok_init)

end

section \<open>The plain request class\<close>

text \<open>A request whose message is given beforehand, or prepared as a binding request, with the default delays.\<close>

definition plain_class :: request_class where
  "plain_class = \<lparr>rc_prepare = SetMessageType STUN_BINDING_REQUEST, rc_next_delay = GetNextDelay\<rparr>"

interpretation plain: request_client plain_class
  by unfold_locales
     (auto simp: plain_class_def SetMessageType_def STUN_BINDING_REQUEST_def GetNextDelay_def)

section \<open>The schedule of one request\<close>

text \<open>The count of sends and the timeout flag move together.\<close>

definition counting :: "stun_request \<Rightarrow> bool" where
  "counting r \<longleftrightarrow> rq_count r \<le> MAX_SENDS \<and> (rq_timeout r \<longleftrightarrow> rq_count r = MAX_SENDS)"

lemma GetNextDelay_counting:
  assumes "counting r" "\<not> rq_timeout r"
  shows "counting (snd (GetNextDelay r))" "rq_count (snd (GetNextDelay r)) = Suc (rq_count r)"
  using assms by (auto simp: counting_def GetNextDelay_def)



text \<open>C24: delivering the pending message of an outstanding request either sends its message once and posts the next
  delivery after the delay of its class, or, once it has timed out, reports that and forgets it.\<close>

theorem delivery_sends_or_times_out:
  assumes obj: "objects_ok m" and p: "(tid, p) \<in> set (rm_requests m)" and heap: "rm_heap m p = Some r"
    and d: "rc_next_delay cls (r\<lparr>rq_tstamp := now\<rparr>) = (d, r')"
  shows "if rq_timeout r
     then OnMessage cls now p m = Some ([OnTimeout r], without p m) \<and> map_of (rm_requests (without p m)) tid = None
     else \<exists>buf. message_write (rq_msg r) (ByteBuffer_empty ORDER_NETWORK) = Some buf
       \<and> OnMessage cls now p m = Some ([SendPacket (Data buf) p],
             m\<lparr>rm_heap := (rm_heap m)(p \<mapsto> r'), rm_posted := rm_posted m @ [(d, p)]\<rparr>)"
proof -
  have r: "request_ok tid r" using object_ex [OF obj p] heap by auto
  have gone: "map_of (rm_requests (without p m)) tid = None"
    using filter_id [OF obj p, symmetric] by (simp add: without_def map_of_eq_None_iff) auto
  have "IsLegacy (rq_msg r) \<noteq> None"
    using r by (auto simp: request_ok_def IsLegacy_def IsValidTransactionId_def)
  then have "\<exists>buf. message_write (rq_msg r) (ByteBuffer_empty ORDER_NETWORK) = Some buf"
    by (auto simp: message_write_def Let_def)
  then show ?thesis using r delete_request_eq [OF obj p] heap d gone
    by (auto simp: OnMessage_def request_ok_def thread_post_def)
qed

definition test_manager :: request_manager where
  "test_manager = \<lparr>rm_heap = [2 \<mapsto> (StunRequest test_tid)\<lparr>rq_managed := True, rq_msg := SetMessageType STUN_BINDING_REQUEST
       (snd (SetTransactionID test_tid StunMessage))\<rparr>], rm_requests = [(test_tid, 2)], rm_posted = [(0, 2)]\<rparr>"

lemma test_manager_sent:
  "SendDelayed plain_class 2 0 (new_request 2 (StunRequest test_tid) StunRequestManager) = Some test_manager"
  by (simp add: SendDelayed_def new_request_def StunRequest_def StunRequestManager_def Construct_request_def
      plain_class_def SetTransactionID_def IsValidTransactionId_def test_tid_def kStunTransactionIdLength_def
      StunMessage_def SetMessageType_def STUN_BINDING_REQUEST_def Let_def test_manager_def thread_post_def)

lemma test_manager_reachable: "manager_reachable plain_class test_manager"
proof (rule manager_reachable.step [where e = "EvSendRequest 2 (StunRequest test_tid) 0" and evs = "[]", OF manager_reachable.start])
  show "manager_event_sane StunRequestManager (EvSendRequest 2 (StunRequest test_tid) 0)"
    by (simp add: StunRequestManager_def StunRequest_def SetTransactionID_def IsValidTransactionId_def test_tid_def
        kStunTransactionIdLength_def)
qed (simp add: test_manager_sent)

theorem delivery_sends_or_times_out_witness:
  "\<exists>(r :: stun_request) r' buf. message_write (rq_msg r) (ByteBuffer_empty ORDER_NETWORK) = Some buf
     \<and> OnMessage plain_class 77 2 (test_manager\<lparr>rm_posted := []\<rparr>) = Some ([SendPacket (Data buf) 2],
          test_manager\<lparr>rm_heap := (rm_heap test_manager)(2 \<mapsto> r'), rm_posted := [(100, 2)]\<rparr>)"
proof -
  let ?m = "test_manager\<lparr>rm_posted := []\<rparr>"
  have ok: "objects_ok ?m"
    using plain.reachable_manager_ok [OF test_manager_reachable] by (simp add: manager_ok_def objects_ok_def)
  obtain r where r: "rm_heap ?m 2 = Some r" "rq_count r = 0" "\<not> rq_timeout r"
    by (simp add: test_manager_def StunRequest_def)
  define r' where "r' = snd (GetNextDelay (r\<lparr>rq_tstamp := 77\<rparr>))"
  have d: "rc_next_delay plain_class (r\<lparr>rq_tstamp := 77\<rparr>) = (100, r')"
    using r by (simp add: r'_def plain_class_def GetNextDelay_def DELAY_UNIT_def DELAY_MAX_FACTOR_def)
  have "(test_tid, 2) \<in> set (rm_requests ?m)" by (simp add: test_manager_def)
  from delivery_sends_or_times_out [OF ok this r(1) d] r(3)
  obtain buf where "message_write (rq_msg r) (ByteBuffer_empty ORDER_NETWORK) = Some buf"
      "OnMessage plain_class 77 2 ?m = Some ([SendPacket (Data buf) 2],
         test_manager\<lparr>rm_heap := (rm_heap test_manager)(2 \<mapsto> r'), rm_posted := [(100, 2)]\<rparr>)"
    by auto
  then show ?thesis by blast
qed

text \<open>C7: in every reachable state every send, delivery, response, received packet and clear succeeds without
  running into an assertion or a deleted request, and every outstanding request is alive, filed under its
  own transaction id and has exactly one delivery pending.\<close>

theorem requests_no_abort:
  assumes "manager_reachable cls m" "request_client cls" "manager_event_sane m e"
  shows "(\<exists>evs m'. manager_handle cls e m = Some (evs, m') \<and> manager_ok m')
     \<and> mset (map snd (rm_posted m)) = mset (map snd (rm_requests m))"
  using request_client.handle_ok [OF assms(2) _ assms(3)] request_client.reachable_manager_ok [OF assms(2,1)]
  by (simp add: manager_ok_def)

theorem requests_no_abort_witness:
  "\<exists>evs m'. manager_handle plain_class (EvDispatch 5 0) test_manager = Some (evs, m') \<and> manager_ok m'"
  using requests_no_abort [OF test_manager_reachable plain.request_client_axioms, of "EvDispatch 5 0"] by simp



end
