(* ===== verification/Rate_Tracker.thy ===== *)
theory Rate_Tracker
  imports Time_Utils
begin

text \<open>
  talk/base/ratetracker.cc: units per second of a counter. size_t has 32 bits. The time is a
  parameter; \<open>None\<close> is the undefined overflow of the int product in units_second.
\<close>

record rate_tracker =
  total_units :: u32
  last_rate :: u32
  last_units_second_time :: u32
  last_units_second_calc :: u32

definition RateTracker :: rate_tracker where
  "RateTracker = \<lparr>total_units = 0, last_rate = 0, last_units_second_time = - 1, last_units_second_calc = 0\<rparr>"

definition rate_update :: "u32 \<Rightarrow> rate_tracker \<Rightarrow> rate_tracker" where
  "rate_update units t = t\<lparr>total_units := total_units t + units\<rparr>"

definition new_reference :: "u32 \<Rightarrow> int \<Rightarrow> rate_tracker \<Rightarrow> rate_tracker option" where
  "new_reference current_time delta t =
     (let fraction_time = delta mod 1000;
          seconds = delta div 1000;
          product = sint (total_units t - last_units_second_calc t) * fraction_time
      in if product < - 2147483648 \<or> 2147483647 < product then None
         else (let fraction_units = (if product < 0 then - ((- product) div delta) else product div delta)
               in Some (t\<lparr>last_rate := (total_units t - last_units_second_calc t - of_int fraction_units) div of_int seconds,
                          last_units_second_time := current_time - of_int fraction_time,
                          last_units_second_calc := total_units t - of_int fraction_units\<rparr>)))"

definition units_second :: "u32 \<Rightarrow> rate_tracker \<Rightarrow> (u32 \<times> rate_tracker) option" where
  "units_second current_time t =
     (let delta = TimeDiff current_time (last_units_second_time t)
      in case (if last_units_second_time t \<noteq> - 1 \<and> delta \<ge> 1000 then new_reference current_time delta t else Some t) of
           None \<Rightarrow> None
         | Some t \<Rightarrow>
             (let t = (if last_units_second_time t = - 1
                       then t\<lparr>last_units_second_time := current_time, last_units_second_calc := total_units t\<rparr> else t)
              in Some (last_rate t, t)))"






text \<open>Beyond about two million units in one interval the int product overflows.\<close>

lemma rate_overflow:
  "units_second 1999 \<lparr>total_units = 3000000, last_rate = 0, last_units_second_time = 0, last_units_second_calc = 0\<rparr> = None"
  by (simp add: units_second_def TimeDiff_def new_reference_def Let_def)

end
