(* ===== verification/Port.thy ===== *)
theory Port
  imports Complex_Main Stun_Request Rate_Tracker "HOL-Library.Monad_Syntax"
begin

text \<open>
  talk/p2p/base/port.cc, port.h, candidate.h and udpport.cc: a local port, its connections to
  remote candidates, and the STUN pings by which a connection finds out whether it is readable and
  writable. Ports and connections live in heaps. Of the classes derived from Port the model
  has UDPPort. The messages posted to the thread are the lists of pending
  deliveries \<open>i_deletes\<close> and \<open>i_timers\<close>; the signals raised and the packets sent are the log
  \<open>i_log\<close>, except SignalUnknownAddress, which is a result. The socket's answer to a packet, the
  clock (read once per operation) and random ids are the fields of \<open>net_env\<close>. \<open>None\<close> is a failing
  ASSERT, the use of a deleted object or a read out of bounds.
\<close>

section \<open>Constants\<close>

definition CONNECTION_READ_TIMEOUT :: u32 where "CONNECTION_READ_TIMEOUT = 30 * 1000"
definition CONNECTION_WRITE_TIMEOUT :: u32 where "CONNECTION_WRITE_TIMEOUT = 15 * 1000"
definition CONNECTION_WRITE_CONNECT_TIMEOUT :: u32 where "CONNECTION_WRITE_CONNECT_TIMEOUT = 5 * 1000"
definition CONNECTION_WRITE_CONNECT_FAILURES :: nat where "CONNECTION_WRITE_CONNECT_FAILURES = 5"
definition CONNECTION_RESPONSE_TIMEOUT :: int where "CONNECTION_RESPONSE_TIMEOUT = 5 * 1000"
definition MINIMUM_RTT :: u32 where "MINIMUM_RTT = 100"
definition MAXIMUM_RTT :: u32 where "MAXIMUM_RTT = 3000"
definition DEFAULT_RTT :: u32 where "DEFAULT_RTT = MAXIMUM_RTT"
definition RTT_RATIO :: u32 where "RTT_RATIO = 3"
definition kPortTimeoutDelay :: int where "kPortTimeoutDelay = 30 * 1000"

definition STUN_ERROR_BAD_REQUEST :: u32 where "STUN_ERROR_BAD_REQUEST = 400"
definition STUN_ERROR_UNAUTHORIZED :: u32 where "STUN_ERROR_UNAUTHORIZED = 401"
definition STUN_ERROR_UNKNOWN_ATTRIBUTE :: u32 where "STUN_ERROR_UNKNOWN_ATTRIBUTE = 420"
definition STUN_ERROR_STALE_CREDENTIALS :: u32 where "STUN_ERROR_STALE_CREDENTIALS = 430"
definition STUN_ERROR_SERVER_ERROR :: u32 where "STUN_ERROR_SERVER_ERROR = 500"
definition STUN_ERROR_GLOBAL_FAILURE :: u32 where "STUN_ERROR_GLOBAL_FAILURE = 600"
definition STUN_ERROR_REASON_BAD_REQUEST :: bytes where "STUN_ERROR_REASON_BAD_REQUEST = ascii ''BAD REQUEST''"
definition STUN_ERROR_REASON_STALE_CREDENTIALS :: bytes where
  "STUN_ERROR_REASON_STALE_CREDENTIALS = ascii ''STALE CREDENTIALS''"
definition STUN_ERROR_REASON_SERVER_ERROR :: bytes where "STUN_ERROR_REASON_SERVER_ERROR = ascii ''SERVER ERROR''"

definition LOCAL_PORT_TYPE :: bytes where "LOCAL_PORT_TYPE = ascii ''local''"

section \<open>State\<close>

text \<open>A preference is a float: its value.\<close>

record candidate =
  c_name :: bytes
  c_protocol :: bytes
  c_address :: sock_addr
  c_preference :: rat
  c_username :: bytes
  c_password :: bytes
  c_type :: bytes
  c_network_name :: bytes
  c_generation :: u32

definition IsEquivalent :: "candidate \<Rightarrow> candidate \<Rightarrow> bool" where
  "IsEquivalent a c \<longleftrightarrow> c_name a = c_name c \<and> c_protocol a = c_protocol c \<and> sa_equal (c_address a) (c_address c)
     \<and> c_username a = c_username c \<and> c_password a = c_password c \<and> c_type a = c_type c
     \<and> c_generation a = c_generation c"

datatype protocol_type = PROTO_UDP | PROTO_TCP | PROTO_SSLTCP

definition ProtoToString :: "protocol_type \<Rightarrow> bytes" where
  "ProtoToString proto = ascii (case proto of PROTO_UDP \<Rightarrow> ''udp'' | PROTO_TCP \<Rightarrow> ''tcp'' | PROTO_SSLTCP \<Rightarrow> ''ssltcp'')"

definition StringToProto :: "bytes \<Rightarrow> protocol_type option" where
  "StringToProto value = find (\<lambda>p. ProtoToString p = value) [PROTO_UDP, PROTO_TCP, PROTO_SSLTCP]"

datatype read_state = STATE_READABLE | STATE_READ_TIMEOUT
datatype write_state = STATE_WRITABLE | STATE_WRITE_CONNECT | STATE_WRITE_TIMEOUT
datatype lifetime = LT_PRESTART | LT_PRETIMEOUT | LT_POSTTIMEOUT
datatype candidate_origin = ORIGIN_THIS_PORT | ORIGIN_OTHER_PORT | ORIGIN_MESSAGE

record connection =
  cn_port :: nat
  cn_index :: nat
  cn_remote :: candidate
  cn_read_state :: read_state
  cn_write_state :: write_state
  cn_connected :: bool
  cn_pruned :: bool
  cn_requests :: request_manager
  cn_rtt :: u32
  cn_last_ping_sent :: u32
  cn_last_ping_received :: u32
  cn_last_data_received :: u32
  cn_pings :: "u32 list"
  cn_recv_rate :: rate_tracker
  cn_send_rate :: rate_tracker
  cn_reported :: bool
  cn_error :: int

text \<open>\<open>connections_\<close> is a std::map from addresses: an association list, its keys compared with operator<.\<close>

record port =
  p_type :: bytes
  p_network :: nat
  p_network_name :: bytes
  p_generation :: u32
  p_name :: bytes
  p_username_frag :: bytes
  p_password :: bytes
  p_preference :: rat
  p_candidates :: "candidate list"
  p_connections :: "(sock_addr \<times> nat) list"
  p_lifetime :: lifetime
  p_enable_port_packets :: bool
  p_error :: int

datatype port_signal =
    PacketSent nat bytes sock_addr
  | SignalAddressReady nat
  | SignalConnectionCreated nat nat
  | SignalPortPacket nat bytes sock_addr
  | SignalReadPacket nat bytes
  | SignalStateChange nat
  | SignalConnectionDestroyed nat
  | SignalPortDestroyed nat

record ice =
  i_ports :: "nat \<Rightarrow> port option"
  i_conns :: "nat \<Rightarrow> connection option"
  i_next :: nat
  i_deletes :: "nat list"
  i_timers :: "(int \<times> nat) list"
  i_log :: "port_signal list"

text \<open>The socket answers a packet with the number of bytes sent and its error. \<open>ne_fmul\<close> is the multiplication of floats.\<close>

record net_env =
  ne_now :: u32
  ne_send :: "bytes \<Rightarrow> sock_addr \<Rightarrow> int \<times> int"
  ne_tid :: bytes
  ne_fmul :: "rat \<Rightarrow> rat \<Rightarrow> rat"

definition emit :: "port_signal \<Rightarrow> ice \<Rightarrow> ice" where
  "emit e w = w\<lparr>i_log := i_log w @ [e]\<rparr>"

definition put_conn :: "nat \<Rightarrow> connection \<Rightarrow> ice \<Rightarrow> ice" where
  "put_conn c cn w = w\<lparr>i_conns := (i_conns w)(c \<mapsto> cn)\<rparr>"

definition put_port :: "nat \<Rightarrow> port \<Rightarrow> ice \<Rightarrow> ice" where
  "put_port p pt w = w\<lparr>i_ports := (i_ports w)(p \<mapsto> pt)\<rparr>"

definition amap_find :: "sock_addr \<Rightarrow> (sock_addr \<times> nat) list \<Rightarrow> nat option" where
  "amap_find a m = map_option snd (find (\<lambda>e. equivalent sa_less (fst e) a) m)"

definition amap_erase :: "sock_addr \<Rightarrow> (sock_addr \<times> nat) list \<Rightarrow> (sock_addr \<times> nat) list" where
  "amap_erase a m = filter (\<lambda>e. \<not> equivalent sa_less (fst e) a) m"

definition amap_set :: "sock_addr \<Rightarrow> nat \<Rightarrow> (sock_addr \<times> nat) list \<Rightarrow> (sock_addr \<times> nat) list" where
  "amap_set a c m =
     (if amap_find a m = None then (a, c) # m
      else map (\<lambda>e. if equivalent sa_less (fst e) a then (fst e, c) else e) m)"

section \<open>Estimates\<close>

definition TooManyFailures :: "u32 list \<Rightarrow> nat \<Rightarrow> u32 \<Rightarrow> u32 \<Rightarrow> bool" where
  "TooManyFailures pings maximum_failures rtt_estimate now =
     (if length pings < maximum_failures then False
      else pings ! (maximum_failures - 1) + rtt_estimate < now)"

definition TooLongWithoutResponse :: "u32 list \<Rightarrow> u32 \<Rightarrow> u32 \<Rightarrow> bool" where
  "TooLongWithoutResponse pings maximum_time now =
     (if length pings = 0 then False else pings ! 0 + maximum_time < now)"

definition ConservativeRTTEstimate :: "u32 \<Rightarrow> u32" where
  "ConservativeRTTEstimate rtt = max MINIMUM_RTT (min MAXIMUM_RTT (2 * rtt))"

section \<open>The states of a connection\<close>

definition Connection :: "nat \<Rightarrow> nat \<Rightarrow> candidate \<Rightarrow> connection" where
  "Connection p index remote = \<lparr>cn_port = p, cn_index = index, cn_remote = remote,
     cn_read_state = STATE_READ_TIMEOUT, cn_write_state = STATE_WRITE_CONNECT, cn_connected = True,
     cn_pruned = False, cn_requests = StunRequestManager, cn_rtt = DEFAULT_RTT, cn_last_ping_sent = 0,
     cn_last_ping_received = 0, cn_last_data_received = 0, cn_pings = [], cn_recv_rate = RateTracker,
     cn_send_rate = RateTracker, cn_reported = False, cn_error = 0\<rparr>"

definition local_candidate :: "connection \<Rightarrow> ice \<Rightarrow> candidate option" where
  "local_candidate cn w = do {
     port \<leftarrow> i_ports w (cn_port cn);
     ASSERT (cn_index cn < length (p_candidates port));
     Some (p_candidates port ! cn_index cn)
   }"

text \<open>Posts MSG_DELETE when neither reading nor writing works any more.\<close>

definition CheckTimeout :: "nat \<Rightarrow> ice \<Rightarrow> ice option" where
  "CheckTimeout c w = do {
     cn \<leftarrow> i_conns w c;
     Some (if cn_read_state cn = STATE_READ_TIMEOUT \<and> cn_write_state cn = STATE_WRITE_TIMEOUT
           then w\<lparr>i_deletes := i_deletes w @ [c]\<rparr> else w)
   }"

definition set_read_state :: "read_state \<Rightarrow> nat \<Rightarrow> ice \<Rightarrow> ice option" where
  "set_read_state v c w = do {
     cn \<leftarrow> i_conns w c;
     let w = put_conn c (cn\<lparr>cn_read_state := v\<rparr>) w;
     if v \<noteq> cn_read_state cn then CheckTimeout c (emit (SignalStateChange c) w) else Some w
   }"

definition set_write_state :: "write_state \<Rightarrow> nat \<Rightarrow> ice \<Rightarrow> ice option" where
  "set_write_state v c w = do {
     cn \<leftarrow> i_conns w c;
     let w = put_conn c (cn\<lparr>cn_write_state := v\<rparr>) w;
     if v \<noteq> cn_write_state cn then CheckTimeout c (emit (SignalStateChange c) w) else Some w
   }"

definition Prune :: "nat \<Rightarrow> ice \<Rightarrow> ice option" where
  "Prune c w = do {
     cn \<leftarrow> i_conns w c;
     if \<not> cn_pruned cn
     then do {
       requests \<leftarrow> ClearRequests (cn_requests cn);
       set_write_state STATE_WRITE_TIMEOUT c (put_conn c (cn\<lparr>cn_pruned := True, cn_requests := requests\<rparr>) w)
     }
     else Some w
   }"

definition DestroyConnection :: "nat \<Rightarrow> ice \<Rightarrow> ice option" where
  "DestroyConnection c w = do {
     w \<leftarrow> set_read_state STATE_READ_TIMEOUT c w;
     set_write_state STATE_WRITE_TIMEOUT c w
   }"

definition UpdateState :: "u32 \<Rightarrow> nat \<Rightarrow> ice \<Rightarrow> ice option" where
  "UpdateState now c w = do {
     cn \<leftarrow> i_conns w c;
     let rtt = ConservativeRTTEstimate (cn_rtt cn);
     w \<leftarrow> (if cn_read_state cn = STATE_READABLE \<and> cn_last_ping_received cn + CONNECTION_READ_TIMEOUT \<le> now
           then set_read_state STATE_READ_TIMEOUT c w else Some w);
     w \<leftarrow> (if cn_write_state cn = STATE_WRITABLE
              \<and> TooManyFailures (cn_pings cn) CONNECTION_WRITE_CONNECT_FAILURES rtt now
              \<and> TooLongWithoutResponse (cn_pings cn) CONNECTION_WRITE_CONNECT_TIMEOUT now
           then set_write_state STATE_WRITE_CONNECT c w else Some w);
     cn \<leftarrow> i_conns w c;
     (if cn_write_state cn = STATE_WRITE_CONNECT \<and> TooLongWithoutResponse (cn_pings cn) CONNECTION_WRITE_TIMEOUT now
      then set_write_state STATE_WRITE_TIMEOUT c w else Some w)
   }"

definition ReceivedPing :: "u32 \<Rightarrow> nat \<Rightarrow> ice \<Rightarrow> ice option" where
  "ReceivedPing now c w = do {
     cn \<leftarrow> i_conns w c;
     set_read_state STATE_READABLE c (put_conn c (cn\<lparr>cn_last_ping_received := now\<rparr>) w)
   }"

section \<open>Pings\<close>

text \<open>The virtual methods of ConnectionRequest, for a connection with the USERNAME \<open>username\<close>.\<close>

definition ConnectionRequest :: "bytes \<Rightarrow> request_class" where
  "ConnectionRequest username = \<lparr>
     rc_prepare = (\<lambda>request.
       let request = SetMessageType STUN_BINDING_REQUEST request
       in case CreateByteString STUN_ATTR_USERNAME of None \<Rightarrow> request
          | Some username_attr \<Rightarrow> AddAttribute (CopyBytes username username_attr) request),
     rc_next_delay = (\<lambda>r. (CONNECTION_RESPONSE_TIMEOUT, r\<lparr>rq_timeout := True\<rparr>))\<rparr>"

definition ping_class :: "connection \<Rightarrow> ice \<Rightarrow> request_class option" where
  "ping_class cn w = map_option (\<lambda>port. ConnectionRequest (c_username (cn_remote cn) @ p_username_frag port))
     (i_ports w (cn_port cn))"

definition Ping :: "net_env \<Rightarrow> u32 \<Rightarrow> nat \<Rightarrow> ice \<Rightarrow> ice option" where
  "Ping env now c w = do {
     cn \<leftarrow> i_conns w c;
     ASSERT (cn_connected cn);
     let cn = cn\<lparr>cn_last_ping_sent := now, cn_pings := cn_pings cn @ [now]\<rparr>;
     cls \<leftarrow> ping_class cn w;
     requests \<leftarrow> SendRequest cls (i_next w) (new_request (i_next w) (StunRequest (ne_tid env)) (cn_requests cn));
     Some (put_conn c (cn\<lparr>cn_requests := requests\<rparr>) (w\<lparr>i_next := i_next w + 1\<rparr>))
   }"

definition OnConnectionRequestResponse :: "u32 \<Rightarrow> stun_request \<Rightarrow> nat \<Rightarrow> ice \<Rightarrow> ice option" where
  "OnConnectionRequestResponse now request c w = do {
     let rtt = Elapsed now request;
     w \<leftarrow> set_write_state STATE_WRITABLE c w;
     cn \<leftarrow> i_conns w c;
     Some (put_conn c (cn\<lparr>cn_pings := [], cn_rtt := (RTT_RATIO * cn_rtt cn + rtt) div (RTT_RATIO + 1)\<rparr>) w)
   }"

definition attr_error_code :: "stun_attr \<Rightarrow> u32" where
  "attr_error_code t = (case at_body t of ErrorCodeBody c n _ \<Rightarrow> error_code c n | _ \<Rightarrow> 0)"

definition OnConnectionRequestErrorResponse :: "stun_message \<Rightarrow> nat \<Rightarrow> ice \<Rightarrow> ice option" where
  "OnConnectionRequestErrorResponse response c w =
     (let code = (case GetErrorCode response of Some t \<Rightarrow> attr_error_code t | None \<Rightarrow> STUN_ERROR_GLOBAL_FAILURE)
      in if code = STUN_ERROR_UNKNOWN_ATTRIBUTE \<or> code = STUN_ERROR_SERVER_ERROR \<or> code = STUN_ERROR_UNAUTHORIZED
         then Some w
         else if code = STUN_ERROR_STALE_CREDENTIALS then Some w
         else set_write_state STATE_WRITE_TIMEOUT c w)"

section \<open>Sending through the port\<close>

definition SendTo :: "net_env \<Rightarrow> nat \<Rightarrow> bytes \<Rightarrow> sock_addr \<Rightarrow> ice \<Rightarrow> (int \<times> ice) option" where
  "SendTo env p data addr w = do {
     port \<leftarrow> i_ports w p;
     let (sent, err) = ne_send env data addr;
     let w = emit (PacketSent p data addr) w;
     Some (sent, if sent < 0 then put_port p (port\<lparr>p_error := err\<rparr>) w else w)
   }"

text \<open>ProxyConnection::Send.\<close>

definition ProxySend :: "net_env \<Rightarrow> bytes \<Rightarrow> nat \<Rightarrow> ice \<Rightarrow> (int \<times> ice) option" where
  "ProxySend env data c w = do {
     cn \<leftarrow> i_conns w c;
     if cn_write_state cn \<noteq> STATE_WRITABLE
     then Some (SOCKET_ERROR, put_conn c (cn\<lparr>cn_error := EWOULDBLOCK\<rparr>) w)
     else do {
       (sent, w) \<leftarrow> SendTo env (cn_port cn) data (c_address (cn_remote cn)) w;
       if sent \<le> 0
       then do {
         ASSERT (sent < 0);
         port \<leftarrow> i_ports w (cn_port cn);
         Some (sent, put_conn c (cn\<lparr>cn_error := p_error port\<rparr>) w)
       }
       else Some (sent, put_conn c (cn\<lparr>cn_send_rate := rate_update (word_of_int sent) (cn_send_rate cn)\<rparr>) w)
     }
   }"

text \<open>The connection's slot for SignalSendPacket of its request manager, and the callbacks of its requests.\<close>

fun request_event :: "net_env \<Rightarrow> nat \<Rightarrow> request_event \<Rightarrow> ice \<Rightarrow> ice option" where
  "request_event env c (SendPacket data r) w = do {
     cn \<leftarrow> i_conns w c;
     (sent, w) \<leftarrow> SendTo env (cn_port cn) data (c_address (cn_remote cn)) w;
     Some w
   }"
| "request_event env c (OnResponse r msg) w = OnConnectionRequestResponse (ne_now env) r c w"
| "request_event env c (OnErrorResponse r msg) w = OnConnectionRequestErrorResponse msg c w"
| "request_event env c (OnTimeout r) w = Some w"

fun request_events :: "net_env \<Rightarrow> nat \<Rightarrow> request_event list \<Rightarrow> ice \<Rightarrow> ice option" where
  "request_events env c [] w = Some w"
| "request_events env c (e # es) w = do { w \<leftarrow> request_event env c e w; request_events env c es w }"

text \<open>The thread delivers the \<open>i\<close>-th pending message of the connection's requests.\<close>

definition DispatchRequest :: "net_env \<Rightarrow> nat \<Rightarrow> nat \<Rightarrow> ice \<Rightarrow> ice option" where
  "DispatchRequest env c i w = do {
     cn \<leftarrow> i_conns w c;
     cls \<leftarrow> ping_class cn w;
     (evs, requests) \<leftarrow> dispatch cls (ne_now env) i (cn_requests cn);
     request_events env c evs (put_conn c (cn\<lparr>cn_requests := requests\<rparr>) w)
   }"

end
