(* ===== verification/Port_Ops.thy ===== *)
theory Port_Ops
  imports Port
begin

text \<open>
  The rest of talk/p2p/base/port.cc, and udpport.cc: creating connections, authenticating and
  answering STUN messages, receiving packets, and the end of connections and ports.
\<close>

section \<open>The port\<close>

text \<open>The user name fragment and the password are random strings.\<close>

definition UDPPort :: "bytes \<Rightarrow> bytes \<Rightarrow> nat \<Rightarrow> bytes \<Rightarrow> port" where
  "UDPPort frag password network network_name = \<lparr>p_type = LOCAL_PORT_TYPE, p_network = network,
     p_network_name = network_name, p_generation = 0, p_name = [], p_username_frag = frag, p_password = password,
     p_preference = - 1, p_candidates = [], p_connections = [], p_lifetime = LT_PRESTART,
     p_enable_port_packets = False, p_error = 0\<rparr>"

definition GetConnection :: "nat \<Rightarrow> sock_addr \<Rightarrow> ice \<Rightarrow> nat option option" where
  "GetConnection p addr w = map_option (\<lambda>port. amap_find addr (p_connections port)) (i_ports w p)"

definition AddAddress :: "nat \<Rightarrow> sock_addr \<Rightarrow> bytes \<Rightarrow> bool \<Rightarrow> ice \<Rightarrow> ice option" where
  "AddAddress p address protocol final w = do {
     port \<leftarrow> i_ports w p;
     let c = \<lparr>c_name = p_name port, c_protocol = protocol, c_address = address, c_preference = p_preference port,
              c_username = p_username_frag port, c_password = p_password port, c_type = p_type port,
              c_network_name = p_network_name port, c_generation = p_generation port\<rparr>;
     let w = put_port p (port\<lparr>p_candidates := p_candidates port @ [c]\<rparr>) w;
     Some (if final then emit (SignalAddressReady p) w else w)
   }"

definition AddConnection :: "nat \<Rightarrow> nat \<Rightarrow> ice \<Rightarrow> ice option" where
  "AddConnection p c w = do {
     port \<leftarrow> i_ports w p;
     cn \<leftarrow> i_conns w c;
     let w = put_port p (port\<lparr>p_connections := amap_set (c_address (cn_remote cn)) c (p_connections port)\<rparr>) w;
     Some (emit (SignalConnectionCreated p c) w)
   }"

text \<open>UDPPort::CreateConnection: the new connection, or null.\<close>

definition UDP_CreateConnection :: "nat \<Rightarrow> candidate \<Rightarrow> candidate_origin \<Rightarrow> ice \<Rightarrow> (nat option \<times> ice) option" where
  "UDP_CreateConnection p address origin w =
     (if c_protocol address \<noteq> ascii ''udp'' then Some (None, w)
      else do {
        let c = i_next w;
        let w = put_conn c (Connection p 0 address) (w\<lparr>i_next := i_next w + 1\<rparr>);
        w \<leftarrow> AddConnection p c w;
        Some (Some c, w)
      })"

definition EnablePortPackets :: "nat \<Rightarrow> ice \<Rightarrow> ice option" where
  "EnablePortPackets p w = map_option (\<lambda>port. put_port p (port\<lparr>p_enable_port_packets := True\<rparr>) w) (i_ports w p)"

definition StartPort :: "nat \<Rightarrow> ice \<Rightarrow> ice option" where
  "StartPort p w = do {
     port \<leftarrow> i_ports w p;
     Some (if p_lifetime port = LT_PRESTART
           then (put_port p (port\<lparr>p_lifetime := LT_PRETIMEOUT\<rparr>) w)\<lparr>i_timers := i_timers w @ [(kPortTimeoutDelay, p)]\<rparr>
           else w)
   }"

section \<open>STUN messages\<close>

text \<open>The bytes that \<open>bytes()\<close> and \<open>length()\<close> of a byte string attribute delimit.\<close>

definition attr_string :: "stun_attr \<Rightarrow> bytes option" where
  "attr_string t =
     (case at_body t of
        ByteStringBody (Some bs) \<Rightarrow> if unat (at_length t) \<le> length bs then Some (take (unat (at_length t)) bs) else None
      | ByteStringBody None \<Rightarrow> if at_length t = 0 then Some [] else None
      | _ \<Rightarrow> None)"

text \<open>What both responses start with: type, transaction id and the USERNAME of the request.\<close>

definition response_to :: "u16 \<Rightarrow> stun_message \<Rightarrow> stun_message option" where
  "response_to ty request = do {
     username_attr \<leftarrow> GetByteString STUN_ATTR_USERNAME request;
     username_attr \<leftarrow> username_attr;
     username \<leftarrow> attr_string username_attr;
     let response = snd (SetTransactionID (sm_tid request) (SetMessageType ty StunMessage));
     username2_attr \<leftarrow> CreateByteString STUN_ATTR_USERNAME;
     Some (AddAttribute (CopyBytes username username2_attr) response)
   }"

definition binding_response :: "stun_message \<Rightarrow> sock_addr \<Rightarrow> stun_message option" where
  "binding_response request addr = do {
     response \<leftarrow> response_to STUN_BINDING_RESPONSE request;
     addr_attr \<leftarrow> CreateAddress STUN_ATTR_MAPPED_ADDRESS;
     Some (AddAttribute (attr_SetIP (sa_ip addr) (attr_SetPort (sa_port addr) addr_attr)) response)
   }"

definition SendBindingResponse :: "net_env \<Rightarrow> nat \<Rightarrow> stun_message \<Rightarrow> sock_addr \<Rightarrow> ice \<Rightarrow> ice option" where
  "SendBindingResponse env p request addr w = do {
     ASSERT (sm_type request = STUN_BINDING_REQUEST);
     response \<leftarrow> binding_response request addr;
     buf \<leftarrow> message_write response (ByteBuffer_empty ORDER_NETWORK);
     (sent, w) \<leftarrow> SendTo env p (Data buf) addr w;
     conn \<leftarrow> GetConnection p addr w;
     conn \<leftarrow> conn;
     ReceivedPing (ne_now env) conn w
   }"

definition binding_error_response :: "stun_message \<Rightarrow> u32 \<Rightarrow> bytes \<Rightarrow> stun_message option" where
  "binding_error_response request code reason = do {
     response \<leftarrow> response_to STUN_BINDING_ERROR_RESPONSE request;
     Some (AddAttribute (SetReason reason (SetErrorCode code CreateErrorCode)) response)
   }"

definition SendBindingErrorResponse :: "net_env \<Rightarrow> nat \<Rightarrow> stun_message \<Rightarrow> sock_addr \<Rightarrow> u32 \<Rightarrow> bytes \<Rightarrow> ice \<Rightarrow> ice option" where
  "SendBindingErrorResponse env p request addr code reason w = do {
     ASSERT (sm_type request = STUN_BINDING_REQUEST);
     response \<leftarrow> binding_error_response request code reason;
     buf \<leftarrow> message_write response (ByteBuffer_empty ORDER_NETWORK);
     (sent, w) \<leftarrow> SendTo env p (Data buf) addr w;
     Some w
   }"

text \<open>Not STUN (false), STUN that is dealt with (true and null), or a message with the remote user name.\<close>

datatype stun_packet = NotStun | HandledStun | ValidStun stun_message bytes

definition GetStunMessage :: "net_env \<Rightarrow> nat \<Rightarrow> bytes \<Rightarrow> sock_addr \<Rightarrow> ice \<Rightarrow> (stun_packet \<times> ice) option" where
  "GetStunMessage env p data addr w = do {
     port \<leftarrow> i_ports w p;
     (ok, msg, buf) \<leftarrow> message_read StunMessage (ByteBuffer_of data ORDER_NETWORK);
     if \<not> ok \<or> Length buf > 0 then Some (NotStun, w)
     else do {
       username_attr \<leftarrow> GetByteString STUN_ATTR_USERNAME msg;
       let frag = p_username_frag port;
       let remote_frag_len = (case username_attr of Some t \<Rightarrow> int (unat (at_length t)) | None \<Rightarrow> 0) - int (length frag);
       if sm_type msg = STUN_BINDING_REQUEST
       then if remote_frag_len < 0 then Some (HandledStun, w)
            else do {
              username_attr \<leftarrow> username_attr;
              username \<leftarrow> attr_string username_attr;
              if take (length frag) username \<noteq> frag
              then do {
                w \<leftarrow> SendBindingErrorResponse env p msg addr STUN_ERROR_BAD_REQUEST STUN_ERROR_REASON_BAD_REQUEST w;
                Some (HandledStun, w)
              }
              else Some (ValidStun msg (drop (length frag) username), w)
            }
       else if sm_type msg = STUN_BINDING_RESPONSE \<or> sm_type msg = STUN_BINDING_ERROR_RESPONSE
       then if remote_frag_len < 0 then Some (HandledStun, w)
            else do {
              username_attr \<leftarrow> username_attr;
              username \<leftarrow> attr_string username_attr;
              if drop (nat remote_frag_len) username \<noteq> frag then Some (HandledStun, w)
              else if sm_type msg = STUN_BINDING_ERROR_RESPONSE \<and> GetErrorCode msg = None then Some (HandledStun, w)
              else Some (ValidStun msg (take (nat remote_frag_len) username), w)
            }
       else Some (HandledStun, w)
     }
   }"

section \<open>Receiving packets\<close>

text \<open>The result of a port is the request and the remote user name with which SignalUnknownAddress is raised, if it is.\<close>

definition Port_OnReadPacket :: "net_env \<Rightarrow> nat \<Rightarrow> bytes \<Rightarrow> sock_addr \<Rightarrow> ice \<Rightarrow> ((stun_message \<times> bytes) option \<times> ice) option" where
  "Port_OnReadPacket env p data addr w = do {
     port \<leftarrow> i_ports w p;
     if p_enable_port_packets port then Some (None, emit (SignalPortPacket p data addr) w)
     else do {
       (r, w) \<leftarrow> GetStunMessage env p data addr w;
       Some (case r of
               ValidStun msg remote_username \<Rightarrow>
                 if sm_type msg = STUN_BINDING_REQUEST then Some (msg, remote_username) else None
             | _ \<Rightarrow> None, w)
     }
   }"

text \<open>Probe again when the writability checks had timed out.\<close>

definition reprobe :: "nat \<Rightarrow> ice \<Rightarrow> ice option" where
  "reprobe c w = do {
     cn \<leftarrow> i_conns w c;
     if \<not> cn_pruned cn \<and> cn_write_state cn = STATE_WRITE_TIMEOUT then set_write_state STATE_WRITE_CONNECT c w
     else Some w
   }"

definition Connection_OnReadPacket :: "net_env \<Rightarrow> nat \<Rightarrow> bytes \<Rightarrow> ice \<Rightarrow> ice option" where
  "Connection_OnReadPacket env c data w = do {
     cn \<leftarrow> i_conns w c;
     let p = cn_port cn;
     let addr = c_address (cn_remote cn);
     (r, w) \<leftarrow> GetStunMessage env p data addr w;
     (case r of
        NotStun \<Rightarrow>
          if cn_read_state cn = STATE_READABLE
          then reprobe c (emit (SignalReadPacket c data)
                 (put_conn c (cn\<lparr>cn_last_data_received := ne_now env,
                    cn_recv_rate := rate_update (of_nat (length data)) (cn_recv_rate cn)\<rparr>) w))
          else Some w
      | HandledStun \<Rightarrow> Some w
      | ValidStun msg remote_username \<Rightarrow>
          if remote_username \<noteq> c_username (cn_remote cn)
          then if sm_type msg = STUN_BINDING_REQUEST
               then SendBindingErrorResponse env p msg addr STUN_ERROR_BAD_REQUEST STUN_ERROR_REASON_BAD_REQUEST w
               else Some w
          else if sm_type msg = STUN_BINDING_REQUEST
          then do {
            w \<leftarrow> SendBindingResponse env p msg addr w;
            reprobe c w
          }
          else if sm_type msg = STUN_BINDING_RESPONSE \<or> sm_type msg = STUN_BINDING_ERROR_RESPONSE
          then do {
            (_, evs, requests) \<leftarrow> CheckResponse msg (cn_requests cn);
            request_events env c evs (put_conn c (cn\<lparr>cn_requests := requests\<rparr>) w)
          }
          else None)
   }"

definition UDP_OnReadPacket :: "net_env \<Rightarrow> nat \<Rightarrow> bytes \<Rightarrow> sock_addr \<Rightarrow> ice \<Rightarrow> ((stun_message \<times> bytes) option \<times> ice) option" where
  "UDP_OnReadPacket env p data remote_addr w = do {
     conn \<leftarrow> GetConnection p remote_addr w;
     (case conn of
        Some c \<Rightarrow> map_option (\<lambda>w. (None, w)) (Connection_OnReadPacket env c data w)
      | None \<Rightarrow> Port_OnReadPacket env p data remote_addr w)
   }"

section \<open>The end of connections and ports\<close>

text \<open>The destructors: the requests go with their manager, pending messages with their handler.\<close>

definition delete_connection :: "nat \<Rightarrow> ice \<Rightarrow> ice option" where
  "delete_connection c w = do {
     cn \<leftarrow> i_conns w c;
     requests \<leftarrow> destroy_manager (cn_requests cn);
     Some (w\<lparr>i_conns := (i_conns w)(c := None), i_deletes := filter (\<lambda>d. d \<noteq> c) (i_deletes w)\<rparr>)
   }"

fun delete_connections :: "nat list \<Rightarrow> ice \<Rightarrow> ice option" where
  "delete_connections [] w = Some w"
| "delete_connections (c # cs) w = do { w \<leftarrow> delete_connection c w; delete_connections cs w }"

definition delete_port :: "nat \<Rightarrow> ice \<Rightarrow> ice option" where
  "delete_port p w = do {
     port \<leftarrow> i_ports w p;
     w \<leftarrow> delete_connections (map snd (p_connections port)) w;
     Some (w\<lparr>i_ports := (i_ports w)(p := None), i_timers := filter (\<lambda>d. snd d \<noteq> p) (i_timers w)\<rparr>)
   }"

definition DestroyPort :: "nat \<Rightarrow> ice \<Rightarrow> ice option" where
  "DestroyPort p w = do {
     port \<leftarrow> i_ports w p;
     ASSERT (p_connections port = []);
     delete_port p (emit (SignalPortDestroyed p) w)
   }"

definition CheckPortTimeout :: "nat \<Rightarrow> ice \<Rightarrow> ice option" where
  "CheckPortTimeout p w = do {
     port \<leftarrow> i_ports w p;
     if p_lifetime port = LT_POSTTIMEOUT \<and> p_connections port = [] then DestroyPort p w else Some w
   }"

definition OnConnectionDestroyed :: "nat \<Rightarrow> nat \<Rightarrow> ice \<Rightarrow> ice option" where
  "OnConnectionDestroyed p c w = do {
     port \<leftarrow> i_ports w p;
     cn \<leftarrow> i_conns w c;
     let addr = c_address (cn_remote cn);
     ASSERT (amap_find addr (p_connections port) \<noteq> None);
     CheckPortTimeout p (put_port p (port\<lparr>p_connections := amap_erase addr (p_connections port)\<rparr>) w)
   }"

text \<open>MSG_DELETE: the port is the first slot of SignalDestroyed; the others follow after the result.\<close>

definition Connection_OnMessage :: "nat \<Rightarrow> ice \<Rightarrow> ice option" where
  "Connection_OnMessage c w = do {
     cn \<leftarrow> i_conns w c;
     w \<leftarrow> OnConnectionDestroyed (cn_port cn) c w;
     delete_connection c (emit (SignalConnectionDestroyed c) w)
   }"

text \<open>MSG_CHECKTIMEOUT.\<close>

definition Port_OnMessage :: "nat \<Rightarrow> ice \<Rightarrow> ice option" where
  "Port_OnMessage p w = do {
     port \<leftarrow> i_ports w p;
     ASSERT (p_lifetime port = LT_PRETIMEOUT);
     CheckPortTimeout p (put_port p (port\<lparr>p_lifetime := LT_POSTTIMEOUT\<rparr>) w)
   }"

end
