(* ===== verification/Port_Proofs.thy ===== *)
theory Port_Proofs
  imports Stun_Request_Proofs Port_Ops Stun_Properties
begin

text \<open>
  The heap of ports and connections stays in order (talk/p2p/base/port.cc): every connection is
  filed with its port under its remote address, ports have a candidate and a user name,
  deliveries are pending only for live objects, and no operation of a live object fails.
\<close>

section \<open>The requests of a connection\<close>

definition requests_ok :: "nat \<Rightarrow> request_manager \<Rightarrow> bool" where
  "requests_ok n m \<longleftrightarrow> manager_ok m \<and> (\<forall>q \<ge> n. rm_heap m q = None)"

lemma requests_ok_init: "requests_ok n StunRequestManager"
  by (simp add: requests_ok_def manager_ok_init) (simp add: StunRequestManager_def)

lemma requests_ok_mono: "requests_ok n m \<Longrightarrow> n \<le> n' \<Longrightarrow> requests_ok n' m"
  by (simp add: requests_ok_def)

definition heap_le :: "request_manager \<Rightarrow> request_manager \<Rightarrow> bool" where
  "heap_le m' m \<longleftrightarrow> (\<forall>q. rm_heap m q = None \<longrightarrow> rm_heap m' q = None)"

lemma Remove_heap: "Remove p m = Some m' \<Longrightarrow> rm_heap m' = rm_heap m"
  by (auto simp: Remove_def thread_clear_def split: option.splits if_splits)

lemma delete_request_heap: "delete_request p m = Some m' \<Longrightarrow> heap_le m' m"
  using Remove_heap by (fastforce simp: delete_request_def heap_le_def thread_clear_def split: option.splits)

lemma heap_le_trans: "heap_le m'' m' \<Longrightarrow> heap_le m' m \<Longrightarrow> heap_le m'' m"
  by (simp add: heap_le_def)

lemma heap_le_refl: "heap_le m m"
  by (simp add: heap_le_def)

lemma delete_all_heap: "delete_all ps m = Some m' \<Longrightarrow> heap_le m' m"
  by (induction ps arbitrary: m)
     (auto simp: heap_le_refl split: option.splits dest: delete_request_heap heap_le_trans)

lemma CheckResponse_heap: "CheckResponse msg m = Some (b, evs, m') \<Longrightarrow> heap_le m' m"
  by (auto simp: CheckResponse_def heap_le_refl dest: delete_request_heap split: option.splits if_splits)

lemma OnMessage_heap: "OnMessage cls now p m = Some (evs, m') \<Longrightarrow> heap_le m' m"
  by (auto simp: OnMessage_def Let_def thread_post_def heap_le_def split: option.splits if_splits prod.splits
      dest!: delete_request_heap)

lemma dispatch_heap: "dispatch cls now i m = Some (evs, m') \<Longrightarrow> heap_le m' m"
  by (auto simp: dispatch_def heap_le_refl split: if_splits dest!: OnMessage_heap) (simp add: heap_le_def)

lemma heap_le_ok: "requests_ok n m \<Longrightarrow> heap_le m' m \<Longrightarrow> manager_ok m' \<Longrightarrow> requests_ok n m'"
  by (simp add: requests_ok_def heap_le_def)

lemma destroy_manager_ok:
  assumes "objects_ok m"
  shows "\<exists>m'. destroy_manager m = Some m'"
  using assms
proof (induction m rule: destroy_manager.induct)
  case (1 m)
  show ?case
  proof (cases "rm_requests m")
    case Nil
    then show ?thesis by (subst destroy_manager.simps) simp
  next
    case (Cons e rest)
    obtain tid p where e: "e = (tid, p)" by (cases e)
    let ?m = "m\<lparr>rm_requests := rest\<rparr>"
    obtain r where r: "rm_heap m p = Some r" "request_ok tid r"
      using object_ex [OF "1.prems", of tid p] Cons e by auto
    have "tid \<notin> fst ` set rest" using "1.prems" Cons e by (simp add: objects_ok_def)
    then have "map_of rest tid = None" by (simp add: map_of_eq_None_iff)
    then have rem: "Remove p ?m = Some ?m" using r by (simp add: Remove_def request_ok_def)
    obtain m' where m': "m' = (thread_clear p ?m)\<lparr>rm_heap := (rm_heap m)(p := None)\<rparr>" by simp
    have del: "delete_request p ?m = Some m'" by (simp add: delete_request_def rem m')
    have "p \<notin> snd ` set rest"
    proof
      assume "p \<in> snd ` set rest"
      then obtain t where t: "(t, p) \<in> set rest" by auto
      then have "t = tid" using same_object [OF "1.prems", of tid p t] Cons e by simp
      then show False using t \<open>tid \<notin> fst ` set rest\<close> by force
    qed
    then have "objects_ok m'"
      using "1.prems" Cons e by (auto simp: objects_ok_def m' thread_clear_def image_iff)
    then have "\<exists>m''. destroy_manager m' = Some m''"
      using "1.IH" [OF Cons [unfolded e] refl del] by simp
    then show ?thesis using Cons e del by (subst destroy_manager.simps) simp
  qed
qed

interpretation ping: request_client "ConnectionRequest username" for username
  by unfold_locales
     (auto simp: ConnectionRequest_def SetMessageType_def CreateByteString_def AddAttribute_def STUN_BINDING_REQUEST_def)

section \<open>The invariant\<close>

record conn_id =
  id_port :: nat
  id_index :: nat
  id_remote :: candidate
  id_connected :: bool

definition conn_static :: "connection \<Rightarrow> conn_id" where
  "conn_static cn = \<lparr>id_port = cn_port cn, id_index = cn_index cn, id_remote = cn_remote cn, id_connected = cn_connected cn\<rparr>"

definition port_static :: "port \<Rightarrow> port" where
  "port_static pt = pt\<lparr>p_error := 0\<rparr>"

definition ports_view :: "ice \<Rightarrow> nat \<Rightarrow> port option" where
  "ports_view w = (\<lambda>p. map_option port_static (i_ports w p))"

definition conns_view :: "ice \<Rightarrow> nat \<Rightarrow> conn_id option" where
  "conns_view w = (\<lambda>c. map_option conn_static (i_conns w c))"

definition port_ok :: "(nat \<Rightarrow> conn_id option) \<Rightarrow> nat \<Rightarrow> port \<Rightarrow> bool" where
  "port_ok C p pt \<longleftrightarrow> p_username_frag pt \<noteq> [] \<and> p_candidates pt \<noteq> []
     \<and> (\<forall>c \<in> set (p_candidates pt). c_preference c = p_preference pt)
     \<and> distinct (map snd (p_connections pt))
     \<and> (\<forall>(a, c) \<in> set (p_connections pt). \<exists>d. C c = Some d \<and> id_port d = p \<and> sa_equal a (c_address (id_remote d)))"

definition conn_ok :: "(nat \<Rightarrow> port option) \<Rightarrow> nat \<Rightarrow> conn_id \<Rightarrow> bool" where
  "conn_ok P c d \<longleftrightarrow> id_index d = 0 \<and> id_connected d
     \<and> (\<exists>pt. P (id_port d) = Some pt \<and> amap_find (c_address (id_remote d)) (p_connections pt) = Some c)"

definition static_inv :: "(nat \<Rightarrow> port option) \<Rightarrow> (nat \<Rightarrow> conn_id option) \<Rightarrow> nat \<Rightarrow> bool" where
  "static_inv P C n \<longleftrightarrow> (\<forall>p pt. P p = Some pt \<longrightarrow> p < n \<and> port_ok C p pt)
     \<and> (\<forall>c d. C c = Some d \<longrightarrow> c < n \<and> conn_ok P c d)"

definition timers_ok :: "(nat \<Rightarrow> port option) \<Rightarrow> (int \<times> nat) list \<Rightarrow> bool" where
  "timers_ok P ts \<longleftrightarrow> distinct (map snd ts)
     \<and> (\<forall>p. p \<in> snd ` set ts \<longleftrightarrow> (\<exists>pt. P p = Some pt \<and> p_lifetime pt = LT_PRETIMEOUT))"

definition ice_ok :: "ice \<Rightarrow> bool" where
  "ice_ok w \<longleftrightarrow> static_inv (ports_view w) (conns_view w) (i_next w)
     \<and> (\<forall>c cn. i_conns w c = Some cn \<longrightarrow> requests_ok (i_next w) (cn_requests cn))
     \<and> (\<forall>c \<in> set (i_deletes w). i_conns w c \<noteq> None) \<and> timers_ok (ports_view w) (i_timers w)"

text \<open>Steps that create and destroy nothing and raise no signal of an end.\<close>

fun benign :: "port_signal \<Rightarrow> bool" where
  "benign (SignalConnectionDestroyed c) = False"
| "benign (SignalPortDestroyed p) = False"
| "benign _ = True"

definition frame :: "ice \<Rightarrow> ice \<Rightarrow> bool" where
  "frame w w' \<longleftrightarrow> ports_view w' = ports_view w \<and> conns_view w' = conns_view w \<and> i_next w \<le> i_next w'
     \<and> i_timers w' = i_timers w \<and> (\<exists>es. i_log w' = i_log w @ es \<and> list_all benign es)"

definition steps :: "ice \<Rightarrow> ice \<Rightarrow> bool" where
  "steps w w' \<longleftrightarrow> frame w w' \<and> ice_ok w'"

lemma frame_refl: "frame w w"
  by (simp add: frame_def)

lemma frame_trans:
  assumes "frame w w'" "frame w' w''"
  shows "frame w w''"
proof -
  obtain es es' where "i_log w' = i_log w @ es" "list_all benign es" "i_log w'' = i_log w' @ es'" "list_all benign es'"
    using assms by (auto simp: frame_def)
  then have "i_log w'' = i_log w @ (es @ es')" "list_all benign (es @ es')" by simp_all
  then show ?thesis using assms unfolding frame_def by (metis order_trans)
qed

lemma steps_refl: "ice_ok w \<Longrightarrow> steps w w"
  by (simp add: steps_def frame_refl)

lemma steps_trans: "steps w w' \<Longrightarrow> steps w' w'' \<Longrightarrow> steps w w''"
  using frame_trans by (auto simp: steps_def)

lemma steps_ok: "steps w w' \<Longrightarrow> ice_ok w'"
  by (simp add: steps_def)

lemma view_conn: "conns_view w c = Some d \<longleftrightarrow> (\<exists>cn. i_conns w c = Some cn \<and> d = conn_static cn)"
  by (auto simp: conns_view_def)

lemma view_port: "ports_view w p = Some q \<longleftrightarrow> (\<exists>pt. i_ports w p = Some pt \<and> q = port_static pt)"
  by (auto simp: ports_view_def)

lemma steps_alive: "steps w w' \<Longrightarrow> i_conns w' c = None \<longleftrightarrow> i_conns w c = None"
  unfolding steps_def frame_def conns_view_def by (metis option.map_disc_iff)

lemma steps_alive_port: "steps w w' \<Longrightarrow> i_ports w' p = None \<longleftrightarrow> i_ports w p = None"
  unfolding steps_def frame_def ports_view_def by (metis option.map_disc_iff)

lemma steps_conn:
  assumes "steps w w'" "i_conns w c = Some cn"
  shows "\<exists>cn'. i_conns w' c = Some cn' \<and> conn_static cn' = conn_static cn"
proof -
  have "conns_view w' c = Some (conn_static cn)"
    using assms by (simp add: steps_def frame_def conns_view_def)
  then show ?thesis by (auto simp: view_conn)
qed

lemma conn_static_eq:
  "conn_static cn' = conn_static cn \<longleftrightarrow> cn_port cn' = cn_port cn \<and> cn_index cn' = cn_index cn
     \<and> cn_remote cn' = cn_remote cn \<and> cn_connected cn' = cn_connected cn"
  by (simp add: conn_static_def)

lemma static_inv_mono: "static_inv P C n \<Longrightarrow> n \<le> n' \<Longrightarrow> static_inv P C n'"
  unfolding static_inv_def by (meson order_less_le_trans)

section \<open>Safe operations\<close>

text \<open>The operation returns, and has only taken steps.\<close>

definition safe :: "ice option \<Rightarrow> ice \<Rightarrow> bool" where
  "safe r w \<longleftrightarrow> (\<exists>w'. r = Some w' \<and> steps w w')"

definition safe_val :: "('v \<times> ice) option \<Rightarrow> ice \<Rightarrow> ('v \<Rightarrow> bool) \<Rightarrow> bool" where
  "safe_val r w Q \<longleftrightarrow> (\<exists>v w'. r = Some (v, w') \<and> steps w w' \<and> Q v)"

lemma safe_bind:
  assumes "safe r w" "\<And>w'. steps w w' \<Longrightarrow> safe (f w') w'"
  shows "safe (r \<bind> f) w"
  using assms steps_trans unfolding safe_def by fastforce

lemma safe_val_bind:
  assumes "safe r w" "\<And>w'. steps w w' \<Longrightarrow> safe_val (f w') w' Q"
  shows "safe_val (r \<bind> f) w Q"
  using assms steps_trans unfolding safe_def safe_val_def by fastforce

lemma val_safe_bind:
  assumes "safe_val r w Q" "\<And>v w'. steps w w' \<Longrightarrow> Q v \<Longrightarrow> safe (f (v, w')) w'"
  shows "safe (r \<bind> f) w"
  using assms steps_trans unfolding safe_def safe_val_def by fastforce

lemma safe_SomeI: "steps w w' \<Longrightarrow> safe (Some w') w"
  by (simp add: safe_def)

lemma safe_val_SomeI: "steps w w' \<Longrightarrow> Q v \<Longrightarrow> safe_val (Some (v, w')) w Q"
  by (simp add: safe_val_def)

lemma safe_after: "steps w w' \<Longrightarrow> safe r w' \<Longrightarrow> safe r w"
  unfolding safe_def using steps_trans by blast

lemma steps_put_conn:
  assumes "ice_ok w" "i_conns w c = Some cn" "conn_static cn' = conn_static cn"
    "requests_ok (i_next w) (cn_requests cn')"
  shows "steps w (put_conn c cn' w)"
proof -
  have "conns_view (put_conn c cn' w) = conns_view w" "ports_view (put_conn c cn' w) = ports_view w"
    using assms(2,3) by (auto simp: conns_view_def ports_view_def put_conn_def)
  then show ?thesis using assms by (auto simp: steps_def frame_def ice_ok_def put_conn_def)
qed

lemma steps_put_port_error:
  assumes "ice_ok w" "i_ports w p = Some pt"
  shows "steps w (put_port p (pt\<lparr>p_error := e\<rparr>) w)"
proof -
  have "conns_view (put_port p (pt\<lparr>p_error := e\<rparr>) w) = conns_view w"
       "ports_view (put_port p (pt\<lparr>p_error := e\<rparr>) w) = ports_view w"
    using assms(2) by (auto simp: conns_view_def ports_view_def put_port_def port_static_def)
  then show ?thesis using assms by (auto simp: steps_def frame_def ice_ok_def put_port_def)
qed

lemma steps_same_heap:
  assumes "ice_ok w" "i_conns w' = i_conns w" "i_ports w' = i_ports w" "i_next w' = i_next w"
    "i_timers w' = i_timers w" "i_log w' = i_log w @ es" "list_all benign es"
    "\<forall>c \<in> set (i_deletes w'). i_conns w c \<noteq> None"
  shows "steps w w'"
  using assms by (auto simp: steps_def frame_def ice_ok_def conns_view_def ports_view_def)

lemma steps_emit: "ice_ok w \<Longrightarrow> benign e \<Longrightarrow> steps w (emit e w)"
  by (rule steps_same_heap [where es = "[e]"]) (auto simp: emit_def ice_ok_def)

lemma requests_of: "ice_ok w \<Longrightarrow> i_conns w c = Some cn \<Longrightarrow> requests_ok (i_next w) (cn_requests cn)"
  by (simp add: ice_ok_def)

lemma conn_port:
  assumes "ice_ok w" "i_conns w c = Some cn"
  shows "\<exists>pt. i_ports w (cn_port cn) = Some pt \<and> amap_find (c_address (cn_remote cn)) (p_connections pt) = Some c
     \<and> p_candidates pt \<noteq> [] \<and> cn_index cn = 0 \<and> cn_connected cn \<and> p_username_frag pt \<noteq> []"
proof -
  have inv: "static_inv (ports_view w) (conns_view w) (i_next w)" using assms(1) by (simp add: ice_ok_def)
  have "conns_view w c = Some (conn_static cn)" using assms(2) by (simp add: conns_view_def)
  then have "conn_ok (ports_view w) c (conn_static cn)" using inv by (auto simp: static_inv_def)
  then obtain q where q: "ports_view w (cn_port cn) = Some q"
      "amap_find (c_address (cn_remote cn)) (p_connections q) = Some c" "cn_index cn = 0" "cn_connected cn"
    by (auto simp: conn_ok_def conn_static_def)
  moreover from q(1) have "port_ok (conns_view w) (cn_port cn) q" using inv by (auto simp: static_inv_def)
  ultimately show ?thesis by (auto simp: view_port port_static_def port_ok_def)
qed

lemma CheckTimeout_safe:
  assumes "ice_ok w" "i_conns w c = Some cn"
  shows "safe (CheckTimeout c w) w"
proof -
  have "steps w (w\<lparr>i_deletes := i_deletes w @ [c]\<rparr>)"
    by (rule steps_same_heap [where es = "[]"]) (use assms in \<open>auto simp: ice_ok_def\<close>)
  then show ?thesis using assms steps_refl by (auto simp: CheckTimeout_def intro!: safe_SomeI)
qed

lemma state_changed_safe:
  assumes "steps w w'" "i_conns w' c \<noteq> None"
  shows "safe (CheckTimeout c (emit (SignalStateChange c) w')) w"
proof -
  have e: "steps w' (emit (SignalStateChange c) w')" using assms(1) by (intro steps_emit steps_ok) auto
  moreover obtain cn where "i_conns (emit (SignalStateChange c) w') c = Some cn"
    using assms(2) by (auto simp: emit_def)
  ultimately show ?thesis using CheckTimeout_safe steps_ok safe_after assms(1) by blast
qed

lemma alive_steps: "i_conns w c \<noteq> None \<Longrightarrow> steps w w' \<Longrightarrow> ice_ok w' \<and> i_conns w' c \<noteq> None"
  using steps_alive steps_ok by simp

lemma safe_get: "m \<noteq> None \<Longrightarrow> (\<And>x. m = Some x \<Longrightarrow> safe (f x) w) \<Longrightarrow> safe (m \<bind> f) w"
  by auto

lemma safe_val_get: "m \<noteq> None \<Longrightarrow> (\<And>x. m = Some x \<Longrightarrow> safe_val (f x) w Q) \<Longrightarrow> safe_val (m \<bind> f) w Q"
  by auto

lemma safe_if: "(b \<Longrightarrow> safe r w) \<Longrightarrow> (\<not> b \<Longrightarrow> safe r' w) \<Longrightarrow> safe (if b then r else r') w"
  by simp

lemma safe_Some: "ice_ok w \<Longrightarrow> safe (Some w) w"
  by (intro safe_SomeI steps_refl)

lemma set_read_state_safe:
  assumes "ice_ok w" "i_conns w c \<noteq> None"
  shows "safe (set_read_state v c w) w"
proof -
  obtain cn where cn: "i_conns w c = Some cn" using assms(2) by auto
  let ?w = "put_conn c (cn\<lparr>cn_read_state := v\<rparr>) w"
  have "steps w ?w"
    by (rule steps_put_conn [OF assms(1) cn]) (use requests_of [OF assms(1) cn] in \<open>simp_all add: conn_static_eq\<close>)
  moreover have "i_conns ?w c \<noteq> None" by (simp add: put_conn_def)
  ultimately show ?thesis unfolding set_read_state_def Let_def cn bind.bind_lunit
    by (intro safe_if state_changed_safe safe_SomeI)
qed

lemma set_write_state_safe:
  assumes "ice_ok w" "i_conns w c \<noteq> None"
  shows "safe (set_write_state v c w) w"
proof -
  obtain cn where cn: "i_conns w c = Some cn" using assms(2) by auto
  let ?w = "put_conn c (cn\<lparr>cn_write_state := v\<rparr>) w"
  have "steps w ?w"
    by (rule steps_put_conn [OF assms(1) cn]) (use requests_of [OF assms(1) cn] in \<open>simp_all add: conn_static_eq\<close>)
  moreover have "i_conns ?w c \<noteq> None" by (simp add: put_conn_def)
  ultimately show ?thesis unfolding set_write_state_def Let_def cn bind.bind_lunit
    by (intro safe_if state_changed_safe safe_SomeI)
qed

lemma DestroyConnection_safe:
  assumes "ice_ok w" "i_conns w c \<noteq> None"
  shows "safe (DestroyConnection c w) w"
  unfolding DestroyConnection_def
  by (rule safe_bind [OF set_read_state_safe [OF assms]])
     (use alive_steps [OF assms(2)] set_write_state_safe in blast)

lemma Prune_safe:
  assumes "ice_ok w" "i_conns w c \<noteq> None"
  shows "safe (Prune c w) w"
proof -
  obtain cn where cn: "i_conns w c = Some cn" using assms(2) by auto
  have req: "requests_ok (i_next w) (cn_requests cn)" by (rule requests_of [OF assms(1) cn])
  then obtain m where m: "ClearRequests (cn_requests cn) = Some m" "manager_ok m"
    using ClearRequests_ok [of "cn_requests cn"] by (auto simp: requests_ok_def)
  have "requests_ok (i_next w) m"
    using req m heap_le_ok delete_all_heap unfolding ClearRequests_def by blast
  then have "steps w (put_conn c (cn\<lparr>cn_pruned := True, cn_requests := m\<rparr>) w)"
    by (intro steps_put_conn [OF assms(1) cn]) (simp_all add: conn_static_eq)
  moreover have "i_conns (put_conn c (cn\<lparr>cn_pruned := True, cn_requests := m\<rparr>) w) c \<noteq> None"
    by (simp add: put_conn_def)
  ultimately show ?thesis using cn m steps_refl [OF assms(1)] steps_ok set_write_state_safe safe_after
    by (auto simp: Prune_def intro!: safe_SomeI)
qed

lemma ReceivedPing_safe:
  assumes "ice_ok w" "i_conns w c \<noteq> None"
  shows "safe (ReceivedPing now c w) w"
proof -
  obtain cn where cn: "i_conns w c = Some cn" using assms(2) by auto
  have "steps w (put_conn c (cn\<lparr>cn_last_ping_received := now\<rparr>) w)"
    by (rule steps_put_conn [OF assms(1) cn]) (use requests_of [OF assms(1) cn] in \<open>simp_all add: conn_static_eq\<close>)
  moreover have "i_conns (put_conn c (cn\<lparr>cn_last_ping_received := now\<rparr>) w) c \<noteq> None" by (simp add: put_conn_def)
  ultimately show ?thesis using cn steps_ok set_read_state_safe safe_after by (auto simp: ReceivedPing_def)
qed

lemma UpdateState_safe:
  assumes "ice_ok w" "i_conns w c \<noteq> None"
  shows "safe (UpdateState now c w) w"
proof -
  note alive = alive_steps [OF assms(2)]
  note conn = set_read_state_safe set_write_state_safe safe_Some
  show ?thesis unfolding UpdateState_def Let_def
  proof (intro safe_get [OF assms(2)] safe_bind safe_if, goal_cases)
    case (3 cn w1)
    then show ?case using alive conn(2) by blast
  next
    case (4 cn w1)
    then show ?case using alive conn(3) by blast
  next
    case (5 cn w1 w2)
    then have w2: "steps w w2" using steps_trans by blast
    show ?case by (rule safe_get) (use alive [OF w2] conn in \<open>auto intro!: safe_if\<close>)
  qed (use assms conn in blast)+
qed

end
