(* ===== verification/Port_Packet_Proofs.thy ===== *)
theory Port_Packet_Proofs
  imports Port_Proofs
begin

text \<open>
  Sending, pinging and receiving are safe (talk/p2p/base/port.cc): whatever bytes arrive,
  neither a port nor a connection runs into an assertion, a null pointer or a deleted object.
\<close>

section \<open>Sending\<close>

lemma SendTo_safe:
  assumes "ice_ok w" "i_ports w p \<noteq> None"
  shows "safe_val (SendTo env p data addr w) w (\<lambda>sent. sent = fst (ne_send env data addr))"
proof -
  obtain port where port: "i_ports w p = Some port" using assms(2) by auto
  obtain sent err where s: "ne_send env data addr = (sent, err)" by force
  let ?w = "emit (PacketSent p data addr) w"
  have e: "steps w ?w" by (rule steps_emit [OF assms(1)]) simp
  have "steps ?w (put_port p (port\<lparr>p_error := err\<rparr>) ?w)"
    by (rule steps_put_port_error [OF steps_ok [OF e]]) (use port in \<open>simp add: emit_def\<close>)
  then have "steps w (if sent < 0 then put_port p (port\<lparr>p_error := err\<rparr>) ?w else ?w)"
    using steps_trans [OF e] e by simp
  then show ?thesis using port s by (simp add: SendTo_def Let_def safe_val_SomeI)
qed

lemma alive_port:
  assumes "ice_ok w" "i_conns w c = Some cn"
  shows "i_ports w (cn_port cn) \<noteq> None"
  using conn_port [OF assms] by auto

text \<open>A datagram socket sends something or fails.\<close>

definition socket_ok :: "net_env \<Rightarrow> bool" where
  "socket_ok env \<longleftrightarrow> (\<forall>data addr. fst (ne_send env data addr) \<noteq> 0)"

lemma SendTo_conns: "SendTo env p data addr w = Some (v, w') \<Longrightarrow> i_conns w' = i_conns w"
  by (cases "ne_send env data addr"; cases "v < 0")
     (auto simp: SendTo_def emit_def put_port_def Let_def bind_eq_Some_conv)

lemma ProxySend_safe:
  assumes "ice_ok w" "i_conns w c \<noteq> None" "socket_ok env"
  shows "safe_val (ProxySend env data c w) w (\<lambda>sent. sent \<noteq> 0)"
proof -
  obtain cn where cn: "i_conns w c = Some cn" using assms(2) by auto
  have put: "steps w' (put_conn c cn' w')"
    if "ice_ok w'" "i_conns w' c = Some cn" "conn_static cn' = conn_static cn" "cn_requests cn' = cn_requests cn" for w' cn'
    using steps_put_conn [OF that(1,2,3)] requests_of [OF that(1,2)] that(4) by simp
  show ?thesis
  proof (cases "cn_write_state cn = STATE_WRITABLE")
    case False
    then show ?thesis using cn put [OF assms(1) cn]
      by (auto simp: ProxySend_def SOCKET_ERROR_def conn_static_eq intro!: safe_val_SomeI)
  next
    case True
    let ?addr = "c_address (cn_remote cn)"
    obtain sent w' where s: "SendTo env (cn_port cn) data ?addr w = Some (sent, w')" "steps w w'"
        "sent = fst (ne_send env data ?addr)"
      using SendTo_safe [OF assms(1) alive_port [OF assms(1) cn]] unfolding safe_val_def by blast
    note w' = steps_ok [OF s(2)] SendTo_conns [OF s(1)]
    then have cn': "i_conns w' c = Some cn" using cn by simp
    obtain port where "i_ports w' (cn_port cn) = Some port" using alive_port [OF w'(1) cn'] by auto
    then show ?thesis using True cn s assms(3) steps_trans [OF s(2) put [OF w'(1) cn']]
      by (auto simp: ProxySend_def ASSERT_def socket_ok_def conn_static_eq intro!: safe_val_SomeI)
  qed
qed

section \<open>Pings and their answers\<close>

lemma request_event_safe:
  assumes "ice_ok w" "i_conns w c \<noteq> None"
  shows "safe (request_event env c e w) w"
proof (cases e)
  case (SendPacket data r)
  obtain cn where cn: "i_conns w c = Some cn" using assms(2) by auto
  have "safe_val (SendTo env (cn_port cn) data (c_address (cn_remote cn)) w) w (\<lambda>_. True)"
    using SendTo_safe [OF assms(1) alive_port [OF assms(1) cn]] unfolding safe_val_def by blast
  then show ?thesis using SendPacket cn
    by (auto intro!: val_safe_bind safe_Some dest: steps_ok)
next
  case (OnResponse r msg)
  have rest: "safe (i_conns w' c \<bind> (\<lambda>cn. Some (put_conn c
      (cn\<lparr>cn_pings := [], cn_rtt := (RTT_RATIO * cn_rtt cn + Elapsed (ne_now env) r) div (RTT_RATIO + 1)\<rparr>) w'))) w'"
    if w': "steps w w'" for w'
  proof (rule safe_get)
    show "i_conns w' c \<noteq> None" using alive_steps [OF assms(2) w'] by simp
    fix cn assume cn: "i_conns w' c = Some cn"
    show "safe (Some (put_conn c
      (cn\<lparr>cn_pings := [], cn_rtt := (RTT_RATIO * cn_rtt cn + Elapsed (ne_now env) r) div (RTT_RATIO + 1)\<rparr>) w')) w'"
      by (intro safe_SomeI steps_put_conn [OF steps_ok [OF w'] cn])
         (use requests_of [OF steps_ok [OF w'] cn] in \<open>simp_all add: conn_static_eq\<close>)
  qed
  show ?thesis unfolding OnResponse request_event.simps OnConnectionRequestResponse_def Let_def
    by (rule safe_bind [OF set_write_state_safe [OF assms] rest])
next
  case (OnErrorResponse r msg)
  then show ?thesis using set_write_state_safe [OF assms] safe_Some [OF assms(1)]
    by (simp add: OnConnectionRequestErrorResponse_def Let_def safe_if)
qed (use safe_Some [OF assms(1)] in simp)

lemma request_events_safe: "ice_ok w \<Longrightarrow> i_conns w c \<noteq> None \<Longrightarrow> safe (request_events env c es w) w"
proof (induction es arbitrary: w)
  case (Cons e es)
  show ?case unfolding request_events.simps
    by (rule safe_bind [OF request_event_safe [OF Cons.prems]]) (use Cons alive_steps in blast)
qed (simp add: safe_Some)

lemma ping_class_of:
  assumes "ice_ok w" "i_conns w c = Some cn" "cn_port cn' = cn_port cn"
  shows "\<exists>u. ping_class cn' w = Some (ConnectionRequest u)"
  using conn_port [OF assms(1,2)] assms(3) by (auto simp: ping_class_def)

text \<open>The random transaction id has the length of an id and none of the connection's outstanding requests has it.\<close>

definition tid_fresh :: "net_env \<Rightarrow> connection \<Rightarrow> bool" where
  "tid_fresh env cn \<longleftrightarrow> IsValidTransactionId (ne_tid env) \<and> map_of (rm_requests (cn_requests cn)) (ne_tid env) = None"

lemma Ping_safe:
  assumes "ice_ok w" "i_conns w c = Some cn" "tid_fresh env cn"
  shows "safe (Ping env now c w) w"
proof -
  let ?cn = "cn\<lparr>cn_last_ping_sent := now, cn_pings := cn_pings cn @ [now]\<rparr>"
  let ?r = "StunRequest (ne_tid env)" and ?n = "i_next w"
  obtain u where u: "ping_class ?cn w = Some (ConnectionRequest u)" using ping_class_of [OF assms(1,2)] by force
  have req: "requests_ok ?n (cn_requests cn)" by (rule requests_of [OF assms(1,2)])
  then have free: "rm_heap (cn_requests cn) ?n = None" by (simp add: requests_ok_def)
  have r: "\<not> rq_managed ?r" "rq_id ?r = ne_tid env" "sm_tid (rq_msg ?r) = ne_tid env"
    using assms(3) by (simp_all add: StunRequest_def SetTransactionID_def tid_fresh_def)
  have "manager_event_sane (cn_requests cn) (EvSendRequest ?n ?r 0)"
    using free r assms(3) by (simp add: tid_fresh_def)
  then obtain m where m: "SendDelayed (ConnectionRequest u) ?n 0 (new_request ?n ?r (cn_requests cn)) = Some m" "manager_ok m"
    using ping.handle_ok [of "cn_requests cn" "EvSendRequest ?n ?r 0" u] req by (auto simp: requests_ok_def)
  have heap: "\<forall>q \<ge> Suc ?n. rm_heap m q = None"
    using m(1) req by (auto simp: SendDelayed_def thread_post_def new_request_def requests_ok_def split: option.splits if_splits)
  let ?w = "w\<lparr>i_next := ?n + 1\<rparr>"
  have nxt: "steps w ?w"
  proof -
    have "static_inv (ports_view w) (conns_view w) (?n + 1)"
      using assms(1) static_inv_mono [of _ _ ?n] by (auto simp: ice_ok_def)
    moreover have "\<forall>c cn. i_conns w c = Some cn \<longrightarrow> requests_ok (?n + 1) (cn_requests cn)"
      using assms(1) requests_ok_mono [of ?n _ "?n + 1"] by (auto simp: ice_ok_def)
    ultimately show ?thesis using assms(1) by (simp add: steps_def frame_def ice_ok_def ports_view_def conns_view_def)
  qed
  have "steps ?w (put_conn c (?cn\<lparr>cn_requests := m\<rparr>) ?w)"
    by (rule steps_put_conn [OF steps_ok [OF nxt], of c cn])
       (use assms(2) m(2) heap in \<open>auto simp: conn_static_eq requests_ok_def\<close>)
  moreover have "cn_connected cn" using conn_port [OF assms(1,2)] by auto
  ultimately show ?thesis using steps_trans [OF nxt] assms(2) u m(1)
    by (simp add: Ping_def ASSERT_def SendRequest_def safe_SomeI)
qed

lemma DispatchRequest_safe:
  assumes "ice_ok w" "i_conns w c \<noteq> None"
  shows "safe (DispatchRequest env c i w) w"
proof -
  obtain cn where cn: "i_conns w c = Some cn" using assms(2) by auto
  obtain u where u: "ping_class cn w = Some (ConnectionRequest u)" using ping_class_of [OF assms(1) cn] by auto
  have req: "requests_ok (i_next w) (cn_requests cn)" by (rule requests_of [OF assms(1) cn])
  then obtain evs m where m: "dispatch (ConnectionRequest u) (ne_now env) i (cn_requests cn) = Some (evs, m)" "manager_ok m"
    using ping.dispatch_ok [of "cn_requests cn" u "ne_now env" i] by (auto simp: requests_ok_def)
  have w': "steps w (put_conn c (cn\<lparr>cn_requests := m\<rparr>) w)"
    by (rule steps_put_conn [OF assms(1) cn])
       (use heap_le_ok [OF req dispatch_heap [OF m(1)] m(2)] in \<open>simp_all add: conn_static_eq\<close>)
  have "safe (request_events env c evs (put_conn c (cn\<lparr>cn_requests := m\<rparr>) w)) (put_conn c (cn\<lparr>cn_requests := m\<rparr>) w)"
    by (rule request_events_safe [OF steps_ok [OF w']]) (simp add: put_conn_def)
  then show ?thesis using safe_after [OF w'] cn u m(1) by (simp add: DispatchRequest_def)
qed

section \<open>STUN messages\<close>

text \<open>A message that has a valid id and a user name.\<close>

definition answerable :: "stun_message \<Rightarrow> bool" where
  "answerable msg \<longleftrightarrow> IsValidTransactionId (sm_tid msg)
     \<and> (\<exists>t u. GetByteString STUN_ATTR_USERNAME msg = Some (Some t) \<and> attr_string t = Some u)"

lemma response_to_ok:
  assumes "answerable request"
  shows "\<exists>r. response_to ty request = Some r \<and> IsValidTransactionId (sm_tid r)"
  using assms
  by (auto simp: answerable_def response_to_def CreateByteString_def SetTransactionID_def AddAttribute_def
      SetMessageType_def)

lemma message_write_ok: "IsValidTransactionId (sm_tid m) \<Longrightarrow> \<exists>b. message_write m buf = Some b"
  by (auto simp: message_write_def IsLegacy_def IsValidTransactionId_def Let_def)

lemma binding_response_ok:
  assumes "answerable request"
  shows "\<exists>r buf. binding_response request addr = Some r \<and> message_write r (ByteBuffer_empty ORDER_NETWORK) = Some buf"
proof -
  obtain r where r: "response_to STUN_BINDING_RESPONSE request = Some r" "IsValidTransactionId (sm_tid r)"
    using response_to_ok [OF assms] by blast
  then show ?thesis using message_write_ok
    by (auto simp: binding_response_def CreateAddress_def AddAttribute_def)
qed

lemma binding_error_response_ok:
  assumes "answerable request"
  shows "\<exists>r buf. binding_error_response request code reason = Some r \<and> message_write r (ByteBuffer_empty ORDER_NETWORK) = Some buf"
proof -
  obtain r where r: "response_to STUN_BINDING_ERROR_RESPONSE request = Some r" "IsValidTransactionId (sm_tid r)"
    using response_to_ok [OF assms] by blast
  then show ?thesis using message_write_ok by (auto simp: binding_error_response_def AddAttribute_def)
qed

lemma SendBindingErrorResponse_safe:
  assumes "ice_ok w" "i_ports w p \<noteq> None" "answerable request" "sm_type request = STUN_BINDING_REQUEST"
  shows "safe (SendBindingErrorResponse env p request addr code reason w) w"
proof -
  obtain r buf where r: "binding_error_response request code reason = Some r"
      "message_write r (ByteBuffer_empty ORDER_NETWORK) = Some buf"
    using binding_error_response_ok [OF assms(3)] by blast
  have "safe (SendTo env p (Data buf) addr w \<bind> (\<lambda>(sent, w). Some w)) w"
    by (rule val_safe_bind [OF SendTo_safe [OF assms(1,2)]]) (auto intro: safe_Some dest: steps_ok)
  then show ?thesis using r assms(4) by (simp add: SendBindingErrorResponse_def ASSERT_def)
qed

lemma SendBindingErrorResponse_conns:
  "SendBindingErrorResponse env p request addr code reason w = Some w' \<Longrightarrow> i_conns w' = i_conns w"
  by (auto simp: SendBindingErrorResponse_def bind_eq_Some_conv dest: SendTo_conns)

lemma GetConnection_alive:
  assumes "ice_ok w" "GetConnection p addr w = Some (Some c)"
  shows "i_conns w c \<noteq> None"
proof -
  obtain pt where pt: "i_ports w p = Some pt" "amap_find addr (p_connections pt) = Some c"
    using assms(2) by (auto simp: GetConnection_def)
  then obtain a where a: "(a, c) \<in> set (p_connections pt)"
    by (auto simp: amap_find_def find_Some_iff) (metis nth_mem prod.collapse)
  have "port_ok (conns_view w) p (port_static pt)"
    using assms(1) pt(1) by (auto simp: ice_ok_def static_inv_def ports_view_def)
  then show ?thesis using a by (auto simp: port_ok_def port_static_def view_conn)
qed

lemma steps_GetConnection: "steps w w' \<Longrightarrow> GetConnection p addr w' = GetConnection p addr w"
proof -
  assume "steps w w'"
  then have "ports_view w' p = ports_view w p" by (simp add: steps_def frame_def)
  then show ?thesis
    by (cases "i_ports w p"; cases "i_ports w' p")
       (simp_all add: ports_view_def GetConnection_def port_static_def, metis port.ext_inject port.surjective port.update_convs(13))
qed

lemma SendBindingResponse_safe:
  assumes "ice_ok w" "GetConnection p addr w = Some (Some c)" "answerable request" "sm_type request = STUN_BINDING_REQUEST"
  shows "safe (SendBindingResponse env p request addr w) w"
proof -
  obtain r buf where r: "binding_response request addr = Some r" "message_write r (ByteBuffer_empty ORDER_NETWORK) = Some buf"
    using binding_response_ok [OF assms(3)] by blast
  have p: "i_ports w p \<noteq> None" using assms(2) by (auto simp: GetConnection_def)
  have "safe (SendTo env p (Data buf) addr w \<bind> (\<lambda>(sent, w).
      GetConnection p addr w \<bind> (\<lambda>conn. conn \<bind> (\<lambda>conn. ReceivedPing (ne_now env) conn w)))) w"
  proof (rule val_safe_bind [OF SendTo_safe [OF assms(1) p]], clarify)
    fix w' assume w': "steps w w'"
    then have c: "GetConnection p addr w' = Some (Some c)" using assms(2) steps_GetConnection by simp
    then show "safe (GetConnection p addr w' \<bind> (\<lambda>conn. conn \<bind> (\<lambda>conn. ReceivedPing (ne_now env) conn w'))) w'"
      using ReceivedPing_safe [OF steps_ok [OF w'] GetConnection_alive [OF steps_ok [OF w'] c]] by simp
  qed
  then show ?thesis using r assms(4) by (simp add: SendBindingResponse_def ASSERT_def case_prod_beta')
qed

section \<open>Receiving\<close>

lemma read_username:
  assumes "message_read StunMessage b = Some (ok, msg, b')" "GetByteString STUN_ATTR_USERNAME msg = Some (Some t)"
  shows "\<exists>u. attr_string t = Some u \<and> length u = unat (at_length t)"
proof -
  have "list_all attr_filled (sm_attrs msg)"
    by (rule message_read_filled [OF assms(1)]) (simp add: StunMessage_def)
  moreover have get: "GetAttribute STUN_ATTR_USERNAME msg = Some t"
    using assms(2) by (simp add: GetByteString_def split: if_splits)
  moreover have "t \<in> set (sm_attrs msg)"
    using get by (auto simp: GetAttribute_def find_Some_iff)
  ultimately have fill: "attr_filled t" by (simp add: list_all_iff)
  have "list_all attr_typed (sm_attrs msg)"
    by (rule message_read_typed [OF assms(1)]) (simp add: StunMessage_def)
  then have "class_of_type STUN_ATTR_USERNAME = Some (body_class (at_body t))"
    using get by (rule GetAttribute_typed)
  then have "body_class (at_body t) = CBytes" by (simp add: class_of_type_def attr_codes)
  then show ?thesis using fill
    by (cases "at_body t") (auto simp: body_class_def attr_filled_def attr_string_def)
qed

definition stun_result_ok :: "stun_packet \<Rightarrow> bool" where
  "stun_result_ok r \<longleftrightarrow> (case r of ValidStun msg u \<Rightarrow> answerable msg
     \<and> sm_type msg \<in> {STUN_BINDING_REQUEST, STUN_BINDING_RESPONSE, STUN_BINDING_ERROR_RESPONSE} | _ \<Rightarrow> True)"

lemma stun_type_codes: "STUN_BINDING_REQUEST \<noteq> STUN_BINDING_RESPONSE" "STUN_BINDING_REQUEST \<noteq> STUN_BINDING_ERROR_RESPONSE"
  "STUN_BINDING_RESPONSE \<noteq> STUN_BINDING_ERROR_RESPONSE"
  by (simp_all add: STUN_BINDING_REQUEST_def STUN_BINDING_RESPONSE_def STUN_BINDING_ERROR_RESPONSE_def)

text \<open>What the test of the user name comes to: no name or a short one is dropped before it is looked at.\<close>

lemma GetStunMessage_cases:
  assumes "i_ports w p = Some port" "p_username_frag port \<noteq> []"
  shows "GetStunMessage env p data addr w = Some (NotStun, w)
    \<or> GetStunMessage env p data addr w = Some (HandledStun, w)
    \<or> (\<exists>msg. answerable msg \<and> sm_type msg = STUN_BINDING_REQUEST
          \<and> GetStunMessage env p data addr w = do {
               w \<leftarrow> SendBindingErrorResponse env p msg addr STUN_ERROR_BAD_REQUEST STUN_ERROR_REASON_BAD_REQUEST w;
               Some (HandledStun, w) })
    \<or> (\<exists>msg u. GetStunMessage env p data addr w = Some (ValidStun msg u, w) \<and> stun_result_ok (ValidStun msg u))"
proof -
  obtain ok msg b' where r: "message_read StunMessage (ByteBuffer_of data ORDER_NETWORK) = Some (ok, msg, b')"
      "ok \<Longrightarrow> IsValidTransactionId (sm_tid msg)"
    using message_read_facts [of StunMessage "ByteBuffer_of data ORDER_NETWORK"] by auto
  obtain ua where ua: "GetByteString STUN_ATTR_USERNAME msg = Some ua" by (auto simp: GetByteString_def)
  show ?thesis
  proof (cases "\<not> ok \<or> Length b' > 0")
    case True
    then show ?thesis using assms(1) r(1) by (simp add: GetStunMessage_def)
  next
    case False
    show ?thesis
    proof (cases ua)
      case None
      then show ?thesis using assms r(1) ua False by (simp add: GetStunMessage_def Let_def)
    next
      case (Some t)
      then obtain u where u: "attr_string t = Some u" using read_username [OF r(1)] ua by blast
      then have ans: "answerable msg" using r(2) False ua Some by (auto simp: answerable_def)
      then show ?thesis using assms r(1) ua u False Some
        by (auto simp: GetStunMessage_def Let_def stun_result_ok_def)
    qed
  qed
qed

lemma GetStunMessage_safe:
  assumes "ice_ok w" "i_ports w p = Some port" "p_username_frag port \<noteq> []"
  shows "\<exists>r w'. GetStunMessage env p data addr w = Some (r, w') \<and> steps w w' \<and> stun_result_ok r
     \<and> (r \<noteq> HandledStun \<longrightarrow> w' = w)"
proof -
  have port: "i_ports w p \<noteq> None" using assms(2) by simp
  from GetStunMessage_cases [OF assms(2,3), of env data addr] show ?thesis
  proof (elim disjE exE conjE)
    fix msg
    assume msg: "answerable msg" "sm_type msg = STUN_BINDING_REQUEST"
      and eq: "GetStunMessage env p data addr w = do {
               w \<leftarrow> SendBindingErrorResponse env p msg addr STUN_ERROR_BAD_REQUEST STUN_ERROR_REASON_BAD_REQUEST w;
               Some (HandledStun, w) }"
    show ?thesis
      using SendBindingErrorResponse_safe [OF assms(1) port msg, of env addr STUN_ERROR_BAD_REQUEST STUN_ERROR_REASON_BAD_REQUEST]
      by (auto simp: eq safe_def stun_result_ok_def)
  qed (use steps_refl [OF assms(1)] in \<open>auto simp: stun_result_ok_def\<close>)
qed

lemma port_frag:
  assumes "ice_ok w" "i_ports w p = Some port"
  shows "p_username_frag port \<noteq> []" "p_candidates port \<noteq> []"
proof -
  have "port_ok (conns_view w) p (port_static port)"
    using assms by (auto simp: ice_ok_def static_inv_def ports_view_def)
  then show "p_username_frag port \<noteq> []" "p_candidates port \<noteq> []" by (simp_all add: port_ok_def port_static_def)
qed

lemma reprobe_safe:
  assumes "ice_ok w" "i_conns w c \<noteq> None"
  shows "safe (reprobe c w) w"
  unfolding reprobe_def
  by (rule safe_get [OF assms(2)]) (simp add: set_write_state_safe assms safe_Some)

lemma Connection_OnReadPacket_safe:
  assumes ok: "ice_ok w" and c: "i_conns w c \<noteq> None"
  shows "safe (Connection_OnReadPacket env c data w) w"
proof -
  obtain cn where cn: "i_conns w c = Some cn" using c by auto
  let ?addr = "c_address (cn_remote cn)" and ?p = "cn_port cn"
  obtain port where port: "i_ports w ?p = Some port" "amap_find ?addr (p_connections port) = Some c"
    using conn_port [OF ok cn] by auto
  then have conn: "GetConnection ?p ?addr w = Some (Some c)" by (simp add: GetConnection_def)
  obtain r w' where r: "GetStunMessage env ?p data ?addr w = Some (r, w')" "steps w w'" "stun_result_ok r"
      "r \<noteq> HandledStun \<longrightarrow> w' = w"
    using GetStunMessage_safe [OF ok port(1) port_frag(1) [OF ok port(1)]] by blast
  show ?thesis
  proof (cases r)
    case HandledStun
    then show ?thesis using cn r by (simp add: Connection_OnReadPacket_def Let_def safe_SomeI)
  next
    case NotStun
    then have w': "w' = w" using r(4) by simp
    let ?w1 = "put_conn c (cn\<lparr>cn_last_data_received := ne_now env,
        cn_recv_rate := rate_update (of_nat (length data)) (cn_recv_rate cn)\<rparr>) w"
    have w1: "steps w ?w1"
      by (rule steps_put_conn [OF ok cn]) (use requests_of [OF ok cn] in \<open>simp_all add: conn_static_eq\<close>)
    then have w2: "steps w (emit (SignalReadPacket c data) ?w1)"
      using steps_trans [OF w1 steps_emit [OF steps_ok [OF w1]]] by simp
    then have "safe (reprobe c (emit (SignalReadPacket c data) ?w1)) w"
      using safe_after [OF w2 reprobe_safe] alive_steps [OF c w2] by blast
    then show ?thesis using NotStun cn r w' safe_Some [OF ok] by (simp add: Connection_OnReadPacket_def Let_def)
  next
    case (ValidStun msg u)
    then have w': "w' = w" and msg: "answerable msg" using r(3,4) by (simp_all add: stun_result_ok_def)
    have p: "i_ports w ?p \<noteq> None" using port by simp
    consider (req) "sm_type msg = STUN_BINDING_REQUEST"
      | (resp) "sm_type msg \<noteq> STUN_BINDING_REQUEST" "sm_type msg = STUN_BINDING_RESPONSE \<or> sm_type msg = STUN_BINDING_ERROR_RESPONSE"
      using r(3) ValidStun stun_type_codes by (fastforce simp: stun_result_ok_def)
    then show ?thesis
    proof cases
      case req
      have "safe (SendBindingResponse env ?p msg ?addr w \<bind> reprobe c) w"
        by (rule safe_bind [OF SendBindingResponse_safe [OF ok conn msg req]])
           (use alive_steps [OF c] reprobe_safe in blast)
      then show ?thesis using ValidStun cn r(1) w' req SendBindingErrorResponse_safe [OF ok p msg req]
        by (simp add: Connection_OnReadPacket_def Let_def)
    next
      case resp
      have req: "requests_ok (i_next w) (cn_requests cn)" by (rule requests_of [OF ok cn])
      then obtain b evs m where m: "CheckResponse msg (cn_requests cn) = Some (b, evs, m)" "manager_ok m"
        using CheckResponse_ok [of "cn_requests cn" msg] by (auto simp: requests_ok_def)
      have w1: "steps w (put_conn c (cn\<lparr>cn_requests := m\<rparr>) w)"
        by (rule steps_put_conn [OF ok cn])
           (use heap_le_ok [OF req CheckResponse_heap [OF m(1)] m(2)] in \<open>simp_all add: conn_static_eq\<close>)
      have "safe (request_events env c evs (put_conn c (cn\<lparr>cn_requests := m\<rparr>) w)) w"
        by (rule safe_after [OF w1 request_events_safe [OF steps_ok [OF w1]]]) (simp add: put_conn_def)
      then show ?thesis using ValidStun cn r(1) w' resp m(1) safe_Some [OF ok]
        by (simp add: Connection_OnReadPacket_def Let_def)
    qed
  qed
qed

definition unknown_ok :: "(stun_message \<times> bytes) option \<Rightarrow> bool" where
  "unknown_ok u \<longleftrightarrow> (\<forall>msg name. u = Some (msg, name) \<longrightarrow> answerable msg \<and> sm_type msg = STUN_BINDING_REQUEST)"

lemma UDP_OnReadPacket_safe:
  assumes ok: "ice_ok w" and p: "i_ports w p \<noteq> None"
  shows "safe_val (UDP_OnReadPacket env p data addr w) w unknown_ok"
proof -
  obtain port where port: "i_ports w p = Some port" using p by auto
  show ?thesis
  proof (cases "amap_find addr (p_connections port)")
    case (Some c)
    then have conn: "GetConnection p addr w = Some (Some c)" using port by (simp add: GetConnection_def)
    have "safe (Connection_OnReadPacket env c data w) w"
      by (rule Connection_OnReadPacket_safe [OF ok GetConnection_alive [OF ok conn]])
    then show ?thesis using conn by (auto simp: UDP_OnReadPacket_def safe_def safe_val_def unknown_ok_def)
  next
    case None
    then have conn: "GetConnection p addr w = Some None" using port by (simp add: GetConnection_def)
    obtain r w' where r: "GetStunMessage env p data addr w = Some (r, w')" "steps w w'" "stun_result_ok r"
      using GetStunMessage_safe [OF ok port port_frag(1) [OF ok port]] by blast
    show ?thesis using conn port r steps_emit [OF ok, of "SignalPortPacket p data addr"]
      by (auto simp: UDP_OnReadPacket_def Port_OnReadPacket_def unknown_ok_def stun_result_ok_def
          intro!: safe_val_SomeI split: stun_packet.splits)
  qed
qed

end
