(* ===== verification/Port_Properties.thy ===== *)
theory Port_Properties
  imports Port_Packet_Proofs
begin

text \<open>
  What ports and connections promise (talk/p2p/base/port.cc): how the states of a connection follow its
  unanswered pings, the estimate of the round trip time, and the ping that two ports exchange.
\<close>

section \<open>The states of a connection\<close>












definition test_connection :: connection where
  "test_connection = (Connection 0 0 \<lparr>c_name = [], c_protocol = ascii ''udp'', c_address = SocketAddress, c_preference = 1,
     c_username = [], c_password = [], c_type = [], c_network_name = [], c_generation = 0\<rparr>)
     \<lparr>cn_read_state := STATE_READABLE, cn_write_state := STATE_WRITABLE, cn_pings := [100, 600, 1100, 1600, 2100],
      cn_last_ping_received := 100\<rparr>"

definition test_ice :: ice where
  "test_ice = \<lparr>i_ports = (\<lambda>_. None), i_conns = [0 \<mapsto> test_connection], i_next = 1, i_deletes = [], i_timers = [], i_log = []\<rparr>"


section \<open>The round trip time\<close>




section \<open>The exchange of a ping\<close>

definition username_attr :: "bytes \<Rightarrow> stun_attr" where
  "username_attr u = \<lparr>at_type = STUN_ATTR_USERNAME, at_length = of_nat (length u), at_body = ByteStringBody (Some u)\<rparr>"

lemma username_attr_ok:
  assumes "length u < 60000"
  shows "attr_ok tid (username_attr u)" "unat (at_length (username_attr u)) = length u"
    "attr_string (username_attr u) = Some u"
proof -
  show n: "unat (at_length (username_attr u)) = length u"
    using assms by (simp add: username_attr_def unat_of_nat)
  show "attr_ok tid (username_attr u)" using n by (simp add: attr_ok_def username_attr_def)
  show "attr_string (username_attr u) = Some u" using n by (simp add: attr_string_def username_attr_def)
qed

lemma CopyBytes_username:
  assumes "length u < 60000" "CreateByteString STUN_ATTR_USERNAME = Some t"
  shows "set_owner (CopyBytes u t) = username_attr u"
proof -
  have "t = \<lparr>at_type = STUN_ATTR_USERNAME, at_length = 0, at_body = ByteStringBody None\<rparr>"
    using assms(2) by (simp add: CreateByteString_def)
  then show ?thesis using assms(1) by (simp add: CopyBytes_def set_owner_def username_attr_def unat_of_nat Let_def)
qed

lemma padded_bounds: "padded n \<le> n + 3"
  by (simp add: padded_def) linarith

definition ping_message :: "bytes \<Rightarrow> bytes \<Rightarrow> stun_message" where
  "ping_message tid u = rc_prepare (ConnectionRequest u) (rq_msg (StunRequest tid))"

lemma ping_message_eq:
  assumes "length tid = 12" "length u < 60000"
  shows "ping_message tid u = \<lparr>sm_type = STUN_BINDING_REQUEST, sm_length = of_nat (padded (length u) + 4), sm_tid = tid,
    sm_attrs = [username_attr u]\<rparr>"
proof -
  obtain t where t: "CreateByteString STUN_ATTR_USERNAME = Some t" by (simp add: CreateByteString_def)
  have len: "at_length (CopyBytes u t) = of_nat (length u)" by (simp add: CopyBytes_def Let_def)
  have n: "unat (of_nat (length u) :: u16) = length u" using assms(2) by (simp add: unat_of_nat)
  show ?thesis using assms(1) t CopyBytes_username [OF assms(2) t] len n
    by (simp add: ping_message_def ConnectionRequest_def StunRequest_def SetTransactionID_def IsValidTransactionId_def
        kStunTransactionIdLength_def StunMessage_def SetMessageType_def AddAttribute_def Let_def)
qed

lemma ping_message_ok:
  assumes "length tid = 12" "length u < 60000"
  shows "message_ok (ping_message tid u)"
proof -
  have "unat (of_nat (padded (length u) + 4) :: u16) = padded (length u) + 4"
    using assms(2) padded_bounds [of "length u"] by (simp add: unat_of_nat del: of_nat_add)
  then show ?thesis using username_attr_ok [OF assms(2)] assms
    by (simp add: ping_message_eq message_ok_def tid_ok_def attrs_size_def STUN_BINDING_REQUEST_def del: of_nat_add)
qed

lemma GetUsername:
  assumes "sm_attrs m = username_attr u # ts"
  shows "GetByteString STUN_ATTR_USERNAME m = Some (Some (username_attr u))"
  using assms by (simp add: GetByteString_def GetAttribute_def username_attr_def)

text \<open>A request that starts with the port's fragment and a response that ends with it get through.\<close>

lemma GetStunMessage_request:
  assumes port: "i_ports w p = Some port" "p_username_frag port = frag"
    and read: "message_read StunMessage (ByteBuffer_of data ORDER_NETWORK) = Some (True, m, b')" "Length b' = 0"
    and m: "sm_type m = STUN_BINDING_REQUEST" "sm_attrs m = username_attr (frag @ remote) # ts" "length (frag @ remote) < 60000"
  shows "GetStunMessage env p data addr w = Some (ValidStun m remote, w)"
proof -
  note u = username_attr_ok [OF m(3)]
  show ?thesis unfolding GetStunMessage_def port(1) read(1) bind.bind_lunit prod.case GetUsername [OF m(2)] Let_def
    using read(2) port(2) m(1,3) u(2,3) by simp
qed

lemma GetStunMessage_response:
  assumes port: "i_ports w p = Some port" "p_username_frag port = frag"
    and read: "message_read StunMessage (ByteBuffer_of data ORDER_NETWORK) = Some (True, m, b')" "Length b' = 0"
    and m: "sm_type m = STUN_BINDING_RESPONSE" "sm_attrs m = username_attr (remote @ frag) # ts" "length (remote @ frag) < 60000"
  shows "GetStunMessage env p data addr w = Some (ValidStun m remote, w)"
proof -
  note u = username_attr_ok [OF m(3)]
  show ?thesis unfolding GetStunMessage_def port(1) read(1) bind.bind_lunit prod.case GetUsername [OF m(2)] Let_def
    using read(2) port(2) m(1,3) u(2,3) stun_type_codes by simp
qed

text \<open>The answer to a ping: the same id and user name, and the address the ping came from.\<close>

definition pong_message :: "bytes \<Rightarrow> bytes \<Rightarrow> sock_addr \<Rightarrow> stun_message" where
  "pong_message tid u addr = \<lparr>sm_type = STUN_BINDING_RESPONSE, sm_length = of_nat (padded (length u) + 4 + 12), sm_tid = tid,
     sm_attrs = [username_attr u, \<lparr>at_type = STUN_ATTR_MAPPED_ADDRESS, at_length = 8,
       at_body = AddressBody \<lparr>sa_hostname = [], sa_ip = sa_ip addr, sa_port = sa_port addr, sa_literal = False\<rparr>\<rparr>]\<rparr>"

lemma pong_message_ok:
  assumes "length tid = 12" "length u < 60000" "sa_ip addr = IP4 ip"
  shows "message_ok (pong_message tid u addr)"
proof -
  have "unat (of_nat (padded (length u) + 4 + 12) :: u16) = padded (length u) + 4 + 12"
    using assms(2) padded_bounds [of "length u"] by (simp add: unat_of_nat del: of_nat_add)
  then show ?thesis using username_attr_ok [OF assms(2)] assms
    by (simp add: pong_message_def message_ok_def tid_ok_def attrs_size_def STUN_BINDING_RESPONSE_def attr_ok_def [of _ "\<lparr>at_type = _, at_length = _, at_body = _\<rparr>"]
        addr_ok_def address_length_def ip_family_def SIZE_IP4_def padded_def [of 8] del: of_nat_add)
qed

lemma binding_response_pong:
  assumes "length tid = 12" "length u < 60000" "sa_ip addr = IP4 ip"
  shows "binding_response (ping_message tid u) addr = Some (pong_message tid u addr)"
proof -
  obtain t where t: "CreateByteString STUN_ATTR_USERNAME = Some t" by (simp add: CreateByteString_def)
  have len: "at_length (CopyBytes u t) = of_nat (length u)" by (simp add: CopyBytes_def Let_def)
  have n: "unat (of_nat (length u) :: u16) = length u" using assms(2) by (simp add: unat_of_nat)
  note m = ping_message_eq [OF assms(1,2)]
  have user: "GetByteString STUN_ATTR_USERNAME (ping_message tid u) = Some (Some (username_attr u))"
    by (rule GetUsername) (simp add: m)
  have 1: "response_to STUN_BINDING_RESPONSE (ping_message tid u)
      = Some \<lparr>sm_type = STUN_BINDING_RESPONSE, sm_length = of_nat (padded (length u) + 4), sm_tid = tid, sm_attrs = [username_attr u]\<rparr>"
    unfolding response_to_def user bind.bind_lunit username_attr_ok(3) [OF assms(2)] t
    using assms(1) CopyBytes_username [OF assms(2) t] len n
    by (simp add: m SetTransactionID_def IsValidTransactionId_def kStunTransactionIdLength_def StunMessage_def
        SetMessageType_def AddAttribute_def Let_def)
  have 2: "CreateAddress STUN_ATTR_MAPPED_ADDRESS
      = Some \<lparr>at_type = STUN_ATTR_MAPPED_ADDRESS, at_length = SIZE_IP4, at_body = AddressBody SocketAddress\<rparr>"
    by (simp add: CreateAddress_def)
  show ?thesis unfolding binding_response_def 1 2 bind.bind_lunit
    using assms(3)
    by (simp add: attr_SetIP_def attr_SetPort_def SetAddress_def SetIP_def address_length_def ip_family_def SIZE_IP4_def
        AddAttribute_def set_owner_def pong_message_def SocketAddress_def padded_def [of 8])
qed

text \<open>
  C10: a ping and its answer get through between two ports that know each other's user name fragments:
  the bytes of the ping are accepted by the remote port as a request from this one, the bytes of its
  answer are accepted by this port as a response of the remote one, with the id of the ping.
\<close>

theorem ping_exchange:
  assumes "length tid = 12" "length (remote @ frag) < 60000" "sa_ip addr = IP4 ip"
    "i_ports w p = Some port" "p_username_frag port = frag"
    "i_ports w' p' = Some port'" "p_username_frag port' = remote"
  shows "\<exists>ping answer buf buf'. ping = rc_prepare (ConnectionRequest (remote @ frag)) (rq_msg (StunRequest tid))
     \<and> message_write ping (ByteBuffer_empty ORDER_NETWORK) = Some buf
     \<and> GetStunMessage env' p' (Data buf) addr w' = Some (ValidStun ping frag, w')
     \<and> binding_response ping addr = Some answer
     \<and> message_write answer (ByteBuffer_empty ORDER_NETWORK) = Some buf'
     \<and> GetStunMessage env p (Data buf') addr' w = Some (ValidStun answer remote, w)
     \<and> sm_tid answer = tid \<and> sm_type answer = STUN_BINDING_RESPONSE"
proof -
  let ?u = "remote @ frag"
  let ?ping = "ping_message tid ?u" and ?pong = "pong_message tid ?u addr"
  note m = ping_message_eq [OF assms(1,2)]
  obtain buf b where b: "message_write ?ping (ByteBuffer_empty ORDER_NETWORK) = Some buf"
      "message_read StunMessage (ByteBuffer_of (Data buf) ORDER_NETWORK) = Some (True, ?ping, b)" "Length b = 0"
    using message_wire [OF ping_message_ok [OF assms(1,2)]] by blast
  obtain buf' b' where b': "message_write ?pong (ByteBuffer_empty ORDER_NETWORK) = Some buf'"
      "message_read StunMessage (ByteBuffer_of (Data buf') ORDER_NETWORK) = Some (True, ?pong, b')" "Length b' = 0"
    using message_wire [OF pong_message_ok [OF assms(1-3)]] by blast
  have "GetStunMessage env' p' (Data buf) addr w' = Some (ValidStun ?ping frag, w')"
    by (rule GetStunMessage_request [OF assms(6,7) b(2,3)]) (use m assms(2) in simp_all)
  moreover have "GetStunMessage env p (Data buf') addr' w = Some (ValidStun ?pong remote, w)"
    by (rule GetStunMessage_response [OF assms(4,5) b'(2,3)]) (use assms(2) in \<open>simp_all add: pong_message_def\<close>)
  ultimately show ?thesis using b(1) b'(1) binding_response_pong [OF assms(1-3)]
    by (intro exI [of _ ?ping] exI [of _ ?pong] exI [of _ buf] exI [of _ buf']) (simp add: ping_message_def pong_message_def)
qed

lemma ping_exchange_witness:
  "\<forall>env. \<exists>ping buf. message_write ping (ByteBuffer_empty ORDER_NETWORK) = Some buf
     \<and> GetStunMessage env 1 (Data buf) (SocketAddress_of (IP4 0x0100007F) 5000)
         (put_port 0 (UDPPort (ascii ''frag'') [] 0 []) (put_port 1 (UDPPort (ascii ''peer'') [] 0 []) test_ice))
       = Some (ValidStun ping (ascii ''frag''), put_port 0 (UDPPort (ascii ''frag'') [] 0 []) (put_port 1 (UDPPort (ascii ''peer'') [] 0 []) test_ice))"
proof
  fix env
  let ?w = "put_port 0 (UDPPort (ascii ''frag'') [] 0 []) (put_port 1 (UDPPort (ascii ''peer'') [] 0 []) test_ice)"
  let ?a = "SocketAddress_of (IP4 0x0100007F) 5000"
  have t: "length test_tid = 12" by (simp add: test_tid_def)
  have l: "length (ascii ''peer'' @ ascii ''frag'') < 60000" by (simp add: ascii_def)
  have a: "sa_ip ?a = IP4 0x0100007F" by (simp add: SocketAddress_of_def SetIP_def)
  have p: "i_ports ?w 0 = Some (UDPPort (ascii ''frag'') [] 0 [])" "p_username_frag (UDPPort (ascii ''frag'') [] 0 []) = ascii ''frag''"
      "i_ports ?w 1 = Some (UDPPort (ascii ''peer'') [] 0 [])" "p_username_frag (UDPPort (ascii ''peer'') [] 0 []) = ascii ''peer''"
    by (simp_all add: put_port_def UDPPort_def)
  obtain ping answer buf buf' where "message_write ping (ByteBuffer_empty ORDER_NETWORK) = Some buf"
      "GetStunMessage env 1 (Data buf) ?a ?w = Some (ValidStun ping (ascii ''frag''), ?w)"
    using ping_exchange [OF t l a p, of env env ?a] by (elim exE conjE) (rule that)
  then show "\<exists>ping buf. message_write ping (ByteBuffer_empty ORDER_NETWORK) = Some buf
     \<and> GetStunMessage env 1 (Data buf) ?a ?w = Some (ValidStun ping (ascii ''frag''), ?w)" by blast
qed

end
