(* ===== verification/P2P_Channel.thy ===== *)
theory P2P_Channel
  imports Port_Ops
begin

text \<open>
  talk/p2p/base/p2ptransportchannel.cc, with the two flags of transportchannel.cc and the part of
  client/basicportallocator.cc that keeps the ports of a session: a channel creates connections
  between its ports and the remote candidates, pings them in turn, sorts them, sends over
  the best one and prunes the others. Signals of ports and connections are delivered by \<open>deliver\<close>
  after the operation that raised them: their slots here only post a sort, forget a port or a connection, or pass data
  on. The posted messages of the channel are \<open>ch_posted\<close>. Log output is left out. The signals
  of the channel itself are \<open>ch_log\<close>.
\<close>

section \<open>State\<close>

definition MAX_CURRENT_WRITABLE_DELAY :: u32 where "MAX_CURRENT_WRITABLE_DELAY = 900"
definition kMinImprovement :: nat where "kMinImprovement = 10"
definition kAllocatePeriod :: int where "kAllocatePeriod = 20 * 1000"

datatype channel_msg = MSG_SORT | MSG_PING | MSG_ALLOCATE

datatype channel_signal =
    SignalRequestSignaling
  | SignalRouteChange candidate
  | SignalReadableState
  | SignalWritableState
  | SignalConnectionMonitor
  | ChannelReadPacket bytes
  | SignalCandidateReady candidate
  | PortOption nat int int

text \<open>A session of the allocator: its generation, whether it is getting all ports, its ports and whether they are ready.\<close>

record alloc_session =
  as_generation :: u32
  as_running :: bool
  as_ports :: "(nat \<times> bool) list"

record channel =
  ch_name :: bytes
  ch_incoming_only :: bool
  ch_waiting_for_signaling :: bool
  ch_error :: int
  ch_sessions :: "alloc_session list"
  ch_ports :: "nat list"
  ch_conns :: "nat list"
  ch_best :: "nat option"
  ch_remotes :: "(candidate \<times> nat option) list"
  ch_pinging_started :: bool
  ch_sort_dirty :: bool
  ch_was_writable :: bool
  ch_was_timed_out :: bool
  ch_options :: "(int \<times> int) list"
  ch_readable :: bool
  ch_writable :: bool
  ch_posted :: "(int \<times> channel_msg) list"
  ch_log :: "channel_signal list"

definition P2PTransportChannel :: "bytes \<Rightarrow> channel" where
  "P2PTransportChannel name = \<lparr>ch_name = name, ch_incoming_only = False, ch_waiting_for_signaling = False, ch_error = 0,
     ch_sessions = [], ch_ports = [], ch_conns = [], ch_best = None, ch_remotes = [], ch_pinging_started = False,
     ch_sort_dirty = False, ch_was_writable = False, ch_was_timed_out = True, ch_options = [],
     ch_readable = False, ch_writable = False, ch_posted = [], ch_log = []\<rparr>"

definition ch_emit :: "channel_signal \<Rightarrow> channel \<Rightarrow> channel" where
  "ch_emit e ch = ch\<lparr>ch_log := ch_log ch @ [e]\<rparr>"

definition ch_post :: "int \<Rightarrow> channel_msg \<Rightarrow> channel \<Rightarrow> channel" where
  "ch_post delay m ch = ch\<lparr>ch_posted := ch_posted ch @ [(delay, m)]\<rparr>"

definition set_readable :: "bool \<Rightarrow> channel \<Rightarrow> channel" where
  "set_readable readable ch =
     (if ch_readable ch \<noteq> readable then ch_emit SignalReadableState (ch\<lparr>ch_readable := readable\<rparr>) else ch)"

definition set_writable :: "bool \<Rightarrow> channel \<Rightarrow> channel" where
  "set_writable writable ch =
     (if ch_writable ch \<noteq> writable then ch_emit SignalWritableState (ch\<lparr>ch_writable := writable\<rparr>) else ch)"

section \<open>Comparing connections\<close>

definition GetOrigin :: "nat \<Rightarrow> nat option \<Rightarrow> candidate_origin" where
  "GetOrigin port origin_port =
     (if origin_port = None then ORIGIN_MESSAGE
      else if Some port = origin_port then ORIGIN_THIS_PORT
      else ORIGIN_OTHER_PORT)"

text \<open>The preferences multiplied and the generations added of one connection, with the ASSERT on its port.\<close>

definition candidate_key :: "net_env \<Rightarrow> nat \<Rightarrow> ice \<Rightarrow> (rat \<times> u32) option" where
  "candidate_key env c w = do {
     cn \<leftarrow> i_conns w c;
     port \<leftarrow> i_ports w (cn_port cn);
     l \<leftarrow> local_candidate cn w;
     ASSERT (c_preference l = p_preference port);
     Some (ne_fmul env (c_preference l) (c_preference (cn_remote cn)), c_generation (cn_remote cn) + p_generation port)
   }"

definition CompareConnectionCandidates :: "net_env \<Rightarrow> nat \<Rightarrow> nat \<Rightarrow> ice \<Rightarrow> int option" where
  "CompareConnectionCandidates env a b w = do {
     (a_pref, a_gen) \<leftarrow> candidate_key env a w;
     (b_pref, b_gen) \<leftarrow> candidate_key env b w;
     Some (if a_pref > b_pref then 1 else if a_pref < b_pref then - 1 else sint (a_gen - b_gen))
   }"

fun write_rank :: "write_state \<Rightarrow> nat" where
  "write_rank STATE_WRITABLE = 0"
| "write_rank STATE_WRITE_CONNECT = 1"
| "write_rank STATE_WRITE_TIMEOUT = 2"

definition CompareConnections :: "net_env \<Rightarrow> nat \<Rightarrow> nat \<Rightarrow> ice \<Rightarrow> int option" where
  "CompareConnections env a b w = do {
     cna \<leftarrow> i_conns w a;
     cnb \<leftarrow> i_conns w b;
     if write_rank (cn_write_state cna) < write_rank (cn_write_state cnb) then Some 1
     else if write_rank (cn_write_state cna) > write_rank (cn_write_state cnb) then Some (- 1)
     else CompareConnectionCandidates env a b w
   }"

definition ConnectionCompare :: "net_env \<Rightarrow> ice \<Rightarrow> nat \<Rightarrow> nat \<Rightarrow> bool option" where
  "ConnectionCompare env w a b = do {
     cmp \<leftarrow> CompareConnections env a b w;
     cna \<leftarrow> i_conns w a;
     cnb \<leftarrow> i_conns w b;
     Some (if cmp > 0 then True else if cmp < 0 then False else cn_rtt cna < cn_rtt cnb)
   }"

text \<open>A null pointer is \<open>None\<close>. The sum with kMinImprovement is a double.\<close>

definition ShouldSwitch :: "net_env \<Rightarrow> nat option \<Rightarrow> nat option \<Rightarrow> ice \<Rightarrow> bool option" where
  "ShouldSwitch env a_conn b_conn w =
     (if a_conn = b_conn then Some False
      else case (a_conn, b_conn) of
        (Some a, Some b) \<Rightarrow> do {
          prefs_cmp \<leftarrow> CompareConnections env a b w;
          cna \<leftarrow> i_conns w a;
          cnb \<leftarrow> i_conns w b;
          Some (if prefs_cmp < 0 then True else if prefs_cmp > 0 then False
                else unat (cn_rtt cnb) \<le> unat (cn_rtt cna) + kMinImprovement)
        }
      | _ \<Rightarrow> Some True)"

text \<open>std::stable_sort may compare any two different elements.\<close>

definition sort_by :: "('a \<Rightarrow> 'a \<Rightarrow> bool option) \<Rightarrow> 'a list \<Rightarrow> 'a list option" where
  "sort_by lt xs =
     (if list_all (\<lambda>a. list_all (\<lambda>b. a = b \<or> lt a b \<noteq> None) xs) xs
      then Some (stable_sort (\<lambda>a b. lt a b = Some True) xs) else None)"

section \<open>Requests to the thread and the signaling\<close>

definition RequestSort :: "channel \<Rightarrow> channel" where
  "RequestSort ch = (if \<not> ch_sort_dirty ch then (ch_post 0 MSG_SORT ch)\<lparr>ch_sort_dirty := True\<rparr> else ch)"

definition CancelPendingAllocate :: "channel \<Rightarrow> channel" where
  "CancelPendingAllocate ch = ch\<lparr>ch_posted := filter (\<lambda>m. snd m \<noteq> MSG_ALLOCATE) (ch_posted ch)\<rparr>"

definition Allocate :: "channel \<Rightarrow> channel" where
  "Allocate ch = ch_emit SignalRequestSignaling ((CancelPendingAllocate ch)\<lparr>ch_waiting_for_signaling := True\<rparr>)"

definition SwitchBestConnectionTo :: "nat option \<Rightarrow> ice \<Rightarrow> channel \<Rightarrow> channel option" where
  "SwitchBestConnectionTo conn w ch =
     (case conn of None \<Rightarrow> Some (ch\<lparr>ch_best := None\<rparr>)
      | Some c \<Rightarrow> do {
          cn \<leftarrow> i_conns w c;
          Some (ch_emit (SignalRouteChange (cn_remote cn)) (ch\<lparr>ch_best := Some c\<rparr>))
        })"

section \<open>Slots\<close>

definition FindConnection :: "nat \<Rightarrow> channel \<Rightarrow> bool" where
  "FindConnection c ch \<longleftrightarrow> c \<in> set (ch_conns ch)"

definition OnReadPacket :: "nat \<Rightarrow> bytes \<Rightarrow> channel \<Rightarrow> channel" where
  "OnReadPacket c data ch = (if \<not> FindConnection c ch then ch else ch_emit (ChannelReadPacket data) ch)"

definition ChannelConnectionDestroyed :: "nat \<Rightarrow> channel \<Rightarrow> channel option" where
  "ChannelConnectionDestroyed c ch = do {
     ASSERT (c \<in> set (ch_conns ch));
     let ch = ch\<lparr>ch_conns := remove1 c (ch_conns ch)\<rparr>;
     Some (if ch_best ch = Some c then RequestSort (ch\<lparr>ch_best := None\<rparr>) else ch)
   }"

text \<open>The session that the port belongs to forgets it as well.\<close>

definition SessionPortDestroyed :: "nat \<Rightarrow> alloc_session \<Rightarrow> alloc_session" where
  "SessionPortDestroyed p s = s\<lparr>as_ports := filter (\<lambda>e. fst e \<noteq> p) (as_ports s)\<rparr>"

definition OnPortDestroyed :: "nat \<Rightarrow> channel \<Rightarrow> channel option" where
  "OnPortDestroyed p ch = do {
     ASSERT (list_ex (\<lambda>s. p \<in> fst ` set (as_ports s)) (ch_sessions ch));
     Some (ch\<lparr>ch_sessions := map (SessionPortDestroyed p) (ch_sessions ch), ch_ports := remove1 p (ch_ports ch)\<rparr>)
   }"

fun on_signal :: "port_signal \<Rightarrow> channel \<Rightarrow> channel option" where
  "on_signal (SignalStateChange c) ch = Some (RequestSort ch)"
| "on_signal (SignalReadPacket c data) ch = Some (OnReadPacket c data ch)"
| "on_signal (SignalConnectionDestroyed c) ch = ChannelConnectionDestroyed c ch"
| "on_signal (SignalPortDestroyed p) ch = OnPortDestroyed p ch"
| "on_signal _ ch = Some ch"

fun on_signals :: "port_signal list \<Rightarrow> channel \<Rightarrow> channel option" where
  "on_signals [] ch = Some ch"
| "on_signals (e # es) ch = do { ch \<leftarrow> on_signal e ch; on_signals es ch }"

definition deliver :: "ice \<Rightarrow> channel \<Rightarrow> (ice \<times> channel) option" where
  "deliver w ch = do { ch \<leftarrow> on_signals (i_log w) ch; Some (w\<lparr>i_log := []\<rparr>, ch) }"

section \<open>Sorting and choosing\<close>

fun update_states :: "u32 \<Rightarrow> nat list \<Rightarrow> ice \<Rightarrow> ice option" where
  "update_states now [] w = Some w"
| "update_states now (c # cs) w = do { w \<leftarrow> UpdateState now c w; update_states now cs w }"

definition UpdateConnectionStates :: "net_env \<Rightarrow> ice \<Rightarrow> channel \<Rightarrow> (ice \<times> channel) option" where
  "UpdateConnectionStates env w ch = do { w \<leftarrow> update_states (ne_now env) (ch_conns ch) w; deliver w ch }"

definition conn_network :: "nat \<Rightarrow> ice \<Rightarrow> nat option" where
  "conn_network c w = do { cn \<leftarrow> i_conns w c; port \<leftarrow> i_ports w (cn_port cn); Some (p_network port) }"

fun networks_of :: "nat list \<Rightarrow> ice \<Rightarrow> nat list option" where
  "networks_of [] w = Some []"
| "networks_of (c # cs) w = do { n \<leftarrow> conn_network c w; ns \<leftarrow> networks_of cs w; Some (n # ns) }"

fun first_on_network :: "nat \<Rightarrow> nat list \<Rightarrow> ice \<Rightarrow> nat option option" where
  "first_on_network network [] w = Some None"
| "first_on_network network (c # cs) w = do {
     n \<leftarrow> conn_network c w;
     if n = network then Some (Some c) else first_on_network network cs w
   }"

definition GetBestConnectionOnNetwork :: "nat \<Rightarrow> ice \<Rightarrow> channel \<Rightarrow> nat option option" where
  "GetBestConnectionOnNetwork network w ch =
     (case ch_best ch of
        Some b \<Rightarrow> do { n \<leftarrow> conn_network b w; if n = network then Some (Some b) else first_on_network network (ch_conns ch) w }
      | None \<Rightarrow> first_on_network network (ch_conns ch) w)"

fun prune_worse :: "net_env \<Rightarrow> nat \<Rightarrow> nat \<Rightarrow> nat list \<Rightarrow> ice \<Rightarrow> ice option" where
  "prune_worse env network primier [] w = Some w"
| "prune_worse env network primier (c # cs) w = do {
     n \<leftarrow> conn_network c w;
     w \<leftarrow> (if c \<noteq> primier \<and> n = network
           then do {
             cmp \<leftarrow> CompareConnectionCandidates env primier c w;
             if cmp \<ge> 0 then Prune c w else Some w
           }
           else Some w);
     prune_worse env network primier cs w
   }"

fun prune_networks :: "net_env \<Rightarrow> nat list \<Rightarrow> channel \<Rightarrow> ice \<Rightarrow> ice option" where
  "prune_networks env [] ch w = Some w"
| "prune_networks env (n # ns) ch w = do {
     primier \<leftarrow> GetBestConnectionOnNetwork n w ch;
     w \<leftarrow> (case primier of None \<Rightarrow> Some w
           | Some p \<Rightarrow> do {
               cn \<leftarrow> i_conns w p;
               if cn_write_state cn \<noteq> STATE_WRITABLE then Some w else prune_worse env n p (ch_conns ch) w
             });
     prune_networks env ns ch w
   }"

fun count_state :: "write_state \<Rightarrow> nat list \<Rightarrow> ice \<Rightarrow> nat option" where
  "count_state s [] w = Some 0"
| "count_state s (c # cs) w = do {
     cn \<leftarrow> i_conns w c;
     n \<leftarrow> count_state s cs w;
     Some (if cn_write_state cn = s then Suc n else n)
   }"

definition StopGetAllPorts :: "alloc_session \<Rightarrow> alloc_session" where
  "StopGetAllPorts s = s\<lparr>as_running := False\<rparr>"

definition HandleWritable :: "channel \<Rightarrow> channel" where
  "HandleWritable ch =
     (let ch = (if \<not> ch_writable ch
                then CancelPendingAllocate
                  (ch\<lparr>ch_sessions := map (\<lambda>s. if as_running s then StopGetAllPorts s else s) (ch_sessions ch)\<rparr>)
                else ch)
      in set_writable True (ch\<lparr>ch_was_writable := True, ch_was_timed_out := False\<rparr>))"

definition HandleNotWritable :: "channel \<Rightarrow> channel" where
  "HandleNotWritable ch =
     (let ch = (if ch_was_writable ch then Allocate (ch\<lparr>ch_was_writable := False\<rparr>) else ch)
      in set_writable False (ch\<lparr>ch_was_timed_out := False\<rparr>))"

definition HandleAllTimedOut :: "channel \<Rightarrow> channel" where
  "HandleAllTimedOut ch =
     (let ch = (if \<not> ch_was_timed_out ch then Allocate ch else ch)
      in set_writable False (ch\<lparr>ch_was_timed_out := True, ch_was_writable := False\<rparr>))"

fun any_readable :: "nat list \<Rightarrow> ice \<Rightarrow> bool option" where
  "any_readable [] w = Some False"
| "any_readable (c # cs) w = do {
     cn \<leftarrow> i_conns w c;
     r \<leftarrow> any_readable cs w;
     Some (cn_read_state cn = STATE_READABLE \<or> r)
   }"

definition best_writable :: "ice \<Rightarrow> channel \<Rightarrow> bool option" where
  "best_writable w ch =
     (case ch_best ch of None \<Rightarrow> Some False | Some b \<Rightarrow> map_option (\<lambda>cn. cn_write_state cn = STATE_WRITABLE) (i_conns w b))"

definition UpdateChannelState :: "ice \<Rightarrow> channel \<Rightarrow> channel option" where
  "UpdateChannelState w ch = do {
     writable \<leftarrow> best_writable w ch;
     ASSERT (writable = ch_writable ch);
     readable \<leftarrow> any_readable (ch_conns ch) w;
     Some (set_readable readable ch)
   }"

definition SortConnections :: "net_env \<Rightarrow> ice \<Rightarrow> channel \<Rightarrow> (ice \<times> channel) option" where
  "SortConnections env w ch = do {
     (w, ch) \<leftarrow> UpdateConnectionStates env w ch;
     let ch = ch\<lparr>ch_sort_dirty := False\<rparr>;
     networks \<leftarrow> networks_of (ch_conns ch) w;
     sorted \<leftarrow> sort_by (ConnectionCompare env w) (ch_conns ch);
     let ch = ch\<lparr>ch_conns := sorted\<rparr>;
     let top = (case sorted of [] \<Rightarrow> None | c # _ \<Rightarrow> Some c);
     switch \<leftarrow> ShouldSwitch env (ch_best ch) top w;
     ch \<leftarrow> (if switch then SwitchBestConnectionTo top w ch else Some ch);
     w \<leftarrow> prune_networks env (sort (remdups networks)) ch w;
     (w, ch) \<leftarrow> deliver w ch;
     writable \<leftarrow> count_state STATE_WRITABLE (ch_conns ch) w;
     write_connect \<leftarrow> count_state STATE_WRITE_CONNECT (ch_conns ch) w;
     let ch = (if writable > 0 then HandleWritable ch
               else if write_connect > 0 then HandleNotWritable ch
               else HandleAllTimedOut ch);
     ch \<leftarrow> UpdateChannelState w ch;
     Some (w, ch_emit SignalConnectionMonitor ch)
   }"

end
