(* ===== verification/P2P_Channel_Ops.thy ===== *)
theory P2P_Channel_Ops
  imports P2P_Channel
begin

text \<open>
  The rest of talk/p2p/base/p2ptransportchannel.cc: candidates, new ports and sessions, pings,
  sending, options and the delivery of messages; and the events that drive a channel.
\<close>

section \<open>Allocator sessions\<close>

fun start_ports :: "nat list \<Rightarrow> ice \<Rightarrow> ice option" where
  "start_ports [] w = Some w"
| "start_ports (p # ps) w = do { w \<leftarrow> StartPort p w; start_ports ps w }"

definition StartGetAllPorts :: "alloc_session \<Rightarrow> ice \<Rightarrow> (alloc_session \<times> ice) option" where
  "StartGetAllPorts s w = do { w \<leftarrow> start_ports (map fst (as_ports s)) w; Some (s\<lparr>as_running := True\<rparr>, w) }"

fun start_sessions :: "alloc_session list \<Rightarrow> ice \<Rightarrow> (alloc_session list \<times> ice) option" where
  "start_sessions [] w = Some ([], w)"
| "start_sessions (s # ss) w = do {
     (s, w) \<leftarrow> (if \<not> as_running s then StartGetAllPorts s w else Some (s, w));
     (ss, w) \<leftarrow> start_sessions ss w;
     Some (s # ss, w)
   }"

definition AddAllocatorSession :: "ice \<Rightarrow> channel \<Rightarrow> (ice \<times> channel) option" where
  "AddAllocatorSession w ch = do {
     let s = \<lparr>as_generation = of_nat (length (ch_sessions ch)), as_running = False, as_ports = []\<rparr>;
     (s, w) \<leftarrow> (if ch_pinging_started ch then StartGetAllPorts s w else Some (s, w));
     Some (w, ch\<lparr>ch_sessions := ch_sessions ch @ [s], ch_ports := []\<rparr>)
   }"

fun delete_ports :: "nat list \<Rightarrow> ice \<Rightarrow> ice option" where
  "delete_ports [] w = Some w"
| "delete_ports (p # ps) w = do { w \<leftarrow> delete_port p w; delete_ports ps w }"

section \<open>Candidates\<close>

definition CreateConnection :: "net_env \<Rightarrow> nat \<Rightarrow> candidate \<Rightarrow> nat option \<Rightarrow> bool \<Rightarrow> ice \<Rightarrow> channel \<Rightarrow> (bool \<times> ice \<times> channel) option" where
  "CreateConnection env p remote_candidate origin_port readable w ch = do {
     connection \<leftarrow> GetConnection p (c_address remote_candidate) w;
     (connection, w, ch) \<leftarrow>
       (case connection of
          Some c \<Rightarrow> do {
            cn \<leftarrow> i_conns w c;
            Some (if IsEquivalent remote_candidate (cn_remote cn) then Some c else None, w, ch)
          }
        | None \<Rightarrow>
            if GetOrigin p origin_port = ORIGIN_MESSAGE \<and> ch_incoming_only ch then Some (None, w, ch)
            else do {
              (c, w) \<leftarrow> UDP_CreateConnection p remote_candidate (GetOrigin p origin_port) w;
              Some (c, w, case c of None \<Rightarrow> ch | Some c \<Rightarrow> ch\<lparr>ch_conns := ch_conns ch @ [c]\<rparr>)
            });
     (case connection of
        None \<Rightarrow> Some (False, w, ch)
      | Some c \<Rightarrow> do {
          w \<leftarrow> (if readable then ReceivedPing (ne_now env) c w else Some w);
          (w, ch) \<leftarrow> deliver w ch;
          Some (True, w, ch)
        })
   }"

fun RememberRemoteCandidate :: "candidate \<times> nat option \<Rightarrow> ice \<Rightarrow> channel \<Rightarrow> (ice \<times> channel) option" where
  "RememberRemoteCandidate (remote_candidate, origin_port) w ch =
     (let remotes = filter (\<lambda>r. \<not> c_generation (fst r) < c_generation remote_candidate) (ch_remotes ch);
          ch = ch\<lparr>ch_remotes := remotes\<rparr>
      in if list_ex (\<lambda>r. IsEquivalent (fst r) remote_candidate) remotes then Some (w, ch)
         else (let ch = ch\<lparr>ch_remotes := remotes @ [(remote_candidate, origin_port)]\<rparr>
               in if \<not> ch_pinging_started ch
                  then do {
                    (sessions, w) \<leftarrow> start_sessions (ch_sessions ch) w;
                    Some (w, ch\<lparr>ch_pinging_started := True, ch_sessions := sessions\<rparr>)
                  }
                  else Some (w, ch)))"

text \<open>The loop over the ports, the latest first; the flag says whether the origin port got its connection.\<close>

fun create_on_ports :: "net_env \<Rightarrow> nat list \<Rightarrow> candidate \<Rightarrow> nat option \<Rightarrow> bool \<Rightarrow> ice \<Rightarrow> channel \<Rightarrow> (bool \<times> ice \<times> channel) option" where
  "create_on_ports env [] remote_candidate origin_port readable w ch = Some (False, w, ch)"
| "create_on_ports env (p # ps) remote_candidate origin_port readable w ch = do {
     (r, w, ch) \<leftarrow> CreateConnection env p remote_candidate origin_port readable w ch;
     (created, w, ch) \<leftarrow> create_on_ports env ps remote_candidate origin_port readable w ch;
     Some (r \<and> Some p = origin_port \<or> created, w, ch)
   }"

definition CreateConnections :: "net_env \<Rightarrow> candidate \<Rightarrow> nat option \<Rightarrow> bool \<Rightarrow> ice \<Rightarrow> channel \<Rightarrow> (bool \<times> ice \<times> channel) option" where
  "CreateConnections env remote_candidate origin_port readable w ch = do {
     let ports = ch_ports ch;
     (created, w, ch) \<leftarrow> create_on_ports env (rev ports) remote_candidate origin_port readable w ch;
     (created, w, ch) \<leftarrow>
       (case origin_port of
          Some p \<Rightarrow>
            if p \<notin> set ports
            then do {
              (r, w, ch) \<leftarrow> CreateConnection env p remote_candidate origin_port readable w ch;
              Some (r \<or> created, w, ch)
            }
            else Some (created, w, ch)
        | None \<Rightarrow> Some (created, w, ch));
     (w, ch) \<leftarrow> RememberRemoteCandidate (remote_candidate, origin_port) w ch;
     Some (created, w, ch)
   }"

definition OnCandidate :: "net_env \<Rightarrow> candidate \<Rightarrow> ice \<Rightarrow> channel \<Rightarrow> (ice \<times> channel) option" where
  "OnCandidate env candidate w ch = do {
     (_, w, ch) \<leftarrow> CreateConnections env candidate None False w ch;
     SortConnections env w ch
   }"

text \<open>A STUN request of an unknown address; the ports of this model are not muxed.\<close>

definition OnUnknownAddress :: "net_env \<Rightarrow> nat \<Rightarrow> sock_addr \<Rightarrow> stun_message \<Rightarrow> bytes \<Rightarrow> ice \<Rightarrow> channel \<Rightarrow> (ice \<times> channel) option" where
  "OnUnknownAddress env p address stun_msg remote_username w ch =
     (case find (\<lambda>r. c_username (fst r) = remote_username) (ch_remotes ch) of
        None \<Rightarrow> do {
          w \<leftarrow> SendBindingErrorResponse env p stun_msg address STUN_ERROR_STALE_CREDENTIALS
                 STUN_ERROR_REASON_STALE_CREDENTIALS w;
          deliver w ch
        }
      | Some (candidate, _) \<Rightarrow> do {
          let new_remote_candidate = candidate\<lparr>c_address := address\<rparr>;
          (created, w, ch) \<leftarrow> CreateConnections env new_remote_candidate (Some p) True w ch;
          ASSERT created;
          w \<leftarrow> SendBindingResponse env p stun_msg address w;
          (w, ch) \<leftarrow> deliver w ch;
          SortConnections env w ch
        })"

section \<open>Ports\<close>

fun create_for_remotes :: "net_env \<Rightarrow> nat \<Rightarrow> (candidate \<times> nat option) list \<Rightarrow> ice \<Rightarrow> channel \<Rightarrow> (ice \<times> channel) option" where
  "create_for_remotes env p [] w ch = Some (w, ch)"
| "create_for_remotes env p (r # rs) w ch = do {
     (_, w, ch) \<leftarrow> CreateConnection env p (fst r) (snd r) False w ch;
     create_for_remotes env p rs w ch
   }"

definition OnPortReady :: "net_env \<Rightarrow> nat \<Rightarrow> ice \<Rightarrow> channel \<Rightarrow> (ice \<times> channel) option" where
  "OnPortReady env p w ch = do {
     let ch = ch\<lparr>ch_log := ch_log ch @ map (\<lambda>(opt, v). PortOption p opt v) (ch_options ch)\<rparr>;
     let ch = ch\<lparr>ch_ports := ch_ports ch @ [p]\<rparr>;
     (w, ch) \<leftarrow> create_for_remotes env p (ch_remotes ch) w ch;
     SortConnections env w ch
   }"

definition OnCandidatesReady :: "candidate list \<Rightarrow> channel \<Rightarrow> channel" where
  "OnCandidatesReady candidates ch = ch\<lparr>ch_log := ch_log ch @ map SignalCandidateReady candidates\<rparr>"

text \<open>BasicPortAllocatorSession::OnAddressReady of session \<open>i\<close>; all protocols are enabled.\<close>

definition OnAddressReady :: "net_env \<Rightarrow> nat \<Rightarrow> nat \<Rightarrow> ice \<Rightarrow> channel \<Rightarrow> (ice \<times> channel) option" where
  "OnAddressReady env i p w ch = do {
     ASSERT (i < length (ch_sessions ch));
     let s = ch_sessions ch ! i;
     ready \<leftarrow> map_of (as_ports s) p;
     if ready then Some (w, ch)
     else do {
       let s = s\<lparr>as_ports := map (\<lambda>e. if fst e = p then (p, True) else e) (as_ports s)\<rparr>;
       (w, ch) \<leftarrow> OnPortReady env p w (ch\<lparr>ch_sessions := (ch_sessions ch)[i := s]\<rparr>);
       port \<leftarrow> i_ports w p;
       let candidates = filter (\<lambda>c. StringToProto (c_protocol c) \<noteq> None) (p_candidates port);
       Some (w, if candidates \<noteq> [] then OnCandidatesReady candidates ch else ch)
     }
   }"

text \<open>AddAllocatedPort for a new UDP port whose socket is bound to \<open>addr\<close>, so that its address is ready at once. A session has the name of its channel.\<close>

definition AddAllocatedPort :: "net_env \<Rightarrow> nat \<Rightarrow> port \<Rightarrow> rat \<Rightarrow> sock_addr \<Rightarrow> ice \<Rightarrow> channel \<Rightarrow> (ice \<times> channel) option" where
  "AddAllocatedPort env i port pref addr w ch = do {
     ASSERT (i < length (ch_sessions ch));
     let s = ch_sessions ch ! i;
     let p = i_next w;
     let w = put_port p (port\<lparr>p_name := ch_name ch, p_preference := pref, p_generation := as_generation s\<rparr>) (w\<lparr>i_next := i_next w + 1\<rparr>);
     let ch = ch\<lparr>ch_sessions := (ch_sessions ch)[i := s\<lparr>as_ports := as_ports s @ [(p, False)]\<rparr>]\<rparr>;
     w \<leftarrow> AddAddress p addr (ascii ''udp'') True w;
     (w, ch) \<leftarrow> deliver w ch;
     (w, ch) \<leftarrow> OnAddressReady env i p w ch;
     w \<leftarrow> (if as_running (ch_sessions ch ! i) then StartPort p w else Some w);
     Some (w, ch)
   }"

section \<open>Pings\<close>

definition IsPingable :: "nat \<Rightarrow> ice \<Rightarrow> channel \<Rightarrow> bool option" where
  "IsPingable c w ch = do {
     cn \<leftarrow> i_conns w c;
     Some (if \<not> cn_connected cn then False
           else if ch_writable ch then cn_write_state cn \<noteq> STATE_WRITE_TIMEOUT
           else cn_write_state cn \<noteq> STATE_WRITE_TIMEOUT \<or> cn_read_state cn \<noteq> STATE_READ_TIMEOUT)
   }"

fun oldest_pingable :: "nat list \<Rightarrow> nat option \<Rightarrow> u32 \<Rightarrow> ice \<Rightarrow> channel \<Rightarrow> nat option option" where
  "oldest_pingable [] oldest_conn oldest_time w ch = Some oldest_conn"
| "oldest_pingable (c # cs) oldest_conn oldest_time w ch = do {
     pingable \<leftarrow> IsPingable c w ch;
     cn \<leftarrow> i_conns w c;
     if pingable \<and> cn_last_ping_sent cn < oldest_time
     then oldest_pingable cs (Some c) (cn_last_ping_sent cn) w ch
     else oldest_pingable cs oldest_conn oldest_time w ch
   }"

definition best_overdue :: "u32 \<Rightarrow> ice \<Rightarrow> channel \<Rightarrow> bool option" where
  "best_overdue now w ch =
     (case ch_best ch of None \<Rightarrow> Some False
      | Some b \<Rightarrow> map_option (\<lambda>cn. cn_write_state cn = STATE_WRITABLE
                                 \<and> cn_last_ping_sent cn + MAX_CURRENT_WRITABLE_DELAY \<le> now) (i_conns w b))"

definition FindNextPingableConnection :: "u32 \<Rightarrow> ice \<Rightarrow> channel \<Rightarrow> nat option option" where
  "FindNextPingableConnection now w ch = do {
     overdue \<leftarrow> best_overdue now w ch;
     if overdue then Some (ch_best ch) else oldest_pingable (ch_conns ch) None 0xFFFFFFFF w ch
   }"

fun NumPingableConnections :: "nat list \<Rightarrow> ice \<Rightarrow> channel \<Rightarrow> nat option" where
  "NumPingableConnections [] w ch = Some 0"
| "NumPingableConnections (c # cs) w ch = do {
     pingable \<leftarrow> IsPingable c w ch;
     n \<leftarrow> NumPingableConnections cs w ch;
     Some (if pingable then Suc n else n)
   }"

definition OnPing :: "net_env \<Rightarrow> ice \<Rightarrow> channel \<Rightarrow> (ice \<times> channel) option" where
  "OnPing env w ch = do {
     (w, ch) \<leftarrow> UpdateConnectionStates env w ch;
     conn \<leftarrow> FindNextPingableConnection (ne_now env) w ch;
     w \<leftarrow> (case conn of None \<Rightarrow> Some w | Some c \<Rightarrow> Ping env (ne_now env) c w);
     Some (w, ch_post 10000 MSG_PING ch)
   }"

section \<open>The channel's operations\<close>

definition ConnectChannel :: "channel \<Rightarrow> channel" where
  "ConnectChannel ch = ch_post 0 MSG_PING (Allocate ch)"

definition ResetChannel :: "bool \<Rightarrow> ice \<Rightarrow> channel \<Rightarrow> (ice \<times> channel) option" where
  "ResetChannel connect_requested w ch = do {
     w \<leftarrow> delete_ports (map fst (concat (map as_ports (ch_sessions ch)))) w;
     let ch = ch\<lparr>ch_sessions := [], ch_ports := [], ch_conns := [], ch_best := None, ch_remotes := []\<rparr>;
     let ch = set_writable False (set_readable False ch);
     let ch = ch\<lparr>ch_waiting_for_signaling := False, ch_pinging_started := False, ch_sort_dirty := False,
                 ch_was_writable := False, ch_was_timed_out := True\<rparr>;
     let ch = (if connect_requested then Allocate ch else ch);
     Some (w, ch_post 0 MSG_PING (ch\<lparr>ch_posted := []\<rparr>))
   }"

definition OnSignalingReady :: "ice \<Rightarrow> channel \<Rightarrow> (ice \<times> channel) option" where
  "OnSignalingReady w ch =
     (if ch_waiting_for_signaling ch
      then do {
        (w, ch) \<leftarrow> AddAllocatorSession w (ch\<lparr>ch_waiting_for_signaling := False\<rparr>);
        Some (w, ch_post kAllocatePeriod MSG_ALLOCATE ch)
      }
      else Some (w, ch))"

definition ChannelSendPacket :: "net_env \<Rightarrow> bytes \<Rightarrow> ice \<Rightarrow> channel \<Rightarrow> (int \<times> ice \<times> channel) option" where
  "ChannelSendPacket env data w ch =
     (case ch_best ch of
        None \<Rightarrow> Some (SOCKET_ERROR, w, ch\<lparr>ch_error := EWOULDBLOCK\<rparr>)
      | Some b \<Rightarrow> do {
          (sent, w) \<leftarrow> ProxySend env data b w;
          (w, ch) \<leftarrow> deliver w ch;
          if sent \<le> 0
          then do { ASSERT (sent < 0); cn \<leftarrow> i_conns w b; Some (sent, w, ch\<lparr>ch_error := cn_error cn\<rparr>) }
          else Some (sent, w, ch)
        })"

definition ChannelSetOption :: "int \<Rightarrow> int \<Rightarrow> channel \<Rightarrow> channel" where
  "ChannelSetOption opt v ch =
     (if map_of (ch_options ch) opt = Some v then ch
      else (let options = (if map_of (ch_options ch) opt = None then insort_key fst (opt, v) (ch_options ch)
                           else map (\<lambda>e. if fst e = opt then (opt, v) else e) (ch_options ch))
            in ch\<lparr>ch_options := options, ch_log := ch_log ch @ map (\<lambda>p. PortOption p opt v) (ch_ports ch)\<rparr>))"

definition ChannelOnMessage :: "net_env \<Rightarrow> channel_msg \<Rightarrow> ice \<Rightarrow> channel \<Rightarrow> (ice \<times> channel) option" where
  "ChannelOnMessage env m w ch =
     (case m of
        MSG_SORT \<Rightarrow> SortConnections env w ch
      | MSG_PING \<Rightarrow> OnPing env w ch
      | MSG_ALLOCATE \<Rightarrow> Some (w, Allocate ch))"

section \<open>Events\<close>

text \<open>What happens to a channel: deliveries of the thread (by position in the pending lists), packets, and calls.\<close>

datatype channel_event =
    EvMessage nat
  | EvDelete nat
  | EvPortTimer nat
  | EvRequest nat nat
  | EvPacket nat bytes sock_addr
  | EvCandidate candidate
  | EvNewPort nat port rat sock_addr
  | EvSignalingReady
  | EvConnectChannel
  | EvReset bool
  | EvSendPacket bytes
  | EvSetOption int int
  | EvDestroyConnection nat

definition drop_nth :: "nat \<Rightarrow> 'a list \<Rightarrow> 'a list" where
  "drop_nth i xs = take i xs @ drop (Suc i) xs"

definition ChannelPacket :: "net_env \<Rightarrow> nat \<Rightarrow> bytes \<Rightarrow> sock_addr \<Rightarrow> ice \<Rightarrow> channel \<Rightarrow> (ice \<times> channel) option" where
  "ChannelPacket env p data addr w ch = do {
     (unknown, w) \<leftarrow> UDP_OnReadPacket env p data addr w;
     (w, ch) \<leftarrow> deliver w ch;
     (case unknown of None \<Rightarrow> Some (w, ch)
      | Some (msg, remote_username) \<Rightarrow> OnUnknownAddress env p addr msg remote_username w ch)
   }"

fun channel_handle :: "net_env \<Rightarrow> channel_event \<Rightarrow> ice \<Rightarrow> channel \<Rightarrow> (ice \<times> channel) option" where
  "channel_handle env (EvMessage i) w ch =
     (if i < length (ch_posted ch)
      then ChannelOnMessage env (snd (ch_posted ch ! i)) w (ch\<lparr>ch_posted := drop_nth i (ch_posted ch)\<rparr>)
      else Some (w, ch))"
| "channel_handle env (EvDelete i) w ch =
     (if i < length (i_deletes w)
      then do { w \<leftarrow> Connection_OnMessage (i_deletes w ! i) (w\<lparr>i_deletes := drop_nth i (i_deletes w)\<rparr>); deliver w ch }
      else Some (w, ch))"
| "channel_handle env (EvPortTimer i) w ch =
     (if i < length (i_timers w)
      then do { w \<leftarrow> Port_OnMessage (snd (i_timers w ! i)) (w\<lparr>i_timers := drop_nth i (i_timers w)\<rparr>); deliver w ch }
      else Some (w, ch))"
| "channel_handle env (EvRequest c i) w ch =
     (if i_conns w c = None then Some (w, ch) else do { w \<leftarrow> DispatchRequest env c i w; deliver w ch })"
| "channel_handle env (EvPacket p data addr) w ch =
     (if i_ports w p = None then Some (w, ch) else ChannelPacket env p data addr w ch)"
| "channel_handle env (EvCandidate candidate) w ch = OnCandidate env candidate w ch"
| "channel_handle env (EvNewPort i port pref addr) w ch = AddAllocatedPort env i port pref addr w ch"
| "channel_handle env EvSignalingReady w ch = OnSignalingReady w ch"
| "channel_handle env EvConnectChannel w ch = Some (w, ConnectChannel ch)"
| "channel_handle env (EvReset connect_requested) w ch = ResetChannel connect_requested w ch"
| "channel_handle env (EvSendPacket data) w ch = map_option snd (ChannelSendPacket env data w ch)"
| "channel_handle env (EvSetOption opt v) w ch = Some (w, ChannelSetOption opt v ch)"
| "channel_handle env (EvDestroyConnection c) w ch =
     (if i_conns w c = None then Some (w, ch) else do { w \<leftarrow> DestroyConnection c w; deliver w ch })"

end
