(* ===== verification/Channel_Order.thy ===== *)
theory Channel_Order
  imports P2P_Channel_Ops Port_Packet_Proofs "HOL-Library.Product_Lexorder"
begin

text \<open>
  The comparison of connections (talk/p2p/base/p2ptransportchannel.cc) is a strict weak order as
  long as generations are not 2 ^ 31 apart, so std::stable_sort may be used with it; what its sorting
  and ShouldSwitch choose.
\<close>

section \<open>Keys\<close>

definition order_key :: "net_env \<Rightarrow> ice \<Rightarrow> nat \<Rightarrow> (nat \<times> rat \<times> int \<times> nat) option" where
  "order_key env w c = do {
     cn \<leftarrow> i_conns w c;
     (pref, gen) \<leftarrow> candidate_key env c w;
     Some (write_rank (cn_write_state cn), - pref, - uint gen, unat (cn_rtt cn))
   }"

definition comparable :: "net_env \<Rightarrow> ice \<Rightarrow> nat \<Rightarrow> bool" where
  "comparable env w c \<longleftrightarrow> (\<exists>r p g t. order_key env w c = Some (r, p, g, t) \<and> - 2147483648 < g)"

lemma gen_diff:
  assumes "uint a < 2147483648" "uint (b :: u32) < 2147483648"
  shows "sint (a - b) = uint a - uint b"
proof (cases "uint b \<le> uint a")
  case True
  then have "uint a - uint b < 2147483648" using assms uint_u32_bounds [of b] by linarith
  then show ?thesis using True by (simp add: sint_u32 uint_diff_u32)
next
  case False
  then have "\<not> uint a - uint b + 4294967296 < 2147483648" using assms uint_u32_bounds [of a] by linarith
  then show ?thesis using False by (simp add: sint_u32 uint_diff_u32)
qed

lemma comparableE:
  assumes "comparable env w c"
  obtains cn pref gen where "i_conns w c = Some cn" "candidate_key env c w = Some (pref, gen)" "uint gen < 2147483648"
    "order_key env w c = Some (write_rank (cn_write_state cn), - pref, - uint gen, unat (cn_rtt cn))"
  using assms by (auto simp: comparable_def order_key_def bind_eq_Some_conv)

lemma comparable_ex: "comparable env w c \<Longrightarrow> \<exists>cn pref gen. i_conns w c = Some cn
    \<and> order_key env w c = Some (write_rank (cn_write_state cn), - pref, - uint (gen :: u32), unat (cn_rtt cn))"
  by (metis comparableE)

lemma CompareConnections_key:
  assumes "comparable env w a" "comparable env w b" "order_key env w a = Some (r, p, g, t)" "order_key env w b = Some (r', p', g', t')"
  shows "\<exists>i. CompareConnections env a b w = Some i \<and> (i > 0 \<longleftrightarrow> (r, p, g) < (r', p', g')) \<and> (i < 0 \<longleftrightarrow> (r', p', g') < (r, p, g))"
proof -
  obtain cna pa ga where a: "i_conns w a = Some cna" "candidate_key env a w = Some (pa, ga)" "uint ga < 2147483648"
      "order_key env w a = Some (write_rank (cn_write_state cna), - pa, - uint (ga :: u32), unat (cn_rtt cna))"
    using comparableE [OF assms(1)] by blast
  obtain cnb pb gb where b: "i_conns w b = Some cnb" "candidate_key env b w = Some (pb, gb)" "uint gb < 2147483648"
      "order_key env w b = Some (write_rank (cn_write_state cnb), - pb, - uint (gb :: u32), unat (cn_rtt cnb))"
    using comparableE [OF assms(2)] by blast
  let ?ra = "write_rank (cn_write_state cna)" and ?rb = "write_rank (cn_write_state cnb)"
  have keys: "(r, p, g) = (?ra, - pa, - uint ga)" "(r', p', g') = (?rb, - pb, - uint gb)"
    using a(4) b(4) assms(3,4) by (metis option.inject prod.inject)+
  have cand: "CompareConnectionCandidates env a b w
      = Some (if pa > pb then 1 else if pa < pb then - 1 else uint ga - uint gb)"
    using a(2) b(2) gen_diff [OF a(3) b(3)] by (simp add: CompareConnectionCandidates_def)
  show ?thesis unfolding keys CompareConnections_def a(1) b(1) bind.bind_lunit cand
  proof (cases ?ra ?rb rule: linorder_cases)
    case equal
    then show "\<exists>i. (if ?ra < ?rb then Some 1 else if ?ra > ?rb then Some (- 1)
        else Some (if pa > pb then 1 else if pa < pb then - 1 else uint ga - uint gb)) = Some i
      \<and> (i > 0 \<longleftrightarrow> (?ra, - pa, - uint ga) < (?rb, - pb, - uint gb)) \<and> (i < 0 \<longleftrightarrow> (?rb, - pb, - uint gb) < (?ra, - pa, - uint ga))"
      by (cases pa pb rule: linorder_cases) (simp_all add: less_prod_simp)
  qed (simp_all add: less_prod_simp)
qed

lemma ConnectionCompare_key:
  assumes "comparable env w a" "comparable env w b"
  shows "ConnectionCompare env w a b = Some (the (order_key env w a) < the (order_key env w b))"
proof -
  obtain cna pa ga where a: "i_conns w a = Some cna"
      "order_key env w a = Some (write_rank (cn_write_state cna), - pa, - uint (ga :: u32), unat (cn_rtt cna))"
    using comparableE [OF assms(1)] by blast
  obtain cnb pb gb where b: "i_conns w b = Some cnb"
      "order_key env w b = Some (write_rank (cn_write_state cnb), - pb, - uint (gb :: u32), unat (cn_rtt cnb))"
    using comparableE [OF assms(2)] by blast
  obtain i where "CompareConnections env a b w = Some i"
      "i > 0 \<longleftrightarrow> (write_rank (cn_write_state cna), - pa, - uint ga) < (write_rank (cn_write_state cnb), - pb, - uint gb)"
      "i < 0 \<longleftrightarrow> (write_rank (cn_write_state cnb), - pb, - uint gb) < (write_rank (cn_write_state cna), - pa, - uint ga)"
    using CompareConnections_key [OF assms a(2) b(2)] by blast
  then show ?thesis using a b
    by (auto simp: ConnectionCompare_def less_prod_simp word_less_nat_alt)
qed

interpretation conn: weak_order "\<lambda>a b. ConnectionCompare env w a b = Some True" "comparable env w" for env w
  by unfold_locales (auto simp: ConnectionCompare_key equivalent_def)

lemma sort_by_ConnectionCompare:
  assumes "\<forall>c \<in> set cs. comparable env w c"
  shows "sort_by (ConnectionCompare env w) cs = Some (stable_sort (\<lambda>a b. ConnectionCompare env w a b = Some True) cs)"
  using assms by (auto simp: sort_by_def list_all_iff ConnectionCompare_key)

section \<open>What is chosen\<close>

definition rank_of :: "ice \<Rightarrow> nat \<Rightarrow> nat" where
  "rank_of w c = (case i_conns w c of None \<Rightarrow> 3 | Some cn \<Rightarrow> write_rank (cn_write_state cn))"

lemma ShouldSwitch_ok:
  assumes "\<forall>a \<in> set_option best. comparable env w a" "\<forall>b \<in> set_option first. comparable env w b"
  shows "\<exists>s. ShouldSwitch env best first w = Some s"
proof (cases "best = first \<or> best = None \<or> first = None")
  case False
  then obtain a b where ab: "best = Some a" "first = Some b" "a \<noteq> b" by auto
  obtain cna pa ga where a: "i_conns w a = Some cna"
      "order_key env w a = Some (write_rank (cn_write_state cna), - pa, - uint (ga :: u32), unat (cn_rtt cna))"
    using comparable_ex [of env w a] assms(1) ab(1) by auto
  obtain cnb pb gb where b: "i_conns w b = Some cnb"
      "order_key env w b = Some (write_rank (cn_write_state cnb), - pb, - uint (gb :: u32), unat (cn_rtt cnb))"
    using comparable_ex [of env w b] assms(2) ab(2) by auto
  show ?thesis using CompareConnections_key [OF _ _ a(2) b(2)] assms ab a(1) b(1) by (auto simp: ShouldSwitch_def)
qed (auto simp: ShouldSwitch_def split: option.splits)

text \<open>After the switch the best connection is as writable as the top one.\<close>

lemma switched_rank:
  assumes cs: "\<forall>c \<in> set cs. comparable env w c" and sorted: "sort_by (ConnectionCompare env w) cs = Some (y # ys)"
    and best: "\<forall>b \<in> set_option best. b \<in> set cs" and s: "ShouldSwitch env best (Some y) w = Some s"
  shows "\<exists>b. (if s then Some y else best) = Some b \<and> b \<in> set cs \<and> rank_of w b = rank_of w y"
proof -
  have y: "stable_sort (\<lambda>a b. ConnectionCompare env w a b = Some True) cs = y # ys"
    using sorted sort_by_ConnectionCompare [OF cs] by simp
  then have y_in: "y \<in> set cs" using set_stable_sort by (metis list.set_intros(1))
  show ?thesis
  proof (cases "s \<or> best = Some y")
    case True
    then show ?thesis using y_in by auto
  next
    case False
    then obtain b where b: "best = Some b" "b \<noteq> y" using s by (cases best) (auto simp: ShouldSwitch_def)
    then have b_in: "b \<in> set cs" using best by simp
    obtain cnb pb gb where kb: "i_conns w b = Some cnb"
        "order_key env w b = Some (write_rank (cn_write_state cnb), - pb, - uint (gb :: u32), unat (cn_rtt cnb))"
      using comparable_ex [of env w b] cs b_in by auto
    obtain cny py gy where ky: "i_conns w y = Some cny"
        "order_key env w y = Some (write_rank (cn_write_state cny), - py, - uint (gy :: u32), unat (cn_rtt cny))"
      using comparable_ex [of env w y] cs y_in by auto
    have "ConnectionCompare env w b y \<noteq> Some True" by (rule conn.first_is_best [OF cs y b_in])
    then have le: "write_rank (cn_write_state cny) \<le> write_rank (cn_write_state cnb)"
      using ConnectionCompare_key cs b_in y_in kb(2) ky(2) by (auto simp: less_prod_simp)
    obtain i where i: "CompareConnections env b y w = Some i"
        "i < 0 \<longleftrightarrow> (write_rank (cn_write_state cny), - py, - uint gy) < (write_rank (cn_write_state cnb), - pb, - uint gb)"
      using CompareConnections_key [OF _ _ kb(2) ky(2)] cs b_in y_in by blast
    then have "\<not> i < 0" using s b kb(1) ky(1) False by (auto simp: ShouldSwitch_def)
    then have "write_rank (cn_write_state cnb) = write_rank (cn_write_state cny)"
      using i(2) le by (auto simp: less_prod_simp)
    then show ?thesis using b b_in False kb(1) ky(1) by (auto simp: rank_of_def)
  qed
qed

lemma top_rank:
  assumes cs: "\<forall>c \<in> set cs. comparable env w c" and sorted: "sort_by (ConnectionCompare env w) cs = Some (y # ys)"
    and c: "c \<in> set cs"
  shows "rank_of w y \<le> rank_of w c"
proof -
  have y: "stable_sort (\<lambda>a b. ConnectionCompare env w a b = Some True) cs = y # ys"
    using sorted sort_by_ConnectionCompare [OF cs] by simp
  then have y_in: "y \<in> set cs" using set_stable_sort by (metis list.set_intros(1))
  have "ConnectionCompare env w c y \<noteq> Some True" by (rule conn.first_is_best [OF cs y c])
  then have "\<not> the (order_key env w c) < the (order_key env w y)" using ConnectionCompare_key cs c y_in by simp
  moreover obtain cn p g where "i_conns w c = Some cn"
      "order_key env w c = Some (write_rank (cn_write_state cn), - p, - uint (g :: u32), unat (cn_rtt cn))"
    using comparable_ex [of env w c] cs c by auto
  moreover obtain cny py gy where "i_conns w y = Some cny"
      "order_key env w y = Some (write_rank (cn_write_state cny), - py, - uint (gy :: u32), unat (cn_rtt cny))"
    using comparable_ex [of env w y] cs y_in by auto
  ultimately show ?thesis by (auto simp: rank_of_def less_prod_simp)
qed

section \<open>What sorting works on\<close>

text \<open>Live connections are comparable.\<close>

definition young :: "u32 \<Rightarrow> bool" where
  "young g \<longleftrightarrow> uint g < 1073741824"

definition gens_ok :: "ice \<Rightarrow> bool" where
  "gens_ok w \<longleftrightarrow> (\<forall>p pt. i_ports w p = Some pt \<longrightarrow> young (p_generation pt))
     \<and> (\<forall>c cn. i_conns w c = Some cn \<longrightarrow> young (c_generation (cn_remote cn)))"

lemma young_sum: "young a \<Longrightarrow> young b \<Longrightarrow> uint (a + b) < 2147483648"
  by (simp add: young_def uint_add_u32)

lemma local_candidate_ok:
  assumes "ice_ok w" "i_conns w c = Some cn"
  shows "\<exists>port l. i_ports w (cn_port cn) = Some port \<and> local_candidate cn w = Some l \<and> c_preference l = p_preference port"
proof -
  obtain port where port: "i_ports w (cn_port cn) = Some port" "p_candidates port \<noteq> []" "cn_index cn = 0"
    using conn_port [OF assms] by auto
  have "port_ok (conns_view w) (cn_port cn) (port_static port)"
    using assms(1) port(1) by (auto simp: ice_ok_def static_inv_def ports_view_def)
  then have "c_preference (p_candidates port ! 0) = p_preference port"
    using port(2) by (auto simp: port_ok_def port_static_def)
  then show ?thesis using port by (simp add: local_candidate_def ASSERT_def)
qed

lemma alive_comparable:
  assumes "ice_ok w" "gens_ok w" "i_conns w c \<noteq> None"
  shows "comparable env w c"
proof -
  obtain cn where cn: "i_conns w c = Some cn" using assms(3) by auto
  obtain port l where l: "i_ports w (cn_port cn) = Some port" "local_candidate cn w = Some l" "c_preference l = p_preference port"
    using local_candidate_ok [OF assms(1) cn] by blast
  have "uint (c_generation (cn_remote cn) + p_generation port) < 2147483648"
    using assms(2) cn l(1) young_sum by (auto simp: gens_ok_def)
  then show ?thesis using cn l by (auto simp: comparable_def order_key_def candidate_key_def ASSERT_def)
qed

lemma steps_port:
  assumes "steps w w'" "i_ports w p = Some pt"
  shows "\<exists>e. i_ports w' p = Some (pt\<lparr>p_error := e\<rparr>)"
proof -
  have "ports_view w' p = Some (port_static pt)" using assms by (simp add: steps_def frame_def ports_view_def)
  then obtain pt' where pt': "i_ports w' p = Some pt'" "port_static pt' = port_static pt" by (auto simp: view_port)
  then have "pt' = pt\<lparr>p_error := p_error pt'\<rparr>" by (cases pt; cases pt') (simp add: port_static_def)
  then show ?thesis using pt'(1) by (intro exI [of _ "p_error pt'"]) simp
qed

lemma steps_sym_port:
  assumes "steps w w'" "i_ports w' p = Some pt'"
  shows "\<exists>pt e. i_ports w p = Some pt \<and> pt' = pt\<lparr>p_error := e\<rparr>"
  using assms steps_port steps_alive_port by (metis not_None_eq option.inject)

lemma steps_sym_conn:
  assumes "steps w w'" "i_conns w' c = Some cn'"
  shows "\<exists>cn. i_conns w c = Some cn \<and> conn_static cn' = conn_static cn"
proof -
  obtain cn where "i_conns w c = Some cn" using steps_alive [OF assms(1), of c] assms(2) by auto
  then show ?thesis using steps_conn [OF assms(1)] assms(2) by fastforce
qed

lemma steps_gens: "gens_ok w \<Longrightarrow> steps w w' \<Longrightarrow> gens_ok w'"
proof -
  assume ok: "gens_ok w" and w': "steps w w'"
  have "young (p_generation pt)" if "i_ports w' p = Some pt" for p pt
    using steps_sym_port [OF w' that] ok by (auto simp: gens_ok_def)
  moreover have "young (c_generation (cn_remote cn))" if cn: "i_conns w' c = Some cn" for c cn
    using steps_sym_conn [OF w' cn] ok by (auto simp: gens_ok_def conn_static_eq)
  ultimately show ?thesis by (simp add: gens_ok_def)
qed

lemma steps_candidate_key:
  assumes "steps w w'"
  shows "candidate_key env c w' = candidate_key env c w"
proof (cases "i_conns w c")
  case None
  then show ?thesis using steps_alive [OF assms, of c] by (simp add: candidate_key_def)
next
  case (Some cn)
  then obtain cn' where cn': "i_conns w' c = Some cn'" "conn_static cn' = conn_static cn" using steps_conn [OF assms] by blast
  show ?thesis
  proof (cases "i_ports w (cn_port cn)")
    case None
    then show ?thesis using Some cn' steps_alive_port [OF assms, of "cn_port cn"] by (simp add: candidate_key_def conn_static_eq)
  next
    case (Some port)
    then obtain e where "i_ports w' (cn_port cn) = Some (port\<lparr>p_error := e\<rparr>)" using steps_port [OF assms] by blast
    then show ?thesis using \<open>i_conns w c = Some cn\<close> Some cn'
      by (simp add: candidate_key_def conn_static_eq local_candidate_def)
  qed
qed

lemma steps_network:
  assumes "steps w w'"
  shows "conn_network c w' = conn_network c w"
proof (cases "i_conns w c")
  case None
  then show ?thesis using steps_alive [OF assms, of c] by (simp add: conn_network_def)
next
  case (Some cn)
  then obtain cn' where cn': "i_conns w' c = Some cn'" "conn_static cn' = conn_static cn" using steps_conn [OF assms] by blast
  show ?thesis
  proof (cases "i_ports w (cn_port cn)")
    case None
    then show ?thesis using Some cn' steps_alive_port [OF assms, of "cn_port cn"] by (simp add: conn_network_def conn_static_eq)
  next
    case (Some port)
    then obtain e where "i_ports w' (cn_port cn) = Some (port\<lparr>p_error := e\<rparr>)" using steps_port [OF assms] by blast
    then show ?thesis using \<open>i_conns w c = Some cn\<close> Some cn' by (simp add: conn_network_def conn_static_eq)
  qed
qed

lemma network_ok:
  assumes "ice_ok w" "i_conns w c \<noteq> None"
  shows "\<exists>n. conn_network c w = Some n"
  using assms alive_port by (force simp: conn_network_def)

end
