(* ===== verification/Channel_Proofs.thy ===== *)
theory Channel_Proofs
  imports Channel_Order
begin

text \<open>
  A channel (talk/p2p/base/p2ptransportchannel.cc) and the heap of its ports and connections stay in
  step, and sorting the connections never fails: neither on a deleted object nor on the
  assertion that the channel is writable exactly if its best connection is.
\<close>

section \<open>The invariant\<close>

definition session_ports :: "channel \<Rightarrow> nat list" where
  "session_ports ch = map fst (concat (map as_ports (ch_sessions ch)))"

definition remote_ok :: "candidate \<Rightarrow> bool" where
  "remote_ok c \<longleftrightarrow> c_protocol c = ascii ''udp'' \<and> young (c_generation c)"

definition sync :: "ice \<Rightarrow> channel \<Rightarrow> bool" where
  "sync w ch \<longleftrightarrow> distinct (ch_conns ch) \<and> (\<forall>c. c \<in> set (ch_conns ch) \<longleftrightarrow> i_conns w c \<noteq> None)
     \<and> (\<forall>b. ch_best ch = Some b \<longrightarrow> b \<in> set (ch_conns ch))
     \<and> distinct (session_ports ch) \<and> (\<forall>p. p \<in> set (session_ports ch) \<longleftrightarrow> i_ports w p \<noteq> None)
     \<and> distinct (ch_ports ch) \<and> (\<forall>p \<in> set (ch_ports ch). i_ports w p \<noteq> None)
     \<and> (\<forall>r \<in> set (ch_remotes ch). remote_ok (fst r))
     \<and> (\<forall>s \<in> set (ch_sessions ch). young (as_generation s)) \<and> gens_ok w"

definition channel_ok :: "ice \<Rightarrow> channel \<Rightarrow> bool" where
  "channel_ok w ch \<longleftrightarrow> ice_ok w \<and> sync w ch \<and> i_log w = []"

text \<open>Only the posted messages, the request for a sort and the log differ.\<close>

definition ch_core :: "channel \<Rightarrow> channel" where
  "ch_core ch = ch\<lparr>ch_posted := [], ch_sort_dirty := False, ch_log := []\<rparr>"

definition same_core :: "channel \<Rightarrow> channel \<Rightarrow> bool" where
  "same_core ch' ch \<longleftrightarrow> ch_core ch' = ch_core ch"

lemma same_core_fields:
  "same_core ch' ch \<Longrightarrow> ch_conns ch' = ch_conns ch \<and> ch_best ch' = ch_best ch \<and> ch_sessions ch' = ch_sessions ch
     \<and> ch_ports ch' = ch_ports ch \<and> ch_remotes ch' = ch_remotes ch \<and> ch_writable ch' = ch_writable ch
     \<and> ch_readable ch' = ch_readable ch \<and> ch_pinging_started ch' = ch_pinging_started ch
     \<and> ch_incoming_only ch' = ch_incoming_only ch"
  by (cases ch; cases ch') (simp add: same_core_def ch_core_def)

lemma same_core_refl: "same_core ch ch"
  by (simp add: same_core_def)

lemma same_core_trans: "same_core ch'' ch' \<Longrightarrow> same_core ch' ch \<Longrightarrow> same_core ch'' ch"
  by (simp add: same_core_def)

lemma sync_cong:
  assumes "sync w ch" "ch_conns ch' = ch_conns ch" "ch_best ch' = ch_best ch" "ch_sessions ch' = ch_sessions ch"
    "ch_ports ch' = ch_ports ch" "ch_remotes ch' = ch_remotes ch"
  shows "sync w ch'"
  using assms(1) unfolding sync_def session_ports_def assms(2-6) .

lemma sync_core: "sync w ch \<Longrightarrow> same_core ch' ch \<Longrightarrow> sync w ch'"
  using sync_cong same_core_fields by blast

lemma sync_steps:
  assumes "sync w ch" "steps w w'"
  shows "sync w' ch"
  using assms(1) steps_gens [OF _ assms(2)]
  unfolding sync_def steps_alive [OF assms(2)] steps_alive_port [OF assms(2)] by blast

lemma sync_alive: "sync w ch \<Longrightarrow> c \<in> set (ch_conns ch) \<Longrightarrow> i_conns w c \<noteq> None"
  by (simp add: sync_def)

lemma RequestSort_core: "same_core (RequestSort ch) ch"
  by (simp add: same_core_def ch_core_def RequestSort_def ch_post_def)

lemma benign_on_signal: "benign e \<Longrightarrow> \<exists>ch'. on_signal e ch = Some ch' \<and> same_core ch' ch"
proof (cases e)
  case (SignalReadPacket c data)
  then show ?thesis by (simp add: OnReadPacket_def ch_emit_def same_core_def ch_core_def)
qed (auto simp: same_core_refl RequestSort_core)

lemma benign_on_signals: "list_all benign es \<Longrightarrow> \<exists>ch'. on_signals es ch = Some ch' \<and> same_core ch' ch"
proof (induction es arbitrary: ch)
  case (Cons e es)
  then have "benign e" by simp
  then obtain ch1 where "on_signal e ch = Some ch1" "same_core ch1 ch" using benign_on_signal by blast
  moreover obtain ch2 where "on_signals es ch1 = Some ch2" "same_core ch2 ch1" using Cons by auto
  ultimately show ?case using same_core_trans by auto
qed (simp add: same_core_refl)

text \<open>After benign steps from a clean state the signals can be delivered.\<close>

lemma clear_log_steps: "ice_ok w \<Longrightarrow> ice_ok (w\<lparr>i_log := []\<rparr>)"
  by (simp add: ice_ok_def ports_view_def conns_view_def)

lemma sync_clear_log: "sync (w\<lparr>i_log := l\<rparr>) ch = sync w ch"
  by (simp add: sync_def gens_ok_def)

lemma deliver_ok:
  assumes "channel_ok w ch" "steps w w'"
  shows "\<exists>ch'. deliver w' ch = Some (w'\<lparr>i_log := []\<rparr>, ch') \<and> same_core ch' ch \<and> channel_ok (w'\<lparr>i_log := []\<rparr>) ch'"
proof -
  have "list_all benign (i_log w')" using assms by (auto simp: channel_ok_def steps_def frame_def)
  then obtain ch' where ch': "on_signals (i_log w') ch = Some ch'" "same_core ch' ch" using benign_on_signals by blast
  moreover have "sync w' ch'" using sync_core [OF sync_steps [OF _ assms(2)] ch'(2)] assms(1) by (simp add: channel_ok_def)
  ultimately show ?thesis using steps_ok [OF assms(2)] clear_log_steps
    by (simp add: deliver_def channel_ok_def sync_clear_log)
qed

section \<open>Sorting\<close>

lemma update_states_safe: "ice_ok w \<Longrightarrow> \<forall>c \<in> set cs. i_conns w c \<noteq> None \<Longrightarrow> safe (update_states now cs w) w"
proof (induction cs arbitrary: w)
  case (Cons c cs)
  have rest: "safe (update_states now cs w') w'" if w': "steps w w'" for w'
    by (rule Cons.IH [OF steps_ok [OF w']]) (use Cons.prems(2) in \<open>simp add: steps_alive [OF w']\<close>)
  show ?case unfolding update_states.simps
    by (rule safe_bind [OF UpdateState_safe rest]) (use Cons.prems in simp_all)
qed (simp add: safe_Some)

lemma UpdateConnectionStates_ok:
  assumes "channel_ok w ch"
  shows "\<exists>w' ch'. UpdateConnectionStates env w ch = Some (w', ch') \<and> channel_ok w' ch' \<and> same_core ch' ch"
proof -
  have "safe (update_states (ne_now env) (ch_conns ch) w) w"
    using assms update_states_safe by (auto simp: channel_ok_def sync_def)
  then obtain w' where w': "update_states (ne_now env) (ch_conns ch) w = Some w'" "steps w w'" by (auto simp: safe_def)
  then show ?thesis using deliver_ok [OF assms w'(2)] by (auto simp: UpdateConnectionStates_def)
qed

lemma networks_of_ok: "ice_ok w \<Longrightarrow> \<forall>c \<in> set cs. i_conns w c \<noteq> None \<Longrightarrow> \<exists>ns. networks_of cs w = Some ns"
  using network_ok by (induction cs) fastforce+

lemma first_on_network_ok:
  "ice_ok w \<Longrightarrow> \<forall>c \<in> set cs. i_conns w c \<noteq> None \<Longrightarrow> \<exists>r. first_on_network n cs w = Some r \<and> (\<forall>c. r = Some c \<longrightarrow> c \<in> set cs \<and> conn_network c w = Some n)"
proof (induction cs)
  case (Cons c cs)
  obtain m where "conn_network c w = Some m" using network_ok Cons.prems by fastforce
  then show ?case using Cons by auto
qed simp

lemma GetBestConnectionOnNetwork_ok:
  assumes "ice_ok w" "sync w ch"
  shows "\<exists>r. GetBestConnectionOnNetwork n w ch = Some r \<and> (\<forall>c. r = Some c \<longrightarrow> c \<in> set (ch_conns ch))
     \<and> (\<forall>b. ch_best ch = Some b \<and> conn_network b w = Some n \<longrightarrow> r = Some b)"
proof (cases "ch_best ch")
  case None
  then show ?thesis using first_on_network_ok [OF assms(1), of "ch_conns ch" n] assms(2)
    by (auto simp: GetBestConnectionOnNetwork_def sync_def)
next
  case (Some b)
  obtain m where "conn_network b w = Some m" using network_ok [OF assms(1), of b] assms(2) Some by (auto simp: sync_def)
  then show ?thesis using Some first_on_network_ok [OF assms(1), of "ch_conns ch" n] assms(2)
    by (cases "m = n") (auto simp: GetBestConnectionOnNetwork_def sync_def)
qed

text \<open>Pruning only takes writability away, and not from the best connection.\<close>

definition less_writable :: "nat option \<Rightarrow> ice \<Rightarrow> ice \<Rightarrow> bool" where
  "less_writable best w w' \<longleftrightarrow> (\<forall>c. rank_of w c \<le> rank_of w' c) \<and> (\<forall>b. best = Some b \<longrightarrow> rank_of w' b = rank_of w b)"

lemma less_writable_refl: "less_writable b w w"
  by (simp add: less_writable_def)

lemma less_writable_trans: "less_writable b w w' \<Longrightarrow> less_writable b w' w'' \<Longrightarrow> less_writable b w w''"
  unfolding less_writable_def by (metis order_trans)

lemma set_write_state_rank:
  assumes "set_write_state v c w = Some w'"
  shows "rank_of w' d = (if d = c then write_rank v else rank_of w d)"
  using assms
  by (auto simp: set_write_state_def CheckTimeout_def emit_def put_conn_def rank_of_def Let_def bind_eq_Some_conv
      split: if_splits)

lemma rank_put_conn: "i_conns w c = Some cn \<Longrightarrow> cn_write_state cn' = cn_write_state cn \<Longrightarrow> rank_of (put_conn c cn' w) d = rank_of w d"
  by (simp add: rank_of_def put_conn_def)

lemma Prune_rank:
  assumes "Prune c w = Some w'"
  shows "rank_of w' d = rank_of w d \<or> d = c \<and> rank_of w' d = 2"
proof -
  obtain cn where cn: "i_conns w c = Some cn" using assms by (auto simp: Prune_def bind_eq_Some_conv)
  show ?thesis
  proof (cases "cn_pruned cn")
    case True
    then show ?thesis using assms cn by (simp add: Prune_def)
  next
    case False
    then obtain m where "set_write_state STATE_WRITE_TIMEOUT c (put_conn c (cn\<lparr>cn_pruned := True, cn_requests := m\<rparr>) w) = Some w'"
      using assms cn by (auto simp: Prune_def bind_eq_Some_conv)
    from set_write_state_rank [OF this, of d] show ?thesis
      using rank_put_conn [OF cn, of "cn\<lparr>cn_pruned := True, cn_requests := m\<rparr>" d] by auto
  qed
qed

lemma Prune_less_writable: "Prune c w = Some w' \<Longrightarrow> best \<noteq> Some c \<Longrightarrow> less_writable best w w'"
proof -
  assume p: "Prune c w = Some w'" and b: "best \<noteq> Some c"
  obtain cn where cn: "i_conns w c = Some cn" using p by (auto simp: Prune_def bind_eq_Some_conv)
  then have "rank_of w c \<le> 2" by (cases "cn_write_state cn") (simp_all add: rank_of_def)
  then show ?thesis using Prune_rank [OF p] b unfolding less_writable_def by (metis order_refl)
qed

lemma CompareConnectionCandidates_ok:
  assumes "ice_ok w" "gens_ok w" "i_conns w a \<noteq> None" "i_conns w b \<noteq> None"
  shows "\<exists>i. CompareConnectionCandidates env a b w = Some i"
proof -
  obtain pa ga where "candidate_key env a w = Some (pa, ga)" using alive_comparable [OF assms(1,2,3)] comparableE by blast
  moreover obtain pb gb where "candidate_key env b w = Some (pb, gb)" using alive_comparable [OF assms(1,2,4)] comparableE by blast
  ultimately show ?thesis by (simp add: CompareConnectionCandidates_def)
qed

lemma prune_worse_ok:
  assumes "ice_ok w" "gens_ok w" "i_conns w primier \<noteq> None" "\<forall>c \<in> set cs. i_conns w c \<noteq> None"
    "\<forall>b. best = Some b \<longrightarrow> b = primier \<or> conn_network b w \<noteq> Some n"
  shows "\<exists>w'. prune_worse env n primier cs w = Some w' \<and> steps w w' \<and> less_writable best w w'"
  using assms
proof (induction cs arbitrary: w)
  case (Cons c cs)
  obtain m where m: "conn_network c w = Some m" using network_ok Cons.prems by fastforce
  obtain i where i: "CompareConnectionCandidates env primier c w = Some i"
    using CompareConnectionCandidates_ok Cons.prems by (metis list.set_intros(1))
  have "\<exists>w1. (if c \<noteq> primier \<and> m = n
         then CompareConnectionCandidates env primier c w \<bind> (\<lambda>cmp. if cmp \<ge> 0 then Prune c w else Some w)
         else Some w) = Some w1 \<and> steps w w1 \<and> less_writable best w w1"
  proof (cases "c \<noteq> primier \<and> m = n \<and> i \<ge> 0")
    case True
    then have "best \<noteq> Some c" using Cons.prems(5) m by auto
    then show ?thesis using Prune_safe [OF Cons.prems(1), of c] Cons.prems(4) True i Prune_less_writable
      by (auto simp: safe_def)
  next
    case False
    then show ?thesis using steps_refl [OF Cons.prems(1)] i less_writable_refl by auto
  qed
  then obtain w1 where w1: "(if c \<noteq> primier \<and> m = n
         then CompareConnectionCandidates env primier c w \<bind> (\<lambda>cmp. if cmp \<ge> 0 then Prune c w else Some w)
         else Some w) = Some w1" "steps w w1" "less_writable best w w1" by blast
  obtain w2 where "prune_worse env n primier cs w1 = Some w2" "steps w1 w2" "less_writable best w1 w2"
    using Cons.IH [of w1] Cons.prems steps_ok [OF w1(2)] steps_gens [OF _ w1(2)] steps_alive [OF w1(2)] steps_network [OF w1(2)]
    by auto
  then show ?case using m w1 steps_trans less_writable_trans by fastforce
qed (auto simp: steps_refl less_writable_refl)

lemma prune_networks_ok:
  assumes "ice_ok w" "sync w ch"
  shows "\<exists>w'. prune_networks env ns ch w = Some w' \<and> steps w w' \<and> less_writable (ch_best ch) w w'"
  using assms
proof (induction ns arbitrary: w)
  case (Cons n ns)
  obtain r where r: "GetBestConnectionOnNetwork n w ch = Some r" "\<forall>c. r = Some c \<longrightarrow> c \<in> set (ch_conns ch)"
      "\<forall>b. ch_best ch = Some b \<and> conn_network b w = Some n \<longrightarrow> r = Some b"
    using GetBestConnectionOnNetwork_ok [OF Cons.prems] by blast
  have "\<exists>w1. (case r of None \<Rightarrow> Some w
           | Some p \<Rightarrow> i_conns w p \<bind> (\<lambda>cn. if cn_write_state cn \<noteq> STATE_WRITABLE then Some w
                                         else prune_worse env n p (ch_conns ch) w)) = Some w1
      \<and> steps w w1 \<and> less_writable (ch_best ch) w w1"
  proof (cases r)
    case None
    then show ?thesis using steps_refl [OF Cons.prems(1)] less_writable_refl by simp
  next
    case (Some p)
    then obtain cn where cn: "i_conns w p = Some cn" using r(2) Cons.prems(2) by (auto simp: sync_def)
    have "\<exists>w1. prune_worse env n p (ch_conns ch) w = Some w1 \<and> steps w w1 \<and> less_writable (ch_best ch) w w1"
      by (rule prune_worse_ok) (use Cons.prems r(3) Some cn in \<open>auto simp: sync_def\<close>)
    then show ?thesis using Some cn steps_refl [OF Cons.prems(1)] less_writable_refl by auto
  qed
  then obtain w1 where w1: "(case r of None \<Rightarrow> Some w
           | Some p \<Rightarrow> i_conns w p \<bind> (\<lambda>cn. if cn_write_state cn \<noteq> STATE_WRITABLE then Some w
                                         else prune_worse env n p (ch_conns ch) w)) = Some w1"
      "steps w w1" "less_writable (ch_best ch) w w1" by blast
  obtain w2 where "prune_networks env ns ch w1 = Some w2" "steps w1 w2" "less_writable (ch_best ch) w1 w2"
    using Cons.IH [OF steps_ok [OF w1(2)] sync_steps [OF Cons.prems(2) w1(2)]] by blast
  then show ?case using r(1) w1 steps_trans less_writable_trans by fastforce
qed (auto simp: steps_refl less_writable_refl)

lemma count_state_ok:
  assumes "\<forall>c \<in> set cs. i_conns w c \<noteq> None"
  shows "\<exists>n. count_state s cs w = Some n \<and> (n > 0 \<longleftrightarrow> (\<exists>c \<in> set cs. \<exists>cn. i_conns w c = Some cn \<and> cn_write_state cn = s))"
  using assms
proof (induction cs)
  case (Cons c cs)
  then obtain cn n where "i_conns w c = Some cn" "count_state s cs w = Some n"
      "n > 0 \<longleftrightarrow> (\<exists>c \<in> set cs. \<exists>cn. i_conns w c = Some cn \<and> cn_write_state cn = s)" by auto
  then show ?case by (cases "cn_write_state cn = s") auto
qed simp

lemma rank_0: "rank_of w c = 0 \<longleftrightarrow> (\<exists>cn. i_conns w c = Some cn \<and> cn_write_state cn = STATE_WRITABLE)"
proof (cases "i_conns w c")
  case (Some cn)
  then show ?thesis by (cases "cn_write_state cn") (simp_all add: rank_of_def)
qed (simp add: rank_of_def)

definition reads :: "ice \<Rightarrow> nat \<Rightarrow> bool" where
  "reads w c \<longleftrightarrow> (\<exists>cn. i_conns w c = Some cn \<and> cn_read_state cn = STATE_READABLE)"

lemma any_readable_ok:
  "\<forall>c \<in> set cs. i_conns w c \<noteq> None \<Longrightarrow> any_readable cs w = Some (\<exists>c \<in> set cs. reads w c)"
  by (induction cs) (auto simp: reads_def)

text \<open>What sorting leaves alone: the objects with their identities, sessions' ports, candidates.\<close>

definition evolves :: "ice \<Rightarrow> ice \<Rightarrow> bool" where
  "evolves w w' \<longleftrightarrow> ports_view w' = ports_view w \<and> conns_view w' = conns_view w \<and> i_timers w' = i_timers w \<and> i_next w \<le> i_next w'"

definition ch_static :: "channel \<Rightarrow> (nat \<times> bool) list list \<times> nat list \<times> (candidate \<times> nat option) list" where
  "ch_static ch = (map as_ports (ch_sessions ch), ch_ports ch, ch_remotes ch)"

lemma evolves_steps: "steps w w' \<Longrightarrow> evolves w (w'\<lparr>i_log := l\<rparr>)"
  by (simp add: evolves_def steps_def frame_def ports_view_def conns_view_def)

lemma evolves_refl: "evolves w w"
  by (simp add: evolves_def)

lemma evolves_trans: "evolves w w' \<Longrightarrow> evolves w' w'' \<Longrightarrow> evolves w w''"
  by (simp add: evolves_def)

lemma evolves_alive: "evolves w w' \<Longrightarrow> i_conns w' c = None \<longleftrightarrow> i_conns w c = None"
  "evolves w w' \<Longrightarrow> i_ports w' p = None \<longleftrightarrow> i_ports w p = None"
  unfolding evolves_def conns_view_def ports_view_def by (metis option.map_disc_iff)+

lemma core_static: "same_core ch' ch \<Longrightarrow> ch_static ch' = ch_static ch"
  using same_core_fields by (simp add: ch_static_def)

text \<open>The states of the channel that its handlers set.\<close>

definition handled :: "bool \<Rightarrow> channel \<Rightarrow> channel \<Rightarrow> bool" where
  "handled b ch ch' \<longleftrightarrow> ch_conns ch' = ch_conns ch \<and> ch_best ch' = ch_best ch \<and> ch_static ch' = ch_static ch
     \<and> map as_generation (ch_sessions ch') = map as_generation (ch_sessions ch) \<and> ch_writable ch' = b"

lemma handlers: "handled True ch (HandleWritable ch)" "handled False ch (HandleNotWritable ch)"
  "handled False ch (HandleAllTimedOut ch)"
  by (auto simp: handled_def HandleWritable_def HandleNotWritable_def HandleAllTimedOut_def set_writable_def ch_emit_def
      Let_def Allocate_def CancelPendingAllocate_def ch_static_def StopGetAllPorts_def)

lemma sync_static:
  assumes "sync w ch" "ch_conns ch' = ch_conns ch" "ch_best ch' = ch_best ch" "ch_static ch' = ch_static ch"
    "map as_generation (ch_sessions ch') = map as_generation (ch_sessions ch)"
  shows "sync w ch'"
proof -
  have eq: "session_ports ch' = session_ports ch" "ch_ports ch' = ch_ports ch" "ch_remotes ch' = ch_remotes ch"
    using assms(4) by (simp_all add: session_ports_def ch_static_def)
  have "as_generation ` set (ch_sessions ch') = as_generation ` set (ch_sessions ch)"
    using assms(5) by (metis list.set_map)
  then have gen: "(\<forall>s \<in> set (ch_sessions ch'). young (as_generation s)) \<longleftrightarrow> (\<forall>s \<in> set (ch_sessions ch). young (as_generation s))"
    by (metis (mono_tags, lifting) image_iff)
  show ?thesis using assms(1) unfolding sync_def assms(2,3) eq gen .
qed

definition sorted_ok :: "ice \<Rightarrow> channel \<Rightarrow> bool" where
  "sorted_ok w ch \<longleftrightarrow> (ch_best ch = None \<longleftrightarrow> ch_conns ch = [])
     \<and> (\<forall>b. ch_best ch = Some b \<longrightarrow> (\<forall>c \<in> set (ch_conns ch). rank_of w b \<le> rank_of w c))
     \<and> (ch_writable ch \<longleftrightarrow> (\<exists>c \<in> set (ch_conns ch). rank_of w c = 0))
     \<and> (ch_readable ch \<longleftrightarrow> (\<exists>c \<in> set (ch_conns ch). reads w c))"

lemma sort_and_switch:
  assumes ok: "ice_ok w" and sync: "sync w ch"
  shows "\<exists>sorted s ch'. sort_by (ConnectionCompare env w) (ch_conns ch) = Some sorted
     \<and> ShouldSwitch env (ch_best ch) (case sorted of [] \<Rightarrow> None | c # _ \<Rightarrow> Some c) w = Some s
     \<and> (if s then SwitchBestConnectionTo (case sorted of [] \<Rightarrow> None | c # _ \<Rightarrow> Some c) w (ch\<lparr>ch_conns := sorted\<rparr>)
        else Some (ch\<lparr>ch_conns := sorted\<rparr>)) = Some ch'
     \<and> ch_static ch' = ch_static ch \<and> map as_generation (ch_sessions ch') = map as_generation (ch_sessions ch)
     \<and> set (ch_conns ch') = set (ch_conns ch) \<and> distinct (ch_conns ch')
     \<and> (ch_best ch' = None \<longleftrightarrow> ch_conns ch = [])
     \<and> (\<forall>b. ch_best ch' = Some b \<longrightarrow> b \<in> set (ch_conns ch) \<and> (\<forall>c \<in> set (ch_conns ch). rank_of w b \<le> rank_of w c))"
proof -
  have cs: "\<forall>c \<in> set (ch_conns ch). comparable env w c"
    using sync alive_comparable [OF ok] by (auto simp: sync_def)
  have best: "\<forall>b \<in> set_option (ch_best ch). b \<in> set (ch_conns ch)" using sync by (auto simp: sync_def)
  let ?sorted = "stable_sort (\<lambda>a b. ConnectionCompare env w a b = Some True) (ch_conns ch)"
  let ?top = "case ?sorted of [] \<Rightarrow> None | c # _ \<Rightarrow> Some c"
  have sorted: "sort_by (ConnectionCompare env w) (ch_conns ch) = Some ?sorted" by (rule sort_by_ConnectionCompare [OF cs])
  have set: "set ?sorted = set (ch_conns ch)" "distinct ?sorted" using sync by (auto simp: sync_def)
  have top: "\<forall>b \<in> set_option ?top. b \<in> set (ch_conns ch)"
    using set(1) by (cases ?sorted) auto
  then obtain s where s: "ShouldSwitch env (ch_best ch) ?top w = Some s"
    using ShouldSwitch_ok [of "ch_best ch" env w ?top] cs best by blast
  show ?thesis
  proof (cases ?sorted)
    case Nil
    then have "ch_conns ch = []" using set(1) by simp
    then have "ch_best ch = None" using best by (cases "ch_best ch") auto
    then show ?thesis using Nil \<open>ch_conns ch = []\<close> sorted
      by (intro exI [of _ "[]"] exI [of _ False] exI [of _ "ch\<lparr>ch_conns := []\<rparr>"]) (simp add: ShouldSwitch_def ch_static_def)
  next
    case (Cons y ys)
    have y: "sort_by (ConnectionCompare env w) (ch_conns ch) = Some (y # ys)" using sorted Cons by simp
    obtain b where b: "(if s then Some y else ch_best ch) = Some b" "b \<in> set (ch_conns ch)" "rank_of w b = rank_of w y"
      using switched_rank [OF cs y best, of s] s Cons by auto
    have min: "\<forall>c \<in> set (ch_conns ch). rank_of w b \<le> rank_of w c"
      using top_rank [OF cs y] b(3) by simp
    have "y \<in> set (ch_conns ch)" using set(1) Cons by (metis list.set_intros(1))
    then obtain cn where "i_conns w y = Some cn" using sync by (auto simp: sync_def)
    define ch' where "ch' = (if s then ch_emit (SignalRouteChange (cn_remote cn)) (ch\<lparr>ch_conns := y # ys, ch_best := Some y\<rparr>)
        else ch\<lparr>ch_conns := y # ys\<rparr>)"
    have switch: "(if s then SwitchBestConnectionTo (Some y) w (ch\<lparr>ch_conns := y # ys\<rparr>) else Some (ch\<lparr>ch_conns := y # ys\<rparr>)) = Some ch'"
      using \<open>i_conns w y = Some cn\<close> by (simp add: SwitchBestConnectionTo_def ch'_def)
    have fields: "ch_static ch' = ch_static ch" "ch_sessions ch' = ch_sessions ch" "ch_conns ch' = y # ys" "ch_best ch' = Some b"
      using b(1) by (simp_all add: ch'_def ch_emit_def ch_static_def split: if_splits)
    have "set (y # ys) = set (ch_conns ch)" "distinct (y # ys)" using set Cons by simp_all
    then show ?thesis using y s Cons switch fields b(2) min
      by (intro exI [of _ "y # ys"] exI [of _ s] exI [of _ ch']) auto
  qed
qed

lemma write_rank_inj: "write_rank s = write_rank s' \<longleftrightarrow> s = s'"
  by (cases s; cases s') simp_all

text \<open>Counting the states and setting the channel's, the assertion of UpdateChannelState included.\<close>

definition settle :: "ice \<Rightarrow> channel \<Rightarrow> (ice \<times> channel) option" where
  "settle w ch = do {
     writable \<leftarrow> count_state STATE_WRITABLE (ch_conns ch) w;
     write_connect \<leftarrow> count_state STATE_WRITE_CONNECT (ch_conns ch) w;
     let ch = (if writable > 0 then HandleWritable ch
               else if write_connect > 0 then HandleNotWritable ch
               else HandleAllTimedOut ch);
     ch \<leftarrow> UpdateChannelState w ch;
     Some (w, ch_emit SignalConnectionMonitor ch)
   }"

lemma settle_ok:
  assumes sync: "sync w ch" and best: "ch_best ch = None \<longleftrightarrow> ch_conns ch = []"
    "\<forall>b. ch_best ch = Some b \<longrightarrow> (\<forall>c \<in> set (ch_conns ch). rank_of w b \<le> rank_of w c)"
  shows "\<exists>ch'. settle w ch = Some (w, ch') \<and> sync w ch' \<and> ch_static ch' = ch_static ch
     \<and> ch_conns ch' = ch_conns ch \<and> sorted_ok w ch'"
proof -
  have alive: "\<forall>c \<in> set (ch_conns ch). i_conns w c \<noteq> None" using sync by (simp add: sync_def)
  obtain n where n: "count_state STATE_WRITABLE (ch_conns ch) w = Some n" "n > 0 \<longleftrightarrow> (\<exists>c \<in> set (ch_conns ch). rank_of w c = 0)"
    using count_state_ok [OF alive, of STATE_WRITABLE] rank_0 [of w] by auto
  obtain k where k: "count_state STATE_WRITE_CONNECT (ch_conns ch) w = Some k"
    using count_state_ok [OF alive, of STATE_WRITE_CONNECT] by auto
  define ch1 where "ch1 = (if n > 0 then HandleWritable ch else if k > 0 then HandleNotWritable ch else HandleAllTimedOut ch)"
  have h: "ch_conns ch1 = ch_conns ch" "ch_best ch1 = ch_best ch" "ch_static ch1 = ch_static ch"
      "map as_generation (ch_sessions ch1) = map as_generation (ch_sessions ch)" "ch_writable ch1 = (n > 0)"
    using handlers [of ch] by (auto simp: handled_def ch1_def)
  have bw: "best_writable w ch1 = Some (n > 0)"
  proof (cases "ch_best ch")
    case None
    then show ?thesis using best(1) n(2) h(2) by (simp add: best_writable_def)
  next
    case (Some b)
    then obtain cn where cn: "i_conns w b = Some cn" using sync by (auto simp: sync_def)
    have b: "b \<in> set (ch_conns ch)" "\<forall>c \<in> set (ch_conns ch). rank_of w b \<le> rank_of w c"
      using sync best(2) Some by (auto simp: sync_def)
    then have "rank_of w b = 0 \<longleftrightarrow> n > 0" unfolding n(2) by (metis le_zero_eq)
    then show ?thesis using rank_0 [of w b] cn Some h(2) by (simp add: best_writable_def)
  qed
  obtain r where r: "any_readable (ch_conns ch) w = Some r" "r \<longleftrightarrow> (\<exists>c \<in> set (ch_conns ch). reads w c)"
    using any_readable_ok [OF alive] by blast
  let ?ch' = "ch_emit SignalConnectionMonitor (set_readable r ch1)"
  have "settle w ch = Some (w, ?ch')"
    unfolding settle_def n(1) k bind.bind_lunit Let_def ch1_def [symmetric] UpdateChannelState_def bw h(1) r(1)
    using h(5) by (simp add: ASSERT_def)
  moreover have "ch_conns ?ch' = ch_conns ch" "ch_best ?ch' = ch_best ch" "ch_static ?ch' = ch_static ch"
      "map as_generation (ch_sessions ?ch') = map as_generation (ch_sessions ch)" "ch_writable ?ch' = (n > 0)" "ch_readable ?ch' = r"
    using h by (simp_all add: ch_emit_def set_readable_def ch_static_def)
  ultimately show ?thesis using sync_static [OF sync, of ?ch'] best n(2) r(2) by (auto simp: sorted_ok_def)
qed

lemma SortConnections_settle:
  "SortConnections env w ch = do {
     (w, ch) \<leftarrow> UpdateConnectionStates env w ch;
     let ch = ch\<lparr>ch_sort_dirty := False\<rparr>;
     networks \<leftarrow> networks_of (ch_conns ch) w;
     sorted \<leftarrow> sort_by (ConnectionCompare env w) (ch_conns ch);
     let ch = ch\<lparr>ch_conns := sorted\<rparr>;
     let first = (case sorted of [] \<Rightarrow> None | c # _ \<Rightarrow> Some c);
     switch \<leftarrow> ShouldSwitch env (ch_best ch) first w;
     ch \<leftarrow> (if switch then SwitchBestConnectionTo first w ch else Some ch);
     w \<leftarrow> prune_networks env (sort (remdups networks)) ch w;
     (w, ch) \<leftarrow> deliver w ch;
     settle w ch
   }"
  by (simp add: SortConnections_def settle_def)

lemma UpdateConnectionStates_evolves:
  assumes "channel_ok w ch" "UpdateConnectionStates env w ch = Some (w', ch')"
  shows "evolves w w'"
proof -
  have "safe (update_states (ne_now env) (ch_conns ch) w) w"
    using assms update_states_safe by (auto simp: channel_ok_def sync_def)
  then show ?thesis using assms(2) evolves_steps
    by (auto simp: UpdateConnectionStates_def safe_def deliver_def bind_eq_Some_conv)
qed

lemma rank_clear_log [simp]: "rank_of (w\<lparr>i_log := l\<rparr>) c = rank_of w c"
  by (simp add: rank_of_def)

lemma SortConnections_ok:
  assumes ok: "channel_ok w ch"
  shows "\<exists>w' ch'. SortConnections env w ch = Some (w', ch') \<and> channel_ok w' ch' \<and> evolves w w'
     \<and> ch_static ch' = ch_static ch \<and> set (ch_conns ch') = set (ch_conns ch) \<and> sorted_ok w' ch'"
proof -
  obtain w1 ch1 where u: "UpdateConnectionStates env w ch = Some (w1, ch1)" "channel_ok w1 ch1" "same_core ch1 ch"
    using UpdateConnectionStates_ok [OF ok] by blast
  let ?ch1 = "ch1\<lparr>ch_sort_dirty := False\<rparr>"
  have core: "same_core ?ch1 ch" using u(3) by (simp add: same_core_def ch_core_def)
  have w1: "ice_ok w1" "sync w1 ?ch1" "i_log w1 = []"
    using u(2) sync_cong [of w1 ch1 ?ch1] by (simp_all add: channel_ok_def)
  obtain ns where ns: "networks_of (ch_conns ?ch1) w1 = Some ns"
    using networks_of_ok [OF w1(1), of "ch_conns ?ch1"] w1(2) by (auto simp: sync_def)
  obtain sorted s ch2 where s: "sort_by (ConnectionCompare env w1) (ch_conns ?ch1) = Some sorted"
      "ShouldSwitch env (ch_best ?ch1) (case sorted of [] \<Rightarrow> None | c # _ \<Rightarrow> Some c) w1 = Some s"
      "(if s then SwitchBestConnectionTo (case sorted of [] \<Rightarrow> None | c # _ \<Rightarrow> Some c) w1 (?ch1\<lparr>ch_conns := sorted\<rparr>)
        else Some (?ch1\<lparr>ch_conns := sorted\<rparr>)) = Some ch2"
    and ch2: "ch_static ch2 = ch_static ?ch1" "map as_generation (ch_sessions ch2) = map as_generation (ch_sessions ?ch1)"
      "set (ch_conns ch2) = set (ch_conns ?ch1)" "distinct (ch_conns ch2)" "ch_best ch2 = None \<longleftrightarrow> ch_conns ?ch1 = []"
      "\<forall>b. ch_best ch2 = Some b \<longrightarrow> b \<in> set (ch_conns ?ch1) \<and> (\<forall>c \<in> set (ch_conns ?ch1). rank_of w1 b \<le> rank_of w1 c)"
    using sort_and_switch [OF w1(1,2), of env] by (elim exE conjE) (rule that)
  have "sync w1 (ch2\<lparr>ch_conns := ch_conns ?ch1, ch_best := None\<rparr>)"
  proof (rule sync_static [of w1 "?ch1\<lparr>ch_best := None\<rparr>"])
    show "sync w1 (?ch1\<lparr>ch_best := None\<rparr>)" using w1(2) by (simp add: sync_def session_ports_def)
  qed (use ch2 in \<open>simp_all add: ch_static_def\<close>)
  then have sync2: "sync w1 ch2"
    using ch2(3,4,6) by (auto simp: sync_def session_ports_def)
  obtain w3 where w3: "prune_networks env (sort (remdups ns)) ch2 w1 = Some w3" "steps w1 w3"
      "less_writable (ch_best ch2) w1 w3"
    using prune_networks_ok [OF w1(1) sync2] by blast
  have ok2: "channel_ok w1 ch2" using w1 sync2 by (simp add: channel_ok_def)
  obtain ch4 where ch4: "deliver w3 ch2 = Some (w3\<lparr>i_log := []\<rparr>, ch4)" "same_core ch4 ch2" "channel_ok (w3\<lparr>i_log := []\<rparr>) ch4"
    using deliver_ok [OF ok2 w3(2)] by blast
  let ?w4 = "w3\<lparr>i_log := []\<rparr>"
  note f4 = same_core_fields [OF ch4(2)]
  have best: "ch_best ch4 = None \<longleftrightarrow> ch_conns ch4 = []" using f4 ch2(3,5) by auto
  have "rank_of ?w4 b \<le> rank_of ?w4 c" if "ch_best ch4 = Some b" "c \<in> set (ch_conns ch4)" for b c
  proof -
    have "rank_of w1 b \<le> rank_of w1 c" using ch2(3,6) that f4 by auto
    then show ?thesis using w3(3) that(1) f4 unfolding less_writable_def rank_clear_log by (metis order_trans)
  qed
  then obtain ch5 where ch5: "settle ?w4 ch4 = Some (?w4, ch5)" "sync ?w4 ch5" "ch_static ch5 = ch_static ch4"
      "ch_conns ch5 = ch_conns ch4" "sorted_ok ?w4 ch5"
    using settle_ok [OF _ best] ch4(3) unfolding channel_ok_def by blast
  have "SortConnections env w ch = Some (?w4, ch5)"
    unfolding SortConnections_settle u(1) bind.bind_lunit Let_def prod.case ns s(1)
    using s(2,3) w3(1) ch4(1) ch5(1) by simp
  moreover have "evolves w ?w4"
    using evolves_trans [OF UpdateConnectionStates_evolves [OF ok u(1)] evolves_steps [OF w3(2)]] .
  moreover have "ch_static ch5 = ch_static ch"
    using ch5(3) core_static [OF ch4(2)] ch2(1) core_static [OF core] by simp
  moreover have "set (ch_conns ch5) = set (ch_conns ch)"
    using ch5(4) f4 ch2(3) same_core_fields [OF core] by simp
  ultimately show ?thesis using ch5(2,5) ch4(3) by (auto simp: channel_ok_def)
qed

end
