(* ===== verification/Channel_Heap.thy ===== *)
theory Channel_Heap
  imports Channel_Proofs
begin

text \<open>
  Creating and destroying ports and connections (talk/p2p/base/port.cc, udpport.cc) keeps the heap
  in order: no entry of a port's map is left dangling and none is lost.
\<close>

section \<open>Maps of addresses\<close>

lemma sa_equal_refl: "sa_equal a a"
  by (simp add: sa_equal_key)

lemma sa_equal_sym: "sa_equal a b \<Longrightarrow> sa_equal b a"
  by (simp add: sa_equal_key)

lemma sa_equal_trans: "sa_equal a b \<Longrightarrow> sa_equal b c \<Longrightarrow> sa_equal a c"
  by (simp add: sa_equal_key)

lemma amap_find_cong: "sa_equal a b \<Longrightarrow> amap_find a m = amap_find b m"
  unfolding amap_find_def sa_equivalent sa_equal_key by simp

lemma amap_find_Cons: "amap_find a ((b, c) # m) = (if sa_equal b a then Some c else amap_find a m)"
  by (simp add: amap_find_def sa_equivalent)

lemma amap_find_Some: "amap_find a m = Some c \<Longrightarrow> \<exists>b. (b, c) \<in> set m \<and> sa_equal b a"
  by (induction m) (auto simp: amap_find_Cons amap_find_def [of _ "[]"] split: if_splits)

lemma amap_find_None: "amap_find a m = None \<longleftrightarrow> (\<forall>(b, c) \<in> set m. \<not> sa_equal b a)"
  by (auto simp: amap_find_def find_None_iff sa_equivalent)

lemma amap_find_erase: "\<not> sa_equal b a \<Longrightarrow> amap_find a (amap_erase b m) = amap_find a m"
proof (induction m)
  case (Cons e m)
  obtain k c where e: "e = (k, c)" by (cases e)
  have "\<not> sa_equal k a" if "sa_equal k b" using that Cons.prems sa_equal_sym sa_equal_trans by blast
  then show ?case using Cons e by (auto simp: amap_erase_def amap_find_Cons sa_equivalent)
qed (simp add: amap_erase_def)

section \<open>The static invariant under updates\<close>

lemma static_port: "static_inv P C n \<Longrightarrow> P p = Some pt \<Longrightarrow> p < n \<and> port_ok C p pt"
  by (simp add: static_inv_def)

lemma static_conn: "static_inv P C n \<Longrightarrow> C c = Some d \<Longrightarrow> c < n \<and> conn_ok P c d"
  by (simp add: static_inv_def)

lemma conn_in_map:
  assumes "static_inv P C n" "C c = Some d" "P (id_port d) = Some pt"
  shows "amap_find (c_address (id_remote d)) (p_connections pt) = Some c"
  using static_conn [OF assms(1,2)] assms(3) by (auto simp: conn_ok_def)

text \<open>An entry of a port's map is the one of its connection.\<close>

lemma entry_unique:
  assumes "static_inv P C n" "P p = Some pt" "(a, c) \<in> set (p_connections pt)" "(b, d) \<in> set (p_connections pt)" "sa_equal a b"
  shows "c = d"
proof -
  obtain e where e: "C c = Some e" "id_port e = p" "sa_equal a (c_address (id_remote e))"
    using static_port [OF assms(1,2)] assms(3) by (auto simp: port_ok_def)
  obtain f where f: "C d = Some f" "id_port f = p" "sa_equal b (c_address (id_remote f))"
    using static_port [OF assms(1,2)] assms(4) by (auto simp: port_ok_def)
  have "sa_equal (c_address (id_remote e)) (c_address (id_remote f))"
    using e(3) f(3) assms(5) sa_equal_sym sa_equal_trans by blast
  then show ?thesis
    using conn_in_map [OF assms(1) e(1)] conn_in_map [OF assms(1) f(1)] e(2) f(2) assms(2) amap_find_cong by fastforce
qed

lemma port_ok_entries:
  assumes "port_ok C p pt"
    "\<And>a c. (a, c) \<in> set (p_connections pt) \<Longrightarrow> \<exists>d. C' c = Some d \<and> id_port d = p \<and> sa_equal a (c_address (id_remote d))"
  shows "port_ok C' p pt"
  using assms by (auto simp: port_ok_def)

lemma static_inv_new_conn:
  assumes inv: "static_inv P C n" and p: "P p = Some pt" and free: "amap_find (c_address r) (p_connections pt) = None"
    and pt': "pt' = pt\<lparr>p_connections := (c_address r, n) # p_connections pt\<rparr>"
  shows "static_inv (P(p \<mapsto> pt')) (C(n \<mapsto> \<lparr>id_port = p, id_index = 0, id_remote = r, id_connected = True\<rparr>)) (n + 1)"
    (is "static_inv ?P (C(n \<mapsto> ?d)) _")
proof -
  have old: "C n = None" using static_conn [OF inv, of n] by (cases "C n") auto
  have "q < n + 1 \<and> port_ok (C(n \<mapsto> ?d)) q qt" if q: "?P q = Some qt" for q qt
  proof -
    obtain qt0 where qt0: "P q = Some qt0" "qt = (if q = p then pt' else qt0)" using q p by (cases "q = p") auto
    have ok: "q < n" "port_ok C q qt0" using static_port [OF inv qt0(1)] by simp_all
    have ent: "\<exists>d. (C(n \<mapsto> ?d)) c = Some d \<and> id_port d = q \<and> sa_equal a (c_address (id_remote d))"
      if "(a, c) \<in> set (p_connections qt0)" for a c
      using ok(2) that old by (auto simp: port_ok_def)
    have new: "n \<notin> snd ` set (p_connections qt0)" using ok(2) old by (auto simp: port_ok_def)
    have ok': "port_ok (C(n \<mapsto> ?d)) q qt0" by (rule port_ok_entries [OF ok(2) ent])
    show ?thesis
    proof (cases "q = p")
      case True
      then have "qt = qt0\<lparr>p_connections := (c_address r, n) # p_connections qt0\<rparr>" using qt0 p pt' by simp
      then show ?thesis using ok(1) ok' new True sa_equal_refl [of "c_address r"] unfolding port_ok_def by simp
    next
      case False
      then show ?thesis using ok(1) ok' qt0(2) by simp
    qed
  qed
  moreover have "c < n + 1 \<and> conn_ok ?P c d" if "(C(n \<mapsto> ?d)) c = Some d" for c d
  proof (cases "c = n")
    case True
    then show ?thesis using that pt' by (auto simp: conn_ok_def amap_find_Cons sa_equal_refl)
  next
    case False
    then have d: "C c = Some d" using that by simp
    then have ok: "c < n" "conn_ok P c d" using static_conn [OF inv d] by simp_all
    then obtain qt where qt: "P (id_port d) = Some qt" "amap_find (c_address (id_remote d)) (p_connections qt) = Some c"
      by (auto simp: conn_ok_def)
    have "\<not> sa_equal (c_address r) (c_address (id_remote d))" if "id_port d = p"
      using qt that p free amap_find_cong by fastforce
    then show ?thesis using ok qt pt' p by (auto simp: conn_ok_def amap_find_Cons)
  qed
  ultimately show ?thesis unfolding static_inv_def by blast
qed

lemma static_inv_drop_conn:
  assumes inv: "static_inv P C n" and c: "C c = Some d" and p: "P (id_port d) = Some pt"
    and pt': "pt' = pt\<lparr>p_connections := amap_erase (c_address (id_remote d)) (p_connections pt)\<rparr>"
  shows "static_inv (P(id_port d \<mapsto> pt')) (C(c := None)) n"
    and "p_connections pt' = [] \<Longrightarrow> static_inv (P(id_port d := None)) (C(c := None)) n"
proof -
  let ?addr = "c_address (id_remote d)"
  have ent: "\<exists>e. (C(c := None)) c' = Some e \<and> id_port e = q \<and> sa_equal a (c_address (id_remote e))"
    if q: "P q = Some qt" and a: "(a, c') \<in> set (p_connections qt)" and away: "q \<noteq> id_port d \<or> \<not> sa_equal a ?addr"
    for q qt a c'
  proof -
    obtain e where e: "C c' = Some e" "id_port e = q" "sa_equal a (c_address (id_remote e))"
      using static_port [OF inv q] a by (auto simp: port_ok_def)
    then have "c' \<noteq> c" using away c by auto
    then show ?thesis using e by simp
  qed
  have sub: "distinct (map snd (amap_erase ?addr (p_connections pt)))"
    using static_port [OF inv p] by (auto simp: port_ok_def amap_erase_def intro: distinct_map_filter)
  have port: "q < n \<and> port_ok (C(c := None)) q qt" if q: "q \<noteq> id_port d" "P q = Some qt" for q qt
  proof
    show "q < n" using static_port [OF inv q(2)] by simp
    have ok: "port_ok C q qt" using static_port [OF inv q(2)] by simp
    show "port_ok (C(c := None)) q qt"
      by (rule port_ok_entries [OF ok]) (rule ent [OF q(2)], use q(1) in simp_all)
  qed
  have portd: "id_port d < n \<and> port_ok (C(c := None)) (id_port d) pt'"
  proof
    show "id_port d < n" using static_port [OF inv p] by simp
    have ok: "port_ok C (id_port d) pt" using static_port [OF inv p] by simp
    have e: "\<forall>(a, c') \<in> set (p_connections pt'). \<exists>e. (C(c := None)) c' = Some e \<and> id_port e = id_port d
        \<and> sa_equal a (c_address (id_remote e))"
    proof (intro ballI, unfold split_beta)
      fix x assume "x \<in> set (p_connections pt')"
      then have x: "(fst x, snd x) \<in> set (p_connections pt)" "\<not> sa_equal (fst x) ?addr"
        using pt' by (simp_all add: amap_erase_def sa_equivalent)
      show "\<exists>e. (C(c := None)) (snd x) = Some e \<and> id_port e = id_port d \<and> sa_equal (fst x) (c_address (id_remote e))"
        by (rule ent [OF p x(1)]) (simp add: x(2))
    qed
    then show "port_ok (C(c := None)) (id_port d) pt'"
      using ok sub pt' unfolding port_ok_def by simp
  qed
  have conn: "c' < n \<and> (\<exists>qt. P (id_port e) = Some qt \<and> id_index e = 0 \<and> id_connected e
      \<and> amap_find (c_address (id_remote e)) (if id_port e = id_port d then p_connections pt' else p_connections qt) = Some c')"
    if e: "C c' = Some e" "c' \<noteq> c" for c' e
  proof -
    obtain qt where qt: "P (id_port e) = Some qt" "amap_find (c_address (id_remote e)) (p_connections qt) = Some c'"
        "id_index e = 0" "id_connected e" "c' < n"
      using static_conn [OF inv e(1)] by (auto simp: conn_ok_def)
    show ?thesis
    proof (cases "id_port e = id_port d")
      case True
      then have "qt = pt" using qt(1) p by simp
      have "\<not> sa_equal ?addr (c_address (id_remote e))"
        using qt(2) amap_find_cong conn_in_map [OF inv c p] e(2) \<open>qt = pt\<close> by (metis option.inject)
      then have "amap_find (c_address (id_remote e)) (p_connections pt') = Some c'"
        using qt(2) pt' \<open>qt = pt\<close> amap_find_erase by simp
      then show ?thesis using qt True by simp
    next
      case False
      then show ?thesis using qt by simp
    qed
  qed
  show "static_inv (P(id_port d \<mapsto> pt')) (C(c := None)) n"
    unfolding static_inv_def
  proof (intro conjI allI impI)
    fix q qt assume "(P(id_port d \<mapsto> pt')) q = Some qt"
    then show "q < n" "port_ok (C(c := None)) q qt" using port portd by (cases "q = id_port d"; simp)+
  next
    fix c' e assume "(C(c := None)) c' = Some e"
    then have e: "C c' = Some e" "c' \<noteq> c" by (simp_all split: if_splits)
    then show "c' < n" "conn_ok (P(id_port d \<mapsto> pt')) c' e"
      using conn [OF e] by (auto simp: conn_ok_def)
  qed
  assume "p_connections pt' = []"
  then have none: "id_port e \<noteq> id_port d" if "C c' = Some e" "c' \<noteq> c" for c' e
    using conn [OF that] by (auto simp: amap_find_def split: if_splits)
  show "static_inv (P(id_port d := None)) (C(c := None)) n"
    unfolding static_inv_def
  proof (intro conjI allI impI)
    fix q qt assume "(P(id_port d := None)) q = Some qt"
    then show "q < n" "port_ok (C(c := None)) q qt" using port by (cases "q = id_port d"; simp)+
  next
    fix c' e assume "(C(c := None)) c' = Some e"
    then have e: "C c' = Some e" "c' \<noteq> c" by (simp_all split: if_splits)
    then show "c' < n" "conn_ok (P(id_port d := None)) c' e"
      using conn [OF e] none [OF e] by (auto simp: conn_ok_def)
  qed
qed

lemma static_inv_port_update:
  assumes inv: "static_inv P C n" and p: "P p = Some pt" and pt': "p_connections pt' = p_connections pt"
    "p_username_frag pt' = p_username_frag pt" "p_candidates pt' = p_candidates pt" "p_preference pt' = p_preference pt"
  shows "static_inv (P(p \<mapsto> pt')) C n"
proof -
  have "q < n \<and> port_ok C q qt" if "(P(p \<mapsto> pt')) q = Some qt" for q qt
    using static_port [OF inv] p pt' that by (auto simp: port_ok_def split: if_splits)
  moreover have "c < n \<and> conn_ok (P(p \<mapsto> pt')) c d" if "C c = Some d" for c d
    using static_conn [OF inv that] p pt' by (auto simp: conn_ok_def)
  ultimately show ?thesis by (simp add: static_inv_def)
qed

lemma static_inv_drop_empty:
  assumes inv: "static_inv P C n" and p: "P p = Some pt" "p_connections pt = []"
  shows "static_inv (P(p := None)) C n"
proof -
  have "id_port d \<noteq> p" if "C c = Some d" for c d
    using static_conn [OF inv that] p by (auto simp: conn_ok_def amap_find_def)
  then show ?thesis using static_port [OF inv] static_conn [OF inv]
    unfolding static_inv_def by (auto simp: conn_ok_def split: if_splits)
qed

lemma static_inv_new_port:
  assumes inv: "static_inv P C n" and pt: "p_connections pt = []" "p_username_frag pt \<noteq> []" "p_candidates pt \<noteq> []"
    "\<forall>c \<in> set (p_candidates pt). c_preference c = p_preference pt"
  shows "static_inv (P(n \<mapsto> pt)) C (n + 1)"
proof -
  have "P n = None" using static_port [OF inv, of n] by (cases "P n") auto
  then have conn: "conn_ok (P(n \<mapsto> pt)) c d" if "C c = Some d" for c d
    using static_conn [OF inv that] by (auto simp: conn_ok_def)
  show ?thesis using static_port [OF inv] static_conn [OF inv] conn pt
    unfolding static_inv_def by (auto simp: port_ok_def less_Suc_eq)
qed

lemma conns_of_port:
  assumes inv: "static_inv P C n" and d: "C c = Some d" and p: "P (id_port d) = Some pt"
  shows "c \<in> snd ` set (p_connections pt)"
  using amap_find_Some [OF conn_in_map [OF assms]] by force

end
