(* ===== verification/Channel_Create.thy ===== *)
theory Channel_Create
  imports Channel_Heap
begin

text \<open>
  Creating connections (talk/p2p/base/p2ptransportchannel.cc) keeps a channel and its heap in step: on
  the ports of the channel, for a candidate or for a ping of an unknown address, and for new ports.
\<close>

section \<open>Delivering signals\<close>

lemma deliver_benign:
  assumes "ice_ok w" "sync w ch" "list_all benign (i_log w)"
  shows "\<exists>ch'. deliver w ch = Some (w\<lparr>i_log := []\<rparr>, ch') \<and> same_core ch' ch \<and> channel_ok (w\<lparr>i_log := []\<rparr>) ch'"
proof -
  obtain ch' where ch': "on_signals (i_log w) ch = Some ch'" "same_core ch' ch"
    using benign_on_signals [OF assms(3)] by blast
  then show ?thesis using assms(1) clear_log_steps sync_core [OF assms(2) ch'(2)]
    by (simp add: deliver_def channel_ok_def sync_clear_log)
qed

lemma channel_ok_core: "channel_ok w ch \<Longrightarrow> same_core ch' ch \<Longrightarrow> channel_ok w ch'"
  using sync_core by (auto simp: channel_ok_def)

lemma channel_ok_static:
  assumes "channel_ok w ch" "ch_conns ch' = ch_conns ch" "ch_best ch' = ch_best ch" "ch_static ch' = ch_static ch"
    "map as_generation (ch_sessions ch') = map as_generation (ch_sessions ch)"
  shows "channel_ok w ch'"
  using assms sync_static [of w ch ch'] by (simp add: channel_ok_def)

section \<open>Starting ports\<close>

text \<open>Only lifetimes of ports differ.\<close>

definition started :: "ice \<Rightarrow> ice \<Rightarrow> bool" where
  "started w w' \<longleftrightarrow> i_conns w' = i_conns w \<and> i_log w' = i_log w \<and> i_next w' = i_next w
     \<and> (\<forall>p. map_option (p_lifetime_update (\<lambda>_. LT_PRESTART)) (i_ports w' p)
           = map_option (p_lifetime_update (\<lambda>_. LT_PRESTART)) (i_ports w p))"

lemma started_refl: "started w w"
  by (simp add: started_def)

lemma started_trans: "started w w' \<Longrightarrow> started w' w'' \<Longrightarrow> started w w''"
  by (simp add: started_def)

lemma started_port:
  assumes "started w w'" "i_ports w' p = Some pt'"
  shows "\<exists>pt. i_ports w p = Some pt \<and> p_generation pt' = p_generation pt \<and> p_connections pt' = p_connections pt"
proof -
  have "map_option (p_lifetime_update (\<lambda>_. LT_PRESTART)) (i_ports w p) = Some (pt'\<lparr>p_lifetime := LT_PRESTART\<rparr>)"
    using assms unfolding started_def by (metis option.simps(9))
  then obtain pt where pt: "i_ports w p = Some pt" "pt\<lparr>p_lifetime := LT_PRESTART\<rparr> = pt'\<lparr>p_lifetime := LT_PRESTART\<rparr>" by auto
  then show ?thesis by (cases pt; cases pt') simp
qed

lemma started_alive: "started w w' \<Longrightarrow> i_ports w' p = None \<longleftrightarrow> i_ports w p = None"
  unfolding started_def by (metis option.map_disc_iff)

lemma started_GetConnection: "started w w' \<Longrightarrow> GetConnection p a w' = GetConnection p a w"
  using started_port [of w w' p] started_alive [of w w' p]
  by (cases "i_ports w' p") (auto simp: GetConnection_def)

lemma started_sync:
  assumes "sync w ch" "started w w'"
  shows "sync w' ch"
proof -
  have gens: "gens_ok w'"
    using assms(1) started_port [OF assms(2)] assms(2) unfolding sync_def gens_ok_def started_def by metis
  have conns: "i_conns w' = i_conns w" using assms(2) by (simp add: started_def)
  show ?thesis using assms(1) gens unfolding sync_def started_alive [OF assms(2)] conns by blast
qed

lemma ports_view_put: "ports_view (put_port p pt w) = (ports_view w)(p \<mapsto> port_static pt)"
  by (auto simp: ports_view_def put_port_def)

lemma conns_view_put: "conns_view (put_conn c cn w) = (conns_view w)(c \<mapsto> conn_static cn)"
  by (auto simp: conns_view_def put_conn_def)

lemma view_put [simp]: "conns_view (put_port p pt w) = conns_view w" "ports_view (put_conn c cn w) = ports_view w"
  by (simp_all add: conns_view_def ports_view_def put_port_def put_conn_def)

lemma view_update [simp]:
  "conns_view (w\<lparr>i_timers := ts\<rparr>) = conns_view w" "ports_view (w\<lparr>i_timers := ts\<rparr>) = ports_view w"
  "conns_view (w\<lparr>i_log := l\<rparr>) = conns_view w" "ports_view (w\<lparr>i_log := l\<rparr>) = ports_view w"
  "conns_view (w\<lparr>i_next := n\<rparr>) = conns_view w" "ports_view (w\<lparr>i_next := n\<rparr>) = ports_view w"
  "conns_view (w\<lparr>i_deletes := ds\<rparr>) = conns_view w" "ports_view (w\<lparr>i_deletes := ds\<rparr>) = ports_view w"
  by (simp_all add: conns_view_def ports_view_def)

lemma ports_view_Some: "i_ports w p = Some pt \<Longrightarrow> ports_view w p = Some (port_static pt)"
  by (simp add: ports_view_def)

lemma conns_view_Some: "i_conns w c = Some cn \<Longrightarrow> conns_view w c = Some (conn_static cn)"
  by (simp add: conns_view_def)

lemma port_static_fields [simp]: "p_connections (port_static pt) = p_connections pt" "p_lifetime (port_static pt) = p_lifetime pt"
  "p_username_frag (port_static pt) = p_username_frag pt" "p_candidates (port_static pt) = p_candidates pt"
  "p_preference (port_static pt) = p_preference pt"
  by (simp_all add: port_static_def)

lemma StartPort_ok:
  assumes ok: "ice_ok w" and p: "i_ports w p = Some pt"
  shows "\<exists>w'. StartPort p w = Some w' \<and> ice_ok w' \<and> started w w'"
proof (cases "p_lifetime pt = LT_PRESTART")
  case True
  let ?pt = "pt\<lparr>p_lifetime := LT_PRETIMEOUT\<rparr>"
  let ?w = "(put_port p ?pt w)\<lparr>i_timers := i_timers w @ [(kPortTimeoutDelay, p)]\<rparr>"
  have run: "StartPort p w = Some ?w" using True p by (simp add: StartPort_def)
  have st: "static_inv ((ports_view w)(p \<mapsto> port_static ?pt)) (conns_view w) (i_next w)"
    by (rule static_inv_port_update [where pt = "port_static pt"])
       (use ok p in \<open>simp_all add: ice_ok_def ports_view_Some\<close>)
  have t: "timers_ok (ports_view w) (i_timers w)" using ok by (simp add: ice_ok_def)
  then have new: "p \<notin> snd ` set (i_timers w)" using True ports_view_Some [OF p] by (auto simp: timers_ok_def)
  have "timers_ok ((ports_view w)(p \<mapsto> port_static ?pt)) (i_timers w @ [(kPortTimeoutDelay, p)])"
    using t new unfolding timers_ok_def by auto
  then have "ice_ok ?w" using ok st by (simp add: ice_ok_def ports_view_put) (simp add: put_port_def)
  moreover have "started w ?w" using p by (simp add: started_def put_port_def)
  ultimately show ?thesis using run by blast
next
  case False
  then show ?thesis using p ok started_refl by (simp add: StartPort_def)
qed

lemma start_ports_ok:
  "ice_ok w \<Longrightarrow> \<forall>p \<in> set ps. i_ports w p \<noteq> None \<Longrightarrow> \<exists>w'. start_ports ps w = Some w' \<and> ice_ok w' \<and> started w w'"
proof (induction ps arbitrary: w)
  case (Cons p ps)
  then obtain pt where "i_ports w p = Some pt" by auto
  then obtain w1 where w1: "StartPort p w = Some w1" "ice_ok w1" "started w w1" using StartPort_ok Cons.prems(1) by blast
  obtain w2 where "start_ports ps w1 = Some w2" "ice_ok w2" "started w1 w2"
    using Cons.IH [OF w1(2)] Cons.prems(2) started_alive [OF w1(3)] by auto
  then show ?case using w1 started_trans by auto
qed (simp add: started_refl)

lemma start_sessions_ok:
  assumes "ice_ok w" "\<forall>p \<in> set (map fst (concat (map as_ports ss))). i_ports w p \<noteq> None"
  shows "\<exists>ss' w'. start_sessions ss w = Some (ss', w') \<and> ice_ok w' \<and> started w w'
     \<and> map as_ports ss' = map as_ports ss \<and> map as_generation ss' = map as_generation ss"
  using assms
proof (induction ss arbitrary: w)
  case (Cons s ss)
  obtain s1 w1 where w1: "(if \<not> as_running s then StartGetAllPorts s w else Some (s, w)) = Some (s1, w1)"
      "ice_ok w1" "started w w1" "as_ports s1 = as_ports s" "as_generation s1 = as_generation s"
  proof (cases "as_running s")
    case True
    then show ?thesis using that [of s w] Cons.prems(1) started_refl by simp
  next
    case False
    obtain w' where "start_ports (map fst (as_ports s)) w = Some w'" "ice_ok w'" "started w w'"
      using start_ports_ok [OF Cons.prems(1), of "map fst (as_ports s)"] Cons.prems(2) by auto
    then show ?thesis using that [of "s\<lparr>as_running := True\<rparr>" w'] False by (simp add: StartGetAllPorts_def)
  qed
  obtain ss2 w2 where w2: "start_sessions ss w1 = Some (ss2, w2)" "ice_ok w2" "started w1 w2"
      "map as_ports ss2 = map as_ports ss" "map as_generation ss2 = map as_generation ss"
    using Cons.IH [OF w1(2)] Cons.prems(2) started_alive [OF w1(3)] by auto
  then have "start_sessions (s # ss) w = Some (s1 # ss2, w2)" using w1(1) by simp
  then show ?case using w1(4,5) w2 started_trans [OF w1(3)] by auto
qed (simp add: started_refl)

section \<open>One connection\<close>

lemma fresh_index:
  assumes "ice_ok w"
  shows "i_conns w (i_next w) = None" "i_ports w (i_next w) = None"
proof -
  have st: "static_inv (ports_view w) (conns_view w) (i_next w)" using assms by (simp add: ice_ok_def)
  show "i_conns w (i_next w) = None"
  proof (cases "i_conns w (i_next w)")
    case (Some cn)
    then show ?thesis using static_conn [OF st conns_view_Some] by blast
  qed
  show "i_ports w (i_next w) = None"
  proof (cases "i_ports w (i_next w)")
    case (Some pt)
    then show ?thesis using static_port [OF st ports_view_Some] by blast
  qed
qed

lemma timers_ok_cong:
  assumes "timers_ok P ts" "\<forall>p. map_option p_lifetime (Q p) = map_option p_lifetime (P p)"
  shows "timers_ok Q ts"
proof -
  have eq: "(\<exists>pt. Q p = Some pt \<and> p_lifetime pt = l) \<longleftrightarrow> (\<exists>pt. P p = Some pt \<and> p_lifetime pt = l)" for p l
    using assms(2) by (metis map_option_eq_Some)
  show ?thesis using assms(1) unfolding timers_ok_def eq .
qed

text \<open>The new connection is filed with its port.\<close>

definition with_conn :: "nat \<Rightarrow> port \<Rightarrow> candidate \<Rightarrow> ice \<Rightarrow> ice" where
  "with_conn p pt rc w = emit (SignalConnectionCreated p (i_next w))
     (put_port p (pt\<lparr>p_connections := (c_address rc, i_next w) # p_connections pt\<rparr>)
        (put_conn (i_next w) (Connection p 0 rc) (w\<lparr>i_next := i_next w + 1\<rparr>)))"

lemma UDP_CreateConnection_run:
  assumes "i_ports w p = Some pt" "amap_find (c_address rc) (p_connections pt) = None" "c_protocol rc = ascii ''udp''"
  shows "UDP_CreateConnection p rc o' w = Some (Some (i_next w), with_conn p pt rc w)"
proof -
  let ?w = "put_conn (i_next w) (Connection p 0 rc) (w\<lparr>i_next := i_next w + 1\<rparr>)"
  have port: "i_ports ?w p = Some pt" using assms(1) by (simp add: put_conn_def)
  have conn: "i_conns ?w (i_next w) = Some (Connection p 0 rc)" by (simp add: put_conn_def)
  have remote: "cn_remote (Connection p 0 rc) = rc" by (simp add: Connection_def)
  have "AddConnection p (i_next w) ?w = Some (with_conn p pt rc w)"
    unfolding AddConnection_def port conn bind.bind_lunit Let_def remote amap_set_def assms(2) with_conn_def by simp
  then show ?thesis using assms(3) unfolding UDP_CreateConnection_def Let_def by simp
qed

lemma with_conn_ok:
  assumes ok: "ice_ok w" and p: "i_ports w p = Some pt" and free: "amap_find (c_address rc) (p_connections pt) = None"
  shows "ice_ok (with_conn p pt rc w)"
proof -
  let ?pt = "pt\<lparr>p_connections := (c_address rc, i_next w) # p_connections pt\<rparr>"
  have st: "static_inv (ports_view w) (conns_view w) (i_next w)" using ok by (simp add: ice_ok_def)
  have pv: "ports_view (with_conn p pt rc w) = (ports_view w)(p \<mapsto> port_static ?pt)"
    by (auto simp: with_conn_def emit_def ports_view_def put_port_def put_conn_def)
  have cv: "conns_view (with_conn p pt rc w) = (conns_view w)(i_next w \<mapsto> \<lparr>id_port = p, id_index = 0, id_remote = rc, id_connected = True\<rparr>)"
    by (auto simp: with_conn_def emit_def conns_view_def put_port_def put_conn_def Connection_def conn_static_def)
  have "static_inv (ports_view (with_conn p pt rc w)) (conns_view (with_conn p pt rc w)) (i_next w + 1)"
    unfolding pv cv
    by (rule static_inv_new_conn [OF st ports_view_Some [OF p]]) (simp_all add: free, simp add: port_static_def)
  moreover have "timers_ok (ports_view (with_conn p pt rc w)) (i_timers w)"
    by (rule timers_ok_cong [of "ports_view w"]) (use ok p in \<open>simp_all add: ice_ok_def pv ports_view_Some\<close>)
  moreover have "requests_ok (i_next w + 1) (cn_requests cn)" if "i_conns (with_conn p pt rc w) c = Some cn" for c cn
  proof (cases "c = i_next w")
    case True
    then show ?thesis using that
      by (auto simp: with_conn_def emit_def put_port_def put_conn_def Connection_def requests_ok_init)
  next
    case False
    then have "i_conns w c = Some cn" using that by (simp add: with_conn_def emit_def put_port_def put_conn_def)
    then show ?thesis using requests_of [OF ok] requests_ok_mono by (metis le_add1)
  qed
  moreover have "i_conns (with_conn p pt rc w) c \<noteq> None" if "c \<in> set (i_deletes w)" for c
    using that ok by (auto simp: with_conn_def emit_def put_port_def put_conn_def ice_ok_def)
  ultimately show ?thesis unfolding ice_ok_def
    by (simp add: with_conn_def emit_def put_port_def put_conn_def)
qed

lemma with_conn_fields:
  "i_conns (with_conn p pt rc w) = (i_conns w)(i_next w \<mapsto> Connection p 0 rc)"
  "i_ports (with_conn p pt rc w) = (i_ports w)(p \<mapsto> pt\<lparr>p_connections := (c_address rc, i_next w) # p_connections pt\<rparr>)"
  "i_log (with_conn p pt rc w) = i_log w @ [SignalConnectionCreated p (i_next w)]"
  by (simp_all add: with_conn_def emit_def put_port_def put_conn_def)

lemma with_conn_sync:
  assumes ok: "ice_ok w" and sync: "sync w ch" and p: "i_ports w p = Some pt" and rc: "remote_ok rc"
  shows "sync (with_conn p pt rc w) (ch\<lparr>ch_conns := ch_conns ch @ [i_next w]\<rparr>)"
proof -
  have new: "i_next w \<notin> set (ch_conns ch)" using sync fresh_index(1) [OF ok] by (simp add: sync_def)
  have alive: "i_conns (with_conn p pt rc w) c = None \<longleftrightarrow> c \<noteq> i_next w \<and> i_conns w c = None" for c
    by (simp add: with_conn_fields)
  have ports: "i_ports (with_conn p pt rc w) q = None \<longleftrightarrow> i_ports w q = None" for q
    using p by (simp add: with_conn_fields)
  have "gens_ok w" using sync by (simp add: sync_def)
  then have "gens_ok (with_conn p pt rc w)"
    using p rc by (auto simp: gens_ok_def with_conn_fields Connection_def remote_ok_def)
  then show ?thesis using sync new alive ports unfolding sync_def session_ports_def by (auto simp: alive ports)
qed

text \<open>Ports live on and the maps of the other ports stay.\<close>

definition grows :: "nat set \<Rightarrow> ice \<Rightarrow> ice \<Rightarrow> bool" where
  "grows ps w w' \<longleftrightarrow> (\<forall>p. i_ports w' p = None \<longleftrightarrow> i_ports w p = None)
     \<and> (\<forall>p a. p \<notin> ps \<longrightarrow> GetConnection p a w' = GetConnection p a w)"

lemma grows_trans: "grows ps w w' \<Longrightarrow> grows qs w' w'' \<Longrightarrow> grows (ps \<union> qs) w w''"
  by (simp add: grows_def)

lemma steps_grows: "steps w w' \<Longrightarrow> grows ps w (w'\<lparr>i_log := l\<rparr>)"
  using steps_GetConnection steps_alive_port by (simp add: grows_def GetConnection_def)

lemma grows_refl: "grows ps w w"
  by (simp add: grows_def)

lemma steps_benign: "steps w w' \<Longrightarrow> list_all benign (i_log w) \<Longrightarrow> list_all benign (i_log w')"
  by (auto simp: steps_def frame_def)

lemma connection_ready:
  assumes "ice_ok w" "sync w ch" "i_conns w c \<noteq> None" "list_all benign (i_log w)"
  shows "\<exists>w1 w' ch'. (if readable then ReceivedPing now c w else Some w) = Some w1 \<and> deliver w1 ch = Some (w', ch')
     \<and> channel_ok w' ch' \<and> same_core ch' ch \<and> grows {} w w'"
proof -
  have "safe (if readable then ReceivedPing now c w else Some w) w"
    by (intro safe_if ReceivedPing_safe safe_Some assms)
  then obtain w1 where w1: "(if readable then ReceivedPing now c w else Some w) = Some w1" "steps w w1" by (auto simp: safe_def)
  obtain ch' where "deliver w1 ch = Some (w1\<lparr>i_log := []\<rparr>, ch')" "same_core ch' ch" "channel_ok (w1\<lparr>i_log := []\<rparr>) ch'"
    using deliver_benign [OF steps_ok [OF w1(2)] sync_steps [OF assms(2) w1(2)] steps_benign [OF w1(2) assms(4)]] by blast
  then show ?thesis using w1 steps_grows [OF w1(2)] by blast
qed

lemma GetConnection_find: "i_ports w p = Some pt \<Longrightarrow> GetConnection p a w = Some (amap_find a (p_connections pt))"
  by (simp add: GetConnection_def)

lemma with_conn_GetConnection:
  assumes "i_ports w p = Some pt"
  shows "GetConnection p (c_address rc) (with_conn p pt rc w) = Some (Some (i_next w))"
    and "q \<noteq> p \<Longrightarrow> GetConnection q a (with_conn p pt rc w) = GetConnection q a w"
  using assms by (simp_all add: GetConnection_def with_conn_fields amap_find_Cons sa_equal_refl)

definition created_ok :: "nat \<Rightarrow> candidate \<Rightarrow> nat option \<Rightarrow> ice \<Rightarrow> bool \<Rightarrow> ice \<Rightarrow> bool" where
  "created_ok p rc origin w r w' \<longleftrightarrow> (origin \<noteq> None \<and> GetConnection p (c_address rc) w = Some None
     \<longrightarrow> r \<and> (\<exists>c. GetConnection p (c_address rc) w' = Some (Some c)))"

lemma CreateConnection_ok:
  assumes ok: "channel_ok w ch" and p: "i_ports w p = Some pt" and rc: "remote_ok rc"
  shows "\<exists>r w' ch'. CreateConnection env p rc origin readable w ch = Some (r, w', ch') \<and> channel_ok w' ch'
     \<and> ch_static ch' = ch_static ch \<and> ch_sessions ch' = ch_sessions ch \<and> grows {p} w w' \<and> created_ok p rc origin w r w'"
proof -
  have w: "ice_ok w" "sync w ch" "i_log w = []" using ok by (simp_all add: channel_ok_def)
  note get = GetConnection_find [OF p]
  note unfold = CreateConnection_def get bind.bind_lunit
  show ?thesis
  proof (cases "amap_find (c_address rc) (p_connections pt)")
    case None
    show ?thesis
    proof (cases "GetOrigin p origin = ORIGIN_MESSAGE \<and> ch_incoming_only ch")
      case True
      then have "origin = None" by (auto simp: GetOrigin_def split: if_splits)
      then have "created_ok p rc origin w False w" by (simp add: created_ok_def)
      moreover have "CreateConnection env p rc origin readable w ch = Some (False, w, ch)"
        unfolding unfold using None True by simp
      ultimately show ?thesis using ok grows_refl by blast
    next
      case False
      let ?c = "i_next w" and ?w = "with_conn p pt rc w" and ?ch = "ch\<lparr>ch_conns := ch_conns ch @ [i_next w]\<rparr>"
      have "i_conns ?w ?c \<noteq> None" "list_all benign (i_log ?w)" using w(3) by (simp_all add: with_conn_fields)
      then obtain w1 w' ch' where w': "(if readable then ReceivedPing (ne_now env) ?c ?w else Some ?w) = Some w1"
          "deliver w1 ?ch = Some (w', ch')" "channel_ok w' ch'" "same_core ch' ?ch" "grows {} ?w w'"
        using connection_ready [OF with_conn_ok [OF w(1) p None] with_conn_sync [OF w(1,2) p rc]] by blast
      have "CreateConnection env p rc origin readable w ch = Some (True, w', ch')"
        unfolding unfold
        using None False UDP_CreateConnection_run [OF p None, of "GetOrigin p origin"] rc w'(1,2)
        by (simp add: remote_ok_def)
      moreover have "grows {p} w ?w" using p with_conn_GetConnection(2) [OF p] by (auto simp: grows_def with_conn_fields)
      then have "grows {p} w w'" using grows_trans [OF _ w'(5)] by simp
      moreover have "created_ok p rc origin w True w'"
        using w'(5) with_conn_GetConnection(1) [OF p, of rc] by (simp add: created_ok_def grows_def)
      ultimately show ?thesis using w'(3) same_core_fields [OF w'(4)]
        by (intro exI [of _ True] exI [of _ w'] exI [of _ ch']) (simp add: ch_static_def)
    qed
  next
    case (Some c)
    have "i_conns w c \<noteq> None" using GetConnection_alive [OF w(1), of p "c_address rc"] get Some by simp
    then obtain cn where cn: "i_conns w c = Some cn" by auto
    have no: "created_ok p rc origin w r w'" for r w' using get Some by (simp add: created_ok_def)
    show ?thesis
    proof (cases "IsEquivalent rc (cn_remote cn)")
      case True
      obtain w1 w' ch' where w': "(if readable then ReceivedPing (ne_now env) c w else Some w) = Some w1"
          "deliver w1 ch = Some (w', ch')" "channel_ok w' ch'" "same_core ch' ch" "grows {} w w'"
        using connection_ready [OF w(1,2) \<open>i_conns w c \<noteq> None\<close>] w(3) by force
      have "CreateConnection env p rc origin readable w ch = Some (True, w', ch')"
        unfolding unfold using Some cn True w'(1,2) by simp
      moreover have "grows {p} w w'" using w'(5) by (simp add: grows_def)
      ultimately show ?thesis using w'(3) same_core_fields [OF w'(4)] no
        by (intro exI [of _ True] exI [of _ w'] exI [of _ ch']) (simp add: ch_static_def)
    next
      case False
      then have "CreateConnection env p rc origin readable w ch = Some (False, w, ch)"
        unfolding unfold using Some cn by simp
      then show ?thesis using ok grows_refl no by blast
    qed
  qed
qed

section \<open>Connections on all ports\<close>

lemma static_ports: "ch_static ch' = ch_static ch \<Longrightarrow> ch_ports ch' = ch_ports ch \<and> ch_remotes ch' = ch_remotes ch
    \<and> session_ports ch' = session_ports ch"
  by (simp add: ch_static_def session_ports_def)

lemma create_on_ports_ok:
  assumes "channel_ok w ch" "\<forall>p \<in> set ps. i_ports w p \<noteq> None" "distinct ps" "remote_ok rc"
  shows "\<exists>r w' ch'. create_on_ports env ps rc origin readable w ch = Some (r, w', ch') \<and> channel_ok w' ch'
     \<and> ch_static ch' = ch_static ch \<and> ch_sessions ch' = ch_sessions ch \<and> grows (set ps) w w'
     \<and> (\<forall>p. origin = Some p \<and> p \<in> set ps \<longrightarrow> created_ok p rc origin w r w')"
  using assms
proof (induction ps arbitrary: w ch)
  case (Cons p ps)
  obtain pt where pt: "i_ports w p = Some pt" using Cons.prems(2) by auto
  obtain r1 w1 ch1 where c1: "CreateConnection env p rc origin readable w ch = Some (r1, w1, ch1)" "channel_ok w1 ch1"
      "ch_static ch1 = ch_static ch" "ch_sessions ch1 = ch_sessions ch" "grows {p} w w1" "created_ok p rc origin w r1 w1"
    using CreateConnection_ok [OF Cons.prems(1) pt Cons.prems(4)] by blast
  obtain r2 w2 ch2 where c2: "create_on_ports env ps rc origin readable w1 ch1 = Some (r2, w2, ch2)" "channel_ok w2 ch2"
      "ch_static ch2 = ch_static ch1" "ch_sessions ch2 = ch_sessions ch1" "grows (set ps) w1 w2"
      "\<forall>p. origin = Some p \<and> p \<in> set ps \<longrightarrow> created_ok p rc origin w1 r2 w2"
  proof -
    have "\<forall>p \<in> set ps. i_ports w1 p \<noteq> None" using Cons.prems(2) c1(5) by (simp add: grows_def)
    then show thesis using Cons.IH [OF c1(2)] Cons.prems(3,4) that by auto
  qed
  have "grows (set (p # ps)) w w2" using grows_trans [OF c1(5) c2(5)] by simp
  moreover have "created_ok q rc origin w (r1 \<and> Some p = origin \<or> r2) w2" if "origin = Some q" "q \<in> set (p # ps)" for q
  proof (cases "q = p")
    case True
    then have "q \<notin> set ps" using Cons.prems(3) by simp
    then have "GetConnection q a w2 = GetConnection q a w1" for a using c2(5) by (simp add: grows_def)
    then show ?thesis using c1(6) True that(1) by (auto simp: created_ok_def)
  next
    case False
    then have "GetConnection q a w1 = GetConnection q a w" for a using c1(5) by (simp add: grows_def)
    then show ?thesis using c2(6) that False by (auto simp: created_ok_def)
  qed
  ultimately show ?case using c1 c2 by auto
qed (auto simp: grows_refl)

lemma RememberRemoteCandidate_ok:
  assumes ok: "channel_ok w ch" and rc: "remote_ok rc"
  shows "\<exists>w' ch'. RememberRemoteCandidate (rc, origin) w ch = Some (w', ch') \<and> channel_ok w' ch' \<and> started w w'
     \<and> map as_ports (ch_sessions ch') = map as_ports (ch_sessions ch) \<and> ch_ports ch' = ch_ports ch"
proof -
  have w: "ice_ok w" "sync w ch" "i_log w = []" using ok by (simp_all add: channel_ok_def)
  define remotes where "remotes = filter (\<lambda>r. \<not> c_generation (fst r) < c_generation rc) (ch_remotes ch)"
  have ok1: "sync w (ch\<lparr>ch_remotes := rs\<rparr>)" if "set rs \<subseteq> set (ch_remotes ch) \<union> {(rc, origin)}" for rs
    using w(2) that rc by (auto simp: sync_def session_ports_def)
  have sub: "set remotes \<subseteq> set (ch_remotes ch)" by (auto simp: remotes_def)
  let ?ch1 = "ch\<lparr>ch_remotes := remotes\<rparr>" and ?ch2 = "ch\<lparr>ch_remotes := remotes @ [(rc, origin)]\<rparr>"
  have sync1: "sync w ?ch1" and sync2: "sync w ?ch2" using sub by (auto intro!: ok1)
  consider (dup) "list_ex (\<lambda>r. IsEquivalent (fst r) rc) remotes"
    | (pinging) "\<not> list_ex (\<lambda>r. IsEquivalent (fst r) rc) remotes" "ch_pinging_started ch"
    | (start) "\<not> list_ex (\<lambda>r. IsEquivalent (fst r) rc) remotes" "\<not> ch_pinging_started ch" by blast
  then show ?thesis
  proof cases
    case dup
    then have "RememberRemoteCandidate (rc, origin) w ch = Some (w, ?ch1)" by (simp add: remotes_def Let_def)
    then show ?thesis using sync1 w started_refl by (auto simp: channel_ok_def)
  next
    case pinging
    then have "RememberRemoteCandidate (rc, origin) w ch = Some (w, ?ch2)" by (simp add: remotes_def Let_def)
    then show ?thesis using sync2 w started_refl by (auto simp: channel_ok_def)
  next
    case start
    have "\<forall>p \<in> set (map fst (concat (map as_ports (ch_sessions ch)))). i_ports w p \<noteq> None"
      using w(2) unfolding sync_def session_ports_def by blast
    then obtain ss w1 where ss: "start_sessions (ch_sessions ch) w = Some (ss, w1)" "ice_ok w1" "started w w1"
        "map as_ports ss = map as_ports (ch_sessions ch)" "map as_generation ss = map as_generation (ch_sessions ch)"
      using start_sessions_ok [OF w(1)] by blast
    let ?ch3 = "?ch2\<lparr>ch_pinging_started := True, ch_sessions := ss\<rparr>"
    have "RememberRemoteCandidate (rc, origin) w ch = Some (w1, ?ch3)"
      using start ss(1) by (simp add: remotes_def Let_def)
    moreover have "sync w1 ?ch3"
      by (rule sync_static [OF started_sync [OF sync2 ss(3)]]) (simp_all add: ch_static_def ss(4,5))
    then have "channel_ok w1 ?ch3" using ss(2,3) w(3) by (simp add: channel_ok_def started_def)
    ultimately show ?thesis using ss(3,4) by auto
  qed
qed

lemma sync_ports_alive:
  "channel_ok w ch \<Longrightarrow> p \<in> set (ch_ports ch) \<Longrightarrow> i_ports w p \<noteq> None"
  "channel_ok w ch \<Longrightarrow> p \<in> set (session_ports ch) \<longleftrightarrow> i_ports w p \<noteq> None"
  "channel_ok w ch \<Longrightarrow> distinct (ch_ports ch)"
  by (simp_all add: channel_ok_def sync_def)

lemma CreateConnections_ok:
  assumes ok: "channel_ok w ch" and rc: "remote_ok rc" and origin: "\<forall>p. origin = Some p \<longrightarrow> i_ports w p \<noteq> None"
  shows "\<exists>r w' ch'. CreateConnections env rc origin readable w ch = Some (r, w', ch') \<and> channel_ok w' ch'
     \<and> (\<forall>p. origin = Some p \<longrightarrow> created_ok p rc origin w r w')"
proof -
  have ports: "\<forall>p \<in> set (rev (ch_ports ch)). i_ports w p \<noteq> None" "distinct (rev (ch_ports ch))"
    using sync_ports_alive [OF ok] by auto
  obtain r1 w1 ch1 where c1: "create_on_ports env (rev (ch_ports ch)) rc origin readable w ch = Some (r1, w1, ch1)"
      "channel_ok w1 ch1" "grows (set (ch_ports ch)) w w1"
      "\<forall>p. origin = Some p \<and> p \<in> set (ch_ports ch) \<longrightarrow> created_ok p rc origin w r1 w1"
    using create_on_ports_ok [OF ok ports rc, of env origin readable] by auto
  have "\<exists>r w' ch'. (case origin of
          Some p \<Rightarrow>
            if p \<notin> set (ch_ports ch)
            then do {
              (r, w, ch) \<leftarrow> CreateConnection env p rc origin readable w1 ch1;
              Some (r \<or> r1, w, ch)
            }
            else Some (r1, w1, ch1)
        | None \<Rightarrow> Some (r1, w1, ch1)) = Some (r, w', ch') \<and> channel_ok w' ch'
      \<and> (\<forall>p. origin = Some p \<longrightarrow> created_ok p rc origin w r w')"
  proof (cases "\<exists>p. origin = Some p \<and> p \<notin> set (ch_ports ch)")
    case True
    then obtain p where p: "origin = Some p" "p \<notin> set (ch_ports ch)" by blast
    obtain pt where pt: "i_ports w1 p = Some pt" using origin p(1) c1(3) by (fastforce simp: grows_def)
    obtain r2 w2 ch2 where c2: "CreateConnection env p rc origin readable w1 ch1 = Some (r2, w2, ch2)"
        "channel_ok w2 ch2" "created_ok p rc origin w1 r2 w2"
      using CreateConnection_ok [OF c1(2) pt rc] by blast
    have "GetConnection p a w1 = GetConnection p a w" for a using c1(3) p(2) by (simp add: grows_def)
    then have "created_ok p rc origin w (r2 \<or> r1) w2" using c2(3) by (auto simp: created_ok_def)
    then show ?thesis using p c2(1,2) by simp
  next
    case False
    then show ?thesis using c1 by (cases origin) auto
  qed
  then obtain r2 w2 ch2 where c2: "(case origin of
          Some p \<Rightarrow>
            if p \<notin> set (ch_ports ch)
            then do {
              (r, w, ch) \<leftarrow> CreateConnection env p rc origin readable w1 ch1;
              Some (r \<or> r1, w, ch)
            }
            else Some (r1, w1, ch1)
        | None \<Rightarrow> Some (r1, w1, ch1)) = Some (r2, w2, ch2)" "channel_ok w2 ch2"
      "\<forall>p. origin = Some p \<longrightarrow> created_ok p rc origin w r2 w2" by blast
  obtain w3 ch3 where c3: "RememberRemoteCandidate (rc, origin) w2 ch2 = Some (w3, ch3)" "channel_ok w3 ch3" "started w2 w3"
    using RememberRemoteCandidate_ok [OF c2(2) rc] by blast
  have "CreateConnections env rc origin readable w ch = Some (r2, w3, ch3)"
    unfolding CreateConnections_def Let_def c1(1) bind.bind_lunit prod.case c2(1) c3(1) ..
  moreover have "\<forall>p. origin = Some p \<longrightarrow> created_ok p rc origin w r2 w3"
    using c2(3) started_GetConnection [OF c3(3)] by (simp add: created_ok_def)
  ultimately show ?thesis using c3(2) by blast
qed

end
