(* ===== verification/Channel_Steps.thy ===== *)
theory Channel_Steps
  imports Channel_Create
begin

text \<open>
  The calls of a channel (talk/p2p/base/p2ptransportchannel.cc): candidates, unknown addresses, new
  ports, pings and packets keep the channel and its heap in step.
\<close>

text \<open>The operation returns, and everything is in step again.\<close>

definition runs :: "(ice \<times> channel) option \<Rightarrow> bool" where
  "runs r \<longleftrightarrow> (\<exists>w ch. r = Some (w, ch) \<and> channel_ok w ch)"

lemma runs_Some [simp]: "runs (Some (w, ch)) \<longleftrightarrow> channel_ok w ch"
  by (simp add: runs_def)

lemma SortConnections_runs: "channel_ok w ch \<Longrightarrow> runs (SortConnections env w ch)"
  using SortConnections_ok unfolding runs_def by blast

lemma deliver_runs:
  assumes "channel_ok w ch" "steps w w'"
  shows "runs (deliver w' ch)"
  using deliver_ok [OF assms] by (auto simp: runs_def)

lemma safe_deliver_runs:
  assumes "channel_ok w ch" "safe r w"
  shows "runs (do { w \<leftarrow> r; deliver w ch })"
  using assms deliver_runs by (auto simp: safe_def)

section \<open>Candidates\<close>

lemma OnCandidate_runs:
  assumes "channel_ok w ch" "remote_ok candidate"
  shows "runs (OnCandidate env candidate w ch)"
proof -
  obtain r w' ch' where "CreateConnections env candidate None False w ch = Some (r, w', ch')" "channel_ok w' ch'"
    using CreateConnections_ok [OF assms] by blast
  then show ?thesis using SortConnections_runs by (simp add: OnCandidate_def)
qed

lemma OnUnknownAddress_runs:
  assumes ok: "channel_ok w ch" and p: "GetConnection p address w = Some None"
    and msg: "answerable msg" "sm_type msg = STUN_BINDING_REQUEST"
  shows "runs (OnUnknownAddress env p address msg name w ch)"
proof -
  have w: "ice_ok w" "i_ports w p \<noteq> None" using ok p by (auto simp: channel_ok_def GetConnection_def)
  show ?thesis
  proof (cases "find (\<lambda>r. c_username (fst r) = name) (ch_remotes ch)")
    case None
    then show ?thesis
      using safe_deliver_runs [OF ok SendBindingErrorResponse_safe [OF w msg]] by (simp add: OnUnknownAddress_def)
  next
    case (Some r)
    obtain candidate o' where r: "r = (candidate, o')" by (cases r)
    then have "(candidate, o') \<in> set (ch_remotes ch)"
      using Some find_Some_iff [of "\<lambda>r. c_username (fst r) = name" "ch_remotes ch" r] by (metis nth_mem)
    then have rc: "remote_ok (candidate\<lparr>c_address := address\<rparr>)"
      using ok by (auto simp: channel_ok_def sync_def remote_ok_def)
    obtain created w1 ch1 where c: "CreateConnections env (candidate\<lparr>c_address := address\<rparr>) (Some p) True w ch = Some (created, w1, ch1)"
        "channel_ok w1 ch1" "created_ok p (candidate\<lparr>c_address := address\<rparr>) (Some p) w created w1"
      using CreateConnections_ok [OF ok rc, of "Some p" env True] w(2) by auto
    then have made: "created" "\<exists>c. GetConnection p address w1 = Some (Some c)" using p by (simp_all add: created_ok_def)
    then obtain conn where conn: "GetConnection p address w1 = Some (Some conn)" by blast
    have "ice_ok w1" using c(2) by (simp add: channel_ok_def)
    then obtain w2 where w2: "SendBindingResponse env p msg address w1 = Some w2" "steps w1 w2"
      using SendBindingResponse_safe [OF _ conn msg] by (auto simp: safe_def)
    obtain w3 ch3 where "deliver w2 ch1 = Some (w3, ch3)" "channel_ok w3 ch3"
      using deliver_runs [OF c(2) w2(2)] by (auto simp: runs_def)
    then show ?thesis using Some r c(1) made(1) w2(1) SortConnections_runs by (simp add: OnUnknownAddress_def ASSERT_def)
  qed
qed

section \<open>New ports\<close>

lemma create_for_remotes_ok:
  assumes "channel_ok w ch" "i_ports w p \<noteq> None" "\<forall>r \<in> set rs. remote_ok (fst r)"
  shows "\<exists>w' ch'. create_for_remotes env p rs w ch = Some (w', ch') \<and> channel_ok w' ch' \<and> ch_static ch' = ch_static ch"
  using assms
proof (induction rs arbitrary: w ch)
  case (Cons r rs)
  obtain pt where pt: "i_ports w p = Some pt" using Cons.prems(2) by auto
  obtain x w1 ch1 where c1: "CreateConnection env p (fst r) (snd r) False w ch = Some (x, w1, ch1)" "channel_ok w1 ch1"
      "ch_static ch1 = ch_static ch" "grows {p} w w1"
    using CreateConnection_ok [OF Cons.prems(1) pt, of "fst r"] Cons.prems(3) by fastforce
  have "i_ports w1 p \<noteq> None" using c1(4) pt by (simp add: grows_def)
  then obtain w2 ch2 where "create_for_remotes env p rs w1 ch1 = Some (w2, ch2)" "channel_ok w2 ch2" "ch_static ch2 = ch_static ch1"
    using Cons.IH [OF c1(2)] Cons.prems(3) by auto
  then show ?case using c1(1,3) by auto
qed simp

lemma OnPortReady_ok:
  assumes ok: "channel_ok w ch" and p: "i_ports w p \<noteq> None" "p \<notin> set (ch_ports ch)"
  shows "\<exists>w' ch'. OnPortReady env p w ch = Some (w', ch') \<and> channel_ok w' ch' \<and> i_ports w' p \<noteq> None
     \<and> map as_ports (ch_sessions ch') = map as_ports (ch_sessions ch)"
proof -
  let ?ch = "ch\<lparr>ch_log := ch_log ch @ map (\<lambda>(opt, v). PortOption p opt v) (ch_options ch), ch_ports := ch_ports ch @ [p]\<rparr>"
  have ok1: "channel_ok w ?ch"
    using ok p by (auto simp: channel_ok_def sync_def session_ports_def)
  have rs: "\<forall>r \<in> set (ch_remotes ?ch). remote_ok (fst r)" using ok by (simp add: channel_ok_def sync_def)
  obtain w1 ch1 where c1: "create_for_remotes env p (ch_remotes ?ch) w ?ch = Some (w1, ch1)" "channel_ok w1 ch1"
      "ch_static ch1 = ch_static ?ch"
    using create_for_remotes_ok [OF ok1 p(1) rs] by blast
  obtain w2 ch2 where c2: "SortConnections env w1 ch1 = Some (w2, ch2)" "channel_ok w2 ch2" "ch_static ch2 = ch_static ch1"
    using SortConnections_ok [OF c1(2)] by blast
  have ports: "session_ports ch2 = session_ports ch" "map as_ports (ch_sessions ch2) = map as_ports (ch_sessions ch)"
    using c1(3) c2(3) by (simp_all add: ch_static_def session_ports_def)
  have "OnPortReady env p w ch = Some (w2, ch2)" using c1(1) c2(1) by (simp add: OnPortReady_def)
  moreover have "i_ports w2 p \<noteq> None" using sync_ports_alive(2) [OF ok, of p] sync_ports_alive(2) [OF c2(2), of p] ports p by simp
  ultimately show ?thesis using c2(2) ports by blast
qed

lemma concat_update:
  assumes "i < length xs" "f y = f (xs ! i)"
  shows "map f (xs[i := y]) = map f xs"
  using assms by (metis list_update_id map_update)

lemma session_ports_map: "session_ports ch = concat (map (\<lambda>s. map fst (as_ports s)) (ch_sessions ch))"
  by (simp add: session_ports_def map_concat comp_def)

lemma OnAddressReady_ok:
  assumes ok: "channel_ok w ch" and i: "i < length (ch_sessions ch)" "map_of (as_ports (ch_sessions ch ! i)) p = Some False"
    and p: "p \<notin> set (ch_ports ch)"
  shows "\<exists>w' ch'. OnAddressReady env i p w ch = Some (w', ch') \<and> channel_ok w' ch' \<and> i_ports w' p \<noteq> None"
proof -
  let ?s = "ch_sessions ch ! i"
  let ?s' = "?s\<lparr>as_ports := map (\<lambda>e. if fst e = p then (p, True) else e) (as_ports ?s)\<rparr>"
  let ?ch = "ch\<lparr>ch_sessions := (ch_sessions ch)[i := ?s']\<rparr>"
  have "map fst (as_ports ?s') = map fst (as_ports ?s)" by simp
  then have sp: "session_ports ?ch = session_ports ch"
    unfolding session_ports_map using concat_update [OF i(1), of "\<lambda>s. map fst (as_ports s)" ?s'] by simp
  have gens: "\<forall>s \<in> set (ch_sessions ?ch). young (as_generation s)"
  proof
    fix s assume "s \<in> set (ch_sessions ?ch)"
    then have "s = ?s' \<or> s \<in> set (ch_sessions ch)" using set_update_subset_insert by fastforce
    then show "young (as_generation s)" using ok nth_mem [OF i(1)] by (auto simp: channel_ok_def sync_def)
  qed
  have "sync w ?ch" using ok gens unfolding channel_ok_def sync_def sp by auto
  then have ok1: "channel_ok w ?ch" using ok by (simp add: channel_ok_def)
  have "p \<in> set (session_ports ch)" unfolding session_ports_def
    using nth_mem [OF i(1)] map_of_SomeD [OF i(2)] by force
  then have alive: "i_ports w p \<noteq> None" using sync_ports_alive(2) [OF ok] by blast
  obtain w1 ch1 where c1: "OnPortReady env p w ?ch = Some (w1, ch1)" "channel_ok w1 ch1" "i_ports w1 p \<noteq> None"
    using OnPortReady_ok [OF ok1 alive, of env] p by auto
  then obtain port where port: "i_ports w1 p = Some port" by auto
  let ?cs = "filter (\<lambda>c. StringToProto (c_protocol c) \<noteq> None) (p_candidates port)"
  have "OnAddressReady env i p w ch = Some (w1, if ?cs \<noteq> [] then OnCandidatesReady ?cs ch1 else ch1)"
    using i c1(1) port by (simp add: OnAddressReady_def ASSERT_def Let_def)
  moreover have "channel_ok w1 (OnCandidatesReady cs ch1)" for cs
    by (rule channel_ok_core [OF c1(2)]) (simp add: same_core_def ch_core_def OnCandidatesReady_def)
  then have "channel_ok w1 (if ?cs \<noteq> [] then OnCandidatesReady ?cs ch1 else ch1)" using c1(2) by simp
  ultimately show ?thesis using c1(3) by blast
qed

text \<open>A new port: fresh, with a user name.\<close>

definition new_port_ok :: "port \<Rightarrow> bool" where
  "new_port_ok pt \<longleftrightarrow> p_connections pt = [] \<and> p_candidates pt = [] \<and> p_username_frag pt \<noteq> [] \<and> p_lifetime pt = LT_PRESTART"

lemma new_port_ice:
  assumes ok: "ice_ok w" and gens: "gens_ok w" and pt: "p_connections pt = []" "p_username_frag pt \<noteq> []"
    "p_candidates pt \<noteq> []" "\<forall>c \<in> set (p_candidates pt). c_preference c = p_preference pt"
    "p_lifetime pt = LT_PRESTART" "young (p_generation pt)"
    and w': "w' = emit e (put_port (i_next w) pt (w\<lparr>i_next := i_next w + 1\<rparr>))"
  shows "ice_ok w' \<and> gens_ok w'"
proof -
  have pv: "ports_view w' = (ports_view w)(i_next w \<mapsto> port_static pt)"
    and cv: "conns_view w' = conns_view w"
    by (auto simp: w' emit_def ports_view_def conns_view_def put_port_def)
  have "static_inv (ports_view w') (conns_view w') (i_next w + 1)" unfolding pv cv
    by (rule static_inv_new_port) (use ok pt in \<open>simp_all add: ice_ok_def\<close>)
  moreover have "timers_ok (ports_view w') (i_timers w)"
  proof -
    have "ports_view w (i_next w) = None" using fresh_index(2) [OF ok] by (simp add: ports_view_def)
    then have "(\<exists>q. ports_view w' p = Some q \<and> p_lifetime q = LT_PRETIMEOUT)
        \<longleftrightarrow> (\<exists>q. ports_view w p = Some q \<and> p_lifetime q = LT_PRETIMEOUT)" for p
      using pt(5) by (auto simp: pv)
    then show ?thesis using ok by (simp add: ice_ok_def timers_ok_def)
  qed
  moreover have "requests_ok (i_next w + 1) (cn_requests cn)" if "i_conns w c = Some cn" for c cn
    using requests_of [OF ok that] requests_ok_mono by (metis le_add1)
  ultimately show ?thesis using ok gens pt(6)
    by (simp add: ice_ok_def gens_ok_def w' emit_def put_port_def)
qed

lemma AddAllocatedPort_runs:
  assumes ok: "channel_ok w ch" and i: "i < length (ch_sessions ch)" and pt: "new_port_ok port"
  shows "runs (AddAllocatedPort env i port pref addr w ch)"
proof -
  have w: "ice_ok w" "sync w ch" "i_log w = []" using ok by (simp_all add: channel_ok_def)
  let ?s = "ch_sessions ch ! i" and ?p = "i_next w"
  define c where "c = \<lparr>c_name = ch_name ch, c_protocol = ascii ''udp'', c_address = addr, c_preference = pref,
    c_username = p_username_frag port, c_password = p_password port, c_type = p_type port,
    c_network_name = p_network_name port, c_generation = as_generation ?s\<rparr>"
  define pt1 where "pt1 = port\<lparr>p_name := ch_name ch, p_preference := pref, p_generation := as_generation ?s, p_candidates := [c]\<rparr>"
  define w1 where "w1 = emit (SignalAddressReady ?p) (put_port ?p pt1 (w\<lparr>i_next := ?p + 1\<rparr>))"
  have add: "AddAddress ?p addr (ascii ''udp'') True
      (put_port ?p (port\<lparr>p_name := ch_name ch, p_preference := pref, p_generation := as_generation ?s\<rparr>) (w\<lparr>i_next := i_next w + 1\<rparr>)) = Some w1"
    using pt by (simp add: AddAddress_def put_port_def w1_def pt1_def c_def new_port_ok_def)
  have young: "young (as_generation ?s)" using w(2) nth_mem [OF i] by (simp add: sync_def)
  have ok1: "ice_ok w1 \<and> gens_ok w1"
    by (rule new_port_ice [OF w(1), of pt1])
       (use w(2) pt young in \<open>simp_all add: pt1_def c_def new_port_ok_def w1_def sync_def\<close>)
  let ?ch = "ch\<lparr>ch_sessions := (ch_sessions ch)[i := ?s\<lparr>as_ports := as_ports ?s @ [(?p, False)]\<rparr>]\<rparr>"
  have none: "i_ports w ?p = None" by (rule fresh_index(2) [OF w(1)])
  then have new: "?p \<notin> set (session_ports ch)" "?p \<notin> set (ch_ports ch)"
    using sync_ports_alive(2) [OF ok, of ?p] sync_ports_alive(1) [OF ok, of ?p] by auto
  have split: "ch_sessions ch = take i (ch_sessions ch) @ ?s # drop (Suc i) (ch_sessions ch)" by (rule id_take_nth_drop [OF i])
  have sp: "set (session_ports ?ch) = insert ?p (set (session_ports ch))" "distinct (session_ports ?ch)"
  proof -
    let ?f = "\<lambda>ss. concat (map (\<lambda>s. map fst (as_ports s)) ss)"
    have a: "session_ports ch = ?f (take i (ch_sessions ch)) @ map fst (as_ports ?s) @ ?f (drop (Suc i) (ch_sessions ch))"
      unfolding session_ports_map by (subst split) simp
    have b: "session_ports ?ch = ?f (take i (ch_sessions ch)) @ map fst (as_ports ?s) @ [?p] @ ?f (drop (Suc i) (ch_sessions ch))"
      unfolding session_ports_map using i by (simp add: upd_conv_take_nth_drop)
    have "distinct (session_ports ch)" using w(2) by (simp add: sync_def)
    then show "set (session_ports ?ch) = insert ?p (set (session_ports ch))" "distinct (session_ports ?ch)"
      using new(1) unfolding a b by auto
  qed
  have gens: "\<forall>s \<in> set (ch_sessions ?ch). young (as_generation s)"
  proof
    fix s assume "s \<in> set (ch_sessions ?ch)"
    then have "s = ?s\<lparr>as_ports := as_ports ?s @ [(?p, False)]\<rparr> \<or> s \<in> set (ch_sessions ch)" using set_update_subset_insert by fastforce
    then show "young (as_generation s)" using young w(2) by (auto simp: sync_def)
  qed
  have alive: "i_ports w1 = (i_ports w)(?p \<mapsto> pt1)" "i_conns w1 = i_conns w" "i_log w1 = [SignalAddressReady ?p]"
    using w(3) by (simp_all add: w1_def emit_def put_port_def)
  have "sync w1 ?ch" using w(2) sp gens ok1 alive new unfolding sync_def by auto
  then obtain ch2 where c2: "deliver w1 ?ch = Some (w1\<lparr>i_log := []\<rparr>, ch2)" "same_core ch2 ?ch" "channel_ok (w1\<lparr>i_log := []\<rparr>) ch2"
    using deliver_benign [of w1 ?ch] ok1 alive(3) by auto
  note f2 = same_core_fields [OF c2(2)]
  have ready: "map_of (as_ports (ch_sessions ch2 ! i)) ?p = Some False" "i < length (ch_sessions ch2)"
  proof -
    have s2: "ch_sessions ch2 ! i = ?s\<lparr>as_ports := as_ports ?s @ [(?p, False)]\<rparr>" using f2 i by simp
    have "?p \<notin> fst ` set (as_ports ?s)" using new(1) nth_mem [OF i] unfolding session_ports_map by auto
    then have "map_of (as_ports ?s) ?p = None" by (simp add: map_of_eq_None_iff)
    then show "map_of (as_ports (ch_sessions ch2 ! i)) ?p = Some False" unfolding s2 by (simp add: map_add_def)
    show "i < length (ch_sessions ch2)" using f2 i by simp
  qed
  have "?p \<notin> set (ch_ports ch2)" using f2 new(2) by simp
  from OnAddressReady_ok [OF c2(3) ready(2,1) this, of env]
  obtain w3 ch3 where c3: "OnAddressReady env i ?p (w1\<lparr>i_log := []\<rparr>) ch2 = Some (w3, ch3)" "channel_ok w3 ch3" "i_ports w3 ?p \<noteq> None"
    by blast
  obtain pt3 where "i_ports w3 ?p = Some pt3" using c3(3) by auto
  then obtain w4 where w4: "StartPort ?p w3 = Some w4" "ice_ok w4" "started w3 w4"
    using StartPort_ok c3(2) unfolding channel_ok_def by blast
  have ok4: "channel_ok w4 ch3" using w4(2,3) c3(2) started_sync by (auto simp: channel_ok_def started_def)
  have assert: "ASSERT (i < length (ch_sessions ch)) = Some ()" using i by (simp add: ASSERT_def)
  have run: "AddAllocatedPort env i port pref addr w ch
      = (if as_running (ch_sessions ch3 ! i) then StartPort ?p w3 else Some w3) \<bind> (\<lambda>w. Some (w, ch3))"
    unfolding AddAllocatedPort_def Let_def assert add bind.bind_lunit c2(1) prod.case c3(1) ..
  show ?thesis unfolding run using w4(1) ok4 c3(2) by simp
qed

lemma OnSignalingReady_runs:
  assumes ok: "channel_ok w ch" and few: "int (length (ch_sessions ch)) < 1073741824"
  shows "runs (OnSignalingReady w ch)"
proof (cases "ch_waiting_for_signaling ch")
  case True
  let ?s = "\<lparr>as_generation = of_nat (length (ch_sessions ch)), as_running = False, as_ports = []\<rparr>"
  let ?ch = "\<lambda>s. ch_post kAllocatePeriod MSG_ALLOCATE
    (ch\<lparr>ch_waiting_for_signaling := False, ch_sessions := ch_sessions ch @ [s], ch_ports := []\<rparr>)"
  have "uint (of_nat (length (ch_sessions ch)) :: u32) = int (length (ch_sessions ch))"
    using few by (simp add: uint_nat unat_of_nat)
  then have "young (as_generation ?s)" using few by (simp add: young_def)
  then have "channel_ok w (?ch s)" if "as_ports s = []" "as_generation s = as_generation ?s" for s
    using ok that by (auto simp: channel_ok_def sync_def session_ports_def ch_post_def)
  moreover have "OnSignalingReady w ch = Some (w, ?ch (?s\<lparr>as_running := ch_pinging_started ch\<rparr>))"
    using True by (simp add: OnSignalingReady_def AddAllocatorSession_def StartGetAllPorts_def Let_def)
  ultimately show ?thesis by simp
next
  case False
  then show ?thesis using ok by (simp add: OnSignalingReady_def)
qed

section \<open>Pings and packets\<close>

definition requests_view :: "ice \<Rightarrow> nat \<Rightarrow> request_manager option" where
  "requests_view w = (\<lambda>c. map_option cn_requests (i_conns w c))"

lemma set_state_requests:
  "set_read_state v c w = Some w' \<Longrightarrow> requests_view w' = requests_view w"
  "set_write_state v' c w = Some w' \<Longrightarrow> requests_view w' = requests_view w"
  by (auto simp: set_read_state_def set_write_state_def CheckTimeout_def emit_def put_conn_def requests_view_def Let_def
      bind_eq_Some_conv split: if_splits intro!: ext)

lemma UpdateState_requests: "UpdateState now c w = Some w' \<Longrightarrow> requests_view w' = requests_view w"
  by (auto simp: UpdateState_def Let_def bind_eq_Some_conv split: if_splits dest!: set_state_requests)

lemma update_states_requests: "update_states now cs w = Some w' \<Longrightarrow> requests_view w' = requests_view w"
  by (induction cs arbitrary: w) (auto simp: bind_eq_Some_conv dest!: UpdateState_requests)

text \<open>The random id is new to every connection.\<close>

definition tids_fresh :: "net_env \<Rightarrow> ice \<Rightarrow> bool" where
  "tids_fresh env w \<longleftrightarrow> (\<forall>c cn. i_conns w c = Some cn \<longrightarrow> tid_fresh env cn)"

lemma tids_fresh_view: "requests_view w' = requests_view w \<Longrightarrow> tids_fresh env w \<Longrightarrow> tids_fresh env w'"
proof -
  assume eq: "requests_view w' = requests_view w" and fresh: "tids_fresh env w"
  have "tid_fresh env cn'" if "i_conns w' c = Some cn'" for c cn'
  proof -
    have "map_option cn_requests (i_conns w c) = Some (cn_requests cn')"
      using fun_cong [OF eq, of c] that by (simp add: requests_view_def)
    then obtain cn where "i_conns w c = Some cn" "cn_requests cn = cn_requests cn'" by auto
    then show ?thesis using fresh by (metis tids_fresh_def tid_fresh_def)
  qed
  then show ?thesis by (simp add: tids_fresh_def)
qed

lemma FindNextPingableConnection_ok:
  assumes "channel_ok w ch"
  shows "\<exists>r. FindNextPingableConnection now w ch = Some r \<and> (\<forall>c. r = Some c \<longrightarrow> i_conns w c \<noteq> None)"
proof -
  have old: "\<exists>r. oldest_pingable cs o' t w ch = Some r \<and> (\<forall>c. r = Some c \<longrightarrow> i_conns w c \<noteq> None)"
    if "\<forall>c \<in> set cs. i_conns w c \<noteq> None" "\<forall>c. o' = Some c \<longrightarrow> i_conns w c \<noteq> None" for cs o' t
    using that by (induction cs arbitrary: o' t) (auto simp: IsPingable_def)
  have alive: "\<forall>c \<in> set (ch_conns ch). i_conns w c \<noteq> None" "\<forall>b. ch_best ch = Some b \<longrightarrow> i_conns w b \<noteq> None"
    using assms unfolding channel_ok_def sync_def by blast+
  then obtain o' where "best_overdue now w ch = Some o'" by (cases "ch_best ch") (auto simp: best_overdue_def)
  then show ?thesis using alive old [OF alive(1), of None "0xFFFFFFFF"] by (auto simp: FindNextPingableConnection_def)
qed

lemma Ping_log: "Ping env now c w = Some w' \<Longrightarrow> i_log w' = i_log w"
  by (auto simp: Ping_def Let_def bind_eq_Some_conv put_conn_def)

lemma channel_ok_quiet: "channel_ok w ch \<Longrightarrow> steps w w' \<Longrightarrow> i_log w' = i_log w \<Longrightarrow> channel_ok w' ch"
  unfolding channel_ok_def using steps_ok sync_steps by auto

lemma OnPing_runs:
  assumes ok: "channel_ok w ch" and fresh: "tids_fresh env w"
  shows "runs (OnPing env w ch)"
proof -
  have "safe (update_states (ne_now env) (ch_conns ch) w) w"
    using ok update_states_safe by (auto simp: channel_ok_def sync_def)
  then obtain w1 where w1: "update_states (ne_now env) (ch_conns ch) w = Some w1" "steps w w1" by (auto simp: safe_def)
  obtain ch1 where ch1: "deliver w1 ch = Some (w1\<lparr>i_log := []\<rparr>, ch1)" "channel_ok (w1\<lparr>i_log := []\<rparr>) ch1"
    using deliver_ok [OF ok w1(2)] by blast
  let ?w = "w1\<lparr>i_log := []\<rparr>"
  have "requests_view ?w = requests_view w" using update_states_requests [OF w1(1)] by (simp add: requests_view_def)
  then have fresh1: "tids_fresh env ?w" using tids_fresh_view fresh by blast
  obtain r where r: "FindNextPingableConnection (ne_now env) ?w ch1 = Some r" "\<forall>c. r = Some c \<longrightarrow> i_conns ?w c \<noteq> None"
    using FindNextPingableConnection_ok [OF ch1(2)] by blast
  have "\<exists>w2. (case r of None \<Rightarrow> Some ?w | Some c \<Rightarrow> Ping env (ne_now env) c ?w) = Some w2 \<and> channel_ok w2 ch1"
  proof (cases r)
    case (Some c)
    then obtain cn where cn: "i_conns ?w c = Some cn" using r(2) by fastforce
    then have "tid_fresh env cn" using fresh1 unfolding tids_fresh_def by blast
    moreover have "ice_ok ?w" using ch1(2) by (simp add: channel_ok_def)
    ultimately obtain w2 where "Ping env (ne_now env) c ?w = Some w2" "steps ?w w2"
      using Ping_safe [OF _ cn] by (auto simp: safe_def)
    then show ?thesis using Some channel_ok_quiet [OF ch1(2)] Ping_log by auto
  qed (simp add: ch1(2))
  then obtain w2 where w2: "(case r of None \<Rightarrow> Some ?w | Some c \<Rightarrow> Ping env (ne_now env) c ?w) = Some w2" "channel_ok w2 ch1" by blast
  have "OnPing env w ch = Some (w2, ch_post 10000 MSG_PING ch1)"
    unfolding OnPing_def UpdateConnectionStates_def w1(1) bind.bind_lunit ch1(1) prod.case r(1) w2(1) ..
  moreover have "channel_ok w2 (ch_post 10000 MSG_PING ch1)"
    by (rule channel_ok_core [OF w2(2)]) (simp add: same_core_def ch_core_def ch_post_def)
  ultimately show ?thesis by simp
qed

lemma ChannelSendPacket_runs:
  assumes ok: "channel_ok w ch" and sock: "socket_ok env"
  shows "runs (map_option snd (ChannelSendPacket env data w ch))"
proof (cases "ch_best ch")
  case None
  then show ?thesis using ok channel_ok_static [OF ok, of "ch\<lparr>ch_error := EWOULDBLOCK\<rparr>"]
    by (simp add: ChannelSendPacket_def ch_static_def)
next
  case (Some b)
  have w: "ice_ok w" "i_conns w b \<noteq> None" using ok Some by (auto simp: channel_ok_def sync_def)
  obtain sent w1 where w1: "ProxySend env data b w = Some (sent, w1)" "steps w w1" "sent \<noteq> 0"
    using ProxySend_safe [OF w sock, of data] by (auto simp: safe_val_def)
  obtain ch2 where c2: "deliver w1 ch = Some (w1\<lparr>i_log := []\<rparr>, ch2)" "channel_ok (w1\<lparr>i_log := []\<rparr>) ch2"
    using deliver_ok [OF ok w1(2)] by blast
  obtain cn where cn: "i_conns (w1\<lparr>i_log := []\<rparr>) b = Some cn" using w(2) steps_alive [OF w1(2), of b] by auto
  have "channel_ok (w1\<lparr>i_log := []\<rparr>) (ch2\<lparr>ch_error := cn_error cn\<rparr>)"
    by (rule channel_ok_static [OF c2(2)]) (simp_all add: ch_static_def)
  then show ?thesis using Some w1 c2 cn by (cases "sent < 0") (simp_all add: ChannelSendPacket_def ASSERT_def)
qed

lemma unknown_GetConnection:
  assumes "UDP_OnReadPacket env p data addr w = Some (Some u, w')"
  shows "GetConnection p addr w = Some None"
  using assms by (auto simp: UDP_OnReadPacket_def bind_eq_Some_conv split: option.splits)

lemma ChannelPacket_runs:
  assumes ok: "channel_ok w ch" and p: "i_ports w p \<noteq> None"
  shows "runs (ChannelPacket env p data addr w ch)"
proof -
  have "ice_ok w" using ok by (simp add: channel_ok_def)
  then obtain u w1 where w1: "UDP_OnReadPacket env p data addr w = Some (u, w1)" "steps w w1" "unknown_ok u"
    using UDP_OnReadPacket_safe [OF _ p, of env data addr] by (auto simp: safe_val_def)
  obtain ch2 where c2: "deliver w1 ch = Some (w1\<lparr>i_log := []\<rparr>, ch2)" "channel_ok (w1\<lparr>i_log := []\<rparr>) ch2"
    using deliver_ok [OF ok w1(2)] by blast
  show ?thesis
  proof (cases u)
    case None
    then show ?thesis using w1(1) c2 by (simp add: ChannelPacket_def)
  next
    case (Some m)
    obtain msg name where m: "m = (msg, name)" by (cases m)
    have "GetConnection p addr w1 = Some None"
      using unknown_GetConnection w1(1) Some steps_GetConnection [OF w1(2)] by simp
    then have "GetConnection p addr (w1\<lparr>i_log := []\<rparr>) = Some None" by (simp add: GetConnection_def)
    moreover have "answerable msg" "sm_type msg = STUN_BINDING_REQUEST" using w1(3) Some m by (simp_all add: unknown_ok_def)
    ultimately have "runs (OnUnknownAddress env p addr msg name (w1\<lparr>i_log := []\<rparr>) ch2)"
      by (rule OnUnknownAddress_runs [OF c2(2)])
    then show ?thesis using w1(1) c2(1) Some m by (simp add: ChannelPacket_def)
  qed
qed

end
