(* ===== verification/Channel_Ends.thy ===== *)
theory Channel_Ends
  imports Channel_Steps
begin

text \<open>
  The ends of connections and ports (talk/p2p/base/port.cc, p2ptransportchannel.cc): a posted
  deletion, the time-out of a port and a reset of the channel leave no dangling entry behind.
\<close>

section \<open>Deleting connections\<close>

lemma manager_destroyed: "requests_ok n m \<Longrightarrow> \<exists>m'. destroy_manager m = Some m'"
  using destroy_manager_ok unfolding requests_ok_def manager_ok_def by blast

definition forget_conn :: "nat \<Rightarrow> ice \<Rightarrow> ice" where
  "forget_conn c w = w\<lparr>i_conns := (i_conns w)(c := None), i_deletes := filter (\<lambda>d. d \<noteq> c) (i_deletes w)\<rparr>"

definition forget_port :: "nat \<Rightarrow> ice \<Rightarrow> ice" where
  "forget_port p w = w\<lparr>i_ports := (i_ports w)(p := None), i_timers := filter (\<lambda>d. snd d \<noteq> p) (i_timers w)\<rparr>"

lemma delete_connection_run:
  assumes "i_conns w c = Some cn" "requests_ok n (cn_requests cn)"
  shows "delete_connection c w = Some (forget_conn c w)"
  using assms manager_destroyed by (fastforce simp: delete_connection_def forget_conn_def)

lemma delete_connections_run:
  assumes "\<forall>c \<in> set cs. \<exists>cn. i_conns w c = Some cn \<and> requests_ok n (cn_requests cn)" "distinct cs"
  shows "delete_connections cs w = Some (w\<lparr>i_conns := (\<lambda>c. if c \<in> set cs then None else i_conns w c),
    i_deletes := filter (\<lambda>d. d \<notin> set cs) (i_deletes w)\<rparr>)"
  using assms
proof (induction cs arbitrary: w)
  case (Cons c cs)
  have c: "delete_connection c w = Some (forget_conn c w)" using Cons.prems(1) delete_connection_run by auto
  have "delete_connections cs (forget_conn c w) = Some ((forget_conn c w)\<lparr>i_conns := (\<lambda>d. if d \<in> set cs then None else i_conns (forget_conn c w) d),
      i_deletes := filter (\<lambda>d. d \<notin> set cs) (i_deletes (forget_conn c w))\<rparr>)"
    by (rule Cons.IH) (use Cons.prems in \<open>auto simp: forget_conn_def\<close>)
  moreover have "(\<lambda>d. if d \<in> set cs then None else i_conns (forget_conn c w) d) = (\<lambda>d. if d \<in> set (c # cs) then None else i_conns w d)"
    by (auto simp: forget_conn_def)
  moreover have "filter (\<lambda>d. d \<notin> set cs) (i_deletes (forget_conn c w)) = filter (\<lambda>d. d \<notin> set (c # cs)) (i_deletes w)"
    by (auto simp: forget_conn_def intro: filter_cong)
  ultimately show ?case using c by (simp add: forget_conn_def)
qed (cases w, simp)

lemma gens_ok_sub:
  assumes "gens_ok w" "\<And>p pt'. i_ports w' p = Some pt' \<Longrightarrow> \<exists>pt. i_ports w p = Some pt \<and> p_generation pt = p_generation pt'"
    "\<And>c cn. i_conns w' c = Some cn \<Longrightarrow> i_conns w c = Some cn"
  shows "gens_ok w'"
  unfolding gens_ok_def
proof (intro conjI allI impI)
  fix p pt' assume "i_ports w' p = Some pt'"
  then show "young (p_generation pt')" using assms(1,2) unfolding gens_ok_def by metis
next
  fix c cn assume "i_conns w' c = Some cn"
  then show "young (c_generation (cn_remote cn))" using assms(1,3) unfolding gens_ok_def by metis
qed

lemma timers_ok_drop: "timers_ok P ts \<Longrightarrow> timers_ok (P(p := None)) (filter (\<lambda>d. snd d \<noteq> p) ts)"
proof -
  assume t: "timers_ok P ts"
  have "distinct (map snd (filter (\<lambda>d. snd d \<noteq> p) ts))" using t by (simp add: timers_ok_def distinct_map_filter)
  moreover have "snd ` set (filter (\<lambda>d. snd d \<noteq> p) ts) = snd ` set ts - {p}" by auto
  ultimately show ?thesis using t by (auto simp: timers_ok_def)
qed

section \<open>Slots of the channel\<close>

lemma drop_conn_sync:
  assumes sync: "sync w ch" and c: "c \<in> set (ch_conns ch)"
    and w': "i_conns w' = (i_conns w)(c := None)" "\<forall>p. i_ports w' p = None \<longleftrightarrow> i_ports w p = None" "gens_ok w'"
  shows "\<exists>ch'. ChannelConnectionDestroyed c ch = Some ch' \<and> sync w' ch'"
proof -
  let ?ch = "ch\<lparr>ch_conns := remove1 c (ch_conns ch)\<rparr>"
  define ch' where "ch' = (if ch_best ch = Some c then RequestSort (?ch\<lparr>ch_best := None\<rparr>) else ?ch)"
  have "ChannelConnectionDestroyed c ch = Some ch'"
    using c by (simp add: ChannelConnectionDestroyed_def ASSERT_def ch'_def Let_def)
  moreover have "sync w' (if ch_best ch = Some c then ?ch\<lparr>ch_best := None\<rparr> else ?ch)"
    using sync w' unfolding sync_def session_ports_def by auto
  then have "sync w' ch'" unfolding ch'_def using sync_core [OF _ RequestSort_core] by (auto split: if_splits)
  ultimately show ?thesis by blast
qed

lemma drop_port_sync:
  assumes sync: "sync w ch" and p: "i_ports w p \<noteq> None"
    and w': "i_ports w' = (i_ports w)(p := None)" "i_conns w' = i_conns w" "gens_ok w'"
  shows "\<exists>ch'. OnPortDestroyed p ch = Some ch' \<and> sync w' ch' \<and> ch_conns ch' = ch_conns ch"
proof -
  let ?ch = "ch\<lparr>ch_sessions := map (SessionPortDestroyed p) (ch_sessions ch), ch_ports := remove1 p (ch_ports ch)\<rparr>"
  have "p \<in> set (session_ports ch)" using sync p by (simp add: sync_def)
  then have "list_ex (\<lambda>s. p \<in> fst ` set (as_ports s)) (ch_sessions ch)"
    by (auto simp: session_ports_def list_ex_iff)
  then have "OnPortDestroyed p ch = Some ?ch" by (simp add: OnPortDestroyed_def ASSERT_def)
  moreover have sp: "session_ports ?ch = filter (\<lambda>q. q \<noteq> p) (session_ports ch)"
    unfolding session_ports_map
    by (induction "ch_sessions ch" arbitrary: ch) (simp_all add: SessionPortDestroyed_def filter_map comp_def filter_concat)
  then have "sync w' ?ch" using sync w' unfolding sync_def by (auto simp: SessionPortDestroyed_def)
  ultimately show ?thesis by simp
qed

section \<open>A posted deletion\<close>

definition unfile :: "port \<Rightarrow> candidate \<Rightarrow> port" where
  "unfile pt rc = pt\<lparr>p_connections := amap_erase (c_address rc) (p_connections pt)\<rparr>"

definition conn_gone :: "nat \<Rightarrow> connection \<Rightarrow> port \<Rightarrow> ice \<Rightarrow> ice" where
  "conn_gone c cn pt w =
     (let w1 = put_port (cn_port cn) (unfile pt (cn_remote cn)) w;
          w2 = (if p_lifetime pt = LT_POSTTIMEOUT \<and> p_connections (unfile pt (cn_remote cn)) = []
                then forget_port (cn_port cn) (emit (SignalPortDestroyed (cn_port cn)) w1) else w1)
      in forget_conn c (emit (SignalConnectionDestroyed c) w2))"

lemma delete_port_empty: "i_ports w p = Some pt \<Longrightarrow> p_connections pt = [] \<Longrightarrow> delete_port p w = Some (forget_port p w)"
  by (simp add: delete_port_def forget_port_def)

lemma CheckPortTimeout_run:
  assumes "i_ports w p = Some pt"
  shows "CheckPortTimeout p w = Some (if p_lifetime pt = LT_POSTTIMEOUT \<and> p_connections pt = []
     then forget_port p (emit (SignalPortDestroyed p) w) else w)"
proof (cases "p_lifetime pt = LT_POSTTIMEOUT \<and> p_connections pt = []")
  case True
  then have "delete_port p (emit (SignalPortDestroyed p) w) = Some (forget_port p (emit (SignalPortDestroyed p) w))"
    by (intro delete_port_empty [of _ _ pt]) (simp_all add: assms emit_def)
  then show ?thesis using True assms by (simp add: CheckPortTimeout_def DestroyPort_def ASSERT_def)
next
  case False
  then show ?thesis using assms by (auto simp: CheckPortTimeout_def)
qed

lemma Connection_OnMessage_run:
  assumes ok: "ice_ok w" and c: "i_conns w c = Some cn" and p: "i_ports w (cn_port cn) = Some pt"
  shows "Connection_OnMessage c w = Some (conn_gone c cn pt w)"
proof -
  have find: "amap_find (c_address (cn_remote cn)) (p_connections pt) = Some c" using conn_port [OF ok c] p by auto
  let ?w1 = "put_port (cn_port cn) (unfile pt (cn_remote cn)) w"
  let ?w2 = "if p_lifetime pt = LT_POSTTIMEOUT \<and> p_connections (unfile pt (cn_remote cn)) = []
                then forget_port (cn_port cn) (emit (SignalPortDestroyed (cn_port cn)) ?w1) else ?w1"
  have w1: "i_ports ?w1 (cn_port cn) = Some (unfile pt (cn_remote cn))" by (simp add: put_port_def)
  have "OnConnectionDestroyed (cn_port cn) c w = Some ?w2"
    using p c find CheckPortTimeout_run [OF w1]
    by (simp add: OnConnectionDestroyed_def ASSERT_def unfile_def)
  moreover have "i_conns (emit (SignalConnectionDestroyed c) ?w2) c = Some cn"
    using c by (simp add: emit_def forget_port_def put_port_def)
  then have "delete_connection c (emit (SignalConnectionDestroyed c) ?w2) = Some (forget_conn c (emit (SignalConnectionDestroyed c) ?w2))"
    using delete_connection_run requests_of [OF ok c] by blast
  ultimately show ?thesis using c unfolding Connection_OnMessage_def conn_gone_def Let_def by simp
qed

lemma conn_gone_ice:
  assumes ok: "ice_ok w" and c: "i_conns w c = Some cn" and p: "i_ports w (cn_port cn) = Some pt"
  shows "ice_ok (conn_gone c cn pt w)"
proof -
  let ?w = "conn_gone c cn pt w" and ?p = "cn_port cn"
  let ?pt = "port_static (unfile pt (cn_remote cn))"
  have st: "static_inv (ports_view w) (conns_view w) (i_next w)" and t: "timers_ok (ports_view w) (i_timers w)"
    using ok by (simp_all add: ice_ok_def)
  have pt: "?pt = (port_static pt)\<lparr>p_connections := amap_erase (c_address (id_remote (conn_static cn))) (p_connections (port_static pt))\<rparr>"
    by (simp add: unfile_def port_static_def conn_static_def)
  have id: "id_port (conn_static cn) = ?p" by (simp add: conn_static_def)
  have pv: "ports_view w (id_port (conn_static cn)) = Some (port_static pt)" using ports_view_Some [OF p] id by simp
  note drop = static_inv_drop_conn [OF st conns_view_Some [OF c] pv pt, unfolded id]
  have cv: "conns_view ?w = (conns_view w)(c := None)"
    by (auto simp: conn_gone_def Let_def forget_conn_def forget_port_def emit_def put_port_def conns_view_def)
  have rest: "i_next ?w = i_next w" "i_conns ?w = (i_conns w)(c := None)" "i_deletes ?w = filter (\<lambda>d. d \<noteq> c) (i_deletes w)"
    by (simp_all add: conn_gone_def Let_def forget_conn_def forget_port_def emit_def put_port_def)
  have heap: "static_inv (ports_view ?w) (conns_view ?w) (i_next w) \<and> timers_ok (ports_view ?w) (i_timers ?w)"
  proof (cases "p_lifetime pt = LT_POSTTIMEOUT \<and> p_connections (unfile pt (cn_remote cn)) = []")
    case True
    then have "ports_view ?w = (ports_view w)(?p := None)" "i_timers ?w = filter (\<lambda>d. snd d \<noteq> ?p) (i_timers w)"
      by (auto simp: conn_gone_def Let_def forget_conn_def forget_port_def emit_def put_port_def ports_view_def)
    then show ?thesis using drop(2) timers_ok_drop [OF t] True cv by simp
  next
    case False
    then have pv': "ports_view ?w = (ports_view w)(?p \<mapsto> ?pt)" "i_timers ?w = i_timers w"
      by (auto simp: conn_gone_def Let_def forget_conn_def emit_def put_port_def ports_view_def)
    have "timers_ok (ports_view ?w) (i_timers w)"
      by (rule timers_ok_cong [OF t]) (use ports_view_Some [OF p] in \<open>simp add: pv' unfile_def\<close>)
    then show ?thesis using drop(1) cv pv' by simp
  qed
  then show ?thesis using ok unfolding ice_ok_def rest by auto
qed

lemma EvDelete_runs:
  assumes ok: "channel_ok w ch" and c: "i_conns w c \<noteq> None"
  shows "runs (do { w \<leftarrow> Connection_OnMessage c w; deliver w ch })"
proof -
  have w: "ice_ok w" "sync w ch" "i_log w = []" using ok by (simp_all add: channel_ok_def)
  obtain cn where cn: "i_conns w c = Some cn" using c by auto
  obtain pt where pt: "i_ports w (cn_port cn) = Some pt" using conn_port [OF w(1) cn] by auto
  let ?w = "conn_gone c cn pt w" and ?p = "cn_port cn"
  let ?w1 = "put_port ?p (unfile pt (cn_remote cn)) w"
  have run: "Connection_OnMessage c w = Some ?w" by (rule Connection_OnMessage_run [OF w(1) cn pt])
  have in_ch: "c \<in> set (ch_conns ch)" using w(2) cn by (simp add: sync_def)
  have gens: "gens_ok w" using w(2) by (simp add: sync_def)
  have gens1: "gens_ok ?w1"
    by (rule gens_ok_sub [OF gens]) (use pt in \<open>auto simp: put_port_def unfile_def split: if_splits\<close>)
  have sync1: "sync ?w1 ch"
    using w(2) gens1 pt unfolding sync_def by (auto simp: put_port_def)
  have conns: "i_conns ?w = (i_conns w)(c := None)"
    by (simp add: conn_gone_def Let_def forget_conn_def forget_port_def emit_def put_port_def)
  have "\<exists>ch'. on_signals (i_log ?w) ch = Some ch' \<and> sync ?w ch'"
  proof (cases "p_lifetime pt = LT_POSTTIMEOUT \<and> p_connections (unfile pt (cn_remote cn)) = []")
    case True
    let ?w2 = "forget_port ?p ?w1"
    have gens2: "gens_ok ?w2" by (rule gens_ok_sub [OF gens1]) (auto simp: forget_port_def split: if_splits)
    obtain ch1 where ch1: "OnPortDestroyed ?p ch = Some ch1" "sync ?w2 ch1" "ch_conns ch1 = ch_conns ch"
      using drop_port_sync [OF sync1, of ?p ?w2] gens2 by (auto simp: forget_port_def put_port_def)
    have w2: "i_conns ?w2 = i_conns w" by (simp add: forget_port_def put_port_def)
    have ports: "i_ports ?w = i_ports ?w2" and log: "i_log ?w = [SignalPortDestroyed ?p, SignalConnectionDestroyed c]"
      using True w(3) by (simp_all add: conn_gone_def Let_def forget_conn_def forget_port_def emit_def put_port_def)
    have "gens_ok ?w" by (rule gens_ok_sub [OF gens2]) (simp_all add: ports conns w2 split: if_splits)
    then obtain ch2 where "ChannelConnectionDestroyed c ch1 = Some ch2" "sync ?w ch2"
      using drop_conn_sync [OF ch1(2), of c ?w] in_ch ch1(3) conns w2 ports by auto
    then show ?thesis using log ch1(1) by simp
  next
    case False
    then have ports: "i_ports ?w = i_ports ?w1" and log: "i_log ?w = [SignalConnectionDestroyed c]"
      using w(3) by (auto simp: conn_gone_def Let_def forget_conn_def emit_def put_port_def)
    have w1: "i_conns ?w1 = i_conns w" by (simp add: put_port_def)
    have "gens_ok ?w" by (rule gens_ok_sub [OF gens1]) (simp_all add: ports conns w1 split: if_splits)
    then obtain ch2 where "ChannelConnectionDestroyed c ch = Some ch2" "sync ?w ch2"
      using drop_conn_sync [OF sync1, of c ?w] in_ch conns w1 ports by auto
    then show ?thesis using log by simp
  qed
  then obtain ch' where ch': "on_signals (i_log ?w) ch = Some ch'" "sync ?w ch'" by blast
  then have "deliver ?w ch = Some (?w\<lparr>i_log := []\<rparr>, ch')" by (simp add: deliver_def)
  moreover have "channel_ok (?w\<lparr>i_log := []\<rparr>) ch'"
    using ch'(2) clear_log_steps [OF conn_gone_ice [OF w(1) cn pt]] by (simp add: channel_ok_def sync_clear_log)
  ultimately show ?thesis using run by simp
qed

section \<open>The time-out of a port\<close>

lemma snd_drop_nth:
  assumes "distinct (map snd xs)" "i < length xs"
  shows "snd ` set (drop_nth i xs) = snd ` set xs - {snd (xs ! i)}" "distinct (map snd (drop_nth i xs))"
proof -
  have xs: "xs = take i xs @ xs ! i # drop (Suc i) xs" by (rule id_take_nth_drop [OF assms(2)])
  have "distinct (map snd (take i xs @ xs ! i # drop (Suc i) xs))" using assms(1) xs by simp
  moreover have "snd ` set xs = snd ` set (take i xs @ xs ! i # drop (Suc i) xs)" using xs by simp
  ultimately show "snd ` set (drop_nth i xs) = snd ` set xs - {snd (xs ! i)}" "distinct (map snd (drop_nth i xs))"
    unfolding drop_nth_def by (auto simp: image_Un)
qed

lemma expired_ice:
  assumes ok: "ice_ok w" and i: "i < length (i_timers w)" and p: "p = snd (i_timers w ! i)" and pt: "i_ports w p = Some pt"
  shows "ice_ok (put_port p (pt\<lparr>p_lifetime := LT_POSTTIMEOUT\<rparr>) (w\<lparr>i_timers := drop_nth i (i_timers w)\<rparr>))"
proof -
  let ?pt = "pt\<lparr>p_lifetime := LT_POSTTIMEOUT\<rparr>"
  let ?w = "put_port p ?pt (w\<lparr>i_timers := drop_nth i (i_timers w)\<rparr>)"
  have t: "timers_ok (ports_view w) (i_timers w)" using ok by (simp add: ice_ok_def)
  then have d: "distinct (map snd (i_timers w))" by (simp add: timers_ok_def)
  have pv: "ports_view ?w = (ports_view w)(p \<mapsto> port_static ?pt)" by (simp add: ports_view_put)
  have "timers_ok (ports_view ?w) (drop_nth i (i_timers w))"
    using t snd_drop_nth [OF d i] p unfolding timers_ok_def pv by auto
  moreover have "static_inv (ports_view ?w) (conns_view ?w) (i_next w)" unfolding pv view_put view_update
    by (rule static_inv_port_update [where pt = "port_static pt"])
       (use ok pt in \<open>simp_all add: ice_ok_def ports_view_Some\<close>)
  ultimately show ?thesis using ok by (simp add: ice_ok_def) (simp add: put_port_def)
qed

lemma forget_port_ice:
  assumes ok: "ice_ok w" and p: "i_ports w p = Some pt" "p_connections pt = []"
  shows "ice_ok (forget_port p w)"
proof -
  have v: "ports_view (forget_port p w) = (ports_view w)(p := None)" "conns_view (forget_port p w) = conns_view w"
    by (auto simp: forget_port_def ports_view_def conns_view_def)
  have "static_inv (ports_view (forget_port p w)) (conns_view (forget_port p w)) (i_next w)" unfolding v
    by (rule static_inv_drop_empty [where pt = "port_static pt"])
       (use ok p in \<open>simp_all add: ice_ok_def ports_view_Some\<close>)
  moreover have "timers_ok (ports_view (forget_port p w)) (i_timers (forget_port p w))"
    using timers_ok_drop ok v by (simp add: ice_ok_def forget_port_def)
  ultimately show ?thesis using ok by (simp add: ice_ok_def) (simp add: forget_port_def)
qed

lemma timer_alive:
  assumes "ice_ok w" "i < length (i_timers w)"
  shows "\<exists>pt. i_ports w (snd (i_timers w ! i)) = Some pt \<and> p_lifetime pt = LT_PRETIMEOUT"
proof -
  have "snd (i_timers w ! i) \<in> snd ` set (i_timers w)" using nth_mem [OF assms(2)] by simp
  then obtain q where "ports_view w (snd (i_timers w ! i)) = Some q" "p_lifetime q = LT_PRETIMEOUT"
    using assms(1) unfolding ice_ok_def timers_ok_def by blast
  then show ?thesis by (auto simp: view_port)
qed

lemma EvPortTimer_runs:
  assumes ok: "channel_ok w ch" and i: "i < length (i_timers w)"
  shows "runs (do { w \<leftarrow> Port_OnMessage (snd (i_timers w ! i)) (w\<lparr>i_timers := drop_nth i (i_timers w)\<rparr>); deliver w ch })"
proof -
  have w: "ice_ok w" "sync w ch" "i_log w = []" using ok by (simp_all add: channel_ok_def)
  let ?p = "snd (i_timers w ! i)"
  obtain pt where pt: "i_ports w ?p = Some pt" "p_lifetime pt = LT_PRETIMEOUT" using timer_alive [OF w(1) i] by blast
  let ?w0 = "w\<lparr>i_timers := drop_nth i (i_timers w)\<rparr>"
  let ?pt = "pt\<lparr>p_lifetime := LT_POSTTIMEOUT\<rparr>"
  let ?w1 = "put_port ?p ?pt ?w0"
  have ice1: "ice_ok ?w1" by (rule expired_ice [OF w(1) i refl pt(1)])
  have p1: "i_ports ?w1 ?p = Some ?pt" by (simp add: put_port_def)
  have gens1: "gens_ok ?w1"
    by (rule gens_ok_sub [of w]) (use w(2) pt(1) in \<open>auto simp: sync_def put_port_def split: if_splits\<close>)
  have sync1: "sync ?w1 ch" using w(2) gens1 pt(1) unfolding sync_def by (auto simp: put_port_def)
  have log1: "i_log ?w1 = []" using w(3) by (simp add: put_port_def)
  have run: "Port_OnMessage ?p ?w0 = CheckPortTimeout ?p ?w1"
    using pt by (simp add: Port_OnMessage_def ASSERT_def)
  show ?thesis
  proof (cases "p_connections pt = []")
    case True
    let ?w2 = "forget_port ?p (emit (SignalPortDestroyed ?p) ?w1)"
    have e: "ice_ok (emit (SignalPortDestroyed ?p) ?w1)" using ice1 by (simp add: ice_ok_def emit_def)
    have ice2: "ice_ok ?w2" by (rule forget_port_ice [OF e, of _ ?pt]) (use True p1 in \<open>simp_all add: emit_def\<close>)
    have gens2: "gens_ok ?w2" by (rule gens_ok_sub [OF gens1]) (auto simp: forget_port_def emit_def split: if_splits)
    obtain ch' where ch': "OnPortDestroyed ?p ch = Some ch'" "sync ?w2 ch'"
      using drop_port_sync [OF sync1, of ?p ?w2] gens2 p1 by (auto simp: forget_port_def emit_def)
    have "i_log ?w2 = [SignalPortDestroyed ?p]" using log1 by (simp add: forget_port_def emit_def)
    then have "deliver ?w2 ch = Some (?w2\<lparr>i_log := []\<rparr>, ch')" using ch'(1) by (simp add: deliver_def)
    moreover have "channel_ok (?w2\<lparr>i_log := []\<rparr>) ch'"
      using ch'(2) clear_log_steps [OF ice2] by (simp add: channel_ok_def sync_clear_log)
    moreover have "Port_OnMessage ?p ?w0 = Some ?w2" using run CheckPortTimeout_run [OF p1] True by simp
    ultimately show ?thesis by simp
  next
    case False
    then have "Port_OnMessage ?p ?w0 = Some ?w1" using run CheckPortTimeout_run [OF p1] by simp
    moreover obtain ch' where "deliver ?w1 ch = Some (?w1\<lparr>i_log := []\<rparr>, ch')" "channel_ok (?w1\<lparr>i_log := []\<rparr>) ch'"
      using deliver_benign [OF ice1 sync1] log1 by auto
    ultimately show ?thesis by simp
  qed
qed

section \<open>Reset\<close>

lemma static_inv_drop_port:
  assumes inv: "static_inv P C n" and p: "P p = Some pt"
  shows "static_inv (P(p := None)) (\<lambda>c. if c \<in> snd ` set (p_connections pt) then None else C c) n"
    (is "static_inv ?P ?C n")
proof -
  have own: "id_port d = p" if "c \<in> snd ` set (p_connections pt)" "C c = Some d" for c d
    using static_port [OF inv p] that by (auto simp: port_ok_def)
  have "q < n \<and> port_ok ?C q qt" if q: "?P q = Some qt" for q qt
  proof -
    have q': "P q = Some qt" "q \<noteq> p" using q by (simp_all split: if_splits)
    have ok: "q < n" "port_ok C q qt" using static_port [OF inv q'(1)] by simp_all
    have "port_ok ?C q qt"
    proof (rule port_ok_entries [OF ok(2)])
      fix a c assume "(a, c) \<in> set (p_connections qt)"
      then obtain d where d: "C c = Some d" "id_port d = q" "sa_equal a (c_address (id_remote d))"
        using ok(2) by (auto simp: port_ok_def)
      then show "\<exists>d. ?C c = Some d \<and> id_port d = q \<and> sa_equal a (c_address (id_remote d))" using own q'(2) by auto
    qed
    then show ?thesis using ok(1) by simp
  qed
  moreover have "c < n \<and> conn_ok ?P c d" if c: "?C c = Some d" for c d
  proof -
    have c': "C c = Some d" "c \<notin> snd ` set (p_connections pt)" using c by (simp_all split: if_splits)
    have "id_port d \<noteq> p" using conns_of_port [OF inv c'(1)] p c'(2) by auto
    then show ?thesis using static_conn [OF inv c'(1)] by (auto simp: conn_ok_def)
  qed
  ultimately show ?thesis by (simp add: static_inv_def)
qed

lemma delete_port_ok:
  assumes ok: "ice_ok w" and p: "i_ports w p = Some pt"
  shows "\<exists>w'. delete_port p w = Some w' \<and> ice_ok w' \<and> i_ports w' = (i_ports w)(p := None) \<and> i_log w' = i_log w"
proof -
  let ?cs = "map snd (p_connections pt)"
  have st: "static_inv (ports_view w) (conns_view w) (i_next w)" using ok by (simp add: ice_ok_def)
  have pok: "port_ok (conns_view w) p (port_static pt)" using static_port [OF st ports_view_Some [OF p]] by simp
  have alive: "\<forall>c \<in> set ?cs. \<exists>cn. i_conns w c = Some cn \<and> requests_ok (i_next w) (cn_requests cn)"
  proof
    fix c assume "c \<in> set ?cs"
    then obtain a where "(a, c) \<in> set (p_connections pt)" by auto
    then obtain d where "conns_view w c = Some d" using pok by (auto simp: port_ok_def)
    then obtain cn where "i_conns w c = Some cn" by (auto simp: view_conn)
    then show "\<exists>cn. i_conns w c = Some cn \<and> requests_ok (i_next w) (cn_requests cn)" using requests_of [OF ok] by blast
  qed
  have dist: "distinct ?cs" using pok by (simp add: port_ok_def)
  define w' where "w' = forget_port p (w\<lparr>i_conns := (\<lambda>c. if c \<in> set ?cs then None else i_conns w c),
    i_deletes := filter (\<lambda>d. d \<notin> set ?cs) (i_deletes w)\<rparr>)"
  have run: "delete_port p w = Some w'"
    using p delete_connections_run [OF alive dist] by (simp add: delete_port_def w'_def forget_port_def)
  have pv: "ports_view w' = (ports_view w)(p := None)" by (auto simp: w'_def forget_port_def ports_view_def)
  have cv: "conns_view w' = (\<lambda>c. if c \<in> snd ` set (p_connections (port_static pt)) then None else conns_view w c)"
    by (auto simp: w'_def forget_port_def conns_view_def)
  have "static_inv (ports_view w') (conns_view w') (i_next w)"
    unfolding pv cv by (rule static_inv_drop_port [OF st ports_view_Some [OF p]])
  moreover have "timers_ok (ports_view w') (i_timers w')"
    using timers_ok_drop ok pv by (simp add: ice_ok_def w'_def forget_port_def)
  ultimately have "ice_ok w'" using ok unfolding ice_ok_def by (auto simp: w'_def forget_port_def)
  then show ?thesis using run by (simp add: w'_def forget_port_def)
qed

lemma delete_ports_ok:
  assumes "ice_ok w" "\<forall>p \<in> set ps. i_ports w p \<noteq> None" "distinct ps"
  shows "\<exists>w'. delete_ports ps w = Some w' \<and> ice_ok w' \<and> i_ports w' = (\<lambda>p. if p \<in> set ps then None else i_ports w p)
     \<and> i_log w' = i_log w"
  using assms
proof (induction ps arbitrary: w)
  case (Cons p ps)
  obtain pt where "i_ports w p = Some pt" using Cons.prems(2) by auto
  then obtain w1 where w1: "delete_port p w = Some w1" "ice_ok w1" "i_ports w1 = (i_ports w)(p := None)" "i_log w1 = i_log w"
    using delete_port_ok [OF Cons.prems(1)] by blast
  obtain w2 where w2: "delete_ports ps w1 = Some w2" "ice_ok w2" "i_ports w2 = (\<lambda>p. if p \<in> set ps then None else i_ports w1 p)"
      "i_log w2 = i_log w1"
    using Cons.IH [OF w1(2)] Cons.prems(2,3) w1(3) by fastforce
  moreover have "i_ports w2 = (\<lambda>q. if q \<in> set (p # ps) then None else i_ports w q)" using w2(3) w1(3) by auto
  ultimately show ?case using w1 by simp
qed simp

lemma ResetChannel_runs:
  assumes ok: "channel_ok w ch"
  shows "runs (ResetChannel connect_requested w ch)"
proof -
  have w: "ice_ok w" "sync w ch" "i_log w = []" using ok by (simp_all add: channel_ok_def)
  have "\<forall>p \<in> set (session_ports ch). i_ports w p \<noteq> None" "distinct (session_ports ch)"
    using w(2) unfolding sync_def by blast+
  then obtain w1 where w1: "delete_ports (session_ports ch) w = Some w1" "ice_ok w1" "i_log w1 = []"
      "i_ports w1 = (\<lambda>p. if p \<in> set (session_ports ch) then None else i_ports w p)"
    using delete_ports_ok [OF w(1)] w(3) by metis
  have ports: "i_ports w1 p = None" for p using w1(4) sync_ports_alive(2) [OF ok, of p] by auto
  have conns: "i_conns w1 c = None" for c
  proof (cases "i_conns w1 c")
    case (Some cn)
    then show ?thesis using conn_port [OF w1(2)] ports by auto
  qed
  obtain ch' where ch': "ResetChannel connect_requested w ch = Some (w1, ch')" "ch_sessions ch' = []" "ch_ports ch' = []"
      "ch_conns ch' = []" "ch_best ch' = None" "ch_remotes ch' = []"
    using w1(1)
    by (simp add: ResetChannel_def session_ports_def [symmetric] Let_def set_writable_def set_readable_def ch_emit_def
        ch_post_def Allocate_def CancelPendingAllocate_def)
  have "sync w1 ch'" using ports conns ch' by (simp add: sync_def session_ports_def gens_ok_def)
  then show ?thesis using ch'(1) w1(2,3) by (simp add: channel_ok_def)
qed

end
