(* ===== verification/Channel_Run.thy ===== *)
theory Channel_Run
  imports Channel_Ends
begin

text \<open>
  A channel driven by any events (talk/p2p/base/p2ptransportchannel.cc, port.cc): the states it can reach
  and the invariant that holds in all of them. What the model expects of the outside is \<open>event_ok\<close>.
\<close>

definition ice_init :: ice where
  "ice_init = \<lparr>i_ports = (\<lambda>_. None), i_conns = (\<lambda>_. None), i_next = 0, i_deletes = [], i_timers = [], i_log = []\<rparr>"

text \<open>
  A socket never sends nothing, random ids are new, remote candidates are UDP with a generation below
  2 ^ 30, a new port is fresh and has a user name, and there are fewer than 2 ^ 30 sessions.
\<close>

definition event_ok :: "net_env \<Rightarrow> channel_event \<Rightarrow> ice \<Rightarrow> channel \<Rightarrow> bool" where
  "event_ok env e w ch \<longleftrightarrow> socket_ok env \<and> tids_fresh env w
     \<and> (case e of
          EvCandidate candidate \<Rightarrow> remote_ok candidate
        | EvNewPort i port pref addr \<Rightarrow> i < length (ch_sessions ch) \<and> new_port_ok port
        | EvSignalingReady \<Rightarrow> int (length (ch_sessions ch)) < 1073741824
        | _ \<Rightarrow> True)"

inductive channel_reach :: "ice \<Rightarrow> channel \<Rightarrow> bool" where
  start: "channel_reach ice_init ((P2PTransportChannel name)\<lparr>ch_incoming_only := incoming_only\<rparr>)"
| event: "channel_reach w ch \<Longrightarrow> event_ok env e w ch \<Longrightarrow> channel_handle env e w ch = Some (w', ch') \<Longrightarrow> channel_reach w' ch'"

lemma channel_ok_init: "channel_ok ice_init ((P2PTransportChannel name)\<lparr>ch_incoming_only := b\<rparr>)"
  by (simp add: channel_ok_def ice_ok_def sync_def ice_init_def P2PTransportChannel_def session_ports_def gens_ok_def
      static_inv_def timers_ok_def ports_view_def conns_view_def)

lemma ice_update_log: "channel_ok w ch \<Longrightarrow> c \<in> set (i_deletes w) \<Longrightarrow> i_conns w c \<noteq> None"
  by (simp add: channel_ok_def ice_ok_def)

lemma set_drop_nth: "set (drop_nth i xs) \<subseteq> set xs"
  unfolding drop_nth_def using set_take_subset set_drop_subset by fastforce

lemma channel_ok_deletes: "channel_ok w ch \<Longrightarrow> set ds \<subseteq> set (i_deletes w) \<Longrightarrow> channel_ok (w\<lparr>i_deletes := ds\<rparr>) ch"
  by (auto simp: channel_ok_def ice_ok_def sync_def gens_ok_def)

lemma channel_ok_same:
  assumes "channel_ok w ch" "ch_conns ch' = ch_conns ch" "ch_best ch' = ch_best ch" "ch_sessions ch' = ch_sessions ch"
    "ch_ports ch' = ch_ports ch" "ch_remotes ch' = ch_remotes ch"
  shows "channel_ok w ch'"
  using assms(1) sync_cong [OF _ assms(2-6)] by (simp add: channel_ok_def)

lemma channel_ok_misc:
  assumes "channel_ok w ch"
  shows "channel_ok w (ConnectChannel ch)" "channel_ok w (ChannelSetOption opt v ch)" "channel_ok w (Allocate ch)"
    "channel_ok w (ch\<lparr>ch_posted := ps\<rparr>)"
proof -
  note defs = ConnectChannel_def ChannelSetOption_def Allocate_def CancelPendingAllocate_def ch_emit_def ch_post_def Let_def
  show "channel_ok w (ConnectChannel ch)" by (rule channel_ok_same [OF assms]) (simp_all add: defs)
  show "channel_ok w (ChannelSetOption opt v ch)" by (rule channel_ok_same [OF assms]) (simp_all add: defs)
  show "channel_ok w (Allocate ch)" by (rule channel_ok_same [OF assms]) (simp_all add: defs)
  show "channel_ok w (ch\<lparr>ch_posted := ps\<rparr>)" by (rule channel_ok_same [OF assms]) simp_all
qed

lemma channel_handle_runs:
  assumes ok: "channel_ok w ch" and e: "event_ok env e w ch"
  shows "runs (channel_handle env e w ch)"
proof -
  have w: "ice_ok w" using ok by (simp add: channel_ok_def)
  have env: "socket_ok env" "tids_fresh env w" using e by (simp_all add: event_ok_def)
  show ?thesis
  proof (cases e)
    case (EvMessage i)
    have ok': "channel_ok w (ch\<lparr>ch_posted := drop_nth i (ch_posted ch)\<rparr>)" using ok by (rule channel_ok_misc)
    have "runs (ChannelOnMessage env m w (ch\<lparr>ch_posted := drop_nth i (ch_posted ch)\<rparr>))" for m
      using SortConnections_runs [OF ok'] OnPing_runs [OF ok' env(2)] channel_ok_misc(3) [OF ok']
      by (cases m) (simp_all add: ChannelOnMessage_def)
    then show ?thesis using EvMessage ok by simp
  next
    case (EvDelete i)
    show ?thesis
    proof (cases "i < length (i_deletes w)")
      case True
      have ok': "channel_ok (w\<lparr>i_deletes := drop_nth i (i_deletes w)\<rparr>) ch" by (rule channel_ok_deletes [OF ok set_drop_nth])
      have "i_conns (w\<lparr>i_deletes := drop_nth i (i_deletes w)\<rparr>) (i_deletes w ! i) \<noteq> None"
        using ice_update_log [OF ok nth_mem [OF True]] by simp
      from EvDelete_runs [OF ok' this] show ?thesis using EvDelete True by simp
    qed (use EvDelete ok in simp)
  next
    case (EvPortTimer i)
    then show ?thesis using EvPortTimer_runs [OF ok, of i] ok by simp
  next
    case (EvRequest c i)
    then show ?thesis using safe_deliver_runs [OF ok DispatchRequest_safe [OF w]] ok by auto
  next
    case (EvPacket p data addr)
    then show ?thesis using ChannelPacket_runs [OF ok] ok by auto
  next
    case (EvCandidate candidate)
    then show ?thesis using OnCandidate_runs [OF ok] e by (simp add: event_ok_def)
  next
    case (EvNewPort i port pref addr)
    then show ?thesis using AddAllocatedPort_runs [OF ok] e by (simp add: event_ok_def)
  next
    case EvSignalingReady
    then show ?thesis using OnSignalingReady_runs [OF ok] e by (simp add: event_ok_def)
  next
    case EvConnectChannel
    then show ?thesis using channel_ok_misc(1) [OF ok] by simp
  next
    case (EvReset b)
    then show ?thesis using ResetChannel_runs [OF ok] by simp
  next
    case (EvSendPacket data)
    then show ?thesis using ChannelSendPacket_runs [OF ok env(1)] by simp
  next
    case (EvSetOption opt v)
    then show ?thesis using channel_ok_misc(2) [OF ok] by simp
  next
    case (EvDestroyConnection c)
    then show ?thesis using safe_deliver_runs [OF ok DestroyConnection_safe [OF w]] ok by auto
  qed
qed

lemma channel_reach_ok: "channel_reach w ch \<Longrightarrow> channel_ok w ch"
proof (induction rule: channel_reach.induct)
  case (event w ch env e w' ch')
  then show ?case using channel_handle_runs [OF event.IH event.hyps(2)] by (simp add: runs_def)
qed (rule channel_ok_init)

end
