(* ===== verification/Channel_Properties.thy ===== *)
theory Channel_Properties
  imports Channel_Run
begin

text \<open>
  What a P2P channel promises (talk/p2p/base/p2ptransportchannel.cc), with runs of the model on a
  concrete network.
\<close>

section \<open>Runs\<close>

text \<open>The conditions of \<open>event_ok\<close> that can be evaluated, given the invariant.\<close>

definition event_check :: "net_env \<Rightarrow> channel_event \<Rightarrow> ice \<Rightarrow> channel \<Rightarrow> bool" where
  "event_check env e w ch \<longleftrightarrow>
     list_all (\<lambda>c. case i_conns w c of None \<Rightarrow> False
       | Some cn \<Rightarrow> IsValidTransactionId (ne_tid env) \<and> map_of (rm_requests (cn_requests cn)) (ne_tid env) = None) (ch_conns ch)
     \<and> (case e of
          EvCandidate candidate \<Rightarrow> remote_ok candidate
        | EvNewPort i port pref addr \<Rightarrow> i < length (ch_sessions ch) \<and> new_port_ok port
        | EvSignalingReady \<Rightarrow> int (length (ch_sessions ch)) < 1073741824
        | _ \<Rightarrow> True)"

lemma event_check_ok: "channel_ok w ch \<Longrightarrow> socket_ok env \<Longrightarrow> event_check env e w ch \<Longrightarrow> event_ok env e w ch"
proof -
  assume ok: "channel_ok w ch" and env: "socket_ok env" and check: "event_check env e w ch"
  have "tid_fresh env cn" if cn: "i_conns w c = Some cn" for c cn
  proof -
    have "c \<in> set (ch_conns ch)" using ok cn by (simp add: channel_ok_def sync_def)
    then show ?thesis using check cn by (auto simp: event_check_def list_all_iff tid_fresh_def)
  qed
  then show ?thesis using env check unfolding event_ok_def event_check_def tids_fresh_def by blast
qed

fun checked_step :: "net_env \<Rightarrow> (ice \<times> channel) option \<Rightarrow> channel_event \<Rightarrow> (ice \<times> channel) option" where
  "checked_step env None e = None"
| "checked_step env (Some (w, ch)) e = (if event_check env e w ch then channel_handle env e w ch else None)"

definition channel_run :: "net_env \<Rightarrow> channel_event list \<Rightarrow> (ice \<times> channel) option \<Rightarrow> (ice \<times> channel) option" where
  "channel_run env es s = foldl (checked_step env) s es"

lemma channel_run_reach:
  assumes "socket_ok env" "\<forall>w ch. s = Some (w, ch) \<longrightarrow> channel_reach w ch" "channel_run env es s = Some (w', ch')"
  shows "channel_reach w' ch'"
  using assms(2,3)
proof (induction es arbitrary: s)
  case Nil
  then show ?case by (simp add: channel_run_def)
next
  case (Cons e es)
  have run: "channel_run env es (checked_step env s e) = Some (w', ch')" using Cons.prems(2) by (simp add: channel_run_def)
  have "channel_reach w1 ch1" if s1: "checked_step env s e = Some (w1, ch1)" for w1 ch1
  proof -
    obtain w ch where s: "s = Some (w, ch)" "event_check env e w ch" "channel_handle env e w ch = Some (w1, ch1)"
      using s1 by (cases "(env, s, e)" rule: checked_step.cases) (auto split: if_splits)
    then have reach: "channel_reach w ch" using Cons.prems(1) by blast
    have "event_ok env e w ch" by (rule event_check_ok [OF channel_reach_ok [OF reach] assms(1) s(2)])
    then show ?thesis using channel_reach.event [OF reach] s(3) by blast
  qed
  then show ?case using Cons.IH run by blast
qed

text \<open>A network that sends everything.\<close>

definition demo_env :: net_env where
  "demo_env = \<lparr>ne_now = 1000, ne_send = (\<lambda>data addr. (int (length data) + 1, 0)), ne_tid = ascii ''0123456789ab'', ne_fmul = (*)\<rparr>"

lemma demo_socket: "socket_ok demo_env"
  by (simp add: socket_ok_def demo_env_def)

definition demo_addr :: "u32 \<Rightarrow> u16 \<Rightarrow> sock_addr" where
  "demo_addr ip port = \<lparr>sa_hostname = [], sa_ip = IP4 ip, sa_port = port, sa_literal = False\<rparr>"

definition demo_candidate :: candidate where
  "demo_candidate = \<lparr>c_name = ascii ''rtp'', c_protocol = ascii ''udp'', c_address = demo_addr 0x0A000002 5000, c_preference = 1,
     c_username = ascii ''peer'', c_password = ascii ''pw'', c_type = ascii ''local'', c_network_name = [], c_generation = 0\<rparr>"

definition demo_events :: "channel_event list" where
  "demo_events = [EvConnectChannel, EvSignalingReady,
     EvNewPort 0 (UDPPort (ascii ''frag'') (ascii ''pw'') 7 (ascii ''eth0'')) 1 (demo_addr 0x0A000001 4000),
     EvCandidate demo_candidate, EvCandidate (demo_candidate\<lparr>c_address := demo_addr 0x0A000003 5000, c_preference := 1 / 2\<rparr>)]"

definition demo_channel :: "(ice \<times> channel) option" where
  "demo_channel = channel_run demo_env demo_events
     (Some (ice_init, (P2PTransportChannel (ascii ''rtp''))\<lparr>ch_incoming_only := False\<rparr>))"

lemma demo_conns:
  "map_option (\<lambda>(w, ch). (ch_conns ch, ch_ports ch, ch_best ch, length (ch_posted ch))) demo_channel = Some ([1, 2], [0], Some 1, 2)"
  by code_simp

text \<open>The channel of the demonstration: one port, one connection, nothing left to fail.\<close>

lemma demo_Some:
  assumes "map_option (\<lambda>(w, ch). P w ch) demo_channel = Some True"
  shows "\<exists>w ch. demo_channel = Some (w, ch) \<and> channel_reach w ch \<and> P w ch"
proof -
  obtain w ch where d: "demo_channel = Some (w, ch)" "P w ch" using assms by auto
  have "channel_reach w ch" by (rule channel_run_reach [OF demo_socket _ d(1) [unfolded demo_channel_def]]) (simp add: channel_reach.start)
  then show ?thesis using d by blast
qed

section \<open>Safety\<close>



text \<open>
  C11: in every reachable state the connections of the channel are exactly the live ones, each is
  found in its port's map under its remote address, the best one is among them, the ports are
  live and a deletion is only posted for a live connection.
\<close>

theorem channel_consistent:
  assumes "channel_reach w ch"
  shows "distinct (ch_conns ch) \<and> (\<forall>c. c \<in> set (ch_conns ch) \<longleftrightarrow> i_conns w c \<noteq> None)
     \<and> (\<forall>c cn. i_conns w c = Some cn \<longrightarrow> GetConnection (cn_port cn) (c_address (cn_remote cn)) w = Some (Some c))
     \<and> (\<forall>b. ch_best ch = Some b \<longrightarrow> b \<in> set (ch_conns ch))
     \<and> (\<forall>p \<in> set (ch_ports ch). i_ports w p \<noteq> None) \<and> (\<forall>c \<in> set (i_deletes w). i_conns w c \<noteq> None)"
proof -
  have ok: "channel_ok w ch" by (rule channel_reach_ok [OF assms])
  then have w: "ice_ok w" "sync w ch" by (simp_all add: channel_ok_def)
  have "GetConnection (cn_port cn) (c_address (cn_remote cn)) w = Some (Some c)" if "i_conns w c = Some cn" for c cn
    using conn_port [OF w(1) that] by (auto simp: GetConnection_def)
  then show ?thesis using w unfolding sync_def ice_ok_def by blast
qed

lemma channel_consistent_witness:
  "\<exists>w ch cn. demo_channel = Some (w, ch) \<and> i_conns w 1 = Some cn
     \<and> GetConnection (cn_port cn) (c_address (cn_remote cn)) w = Some (Some 1)"
proof -
  have "map_option (\<lambda>(w, ch). ch_conns ch = [1, 2]) demo_channel = Some True" by code_simp
  from demo_Some [OF this] obtain w ch where d: "demo_channel = Some (w, ch)" "channel_reach w ch" "ch_conns ch = [1, 2]" by blast
  note c = channel_consistent [OF d(2)]
  have "i_conns w 1 \<noteq> None" using c d(3) by (metis list.set_intros(1))
  then show ?thesis using c d(1) by auto
qed

section \<open>The choice of the best connection\<close>

text \<open>
  C8: sorting the connections of a reachable channel makes one of the best write state the best
  connection, keeps them all, and makes the channel writable exactly if some connection is
  writable and readable exactly if some connection is readable.
\<close>

theorem sort_chooses_best:
  assumes "channel_reach w ch"
  shows "\<exists>w' ch'. SortConnections env w ch = Some (w', ch') \<and> set (ch_conns ch') = set (ch_conns ch)
     \<and> (ch_best ch' = None \<longleftrightarrow> ch_conns ch = [])
     \<and> (\<forall>b. ch_best ch' = Some b \<longrightarrow> b \<in> set (ch_conns ch) \<and> (\<forall>c \<in> set (ch_conns ch). rank_of w' b \<le> rank_of w' c))
     \<and> (ch_writable ch' \<longleftrightarrow> (\<exists>c cn. i_conns w' c = Some cn \<and> cn_write_state cn = STATE_WRITABLE))
     \<and> (ch_readable ch' \<longleftrightarrow> (\<exists>c cn. i_conns w' c = Some cn \<and> cn_read_state cn = STATE_READABLE))"
proof -
  obtain w' ch' where s: "SortConnections env w ch = Some (w', ch')" "channel_ok w' ch'"
      "set (ch_conns ch') = set (ch_conns ch)" "sorted_ok w' ch'"
    using SortConnections_ok [OF channel_reach_ok [OF assms]] by blast
  have alive: "c \<in> set (ch_conns ch') \<longleftrightarrow> i_conns w' c \<noteq> None" for c using s(2) by (simp add: channel_ok_def sync_def)
  have "ch_conns ch' = [] \<longleftrightarrow> ch_conns ch = []" using s(3) by auto
  moreover have "\<forall>b. ch_best ch' = Some b \<longrightarrow> b \<in> set (ch_conns ch')"
    using s(2) unfolding channel_ok_def sync_def by blast
  moreover have "ch_writable ch' \<longleftrightarrow> (\<exists>c cn. i_conns w' c = Some cn \<and> cn_write_state cn = STATE_WRITABLE)"
    using s(4) alive rank_0 unfolding sorted_ok_def by blast
  moreover have "ch_readable ch' \<longleftrightarrow> (\<exists>c cn. i_conns w' c = Some cn \<and> cn_read_state cn = STATE_READABLE)"
    using s(4) alive unfolding sorted_ok_def reads_def by blast
  ultimately show ?thesis using s(1,3,4) unfolding sorted_ok_def by auto
qed

lemma sort_chooses_best_witness:
  "\<exists>w ch w' ch'. demo_channel = Some (w, ch) \<and> SortConnections demo_env w ch = Some (w', ch') \<and> ch_best ch' \<noteq> None"
proof -
  have "map_option (\<lambda>(w, ch). ch_conns ch = [1, 2]) demo_channel = Some True" by code_simp
  from demo_Some [OF this] obtain w ch where d: "demo_channel = Some (w, ch)" "channel_reach w ch" "ch_conns ch = [1, 2]" by blast
  from sort_chooses_best [OF d(2), of demo_env] obtain w' ch' where s: "SortConnections demo_env w ch = Some (w', ch')"
      "ch_best ch' = None \<longleftrightarrow> ch_conns ch = []"
    by (elim exE conjE) (rule that)
  then have "ch_best ch' \<noteq> None" using d(3) by simp
  then show ?thesis using d(1) s(1) by blast
qed



section \<open>The connection to ping\<close>






section \<open>Why remote candidates are UDP\<close>

text \<open>
  OnUnknownAddress keeps the protocol of the remote candidate. After a TCP candidate of the peer its ping
  from a new address makes UDPPort::CreateConnection return null, and ASSERT(false) fails.
\<close>

lemma tcp_candidate_ping_aborts:
  "map_option (\<lambda>(w, ch). (remote_ok (demo_candidate\<lparr>c_protocol := ascii ''tcp''\<rparr>),
       OnUnknownAddress demo_env 0 (demo_addr 0x0A000009 9) StunMessage (ascii ''peer'') w ch = None))
     (channel_run demo_env (take 3 demo_events) (Some (ice_init, P2PTransportChannel (ascii ''rtp'')))
        \<bind> (\<lambda>(w, ch). OnCandidate demo_env (demo_candidate\<lparr>c_protocol := ascii ''tcp''\<rparr>) w ch))
   = Some (False, True)"
  by code_simp

end
