(* ===== verification/Async_Tcp.thy ===== *)
theory Async_Tcp
  imports Byte_Order "HOL-Library.Sublist" "HOL-Library.Monad_Syntax"
begin

text \<open>
  talk/base/asynctcpsocket.cc: packets over a TCP stream, each after its length in two bytes. The two
  buffers are their filled parts. What the socket below answers is the record \<open>tcp_env\<close>: how many of
  the offered bytes it sends, what a read of at most so many bytes yields, and whether accepting works (and what
  the accepted socket then has to read). Signals and the bytes handed to the stream are events.
  \<open>None\<close> is a failing ASSERT.
\<close>

section \<open>State\<close>

definition MAX_PACKET_SIZE :: nat where "MAX_PACKET_SIZE = 64 * 1024"
definition PKT_LEN_SIZE :: nat where "PKT_LEN_SIZE = 2"
definition BUF_SIZE :: nat where "BUF_SIZE = MAX_PACKET_SIZE + PKT_LEN_SIZE"
definition EMSGSIZE :: int where "EMSGSIZE = 90"

record tcp_socket =
  ts_listen :: bool
  ts_in :: bytes
  ts_out :: bytes
  ts_error :: int

record tcp_env =
  te_send :: "bytes \<Rightarrow> int"
  te_recv :: "nat \<Rightarrow> int \<times> bytes"
  te_accept :: "(nat \<Rightarrow> int \<times> bytes) option"

datatype tcp_event =
    TcpSent bytes
  | TcpConnect
  | TcpReadPacket bytes
  | TcpNewConnection tcp_socket
  | TcpClosed int

definition AsyncTCPSocket :: "bool \<Rightarrow> tcp_socket" where
  "AsyncTCPSocket listen = \<lparr>ts_listen = listen, ts_in = [], ts_out = [], ts_error = 0\<rparr>"

datatype socket_state = CS_CLOSED | CS_CONNECTING | CS_CONNECTED
datatype packet_socket_state = STATE_CLOSED | STATE_BOUND | STATE_CONNECTING | STATE_CONNECTED

definition TcpGetState :: "socket_state \<Rightarrow> tcp_socket \<Rightarrow> packet_socket_state" where
  "TcpGetState below s =
     (case below of
        CS_CLOSED \<Rightarrow> STATE_CLOSED
      | CS_CONNECTING \<Rightarrow> if ts_listen s then STATE_BOUND else STATE_CONNECTING
      | CS_CONNECTED \<Rightarrow> STATE_CONNECTED)"

section \<open>Sending\<close>

definition Flush :: "tcp_env \<Rightarrow> tcp_socket \<Rightarrow> (int \<times> tcp_event list \<times> tcp_socket) option" where
  "Flush env s =
     (let res = te_send env (ts_out s)
      in if res \<le> 0 then Some (res, [], s)
         else if nat res \<le> length (ts_out s)
         then Some (res, [TcpSent (take (nat res) (ts_out s))], s\<lparr>ts_out := drop (nat res) (ts_out s)\<rparr>)
         else None)"

definition packet_header16 :: "nat \<Rightarrow> bytes" where
  "packet_header16 cb = SetLE16 (HostToNetwork16 (of_nat cb))"

definition TcpSend :: "tcp_env \<Rightarrow> bytes \<Rightarrow> tcp_socket \<Rightarrow> (int \<times> tcp_event list \<times> tcp_socket) option" where
  "TcpSend env pv s =
     (if length pv > MAX_PACKET_SIZE then Some (- 1, [], s\<lparr>ts_error := EMSGSIZE\<rparr>)
      else if ts_out s \<noteq> [] then Some (int (length pv), [], s)
      else do {
        (res, evs, s) \<leftarrow> Flush env (s\<lparr>ts_out := packet_header16 (length pv) @ pv\<rparr>);
        Some (if res \<le> 0 then (res, evs, s\<lparr>ts_out := []\<rparr>) else (int (length pv), evs, s))
      })"

definition SendRaw :: "tcp_env \<Rightarrow> bytes \<Rightarrow> tcp_socket \<Rightarrow> (int \<times> tcp_event list \<times> tcp_socket) option" where
  "SendRaw env pv s =
     (if length (ts_out s) + length pv > BUF_SIZE then Some (- 1, [], s\<lparr>ts_error := EMSGSIZE\<rparr>)
      else Flush env (s\<lparr>ts_out := ts_out s @ pv\<rparr>))"

definition OnWriteEvent :: "tcp_env \<Rightarrow> tcp_socket \<Rightarrow> (tcp_event list \<times> tcp_socket) option" where
  "OnWriteEvent env s = (if ts_out s \<noteq> [] then map_option snd (Flush env s) else Some ([], s))"

section \<open>Receiving\<close>

text \<open>The packets that the bytes hold, and the bytes that are left.\<close>

definition packet_length :: "bytes \<Rightarrow> nat" where
  "packet_length data = unat (NetworkToHost16 (GetLE16 (take PKT_LEN_SIZE data)))"

function ProcessInput :: "bytes \<Rightarrow> bytes list \<times> bytes" where
  "ProcessInput data =
     (if length data < PKT_LEN_SIZE then ([], data)
      else if length data < PKT_LEN_SIZE + packet_length data then ([], data)
      else (let (ps, rest) = ProcessInput (drop (PKT_LEN_SIZE + packet_length data) data)
            in (take (packet_length data) (drop PKT_LEN_SIZE data) # ps, rest)))"
  by pat_completeness auto
termination by (relation "measure length") (auto simp: PKT_LEN_SIZE_def)

declare ProcessInput.simps [simp del]

text \<open>The branch of a socket that does not listen.\<close>

definition ReadStream :: "(nat \<Rightarrow> int \<times> bytes) \<Rightarrow> tcp_socket \<Rightarrow> (tcp_event list \<times> tcp_socket) option" where
  "ReadStream recv s =
     (let (len, data) = recv (BUF_SIZE - length (ts_in s))
      in if len < 0 then Some ([], s)
         else do {
           let (ps, rest) = ProcessInput (ts_in s @ take (nat len) data);
           ASSERT (\<not> length rest \<ge> BUF_SIZE);
           Some (map TcpReadPacket ps, s\<lparr>ts_in := rest\<rparr>)
         })"

text \<open>A listening socket accepts; the read event that primes the new socket is part of it.\<close>

definition OnReadEvent :: "tcp_env \<Rightarrow> tcp_socket \<Rightarrow> (tcp_event list \<times> tcp_socket) option" where
  "OnReadEvent env s =
     (if ts_listen s
      then (case te_accept env of
              None \<Rightarrow> Some ([], s)
            | Some recv \<Rightarrow> do {
                (evs, new) \<leftarrow> ReadStream recv (AsyncTCPSocket False);
                Some (TcpNewConnection new # evs, s)
              })
      else ReadStream (te_recv env) s)"

definition OnConnectEvent :: "tcp_socket \<Rightarrow> tcp_event list \<times> tcp_socket" where
  "OnConnectEvent s = ([TcpConnect], s)"

definition OnCloseEvent :: "int \<Rightarrow> tcp_socket \<Rightarrow> tcp_event list \<times> tcp_socket" where
  "OnCloseEvent error s = ([TcpClosed error], s)"

end
