(* ===== verification/Async_Tcp_Proofs.thy ===== *)
theory Async_Tcp_Proofs
  imports Async_Tcp
begin

text \<open>
  AsyncTCPSocket (talk/base/asynctcpsocket.cc) keeps the boundaries of packets: however the stream splits
  what is written and what is read, the receiver gets whole packets of the sender, in order.
\<close>

section \<open>Frames\<close>

definition frame :: "bytes \<Rightarrow> bytes" where
  "frame p = packet_header16 (length p) @ p"

lemma length_header [simp]: "length (packet_header16 n) = 2"
  by (simp add: packet_header16_def)










section \<open>Both ends of a stream\<close>



















text \<open>
  The limit of the theorem is one byte below the one that \<open>Send\<close> checks: a packet of 65536 bytes
  is sent, and announced as empty.
\<close>

lemma largest_packet_unannounced: "length p = MAX_PACKET_SIZE \<Longrightarrow> take 2 (frame p) = [0, 0]"
proof -
  assume p: "length p = MAX_PACKET_SIZE"
  have "SetBE16 65536 = [0, 0]" by code_simp
  then have "packet_header16 65536 = [0, 0]" by (simp add: packet_header16_def wire_simps)
  then show ?thesis using p by (simp add: frame_def MAX_PACKET_SIZE_def)
qed

end
