(* ===== verification/Std_Map.thy ===== *)
theory Std_Map
  imports Weak_Order "HOL-Library.List_Lexorder"
begin

text \<open>
  std::map as its clients use it: a list of entries in the order of their keys, searched by the
  comparison. The laws hold for every strict weak order, so they are proved in its locale.
\<close>

fun smap_find :: "('k \<Rightarrow> 'k \<Rightarrow> bool) \<Rightarrow> 'k \<Rightarrow> ('k \<times> 'v) list \<Rightarrow> 'v option" where
  "smap_find lt k [] = None"
| "smap_find lt k ((k', v) # m) = (if equivalent lt k k' then Some v else smap_find lt k m)"

text \<open>\<open>m[k] = v\<close>: the key of an entry that exists stays as it is.\<close>

fun smap_set :: "('k \<Rightarrow> 'k \<Rightarrow> bool) \<Rightarrow> 'k \<Rightarrow> 'v \<Rightarrow> ('k \<times> 'v) list \<Rightarrow> ('k \<times> 'v) list" where
  "smap_set lt k v [] = [(k, v)]"
| "smap_set lt k v ((k', v') # m) =
     (if lt k k' then (k, v) # (k', v') # m
      else if lt k' k then (k', v') # smap_set lt k v m
      else (k', v) # m)"

definition smap_erase :: "('k \<Rightarrow> 'k \<Rightarrow> bool) \<Rightarrow> 'k \<Rightarrow> ('k \<times> 'v) list \<Rightarrow> ('k \<times> 'v) list" where
  "smap_erase lt k m = filter (\<lambda>e. \<not> equivalent lt k (fst e)) m"

definition smap_sorted :: "('k \<Rightarrow> 'k \<Rightarrow> bool) \<Rightarrow> ('k \<times> 'v) list \<Rightarrow> bool" where
  "smap_sorted lt m \<longleftrightarrow> sorted_wrt lt (map fst m)"

lemma smap_erase_sorted: "smap_sorted lt m \<Longrightarrow> smap_sorted lt (smap_erase lt k m)"
  by (auto simp: smap_sorted_def smap_erase_def sorted_wrt_map sorted_wrt_filter)

lemma smap_erase_length: "smap_find lt k m \<noteq> None \<Longrightarrow> length (smap_erase lt k m) < length m"
  by (induction lt k m rule: smap_find.induct) (auto simp: smap_erase_def less_Suc_eq_le split: if_splits)

lemma smap_set_keys: "fst ` set (smap_set lt k v m) \<subseteq> insert k (fst ` set m)"
  by (induction lt k v m rule: smap_set.induct) auto

context weak_order begin

text \<open>Equivalence of keys, over a domain that holds all of them.\<close>

lemma equiv_refl: "dom x \<Longrightarrow> equivalent lt x x"
  using irrefl by (simp add: equivalent_def)

lemma equiv_sym: "equivalent lt x y \<Longrightarrow> equivalent lt y x"
  by (simp add: equivalent_def)

lemma equiv_less:
  assumes "dom x" "dom y" "dom z" "equivalent lt x y" "lt z x"
  shows "\<not> equivalent lt z y"
proof
  assume "equivalent lt z y"
  then have "equivalent lt z x" using equiv_trans [OF assms(3,2,1)] assms(4) equiv_sym by blast
  then show False using assms(5) by (simp add: equivalent_def)
qed

lemma find_cong:
  "\<lbrakk>dom k; dom k'; \<forall>e \<in> set m. dom (fst e); equivalent lt k k'\<rbrakk> \<Longrightarrow> smap_find lt k m = smap_find lt k' m"
proof (induction m)
  case (Cons e m)
  have d: "dom (fst e)" using Cons.prems(3) by simp
  have "equivalent lt k (fst e) \<longleftrightarrow> equivalent lt k' (fst e)"
    using equiv_trans [OF Cons.prems(1,2) d Cons.prems(4)] equiv_trans [OF Cons.prems(2,1) d equiv_sym [OF Cons.prems(4)]]
    by blast
  then show ?case using Cons by (cases e) simp
qed simp

lemma find_set:
  "\<lbrakk>dom k; dom k'; \<forall>e \<in> set m. dom (fst e)\<rbrakk> \<Longrightarrow>
    smap_find lt k' (smap_set lt k v m) = (if equivalent lt k' k then Some v else smap_find lt k' m)"
proof (induction m)
  case (Cons e m)
  obtain j u where e: "e = (j, u)" by (cases e)
  have d: "dom j" using Cons.prems e by simp
  consider "lt k j" | "lt j k" "\<not> lt k j" | "equivalent lt j k" by (auto simp: equivalent_def)
  then show ?case
  proof cases
    case 2
    have "\<not> equivalent lt k' j" if "equivalent lt k' k"
      using equiv_less [of k k' j] Cons.prems(1,2) d that 2(1) equiv_sym by blast
    then show ?thesis using Cons 2 e by auto
  next
    case 3
    have "equivalent lt k' j \<longleftrightarrow> equivalent lt k' k"
      using Cons.prems(1,2) d 3 equiv_trans [of k' j k] equiv_trans [of k' k j] equiv_sym by blast
    then show ?thesis using 3 e by (simp add: equivalent_def)
  qed (simp add: e)
qed simp

lemma find_erase:
  "\<lbrakk>dom k; dom k'; \<forall>e \<in> set m. dom (fst e)\<rbrakk> \<Longrightarrow>
    smap_find lt k' (smap_erase lt k m) = (if equivalent lt k' k then None else smap_find lt k' m)"
proof (induction m)
  case (Cons e m)
  obtain j u where e: "e = (j, u)" by (cases e)
  have "dom j" using Cons.prems e by simp
  then have "equivalent lt k' k \<Longrightarrow> equivalent lt k' j \<longleftrightarrow> equivalent lt k j"
    "\<not> equivalent lt k' k \<Longrightarrow> equivalent lt k j \<Longrightarrow> \<not> equivalent lt k' j"
    using Cons.prems(1,2) equiv_trans [of k k' j] equiv_trans [of k' k j] equiv_trans [of k' j k] equiv_sym by blast+
  then show ?case using Cons e by (auto simp: smap_erase_def)
qed (simp add: smap_erase_def)

lemma set_sorted:
  "\<lbrakk>dom k; \<forall>e \<in> set m. dom (fst e); smap_sorted lt m\<rbrakk> \<Longrightarrow> smap_sorted lt (smap_set lt k v m)"
proof (induction m)
  case (Cons e m)
  obtain j u where e: "e = (j, u)" by (cases e)
  have d: "dom j" and s: "\<forall>x \<in> fst ` set m. lt j x" using Cons.prems e by (auto simp: smap_sorted_def)
  have "\<forall>x \<in> fst ` set m. lt k x" if "lt k j" using that s Cons.prems(1,2) d trans [of k j] by auto
  moreover have "\<forall>x \<in> fst ` set (smap_set lt k v m). lt j x" if "lt j k" 
  proof
    fix x
    assume "x \<in> fst ` set (smap_set lt k v m)"
    then have "x = k \<or> x \<in> fst ` set m" using smap_set_keys [of lt k v m] by blast
    then show "lt j x" using that s by blast
  qed
  ultimately show ?case using Cons e s by (auto simp: smap_sorted_def)
qed (simp add: smap_sorted_def)

end

text \<open>std::string compares its characters as unsigned bytes.\<close>

abbreviation str_less :: "bytes \<Rightarrow> bytes \<Rightarrow> bool" where "str_less \<equiv> (<)"

lemma str_equivalent: "equivalent str_less a b \<longleftrightarrow> a = b"
  by (auto simp: equivalent_def)

interpretation str: weak_order str_less "\<lambda>_. True"
  by unfold_locales (auto simp: str_equivalent)

end
