(* ===== verification/Socket_Address_Pair.thy ===== *)
theory Socket_Address_Pair
  imports Socket_Address Std_Map
begin

text \<open>
  talk/base/socketaddresspair.cc: a source and a destination. Their order is the key order of std::map.
\<close>

type_synonym addr_pair = "sock_addr \<times> sock_addr"

definition pair_equal :: "addr_pair \<Rightarrow> addr_pair \<Rightarrow> bool" where
  "pair_equal p q \<longleftrightarrow> sa_equal (fst p) (fst q) \<and> sa_equal (snd p) (snd q)"

definition addr_pair_less :: "addr_pair \<Rightarrow> addr_pair \<Rightarrow> bool" where
  "addr_pair_less p q =
     (if sa_less (fst p) (fst q) then True
      else if sa_less (fst q) (fst p) then False
      else if sa_less (snd p) (snd q) then True
      else if sa_less (snd q) (snd p) then False
      else False)"

definition pair_hash :: "addr_pair \<Rightarrow> u32" where
  "pair_hash p = sa_hash (fst p) XOR sa_hash (snd p)"

lemma pair_equivalent: "equivalent addr_pair_less p q \<longleftrightarrow> pair_equal p q"
  using sa_equivalent by (auto simp: equivalent_def addr_pair_less_def pair_equal_def)

lemma pair_equal_refl [simp]: "pair_equal p p"
  by (simp add: pair_equal_def sa_equal_key)

lemma pair_equal_sym: "pair_equal p q \<Longrightarrow> pair_equal q p"
  by (simp add: pair_equal_def sa_equal_key)

lemma pair_equal_trans: "pair_equal p q \<Longrightarrow> pair_equal q r \<Longrightarrow> pair_equal p r"
  by (simp add: pair_equal_def sa_equal_key)

lemma addr_pair_less_key:
  "addr_pair_less p q \<longleftrightarrow> key_less (sa_key (fst p)) (sa_key (fst q))
     \<or> sa_key (fst p) = sa_key (fst q) \<and> key_less (sa_key (snd p)) (sa_key (snd q))"
  using key_less_linear [of "sa_key (fst p)" "sa_key (fst q)"] key_less_trans key_less_irrefl
  by (auto simp: addr_pair_less_def sa_less_key)

interpretation pair: weak_order addr_pair_less "\<lambda>_. True"
proof
  show "\<not> addr_pair_less p p" for p by (simp add: addr_pair_less_key)
  show "addr_pair_less p r" if "addr_pair_less p q" "addr_pair_less q r" for p q r
  proof -
    let ?a = "\<lambda>x. sa_key (fst x)" and ?b = "\<lambda>x. sa_key (snd x)"
    have 1: "key_less (?a p) (?a q) \<or> ?a p = ?a q \<and> key_less (?b p) (?b q)"
      and 2: "key_less (?a q) (?a r) \<or> ?a q = ?a r \<and> key_less (?b q) (?b r)"
      using that by (simp_all add: addr_pair_less_key)
    show ?thesis
    proof (cases "?a p = ?a q \<and> ?a q = ?a r")
      case True
      then have "key_less (?b p) (?b q)" "key_less (?b q) (?b r)" using 1 2 by auto
      then have "key_less (?b p) (?b r)" by (rule key_less_trans)
      then show ?thesis using True by (simp add: addr_pair_less_key)
    next
      case False
      then have "key_less (?a p) (?a r)" using 1 2 key_less_trans [of "?a p" "?a q" "?a r"] by fastforce
      then show ?thesis by (simp add: addr_pair_less_key)
    qed
  qed
  show "equivalent addr_pair_less p r" if "equivalent addr_pair_less p q" "equivalent addr_pair_less q r" for p q r
    using that pair_equal_trans by (simp add: pair_equivalent)
qed

end
