(* ===== verification/Relay_Server.thy ===== *)
theory Relay_Server
  imports Port_Ops Socket_Address_Pair
begin

text \<open>
  talk/p2p/base/relayserver.cc: the relay between the client of a binding (internal) and the peers that
  talk to it (external). Bindings and connections are objects in a heap; the maps and lists hold their
  addresses. \<open>None\<close> is a failing ASSERT, the use of a deleted object or a division by zero. Sockets are
  numbers; what they answer is in \<open>relay_env\<close>. The messages posted to the thread of the server and the packets sent
  are lists in the state. Logging is left out.
\<close>

section \<open>State\<close>

definition MAX_LIFETIME :: u32 where "MAX_LIFETIME = 15 * 60 * 1000"
definition USERNAME_LENGTH :: nat where "USERNAME_LENGTH = 16"
definition TURN_MAGIC_COOKIE_VALUE :: bytes where "TURN_MAGIC_COOKIE_VALUE = [0x72, 0xC6, 0x4B, 0xC6]"

record relay_conn =
  rl_binding :: nat
  rl_addr_pair :: addr_pair
  rl_socket :: nat
  rl_locked :: bool
  rl_default_dest :: sock_addr

record relay_binding =
  rb_username :: bytes
  rb_password :: bytes
  rb_magic_cookie :: bytes
  rb_internal :: "nat list"
  rb_external :: "nat list"
  rb_lifetime :: u32
  rb_last_used :: u32

datatype relay_message = LifetimeTimer u32 nat | DisposeBinding nat

datatype relay_event = RelaySend nat bytes sock_addr

record relay_server =
  rs_internal_sockets :: "nat list"
  rs_external_sockets :: "nat list"
  rs_server_sockets :: "(nat \<times> protocol_type) list"
  rs_bindings :: "(bytes \<times> nat) list"
  rs_connections :: "(addr_pair \<times> nat) list"
  rs_binding_at :: "nat \<Rightarrow> relay_binding option"
  rs_conn_at :: "nat \<Rightarrow> relay_conn option"
  rs_next :: nat
  rs_thread :: "relay_message list"
  rs_sent :: "relay_event list"

text \<open>The clock, the local addresses of the sockets, a random number and the socket that an accept yields.\<close>

record relay_env =
  re_now :: u32
  re_local :: "nat \<Rightarrow> sock_addr"
  re_rand :: nat
  re_accept :: "nat option"

definition RelayServer :: relay_server where
  "RelayServer = \<lparr>rs_internal_sockets = [], rs_external_sockets = [], rs_server_sockets = [], rs_bindings = [],
     rs_connections = [], rs_binding_at = (\<lambda>_. None), rs_conn_at = (\<lambda>_. None), rs_next = 0, rs_thread = [], rs_sent = []\<rparr>"

definition put_binding :: "nat \<Rightarrow> relay_binding \<Rightarrow> relay_server \<Rightarrow> relay_server" where
  "put_binding b bd s = s\<lparr>rs_binding_at := (rs_binding_at s)(b \<mapsto> bd)\<rparr>"

definition put_link :: "nat \<Rightarrow> relay_conn \<Rightarrow> relay_server \<Rightarrow> relay_server" where
  "put_link c cn s = s\<lparr>rs_conn_at := (rs_conn_at s)(c \<mapsto> cn)\<rparr>"

section \<open>Sending\<close>

definition relay_send :: "nat \<Rightarrow> bytes \<Rightarrow> sock_addr \<Rightarrow> relay_server \<Rightarrow> relay_server" where
  "relay_send socket data addr s = s\<lparr>rs_sent := rs_sent s @ [RelaySend socket data addr]\<rparr>"

definition relay_SendStun :: "stun_message \<Rightarrow> nat \<Rightarrow> sock_addr \<Rightarrow> relay_server \<Rightarrow> relay_server option" where
  "relay_SendStun msg socket addr s = do {
     buf \<leftarrow> message_write msg (ByteBuffer_empty ORDER_NETWORK);
     Some (relay_send socket (Data buf) addr s)
   }"

definition magic_cookie_attr :: "bytes \<Rightarrow> stun_attr option" where
  "magic_cookie_attr cookie = map_option (CopyBytes cookie) (CreateByteString STUN_ATTR_MAGIC_COOKIE)"

definition relay_error :: "stun_message \<Rightarrow> nat \<Rightarrow> bytes \<Rightarrow> bytes \<Rightarrow> stun_message option" where
  "relay_error msg code error_desc magic_cookie = do {
     let err_msg = SetMessageType (GetStunErrorResponseType (sm_type msg)) StunMessage;
     let err_msg = snd (SetTransactionID (sm_tid msg) err_msg);
     cookie \<leftarrow> magic_cookie_attr (if length magic_cookie = 0 then TURN_MAGIC_COOKIE_VALUE else magic_cookie);
     let err_msg = AddAttribute cookie err_msg;
     Some (AddAttribute (SetReason error_desc (SetNumber (of_nat (code mod 100))
       (SetErrorClass (of_nat (code div 100)) CreateErrorCode))) err_msg)
   }"

definition SendStunError :: "stun_message \<Rightarrow> nat \<Rightarrow> sock_addr \<Rightarrow> nat \<Rightarrow> bytes \<Rightarrow> bytes \<Rightarrow> relay_server \<Rightarrow> relay_server option" where
  "SendStunError msg socket remote_addr code error_desc magic_cookie s = do {
     err_msg \<leftarrow> relay_error msg code error_desc magic_cookie;
     relay_SendStun err_msg socket remote_addr s
   }"

section \<open>Bindings\<close>

definition NoteUsed :: "u32 \<Rightarrow> nat \<Rightarrow> relay_server \<Rightarrow> relay_server option" where
  "NoteUsed now b s = do {
     bd \<leftarrow> rs_binding_at s b;
     Some (put_binding b (bd\<lparr>rb_last_used := now\<rparr>) s)
   }"

text \<open>The address of the new object and the state.\<close>

definition RelayServerBinding :: "u32 \<Rightarrow> bytes \<Rightarrow> bytes \<Rightarrow> u32 \<Rightarrow> relay_server \<Rightarrow> nat \<times> relay_server" where
  "RelayServerBinding now username password lifetime s =
     (let b = rs_next s;
          bd = \<lparr>rb_username = username, rb_password = password, rb_magic_cookie = TURN_MAGIC_COOKIE_VALUE, rb_internal = [],
                rb_external = [], rb_lifetime = lifetime, rb_last_used = now\<rparr>
      in (b, (put_binding b bd s)\<lparr>rs_next := b + 1, rs_thread := rs_thread s @ [LifetimeTimer lifetime b]\<rparr>))"

definition AddInternalConnection :: "nat \<Rightarrow> nat \<Rightarrow> relay_server \<Rightarrow> relay_server option" where
  "AddInternalConnection b c s = do {
     bd \<leftarrow> rs_binding_at s b;
     Some (put_binding b (bd\<lparr>rb_internal := rb_internal bd @ [c]\<rparr>) s)
   }"

definition AddExternalConnection :: "nat \<Rightarrow> nat \<Rightarrow> relay_server \<Rightarrow> relay_server option" where
  "AddExternalConnection b c s = do {
     bd \<leftarrow> rs_binding_at s b;
     Some (put_binding b (bd\<lparr>rb_external := rb_external bd @ [c]\<rparr>) s)
   }"

definition HasMagicCookie :: "bytes \<Rightarrow> relay_binding \<Rightarrow> bool" where
  "HasMagicCookie data bd =
     (if length data < 24 + length (rb_magic_cookie bd) then False
      else take (length (rb_magic_cookie bd)) (drop 24 data) = rb_magic_cookie bd)"

text \<open>The first of the connections that satisfies the test.\<close>

fun find_link :: "(relay_conn \<Rightarrow> bool) \<Rightarrow> nat list \<Rightarrow> relay_server \<Rightarrow> nat option option" where
  "find_link test [] s = Some None"
| "find_link test (c # cs) s = do {
     cn \<leftarrow> rs_conn_at s c;
     if test cn then Some (Some c) else find_link test cs s
   }"

definition GetInternalConnection :: "nat \<Rightarrow> sock_addr \<Rightarrow> relay_server \<Rightarrow> nat option" where
  "GetInternalConnection b ext_addr s = do {
     bd \<leftarrow> rs_binding_at s b;
     r \<leftarrow> find_link (\<lambda>cn. rl_locked cn \<and> sa_equal ext_addr (rl_default_dest cn)) (rb_internal bd) s;
     (case r of
        Some c \<Rightarrow> Some c
      | None \<Rightarrow> do {
          ASSERT (length (rb_internal bd) > 0);
          Some (rb_internal bd ! 0)
        })
   }"

definition GetExternalConnection :: "nat \<Rightarrow> sock_addr \<Rightarrow> relay_server \<Rightarrow> nat option option" where
  "GetExternalConnection b ext_addr s = do {
     bd \<leftarrow> rs_binding_at s b;
     find_link (\<lambda>cn. sa_equal ext_addr (fst (rl_addr_pair cn))) (rb_external bd) s
   }"

definition RemoveBinding :: "nat \<Rightarrow> relay_server \<Rightarrow> relay_server option" where
  "RemoveBinding b s = do {
     bd \<leftarrow> rs_binding_at s b;
     ASSERT (smap_find str_less (rb_username bd) (rs_bindings s) \<noteq> None);
     Some (s\<lparr>rs_bindings := smap_erase str_less (rb_username bd) (rs_bindings s)\<rparr>)
   }"

section \<open>Connections\<close>

definition RelayServerConnection :: "u32 \<Rightarrow> nat \<Rightarrow> addr_pair \<Rightarrow> nat \<Rightarrow> relay_server \<Rightarrow> (nat \<times> relay_server) option" where
  "RelayServerConnection now b addrs socket s = do {
     let c = rs_next s;
     let cn = \<lparr>rl_binding = b, rl_addr_pair = addrs, rl_socket = socket, rl_locked = False, rl_default_dest = SocketAddress\<rparr>;
     s \<leftarrow> NoteUsed now b ((put_link c cn s)\<lparr>rs_next := c + 1\<rparr>);
     Some (c, s)
   }"

definition link_Send :: "u32 \<Rightarrow> nat \<Rightarrow> bytes \<Rightarrow> relay_server \<Rightarrow> relay_server option" where
  "link_Send now c data s = do {
     cn \<leftarrow> rs_conn_at s c;
     s \<leftarrow> NoteUsed now (rl_binding cn) s;
     Some (relay_send (rl_socket cn) data (fst (rl_addr_pair cn)) s)
   }"

definition link_SendStun :: "u32 \<Rightarrow> nat \<Rightarrow> stun_message \<Rightarrow> relay_server \<Rightarrow> relay_server option" where
  "link_SendStun now c msg s = do {
     cn \<leftarrow> rs_conn_at s c;
     s \<leftarrow> NoteUsed now (rl_binding cn) s;
     relay_SendStun msg (rl_socket cn) (fst (rl_addr_pair cn)) s
   }"

definition link_SendStunError :: "nat \<Rightarrow> stun_message \<Rightarrow> nat \<Rightarrow> bytes \<Rightarrow> relay_server \<Rightarrow> relay_server option" where
  "link_SendStunError c request code error_desc s = do {
     cn \<leftarrow> rs_conn_at s c;
     bd \<leftarrow> rs_binding_at s (rl_binding cn);
     SendStunError request (rl_socket cn) (fst (rl_addr_pair cn)) code error_desc (rb_magic_cookie bd) s
   }"

text \<open>The packet in a data indication, with the address it came from.\<close>

definition data_indication :: "bytes \<Rightarrow> bytes \<Rightarrow> sock_addr \<Rightarrow> stun_message option" where
  "data_indication magic_cookie data from_addr = do {
     let msg = SetMessageType STUN_DATA_INDICATION StunMessage;
     cookie \<leftarrow> magic_cookie_attr magic_cookie;
     let msg = AddAttribute cookie msg;
     addr_attr \<leftarrow> CreateAddress STUN_ATTR_SOURCE_ADDRESS2;
     let msg = AddAttribute (attr_SetPort (sa_port from_addr) (attr_SetIP (sa_ip from_addr) addr_attr)) msg;
     data_attr \<leftarrow> CreateByteString STUN_ATTR_DATA;
     ASSERT (int (length data) \<le> 65536);
     Some (AddAttribute (CopyBytes (take (unat (of_nat (length data) :: u16)) data) data_attr) msg)
   }"

definition link_SendFrom :: "u32 \<Rightarrow> nat \<Rightarrow> bytes \<Rightarrow> sock_addr \<Rightarrow> relay_server \<Rightarrow> relay_server option" where
  "link_SendFrom now c data from_addr s = do {
     cn \<leftarrow> rs_conn_at s c;
     if rl_locked cn \<and> sa_equal from_addr (rl_default_dest cn) then link_Send now c data s
     else do {
       bd \<leftarrow> rs_binding_at s (rl_binding cn);
       msg \<leftarrow> data_indication (rb_magic_cookie bd) data from_addr;
       link_SendStun now c msg s
     }
   }"

definition link_Lock :: "nat \<Rightarrow> relay_server \<Rightarrow> relay_server option" where
  "link_Lock c s = map_option (\<lambda>cn. put_link c (cn\<lparr>rl_locked := True\<rparr>) s) (rs_conn_at s c)"

definition link_Unlock :: "nat \<Rightarrow> relay_server \<Rightarrow> relay_server option" where
  "link_Unlock c s = map_option (\<lambda>cn. put_link c (cn\<lparr>rl_locked := False\<rparr>) s) (rs_conn_at s c)"

definition set_default_destination :: "nat \<Rightarrow> sock_addr \<Rightarrow> relay_server \<Rightarrow> relay_server option" where
  "set_default_destination c addr s = map_option (\<lambda>cn. put_link c (cn\<lparr>rl_default_dest := addr\<rparr>) s) (rs_conn_at s c)"

definition relay_AddConnection :: "nat \<Rightarrow> relay_server \<Rightarrow> relay_server option" where
  "relay_AddConnection c s = do {
     cn \<leftarrow> rs_conn_at s c;
     ASSERT (smap_find addr_pair_less (rl_addr_pair cn) (rs_connections s) = None);
     Some (s\<lparr>rs_connections := smap_set addr_pair_less (rl_addr_pair cn) c (rs_connections s)\<rparr>)
   }"

definition RemoveConnection :: "nat \<Rightarrow> relay_server \<Rightarrow> relay_server option" where
  "RemoveConnection c s = do {
     cn \<leftarrow> rs_conn_at s c;
     ASSERT (smap_find addr_pair_less (rl_addr_pair cn) (rs_connections s) \<noteq> None);
     Some (s\<lparr>rs_connections := smap_erase addr_pair_less (rl_addr_pair cn) (rs_connections s)\<rparr>)
   }"

section \<open>STUN requests of the client\<close>

text \<open>The request and its user name, or nothing after an error response.\<close>

definition relay_HandleStun :: "bytes \<Rightarrow> sock_addr \<Rightarrow> nat \<Rightarrow> relay_server \<Rightarrow> ((stun_message \<times> bytes) option \<times> relay_server) option" where
  "relay_HandleStun data remote_addr socket s = do {
     (ok, msg, _) \<leftarrow> message_read StunMessage (ByteBuffer_of data ORDER_NETWORK);
     if \<not> ok then map_option (Pair None) (SendStunError msg socket remote_addr 400 (ascii ''Bad Request'') [] s)
     else do {
       username_attr \<leftarrow> GetByteString STUN_ATTR_USERNAME msg;
       (case username_attr of
          None \<Rightarrow> map_option (Pair None) (SendStunError msg socket remote_addr 432 (ascii ''Missing Username'') [] s)
        | Some t \<Rightarrow> do {
            username \<leftarrow> attr_string t;
            Some (Some (msg, username), s)
          })
     }
   }"

text \<open>The response to an allocate request: the cookie, an external address and the lifetime in seconds.\<close>

definition allocate_response :: "stun_message \<Rightarrow> relay_binding \<Rightarrow> sock_addr \<Rightarrow> stun_message option" where
  "allocate_response request bd ext_addr = do {
     let response = SetMessageType STUN_ALLOCATE_RESPONSE StunMessage;
     let response = snd (SetTransactionID (sm_tid request) response);
     cookie \<leftarrow> magic_cookie_attr (rb_magic_cookie bd);
     let response = AddAttribute cookie response;
     addr_attr \<leftarrow> CreateAddress STUN_ATTR_MAPPED_ADDRESS;
     let response = AddAttribute (attr_SetPort (sa_port ext_addr) (attr_SetIP (sa_ip ext_addr) addr_attr)) response;
     res_lifetime_attr \<leftarrow> CreateUInt32 STUN_ATTR_LIFETIME;
     Some (AddAttribute (SetValue (rb_lifetime bd div 1000) res_lifetime_attr) response)
   }"

definition HandleStunAllocate :: "relay_env \<Rightarrow> nat \<Rightarrow> stun_message \<Rightarrow> relay_server \<Rightarrow> relay_server option" where
  "HandleStunAllocate env int_conn request s = do {
     cn \<leftarrow> rs_conn_at s int_conn;
     bd \<leftarrow> rs_binding_at s (rl_binding cn);
     ASSERT (length (rs_external_sockets s) \<noteq> 0);
     let index = re_rand env mod length (rs_external_sockets s);
     let ext_addr = re_local env (rs_external_sockets s ! index);
     response \<leftarrow> allocate_response request bd ext_addr;
     link_SendStun (re_now env) int_conn response s
   }"

definition attr_value :: "stun_attr \<Rightarrow> u32 option" where
  "attr_value t = (case at_body t of UInt32Body v \<Rightarrow> Some v | _ \<Rightarrow> None)"

text \<open>The binding of the user name, which is created if there is none.\<close>

definition find_or_create_binding :: "relay_env \<Rightarrow> bytes \<Rightarrow> stun_message \<Rightarrow> relay_server \<Rightarrow> (nat \<times> relay_server) option" where
  "find_or_create_binding env username request s =
     (case smap_find str_less username (rs_bindings s) of
        Some b \<Rightarrow> Some (b, s)
      | None \<Rightarrow> do {
          lifetime_attr \<leftarrow> GetUInt32 STUN_ATTR_LIFETIME request;
          lifetime \<leftarrow> (case lifetime_attr of
                        None \<Rightarrow> Some MAX_LIFETIME
                      | Some t \<Rightarrow> map_option (\<lambda>v. min MAX_LIFETIME (v * 1000)) (attr_value t));
          let (b, s) = RelayServerBinding (re_now env) username (ascii ''0'') lifetime s;
          Some (b, s\<lparr>rs_bindings := smap_set str_less username b (rs_bindings s)\<rparr>)
        })"

definition HandleStunAllocate_new :: "relay_env \<Rightarrow> bytes \<Rightarrow> addr_pair \<Rightarrow> nat \<Rightarrow> relay_server \<Rightarrow> relay_server option" where
  "HandleStunAllocate_new env data ap socket s = do {
     (r, s) \<leftarrow> relay_HandleStun data (fst ap) socket s;
     (case r of
        None \<Rightarrow> Some s
      | Some (request, username) \<Rightarrow>
          if sm_type request \<noteq> STUN_ALLOCATE_REQUEST
          then SendStunError request socket (fst ap) 600 (ascii ''Operation Not Supported'') [] s
          else do {
            (b, s) \<leftarrow> find_or_create_binding env username request s;
            (int_conn, s) \<leftarrow> RelayServerConnection (re_now env) b ap socket s;
            s \<leftarrow> AddInternalConnection b int_conn s;
            s \<leftarrow> relay_AddConnection int_conn s;
            HandleStunAllocate env int_conn request s
          })
   }"

definition attr_address :: "stun_attr \<Rightarrow> sock_addr option" where
  "attr_address t = (case at_body t of AddressBody a \<Rightarrow> Some a | XorAddressBody _ a \<Rightarrow> Some a | _ \<Rightarrow> None)"

definition send_response :: "stun_message \<Rightarrow> relay_binding \<Rightarrow> stun_message option" where
  "send_response request bd = do {
     let response = SetMessageType STUN_SEND_RESPONSE StunMessage;
     let response = snd (SetTransactionID (sm_tid request) response);
     cookie \<leftarrow> magic_cookie_attr (rb_magic_cookie bd);
     let response = AddAttribute cookie response;
     options2_attr \<leftarrow> CreateUInt32 STUN_ATTR_OPTIONS;
     Some (AddAttribute (SetValue 1 options2_attr) response)
   }"

text \<open>The external connection of the binding to the address, created if there is none.\<close>

definition external_for :: "relay_env \<Rightarrow> nat \<Rightarrow> sock_addr \<Rightarrow> relay_server \<Rightarrow> (nat \<times> relay_server) option" where
  "external_for env b ext_addr s = do {
     ext_conn \<leftarrow> GetExternalConnection b ext_addr s;
     (case ext_conn of
        Some c \<Rightarrow> Some (c, s)
      | None \<Rightarrow> do {
          ASSERT (length (rs_external_sockets s) = 1);
          let socket = rs_external_sockets s ! 0;
          let ap = (ext_addr, re_local env socket);
          (c, s) \<leftarrow> RelayServerConnection (re_now env) b ap socket s;
          s \<leftarrow> AddExternalConnection b c s;
          s \<leftarrow> relay_AddConnection c s;
          Some (c, s)
        })
   }"

text \<open>What the options ask for: the address becomes the default destination of the client.\<close>

definition lock_destination :: "relay_env \<Rightarrow> nat \<Rightarrow> stun_message \<Rightarrow> sock_addr \<Rightarrow> relay_server \<Rightarrow> relay_server option" where
  "lock_destination env int_conn request ext_addr s = do {
     options_attr \<leftarrow> GetUInt32 STUN_ATTR_OPTIONS request;
     options \<leftarrow> (case options_attr of None \<Rightarrow> Some 0 | Some t \<Rightarrow> attr_value t);
     if options AND 1 \<noteq> 0
     then do {
       s \<leftarrow> set_default_destination int_conn ext_addr s;
       s \<leftarrow> link_Lock int_conn s;
       cn \<leftarrow> rs_conn_at s int_conn;
       bd \<leftarrow> rs_binding_at s (rl_binding cn);
       response \<leftarrow> send_response request bd;
       link_SendStun (re_now env) int_conn response s
     }
     else Some s
   }"

definition HandleStunSend :: "relay_env \<Rightarrow> nat \<Rightarrow> stun_message \<Rightarrow> relay_server \<Rightarrow> relay_server option" where
  "HandleStunSend env int_conn request s = do {
     addr_attr \<leftarrow> GetAddress STUN_ATTR_DESTINATION_ADDRESS request;
     data_attr \<leftarrow> GetByteString STUN_ATTR_DATA request;
     (case (addr_attr, data_attr) of
        (Some addr_attr, Some data_attr) \<Rightarrow> do {
          addr \<leftarrow> attr_address addr_attr;
          data \<leftarrow> attr_string data_attr;
          cn \<leftarrow> rs_conn_at s int_conn;
          let ext_addr = SocketAddress_of (sa_ip addr) (sa_port addr);
          (ext_conn, s) \<leftarrow> external_for env (rl_binding cn) ext_addr s;
          ext \<leftarrow> rs_conn_at s ext_conn;
          s \<leftarrow> (if rl_locked ext then link_Send (re_now env) ext_conn data s else Some s);
          lock_destination env int_conn request ext_addr s
        }
      | _ \<Rightarrow> link_SendStunError int_conn request 400 (ascii ''Bad Request'') s)
   }"

definition HandleStun_conn :: "relay_env \<Rightarrow> nat \<Rightarrow> bytes \<Rightarrow> relay_server \<Rightarrow> relay_server option" where
  "HandleStun_conn env int_conn data s = do {
     cn \<leftarrow> rs_conn_at s int_conn;
     (r, s) \<leftarrow> relay_HandleStun data (fst (rl_addr_pair cn)) (rl_socket cn) s;
     (case r of
        None \<Rightarrow> Some s
      | Some (request, username) \<Rightarrow> do {
          bd \<leftarrow> rs_binding_at s (rl_binding cn);
          if username \<noteq> rb_username bd then link_SendStunError int_conn request 430 (ascii ''Stale Credentials'') s
          else if sm_type request = STUN_SEND_REQUEST then HandleStunSend env int_conn request s
          else if sm_type request = STUN_ALLOCATE_REQUEST then HandleStunAllocate env int_conn request s
          else link_SendStunError int_conn request 600 (ascii ''Operation Not Supported'') s
        })
   }"

section \<open>Packets\<close>

definition OnInternalPacket :: "relay_env \<Rightarrow> nat \<Rightarrow> bytes \<Rightarrow> sock_addr \<Rightarrow> relay_server \<Rightarrow> relay_server option" where
  "OnInternalPacket env socket data remote_addr s = do {
     let ap = (remote_addr, re_local env socket);
     ASSERT (\<not> IsAnyIP (snd ap));
     (case smap_find addr_pair_less ap (rs_connections s) of
        None \<Rightarrow> HandleStunAllocate_new env data ap socket s
      | Some int_conn \<Rightarrow> do {
          cn \<leftarrow> rs_conn_at s int_conn;
          bd \<leftarrow> rs_binding_at s (rl_binding cn);
          if HasMagicCookie data bd then HandleStun_conn env int_conn data s
          else if \<not> rl_locked cn then Some s
          else do {
            ext_conn \<leftarrow> GetExternalConnection (rl_binding cn) (rl_default_dest cn) s;
            (case ext_conn of
               None \<Rightarrow> Some s
             | Some c \<Rightarrow> do {
                 ext \<leftarrow> rs_conn_at s c;
                 if rl_locked ext then link_Send (re_now env) c data s else Some s
               })
          }
        })
   }"

text \<open>A packet that joins a binding names it in its USERNAME, of which sixteen bytes count.\<close>

definition join_binding :: "relay_env \<Rightarrow> nat \<Rightarrow> bytes \<Rightarrow> addr_pair \<Rightarrow> nat \<Rightarrow> relay_server \<Rightarrow> relay_server option" where
  "join_binding env socket data ap b s = do {
     (ext_conn, s) \<leftarrow> RelayServerConnection (re_now env) b ap socket s;
     s \<leftarrow> AddExternalConnection b ext_conn s;
     s \<leftarrow> relay_AddConnection ext_conn s;
     s \<leftarrow> link_Lock ext_conn s;
     int_conn \<leftarrow> GetInternalConnection b (fst ap) s;
     link_SendFrom (re_now env) int_conn data (fst ap) s
   }"

definition OnExternalPacket :: "relay_env \<Rightarrow> nat \<Rightarrow> bytes \<Rightarrow> sock_addr \<Rightarrow> relay_server \<Rightarrow> relay_server option" where
  "OnExternalPacket env socket data remote_addr s = do {
     let ap = (remote_addr, re_local env socket);
     ASSERT (\<not> IsAnyIP (snd ap));
     (case smap_find addr_pair_less ap (rs_connections s) of
        Some ext_conn \<Rightarrow> do {
          cn \<leftarrow> rs_conn_at s ext_conn;
          int_conn \<leftarrow> GetInternalConnection (rl_binding cn) (fst (rl_addr_pair cn)) s;
          s \<leftarrow> link_SendFrom (re_now env) int_conn data (fst (rl_addr_pair cn)) s;
          link_Lock ext_conn s
        }
      | None \<Rightarrow> do {
          (ok, msg, _) \<leftarrow> message_read StunMessage (ByteBuffer_of data ORDER_NETWORK);
          if \<not> ok then Some s
          else do {
            username_attr \<leftarrow> GetByteString STUN_ATTR_USERNAME msg;
            (case username_attr of
               None \<Rightarrow> Some s
             | Some t \<Rightarrow> do {
                 username \<leftarrow> attr_string t;
                 (case smap_find str_less (take (min (unat (at_length t)) USERNAME_LENGTH) username) (rs_bindings s) of
                    None \<Rightarrow> Some s
                  | Some b \<Rightarrow> join_binding env socket data ap b s)
               })
          }
        })
   }"

section \<open>Sockets\<close>

definition AddInternalSocket :: "nat \<Rightarrow> relay_server \<Rightarrow> relay_server option" where
  "AddInternalSocket socket s = do {
     ASSERT (socket \<notin> set (rs_internal_sockets s));
     Some (s\<lparr>rs_internal_sockets := rs_internal_sockets s @ [socket]\<rparr>)
   }"

definition RemoveInternalSocket :: "nat \<Rightarrow> relay_server \<Rightarrow> relay_server option" where
  "RemoveInternalSocket socket s = do {
     ASSERT (socket \<in> set (rs_internal_sockets s));
     Some (s\<lparr>rs_internal_sockets := remove1 socket (rs_internal_sockets s)\<rparr>)
   }"

definition AddExternalSocket :: "nat \<Rightarrow> relay_server \<Rightarrow> relay_server option" where
  "AddExternalSocket socket s = do {
     ASSERT (socket \<notin> set (rs_external_sockets s));
     Some (s\<lparr>rs_external_sockets := rs_external_sockets s @ [socket]\<rparr>)
   }"

definition RemoveExternalSocket :: "nat \<Rightarrow> relay_server \<Rightarrow> relay_server option" where
  "RemoveExternalSocket socket s = do {
     ASSERT (socket \<in> set (rs_external_sockets s));
     Some (s\<lparr>rs_external_sockets := remove1 socket (rs_external_sockets s)\<rparr>)
   }"

definition AddInternalServerSocket :: "nat \<Rightarrow> protocol_type \<Rightarrow> relay_server \<Rightarrow> relay_server option" where
  "AddInternalServerSocket socket proto s = do {
     ASSERT (map_of (rs_server_sockets s) socket = None);
     Some (s\<lparr>rs_server_sockets := (socket, proto) # rs_server_sockets s\<rparr>)
   }"

definition RemoveInternalServerSocket :: "nat \<Rightarrow> relay_server \<Rightarrow> relay_server option" where
  "RemoveInternalServerSocket socket s = do {
     ASSERT (map_of (rs_server_sockets s) socket \<noteq> None);
     Some (s\<lparr>rs_server_sockets := filter (\<lambda>e. fst e \<noteq> socket) (rs_server_sockets s)\<rparr>)
   }"

text \<open>The socket of the accepted connection carries packets over TCP (AsyncTCPSocket), below it TLS for SSLTCP.\<close>

definition AcceptConnection :: "relay_env \<Rightarrow> nat \<Rightarrow> relay_server \<Rightarrow> relay_server option" where
  "AcceptConnection env server_socket s =
     (case re_accept env of
        None \<Rightarrow> Some s
      | Some accepted \<Rightarrow> do {
          ASSERT (map_of (rs_server_sockets s) server_socket \<in> {Some PROTO_TCP, Some PROTO_SSLTCP});
          AddInternalSocket accepted s
        })"

definition relay_OnReadEvent :: "relay_env \<Rightarrow> nat \<Rightarrow> relay_server \<Rightarrow> relay_server option" where
  "relay_OnReadEvent env socket s = do {
     ASSERT (map_of (rs_server_sockets s) socket \<noteq> None);
     AcceptConnection env socket s
   }"

definition relay_OnMessage :: "relay_env \<Rightarrow> nat \<Rightarrow> nat \<Rightarrow> relay_server \<Rightarrow> relay_server option" where
  "relay_OnMessage env message_id socket s = do {
     ASSERT (message_id = 1);
     AcceptConnection env socket s
   }"

definition GetConnectionCount :: "relay_server \<Rightarrow> nat" where
  "GetConnectionCount s = length (rs_connections s)"

definition relay_GetConnection :: "int \<Rightarrow> relay_server \<Rightarrow> addr_pair option" where
  "relay_GetConnection i s =
     (if 0 \<le> i \<and> nat i < length (rs_connections s)
      then map_option rl_addr_pair (rs_conn_at s (snd (rs_connections s ! nat i)))
      else Some (SocketAddress, SocketAddress))"

fun HasConnection :: "sock_addr \<Rightarrow> (addr_pair \<times> nat) list \<Rightarrow> relay_server \<Rightarrow> bool option" where
  "HasConnection address [] s = Some False"
| "HasConnection address ((ap, c) # m) s = do {
     cn \<leftarrow> rs_conn_at s c;
     if sa_equal (snd (rl_addr_pair cn)) address then Some True else HasConnection address m s
   }"

section \<open>Timers and the end\<close>

fun delete_links :: "nat list \<Rightarrow> relay_server \<Rightarrow> relay_server option" where
  "delete_links [] s = Some s"
| "delete_links (c # cs) s = do {
     s \<leftarrow> RemoveConnection c s;
     delete_links cs (s\<lparr>rs_conn_at := (rs_conn_at s)(c := None)\<rparr>)
   }"

definition delete_binding :: "nat \<Rightarrow> relay_server \<Rightarrow> relay_server option" where
  "delete_binding b s = do {
     bd \<leftarrow> rs_binding_at s b;
     let s = s\<lparr>rs_thread := filter (\<lambda>m. \<forall>d. m \<noteq> LifetimeTimer d b) (rs_thread s)\<rparr>;
     s \<leftarrow> delete_links (rb_internal bd) s;
     s \<leftarrow> delete_links (rb_external bd) s;
     s \<leftarrow> RemoveBinding b s;
     Some (s\<lparr>rs_binding_at := (rs_binding_at s)(b := None)\<rparr>)
   }"

text \<open>MSG_LIFETIME_TIMER, with OnTimeout of the server: the binding is handed to the thread to be deleted.\<close>

definition binding_OnMessage :: "u32 \<Rightarrow> nat \<Rightarrow> relay_server \<Rightarrow> relay_server option" where
  "binding_OnMessage now b s = do {
     bd \<leftarrow> rs_binding_at s b;
     Some (s\<lparr>rs_thread := rs_thread s @
       [if now \<ge> rb_last_used bd + rb_lifetime bd then DisposeBinding b else LifetimeTimer (rb_lifetime bd) b]\<rparr>)
   }"

text \<open>The thread delivers one of its messages.\<close>

definition deliver_message :: "u32 \<Rightarrow> nat \<Rightarrow> relay_server \<Rightarrow> relay_server option" where
  "deliver_message now i s =
     (if i < length (rs_thread s)
      then (let m = rs_thread s ! i;
                s = s\<lparr>rs_thread := take i (rs_thread s) @ drop (Suc i) (rs_thread s)\<rparr>
            in case m of LifetimeTimer d b \<Rightarrow> binding_OnMessage now b s | DisposeBinding b \<Rightarrow> delete_binding b s)
      else Some s)"

text \<open>The destructor deletes the first binding until there is none; each round needs one binding of the bound.\<close>

fun delete_bindings :: "nat \<Rightarrow> relay_server \<Rightarrow> relay_server option" where
  "delete_bindings n s =
     (case rs_bindings s of
        [] \<Rightarrow> Some s
      | (u, b) # rest \<Rightarrow> (case n of 0 \<Rightarrow> None | Suc m \<Rightarrow> Option.bind (delete_binding b s) (delete_bindings m)))"

definition delete_RelayServer :: "relay_server \<Rightarrow> relay_server option" where
  "delete_RelayServer s = map_option (\<lambda>s. s\<lparr>rs_internal_sockets := [], rs_external_sockets := [], rs_server_sockets := []\<rparr>)
     (delete_bindings (length (rs_bindings s)) s)"

end
