(* ===== verification/Safe_Run.thy ===== *)
theory Safe_Run
  imports Main "HOL-Library.Monad_Syntax"
begin

text \<open>
  Computations on a state that may fail. A computation runs from a state along a relation if it does not fail
  and its final state is in the relation; for a transitive relation such computations compose.
\<close>

definition runs_to :: "('s \<Rightarrow> 's \<Rightarrow> bool) \<Rightarrow> 's option \<Rightarrow> 's \<Rightarrow> bool" where
  "runs_to R r s \<longleftrightarrow> (\<exists>s'. r = Some s' \<and> R s s')"

definition runs_val :: "('s \<Rightarrow> 's \<Rightarrow> bool) \<Rightarrow> ('v \<times> 's) option \<Rightarrow> 's \<Rightarrow> ('v \<Rightarrow> 's \<Rightarrow> bool) \<Rightarrow> bool" where
  "runs_val R r s Q \<longleftrightarrow> (\<exists>v s'. r = Some (v, s') \<and> R s s' \<and> Q v s')"

lemma runs_toI: "r = Some s' \<Longrightarrow> R s s' \<Longrightarrow> runs_to R r s"
  by (simp add: runs_to_def)

lemma runs_valI: "r = Some (v, s') \<Longrightarrow> R s s' \<Longrightarrow> Q v s' \<Longrightarrow> runs_val R r s Q"
  by (simp add: runs_val_def)

lemma runs_toE: "runs_to R r s \<Longrightarrow> (\<And>s'. r = Some s' \<Longrightarrow> R s s' \<Longrightarrow> P) \<Longrightarrow> P"
  by (auto simp: runs_to_def)

lemma runs_valE: "runs_val R r s Q \<Longrightarrow> (\<And>v s'. r = Some (v, s') \<Longrightarrow> R s s' \<Longrightarrow> Q v s' \<Longrightarrow> P) \<Longrightarrow> P"
  by (auto simp: runs_val_def)

lemma runs_get: "m = Some x \<Longrightarrow> runs_to R (f x) s \<Longrightarrow> runs_to R (m \<bind> f) s"
  by simp

lemma runs_val_get: "m = Some x \<Longrightarrow> runs_val R (f x) s Q \<Longrightarrow> runs_val R (m \<bind> f) s Q"
  by simp

lemma runs_mono: "runs_to R r s \<Longrightarrow> (\<And>s'. R s s' \<Longrightarrow> R' s s') \<Longrightarrow> runs_to R' r s"
  by (auto simp: runs_to_def)

text \<open>The contract of a step relation: what two parts of a computation keep, both together keep.\<close>

locale step_trans =
  fixes R :: "'s \<Rightarrow> 's \<Rightarrow> bool"
  assumes trans: "R a b \<Longrightarrow> R b c \<Longrightarrow> R a c"
begin

lemma runs_after: "R s s' \<Longrightarrow> runs_to R r s' \<Longrightarrow> runs_to R r s"
  using trans by (auto simp: runs_to_def)

lemma runs_bind: "runs_to R r s \<Longrightarrow> (\<And>s'. R s s' \<Longrightarrow> runs_to R (f s') s') \<Longrightarrow> runs_to R (r \<bind> f) s"
  using trans unfolding runs_to_def by fastforce

lemma val_runs_bind:
  "runs_val R r s Q \<Longrightarrow> (\<And>v s'. R s s' \<Longrightarrow> Q v s' \<Longrightarrow> runs_to R (f (v, s')) s') \<Longrightarrow> runs_to R (r \<bind> f) s"
  using trans unfolding runs_to_def runs_val_def by fastforce

lemma runs_val_bind:
  "runs_to R r s \<Longrightarrow> (\<And>s'. R s s' \<Longrightarrow> runs_val R (f s') s' Q) \<Longrightarrow> runs_val R (r \<bind> f) s Q"
  using trans unfolding runs_to_def runs_val_def by fastforce

end

end
