(* ===== verification/Relay_Proofs.thy ===== *)
theory Relay_Proofs
  imports Relay_Server Safe_Run Port_Packet_Proofs
begin

text \<open>
  The invariant of the relay server (talk/p2p/base/relayserver.cc): its maps hold exactly the live objects,
  every connection belongs to one binding, and the thread holds one message for each binding.
\<close>

section \<open>The invariant\<close>

definition message_binding :: "relay_message \<Rightarrow> nat" where
  "message_binding m = (case m of LifetimeTimer d b \<Rightarrow> b | DisposeBinding b \<Rightarrow> b)"

definition binding_links :: "relay_binding \<Rightarrow> nat list" where
  "binding_links bd = rb_internal bd @ rb_external bd"

definition binding_ok :: "nat set \<Rightarrow> relay_server \<Rightarrow> nat \<Rightarrow> relay_binding \<Rightarrow> bool" where
  "binding_ok E s b bd \<longleftrightarrow> b < rs_next s \<and> smap_find str_less (rb_username bd) (rs_bindings s) = Some b
     \<and> (b \<notin> E \<longrightarrow> rb_internal bd \<noteq> []) \<and> distinct (binding_links bd)
     \<and> rb_magic_cookie bd = TURN_MAGIC_COOKIE_VALUE
     \<and> (\<forall>c \<in> set (binding_links bd). \<exists>cn. rs_conn_at s c = Some cn \<and> rl_binding cn = b)"

definition link_ok :: "relay_server \<Rightarrow> nat \<Rightarrow> relay_conn \<Rightarrow> bool" where
  "link_ok s c cn \<longleftrightarrow> c < rs_next s \<and> smap_find addr_pair_less (rl_addr_pair cn) (rs_connections s) = Some c
     \<and> (\<exists>bd. rs_binding_at s (rl_binding cn) = Some bd \<and> c \<in> set (binding_links bd))"

text \<open>The bindings of \<open>E\<close> are the ones that may still be without a connection of their client.\<close>

definition relay_inv :: "nat set \<Rightarrow> relay_server \<Rightarrow> bool" where
  "relay_inv E s \<longleftrightarrow> smap_sorted str_less (rs_bindings s) \<and> smap_sorted addr_pair_less (rs_connections s)
     \<and> (\<forall>u b. smap_find str_less u (rs_bindings s) = Some b \<longrightarrow> (\<exists>bd. rs_binding_at s b = Some bd \<and> rb_username bd = u))
     \<and> (\<forall>ap c. smap_find addr_pair_less ap (rs_connections s) = Some c
          \<longrightarrow> (\<exists>cn. rs_conn_at s c = Some cn \<and> pair_equal ap (rl_addr_pair cn)))
     \<and> (\<forall>b bd. rs_binding_at s b = Some bd \<longrightarrow> binding_ok E s b bd)
     \<and> (\<forall>c cn. rs_conn_at s c = Some cn \<longrightarrow> link_ok s c cn)
     \<and> distinct (map message_binding (rs_thread s)) \<and> message_binding ` set (rs_thread s) = dom (rs_binding_at s)"

abbreviation "relay_ok \<equiv> relay_inv {}"

lemma inv_binding: "relay_inv E s \<Longrightarrow> rs_binding_at s b = Some bd \<Longrightarrow> binding_ok E s b bd"
  by (simp add: relay_inv_def)

lemma inv_link: "relay_inv E s \<Longrightarrow> rs_conn_at s c = Some cn \<Longrightarrow> link_ok s c cn"
  by (simp add: relay_inv_def)

lemma inv_find_binding:
  "relay_inv E s \<Longrightarrow> smap_find str_less u (rs_bindings s) = Some b \<Longrightarrow> \<exists>bd. rs_binding_at s b = Some bd \<and> rb_username bd = u"
  by (simp add: relay_inv_def)

lemma inv_find_link:
  "relay_inv E s \<Longrightarrow> smap_find addr_pair_less ap (rs_connections s) = Some c
     \<Longrightarrow> \<exists>cn. rs_conn_at s c = Some cn \<and> pair_equal ap (rl_addr_pair cn)"
  unfolding relay_inv_def by blast

lemma link_binding:
  "relay_inv E s \<Longrightarrow> rs_conn_at s c = Some cn \<Longrightarrow> \<exists>bd. rs_binding_at s (rl_binding cn) = Some bd \<and> c \<in> set (binding_links bd)"
  using inv_link unfolding link_ok_def by blast

lemma binding_link:
  "relay_inv E s \<Longrightarrow> rs_binding_at s b = Some bd \<Longrightarrow> c \<in> set (binding_links bd)
     \<Longrightarrow> \<exists>cn. rs_conn_at s c = Some cn \<and> rl_binding cn = b"
  using inv_binding unfolding binding_ok_def by blast

section \<open>What a packet does to the state\<close>

definition same_link :: "relay_conn \<Rightarrow> relay_conn \<Rightarrow> bool" where
  "same_link cn cn' \<longleftrightarrow> rl_binding cn' = rl_binding cn \<and> rl_addr_pair cn' = rl_addr_pair cn \<and> rl_socket cn' = rl_socket cn"

definition to_binding :: "nat \<Rightarrow> relay_server \<Rightarrow> relay_event \<Rightarrow> bool" where
  "to_binding b s e \<longleftrightarrow> (\<exists>c cn d. rs_conn_at s c = Some cn \<and> rl_binding cn = b
     \<and> e = RelaySend (rl_socket cn) d (fst (rl_addr_pair cn)))"

text \<open>Connections stay what and where they are, and packets go to connections of the binding only.\<close>

definition grows :: "nat \<Rightarrow> relay_server \<Rightarrow> relay_server \<Rightarrow> bool" where
  "grows b s s' \<longleftrightarrow>
     (\<forall>c cn. rs_conn_at s c = Some cn \<longrightarrow> (\<exists>cn'. rs_conn_at s' c = Some cn' \<and> same_link cn cn'))
     \<and> (\<forall>ap c. smap_find addr_pair_less ap (rs_connections s) = Some c \<longrightarrow> smap_find addr_pair_less ap (rs_connections s') = Some c)
     \<and> (\<forall>x bd. rs_binding_at s x = Some bd \<longrightarrow> (\<exists>bd'. rs_binding_at s' x = Some bd' \<and> rb_username bd' = rb_username bd))
     \<and> rs_external_sockets s' = rs_external_sockets s \<and> rs_internal_sockets s' = rs_internal_sockets s
     \<and> rs_server_sockets s' = rs_server_sockets s
     \<and> (\<exists>out. rs_sent s' = rs_sent s @ out \<and> (\<forall>e \<in> set out. to_binding b s' e))"

definition rsteps :: "nat \<Rightarrow> relay_server \<Rightarrow> relay_server \<Rightarrow> bool" where
  "rsteps b s s' \<longleftrightarrow> relay_ok s' \<and> grows b s s'"

lemma same_link_refl [simp]: "same_link cn cn"
  by (simp add: same_link_def)

lemma same_link_trans: "same_link a b \<Longrightarrow> same_link b c \<Longrightarrow> same_link a c"
  by (simp add: same_link_def)

lemma to_binding_mono:
  assumes "to_binding b s e" "\<forall>c cn. rs_conn_at s c = Some cn \<longrightarrow> (\<exists>cn'. rs_conn_at s' c = Some cn' \<and> same_link cn cn')"
  shows "to_binding b s' e"
proof -
  obtain c cn d where c: "rs_conn_at s c = Some cn" "rl_binding cn = b" "e = RelaySend (rl_socket cn) d (fst (rl_addr_pair cn))"
    using assms(1) unfolding to_binding_def by blast
  then obtain cn' where "rs_conn_at s' c = Some cn'" "same_link cn cn'" using assms(2) by blast
  then show ?thesis using c unfolding to_binding_def same_link_def by metis
qed

lemma relay_grows_trans:
  assumes "grows b s s'" "grows b s' s''"
  shows "grows b s s''"
proof -
  obtain out out' where out: "rs_sent s' = rs_sent s @ out" "\<forall>e \<in> set out. to_binding b s' e"
      "rs_sent s'' = rs_sent s' @ out'" "\<forall>e \<in> set out'. to_binding b s'' e"
    using assms unfolding grows_def by blast
  have mono: "\<forall>c cn. rs_conn_at s' c = Some cn \<longrightarrow> (\<exists>cn'. rs_conn_at s'' c = Some cn' \<and> same_link cn cn')"
    using assms(2) unfolding grows_def by blast
  have sent: "\<exists>o'. rs_sent s'' = rs_sent s @ o' \<and> (\<forall>e \<in> set o'. to_binding b s'' e)"
    by (rule exI [of _ "out @ out'"]) (use out to_binding_mono [OF _ mono] in auto)
  have links: "\<exists>cn''. rs_conn_at s'' c = Some cn'' \<and> same_link cn cn''" if "rs_conn_at s c = Some cn" for c cn
    using that assms same_link_trans unfolding grows_def by meson
  have bindings: "\<exists>bd''. rs_binding_at s'' x = Some bd'' \<and> rb_username bd'' = rb_username bd" if "rs_binding_at s x = Some bd" for x bd
    using that assms unfolding grows_def by metis
  show ?thesis unfolding grows_def
    by (intro conjI allI impI links bindings sent) (use assms in \<open>auto simp: grows_def\<close>)
qed

interpretation relay: step_trans "rsteps b"
  by unfold_locales (use relay_grows_trans in \<open>auto simp: rsteps_def\<close>)

lemma rsteps_ok: "rsteps b s s' \<Longrightarrow> relay_ok s'"
  by (simp add: rsteps_def)

lemma relay_grows_refl [simp]: "grows b s s"
  by (auto simp: grows_def intro: exI [of _ "[]"])

lemma rsteps_refl: "relay_ok s \<Longrightarrow> rsteps b s s"
  by (simp add: rsteps_def)

section \<open>Single changes\<close>

lemma inv_sent [simp]: "relay_inv E (s\<lparr>rs_sent := x\<rparr>) = relay_inv E s"
  by (simp add: relay_inv_def binding_ok_def link_ok_def)

definition same_binding :: "relay_binding \<Rightarrow> relay_binding \<Rightarrow> bool" where
  "same_binding bd bd' \<longleftrightarrow> rb_username bd' = rb_username bd \<and> rb_magic_cookie bd' = rb_magic_cookie bd
     \<and> rb_internal bd' = rb_internal bd \<and> rb_external bd' = rb_external bd"

lemma inv_put_binding:
  assumes "relay_inv E s" "rs_binding_at s b = Some bd" "same_binding bd bd'"
  shows "relay_inv E (put_binding b bd' s)"
proof -
  have ok: "binding_ok E s x y \<Longrightarrow> binding_ok E (put_binding b bd' s) x y" for x y
    by (simp add: binding_ok_def put_binding_def)
  have "binding_ok E s b bd'"
    using inv_binding [OF assms(1,2)] assms(3) by (simp add: binding_ok_def same_binding_def binding_links_def)
  moreover have "link_ok (put_binding b bd' s) c cn" if "link_ok s c cn" for c cn
    using that assms(2,3) by (auto simp: link_ok_def put_binding_def same_binding_def binding_links_def)
  moreover have "dom (rs_binding_at (put_binding b bd' s)) = dom (rs_binding_at s)"
    using assms(2) by (auto simp: put_binding_def)
  moreover have "\<exists>y. rs_binding_at (put_binding b bd' s) x = Some y \<and> rb_username y = u"
    if "smap_find str_less u (rs_bindings s) = Some x" for u x
    using inv_find_binding [OF assms(1) that] assms(2,3) by (auto simp: put_binding_def same_binding_def)
  ultimately show ?thesis using assms(1) ok
    unfolding relay_inv_def by (auto simp: put_binding_def)
qed

lemma inv_put_link:
  assumes "relay_inv E s" "rs_conn_at s c = Some cn" "same_link cn cn'"
  shows "relay_inv E (put_link c cn' s)"
proof -
  have "link_ok s c cn'"
    using inv_link [OF assms(1,2)] assms(3) by (simp add: link_ok_def same_link_def)
  moreover have "link_ok (put_link c cn' s) d y" if "link_ok s d y" for d y
    using that by (simp add: link_ok_def put_link_def)
  moreover have "binding_ok E (put_link c cn' s) b bd" if "binding_ok E s b bd" for b bd
    using that assms(2,3) by (auto simp: binding_ok_def put_link_def same_link_def)
  moreover have "\<exists>y. rs_conn_at (put_link c cn' s) x = Some y \<and> pair_equal ap (rl_addr_pair y)"
    if "smap_find addr_pair_less ap (rs_connections s) = Some x" for ap x
    using inv_find_link [OF assms(1) that] assms(2,3) by (auto simp: put_link_def same_link_def)
  ultimately show ?thesis using assms(1)
    unfolding relay_inv_def by (auto simp: put_link_def)
qed

lemma rsteps_put_binding:
  assumes "relay_ok s" "rs_binding_at s x = Some bd" "same_binding bd bd'"
  shows "rsteps b s (put_binding x bd' s)"
  using inv_put_binding [OF assms] assms(2,3)
  by (auto simp: rsteps_def grows_def put_binding_def same_binding_def intro: exI [of _ "[]"])

lemma rsteps_put_link:
  assumes "relay_ok s" "rs_conn_at s c = Some cn" "same_link cn cn'"
  shows "rsteps b s (put_link c cn' s)"
  using inv_put_link [OF assms] assms(2,3)
  by (auto simp: rsteps_def grows_def put_link_def intro: exI [of _ "[]"])

lemma rsteps_send:
  assumes "relay_ok s" "rs_conn_at s c = Some cn"
  shows "rsteps (rl_binding cn) s (relay_send (rl_socket cn) data (fst (rl_addr_pair cn)) s)"
  using assms by (auto simp: rsteps_def grows_def relay_send_def to_binding_def)

section \<open>Sending over a connection\<close>

text \<open>A live connection of the binding, and what steps keep of it.\<close>

definition link_of :: "nat \<Rightarrow> nat \<Rightarrow> relay_server \<Rightarrow> bool" where
  "link_of b c s \<longleftrightarrow> (\<exists>cn. rs_conn_at s c = Some cn \<and> rl_binding cn = b)"

lemma link_of_steps: "link_of b c s \<Longrightarrow> rsteps x s s' \<Longrightarrow> link_of b c s'"
  unfolding link_of_def rsteps_def grows_def same_link_def by metis

lemma NoteUsed_runs:
  assumes "relay_ok s" "link_of b c s"
  shows "runs_to (rsteps x) (NoteUsed now b s) s"
proof -
  obtain bd where bd: "rs_binding_at s b = Some bd"
    using assms link_binding unfolding link_of_def by blast
  show ?thesis
    by (rule runs_toI [of _ "put_binding b (bd\<lparr>rb_last_used := now\<rparr>) s"])
       (use bd rsteps_put_binding [OF assms(1) bd] in \<open>simp_all add: NoteUsed_def same_binding_def\<close>)
qed

lemma link_Send_runs:
  assumes "relay_ok s" "link_of b c s"
  shows "runs_to (rsteps b) (link_Send now c data s) s"
proof -
  obtain cn where cn: "rs_conn_at s c = Some cn" "rl_binding cn = b" using assms(2) unfolding link_of_def by blast
  show ?thesis unfolding link_Send_def cn(1) bind.bind_lunit cn(2)
  proof (rule relay.runs_bind [OF NoteUsed_runs [OF assms]])
    fix s' assume s': "rsteps b s s'"
    then obtain cn' where cn': "rs_conn_at s' c = Some cn'" "same_link cn cn'"
      using cn(1) unfolding rsteps_def grows_def by blast
    have "rsteps b s' (relay_send (rl_socket cn) data (fst (rl_addr_pair cn)) s')"
      using rsteps_send [OF rsteps_ok [OF s'] cn'(1)] cn'(2) cn(2) by (simp add: same_link_def)
    then show "runs_to (rsteps b) (Some (relay_send (rl_socket cn) data (fst (rl_addr_pair cn)) s')) s'"
      by (rule runs_toI [OF refl])
  qed
qed

lemma relay_SendStun_Some:
  "IsValidTransactionId (sm_tid msg) \<Longrightarrow> \<exists>d. relay_SendStun msg k a s = Some (relay_send k d a s)"
  using message_write_ok [of msg "ByteBuffer_empty ORDER_NETWORK"] by (auto simp: relay_SendStun_def)

lemma link_SendStun_runs:
  assumes "relay_ok s" "link_of b c s" "IsValidTransactionId (sm_tid msg)"
  shows "runs_to (rsteps b) (link_SendStun now c msg s) s"
proof -
  obtain d where "message_write msg (ByteBuffer_empty ORDER_NETWORK) = Some d" using message_write_ok [OF assms(3)] by blast
  then have "link_SendStun now c msg s = link_Send now c (Data d) s"
    by (simp add: link_SendStun_def link_Send_def relay_SendStun_def)
  then show ?thesis using link_Send_runs [OF assms(1,2)] by simp
qed

lemma tid_SetTransactionID [simp]: "IsValidTransactionId t \<Longrightarrow> sm_tid (snd (SetTransactionID t m)) = t"
  by (simp add: SetTransactionID_def)

lemma tid_AddAttribute [simp]: "sm_tid (AddAttribute t m) = sm_tid m"
  by (simp add: AddAttribute_def)

lemma tid_SetMessageType [simp]: "sm_tid (SetMessageType ty m) = sm_tid m"
  by (simp add: SetMessageType_def)

lemma magic_cookie_attr_Some: "\<exists>t. magic_cookie_attr cookie = Some t"
  by (simp add: magic_cookie_attr_def CreateByteString_def)

lemma relay_error_Some:
  assumes "IsValidTransactionId (sm_tid msg)"
  shows "\<exists>m. relay_error msg code desc cookie = Some m \<and> IsValidTransactionId (sm_tid m)"
proof -
  obtain t where "magic_cookie_attr (if length cookie = 0 then TURN_MAGIC_COOKIE_VALUE else cookie) = Some t"
    using magic_cookie_attr_Some by blast
  then show ?thesis using assms by (simp add: relay_error_def Let_def)
qed

lemma SendStunError_Some:
  "IsValidTransactionId (sm_tid msg) \<Longrightarrow> \<exists>d. SendStunError msg k a code desc cookie s = Some (relay_send k d a s)"
  using relay_error_Some [of msg code desc cookie] relay_SendStun_Some [of _ k a s] by (fastforce simp: SendStunError_def)

lemma link_SendStunError_runs:
  assumes "relay_ok s" "link_of b c s" "IsValidTransactionId (sm_tid msg)"
  shows "runs_to (rsteps b) (link_SendStunError c msg code desc s) s"
proof -
  obtain cn where cn: "rs_conn_at s c = Some cn" "rl_binding cn = b" using assms(2) unfolding link_of_def by blast
  obtain bd where bd: "rs_binding_at s b = Some bd" using link_binding [OF assms(1) cn(1)] cn(2) by blast
  obtain d where d: "SendStunError msg (rl_socket cn) (fst (rl_addr_pair cn)) code desc (rb_magic_cookie bd) s
      = Some (relay_send (rl_socket cn) d (fst (rl_addr_pair cn)) s)"
    using SendStunError_Some [OF assms(3)] by blast
  show ?thesis unfolding link_SendStunError_def cn bd bind.bind_lunit d
    using rsteps_send [OF assms(1) cn(1)] cn(2) by (auto intro: runs_toI [OF refl])
qed

lemma data_indication_Some:
  assumes "length data \<le> 65536"
  shows "\<exists>m. data_indication cookie data a = Some m \<and> IsValidTransactionId (sm_tid m)"
proof -
  obtain t where "magic_cookie_attr cookie = Some t" using magic_cookie_attr_Some by blast
  then show ?thesis using assms
    by (simp add: data_indication_def Let_def ASSERT_def CreateAddress_def CreateByteString_def StunMessage_def
        EMPTY_TRANSACTION_ID_def IsValidTransactionId_def kStunLegacyTransactionIdLength_def)
qed

lemma link_SendFrom_runs:
  assumes "relay_ok s" "link_of b c s" "length data \<le> 65536"
  shows "runs_to (rsteps b) (link_SendFrom now c data a s) s"
proof -
  obtain cn where cn: "rs_conn_at s c = Some cn" "rl_binding cn = b" using assms(2) unfolding link_of_def by blast
  obtain bd where bd: "rs_binding_at s b = Some bd" using link_binding [OF assms(1) cn(1)] cn(2) by blast
  obtain m where m: "data_indication (rb_magic_cookie bd) data a = Some m" "IsValidTransactionId (sm_tid m)"
    using data_indication_Some [OF assms(3)] by blast
  show ?thesis unfolding link_SendFrom_def cn bd bind.bind_lunit m(1)
    using link_Send_runs [OF assms(1,2)] link_SendStun_runs [OF assms(1,2) m(2)] by simp
qed

lemma link_Lock_runs:
  assumes "relay_ok s" "link_of b c s"
  shows "runs_to (rsteps x) (link_Lock c s) s"
  using assms rsteps_put_link [OF assms(1)] by (auto simp: link_of_def link_Lock_def same_link_def runs_to_def)

lemma set_default_destination_runs:
  assumes "relay_ok s" "link_of b c s"
  shows "runs_to (rsteps x) (set_default_destination c a s) s"
  using assms rsteps_put_link [OF assms(1)] by (auto simp: link_of_def set_default_destination_def same_link_def runs_to_def)

section \<open>Finding connections\<close>

lemma find_link_Some:
  "\<forall>c \<in> set cs. rs_conn_at s c \<noteq> None \<Longrightarrow>
    \<exists>r. find_link test cs s = Some r \<and> (\<forall>c. r = Some c \<longrightarrow> c \<in> set cs \<and> (\<exists>cn. rs_conn_at s c = Some cn \<and> test cn))
      \<and> (r = None \<longrightarrow> (\<forall>c \<in> set cs. \<forall>cn. rs_conn_at s c = Some cn \<longrightarrow> \<not> test cn))"
  by (induction cs) auto

lemma GetInternalConnection_Some:
  assumes "relay_ok s" "rs_binding_at s b = Some bd"
  shows "\<exists>c. GetInternalConnection b a s = Some c \<and> c \<in> set (rb_internal bd) \<and> link_of b c s"
proof -
  note bd = inv_binding [OF assms]
  then have live: "\<forall>c \<in> set (rb_internal bd). link_of b c s" and ne: "rb_internal bd \<noteq> []"
    unfolding binding_ok_def binding_links_def link_of_def by auto
  then have "\<forall>c \<in> set (rb_internal bd). rs_conn_at s c \<noteq> None" unfolding link_of_def by auto
  then obtain r where r: "find_link (\<lambda>cn. rl_locked cn \<and> sa_equal a (rl_default_dest cn)) (rb_internal bd) s = Some r"
      "\<forall>c. r = Some c \<longrightarrow> c \<in> set (rb_internal bd)"
    using find_link_Some by blast
  then show ?thesis using assms(2) live ne
    by (cases r) (auto simp: GetInternalConnection_def ASSERT_def)
qed

lemma GetExternalConnection_Some:
  assumes "relay_ok s" "rs_binding_at s b = Some bd"
  shows "\<exists>r. GetExternalConnection b a s = Some r \<and> (\<forall>c. r = Some c \<longrightarrow> c \<in> set (rb_external bd) \<and> link_of b c s)
    \<and> (r = None \<longrightarrow> (\<forall>c \<in> set (rb_external bd). \<forall>cn. rs_conn_at s c = Some cn \<longrightarrow> \<not> sa_equal a (fst (rl_addr_pair cn))))"
proof -
  note bd = inv_binding [OF assms]
  then have live: "\<forall>c \<in> set (rb_external bd). link_of b c s"
    unfolding binding_ok_def binding_links_def link_of_def by auto
  then have "\<forall>c \<in> set (rb_external bd). rs_conn_at s c \<noteq> None" unfolding link_of_def by auto
  from find_link_Some [OF this, of "\<lambda>cn. sa_equal a (fst (rl_addr_pair cn))"] show ?thesis
    using assms(2) live by (auto simp: GetExternalConnection_def)
qed

end
