(* ===== verification/Relay_Steps.thy ===== *)
theory Relay_Steps
  imports Relay_Proofs
begin

text \<open>
  Each operation of the relay server keeps the invariant and does not fail: new connections and
  bindings, STUN requests, packets from both sides, timers and the deletion of bindings.
\<close>

section \<open>New connections\<close>

definition new_link :: "nat \<Rightarrow> addr_pair \<Rightarrow> nat \<Rightarrow> relay_conn" where
  "new_link b ap k = \<lparr>rl_binding = b, rl_addr_pair = ap, rl_socket = k, rl_locked = False, rl_default_dest = SocketAddress\<rparr>"

definition filed_in :: "bool \<Rightarrow> u32 \<Rightarrow> nat \<Rightarrow> relay_binding \<Rightarrow> relay_binding" where
  "filed_in internal now c bd =
     (if internal then bd\<lparr>rb_last_used := now, rb_internal := rb_internal bd @ [c]\<rparr>
      else bd\<lparr>rb_last_used := now, rb_external := rb_external bd @ [c]\<rparr>)"

definition with_link :: "bool \<Rightarrow> u32 \<Rightarrow> nat \<Rightarrow> relay_binding \<Rightarrow> addr_pair \<Rightarrow> nat \<Rightarrow> relay_server \<Rightarrow> relay_server" where
  "with_link internal now b bd ap k s =
     s\<lparr>rs_conn_at := (rs_conn_at s)(rs_next s \<mapsto> new_link b ap k), rs_next := rs_next s + 1,
       rs_binding_at := (rs_binding_at s)(b \<mapsto> filed_in internal now (rs_next s) bd),
       rs_connections := smap_set addr_pair_less ap (rs_next s) (rs_connections s)\<rparr>"

lemma new_connection:
  assumes "rs_binding_at s b = Some bd" "smap_find addr_pair_less ap (rs_connections s) = None"
  shows "RelayServerConnection now b ap k s \<bind> (\<lambda>(c, s). AddInternalConnection b c s \<bind> (\<lambda>s. relay_AddConnection c s \<bind> f c))
      = f (rs_next s) (with_link True now b bd ap k s)"
    and "RelayServerConnection now b ap k s \<bind> (\<lambda>(c, s). AddExternalConnection b c s \<bind> (\<lambda>s. relay_AddConnection c s \<bind> f c))
      = f (rs_next s) (with_link False now b bd ap k s)"
  using assms
  by (simp_all add: RelayServerConnection_def NoteUsed_def put_link_def put_binding_def AddInternalConnection_def
      AddExternalConnection_def relay_AddConnection_def ASSERT_def with_link_def new_link_def filed_in_def Let_def)

lemma with_link_fields:
  "rs_bindings (with_link i now b bd ap k s) = rs_bindings s"
  "rs_thread (with_link i now b bd ap k s) = rs_thread s"
  "rs_next (with_link i now b bd ap k s) = rs_next s + 1"
  "rs_sent (with_link i now b bd ap k s) = rs_sent s"
  "rs_internal_sockets (with_link i now b bd ap k s) = rs_internal_sockets s"
  "rs_external_sockets (with_link i now b bd ap k s) = rs_external_sockets s"
  "rs_server_sockets (with_link i now b bd ap k s) = rs_server_sockets s"
  "rs_conn_at (with_link i now b bd ap k s) c = (if c = rs_next s then Some (new_link b ap k) else rs_conn_at s c)"
  "rs_binding_at (with_link i now b bd ap k s) x
     = (if x = b then Some (filed_in i now (rs_next s) bd) else rs_binding_at s x)"
  "smap_find addr_pair_less ap' (rs_connections (with_link i now b bd ap k s))
     = (if pair_equal ap' ap then Some (rs_next s) else smap_find addr_pair_less ap' (rs_connections s))"
  "smap_sorted addr_pair_less (rs_connections s) \<Longrightarrow> smap_sorted addr_pair_less (rs_connections (with_link i now b bd ap k s))"
  by (simp_all add: with_link_def pair.find_set pair.set_sorted pair_equivalent)

lemma filed_in_fields:
  "rb_username (filed_in i now c bd) = rb_username bd"
  "rb_magic_cookie (filed_in i now c bd) = rb_magic_cookie bd"
  "rb_internal (filed_in i now c bd) = rb_internal bd @ (if i then [c] else [])"
  "set (binding_links (filed_in i now c bd)) = insert c (set (binding_links bd))"
  "distinct (binding_links (filed_in i now c bd)) \<longleftrightarrow> distinct (binding_links bd) \<and> c \<notin> set (binding_links bd)"
  by (auto simp: filed_in_def binding_links_def)

lemma find_pair_cong:
  "pair_equal p q \<Longrightarrow> smap_find addr_pair_less p m = smap_find addr_pair_less q m"
  by (rule pair.find_cong) (simp_all add: pair_equivalent)

lemma find_pair_other:
  assumes "smap_find addr_pair_less p m = Some c" "smap_find addr_pair_less q m = None"
  shows "\<not> pair_equal p q"
  using assms find_pair_cong [of p q m] by auto

lemma fresh_link: "relay_inv E s \<Longrightarrow> rs_conn_at s (rs_next s) = None"
  using inv_link [of E s "rs_next s"] by (cases "rs_conn_at s (rs_next s)") (auto simp: link_ok_def)

lemma inv_with_link:
  assumes inv: "relay_inv E s" and b: "rs_binding_at s b = Some bd"
    and free: "smap_find addr_pair_less ap (rs_connections s) = None"
  shows "relay_inv (if i then E - {b} else E) (with_link i now b bd ap k s)" (is "relay_inv ?E ?s")
proof -
  let ?c = "rs_next s"
  have new: "rs_conn_at s ?c = None" by (rule fresh_link [OF inv])
  note bd = inv_binding [OF inv b, unfolded binding_ok_def]
  have notin: "?c \<notin> set (binding_links bd)" using binding_link [OF inv b] new by fastforce
  have "binding_ok ?E ?s x y" if y: "rs_binding_at ?s x = Some y" for x y
  proof (cases "x = b")
    case True
    then have "y = filed_in i now ?c bd" using y by (simp add: with_link_fields)
    then show ?thesis using bd notin True new
      by (auto simp: binding_ok_def with_link_fields filed_in_fields new_link_def)
  next
    case False
    then have "binding_ok E s x y" using y inv_binding [OF inv] by (simp add: with_link_fields)
    then show ?thesis using False new by (auto simp: binding_ok_def with_link_fields)
  qed
  moreover have "link_ok ?s c cn" if cn: "rs_conn_at ?s c = Some cn" for c cn
  proof (cases "c = ?c")
    case True
    then have "cn = new_link b ap k" using cn by (simp add: with_link_fields)
    then show ?thesis using True by (auto simp: link_ok_def with_link_fields filed_in_fields new_link_def)
  next
    case False
    then have ok: "link_ok s c cn" using cn inv_link [OF inv] by (simp add: with_link_fields)
    then have "\<not> pair_equal (rl_addr_pair cn) ap" 
      using find_pair_other [OF _ free] unfolding link_ok_def by blast
    then show ?thesis using ok b False by (auto simp: link_ok_def with_link_fields filed_in_fields)
  qed
  moreover have "\<exists>y. rs_binding_at ?s x = Some y \<and> rb_username y = u" if "smap_find str_less u (rs_bindings ?s) = Some x" for u x
    using inv_find_binding [OF inv, of u x] that b by (auto simp: with_link_fields filed_in_fields)
  moreover have "\<exists>y. rs_conn_at ?s x = Some y \<and> pair_equal q (rl_addr_pair y)"
    if "smap_find addr_pair_less q (rs_connections ?s) = Some x" for q x
    using inv_find_link [OF inv, of q x] that new by (auto simp: with_link_fields new_link_def split: if_splits)
  moreover have "dom (rs_binding_at ?s) = dom (rs_binding_at s)" using b by (auto simp: with_link_fields split: if_splits)
  ultimately show ?thesis using inv unfolding relay_inv_def by (auto simp: with_link_fields)
qed

lemma grows_with_link:
  assumes "relay_inv E s" "rs_binding_at s b = Some bd" "smap_find addr_pair_less ap (rs_connections s) = None"
  shows "grows x s (with_link i now b bd ap k s)"
proof -
  have new: "rs_conn_at s (rs_next s) = None" by (rule fresh_link [OF assms(1)])
  have "\<not> pair_equal q ap" if "smap_find addr_pair_less q (rs_connections s) = Some c" for q c
    by (rule find_pair_other [OF that assms(3)])
  then show ?thesis unfolding grows_def
    by (intro conjI) (use assms(2) new in \<open>auto simp: with_link_fields filed_in_fields\<close>)
qed

lemma link_of_with_link: "link_of b (rs_next s) (with_link i now b bd ap k s)"
  by (simp add: link_of_def with_link_fields new_link_def)

section \<open>New bindings\<close>

definition new_binding :: "u32 \<Rightarrow> bytes \<Rightarrow> u32 \<Rightarrow> relay_binding" where
  "new_binding now u lifetime = \<lparr>rb_username = u, rb_password = ascii ''0'', rb_magic_cookie = TURN_MAGIC_COOKIE_VALUE,
     rb_internal = [], rb_external = [], rb_lifetime = lifetime, rb_last_used = now\<rparr>"

definition with_binding :: "u32 \<Rightarrow> bytes \<Rightarrow> u32 \<Rightarrow> relay_server \<Rightarrow> relay_server" where
  "with_binding now u lifetime s =
     s\<lparr>rs_binding_at := (rs_binding_at s)(rs_next s \<mapsto> new_binding now u lifetime), rs_next := rs_next s + 1,
       rs_bindings := smap_set str_less u (rs_next s) (rs_bindings s),
       rs_thread := rs_thread s @ [LifetimeTimer lifetime (rs_next s)]\<rparr>"

lemma with_binding_fields:
  "rs_connections (with_binding now u l s) = rs_connections s"
  "rs_next (with_binding now u l s) = rs_next s + 1"
  "rs_sent (with_binding now u l s) = rs_sent s"
  "rs_internal_sockets (with_binding now u l s) = rs_internal_sockets s"
  "rs_external_sockets (with_binding now u l s) = rs_external_sockets s"
  "rs_server_sockets (with_binding now u l s) = rs_server_sockets s"
  "rs_conn_at (with_binding now u l s) = rs_conn_at s"
  "rs_binding_at (with_binding now u l s) x = (if x = rs_next s then Some (new_binding now u l) else rs_binding_at s x)"
  "smap_find str_less v (rs_bindings (with_binding now u l s))
     = (if v = u then Some (rs_next s) else smap_find str_less v (rs_bindings s))"
  "smap_sorted str_less (rs_bindings s) \<Longrightarrow> smap_sorted str_less (rs_bindings (with_binding now u l s))"
  "map message_binding (rs_thread (with_binding now u l s)) = map message_binding (rs_thread s) @ [rs_next s]"
  by (simp_all add: with_binding_def str.find_set str.set_sorted str_equivalent message_binding_def)

lemma fresh_binding: "relay_inv E s \<Longrightarrow> rs_binding_at s (rs_next s) = None"
  using inv_binding [of E s "rs_next s"] by (cases "rs_binding_at s (rs_next s)") (auto simp: binding_ok_def)

lemma inv_with_binding:
  assumes inv: "relay_ok s" and free: "smap_find str_less u (rs_bindings s) = None"
  shows "relay_inv {rs_next s} (with_binding now u l s)" (is "relay_inv ?E ?s")
proof -
  have new: "rs_binding_at s (rs_next s) = None" by (rule fresh_binding [OF inv])
  have "binding_ok ?E ?s x y" if y: "rs_binding_at ?s x = Some y" for x y
  proof (cases "x = rs_next s")
    case True
    then show ?thesis using y by (auto simp: binding_ok_def with_binding_fields new_binding_def binding_links_def)
  next
    case False
    then have ok: "binding_ok {} s x y" using y inv_binding [OF inv] by (simp add: with_binding_fields)
    then have "rb_username y \<noteq> u" using free by (auto simp: binding_ok_def)
    then show ?thesis using ok by (auto simp: binding_ok_def with_binding_fields)
  qed
  moreover have "link_ok ?s c cn" if "rs_conn_at ?s c = Some cn" for c cn
    using inv_link [OF inv, of c cn] that new by (auto simp: link_ok_def with_binding_fields)
  moreover have "\<exists>y. rs_binding_at ?s x = Some y \<and> rb_username y = v" if "smap_find str_less v (rs_bindings ?s) = Some x" for v x
    using inv_find_binding [OF inv, of v x] that new by (auto simp: with_binding_fields new_binding_def split: if_splits)
  moreover have "\<exists>y. rs_conn_at ?s x = Some y \<and> pair_equal q (rl_addr_pair y)"
    if "smap_find addr_pair_less q (rs_connections ?s) = Some x" for q x
    using inv_find_link [OF inv, of q x] that by (simp add: with_binding_fields)
  moreover have "distinct (map message_binding (rs_thread ?s))" "message_binding ` set (rs_thread ?s) = dom (rs_binding_at ?s)"
  proof -
    have d: "distinct (map message_binding (rs_thread s))" "message_binding ` set (rs_thread s) = dom (rs_binding_at s)"
      using inv by (simp_all add: relay_inv_def)
    then have "rs_next s \<notin> set (map message_binding (rs_thread s))" using new by auto
    then show "distinct (map message_binding (rs_thread ?s))" using d(1) unfolding with_binding_fields by simp
    have "set (map message_binding (rs_thread ?s)) = insert (rs_next s) (dom (rs_binding_at s))"
      using d(2) unfolding with_binding_fields by simp
    moreover have "dom (rs_binding_at ?s) = insert (rs_next s) (dom (rs_binding_at s))"
      by (auto simp: with_binding_fields split: if_splits)
    ultimately show "message_binding ` set (rs_thread ?s) = dom (rs_binding_at ?s)" by (simp only: set_map)
  qed
  ultimately show ?thesis using inv unfolding relay_inv_def by (auto simp: with_binding_fields)
qed

lemma grows_with_binding:
  assumes "relay_ok s"
  shows "grows x s (with_binding now u l s)"
  using fresh_binding [OF assms] by (auto simp: grows_def with_binding_fields)

section \<open>STUN requests\<close>

text \<open>What a message that was read has: a valid id, and attributes of the class and size that the handlers read.\<close>

lemma read_string:
  assumes "message_read StunMessage b = Some (ok, msg, b')" "GetByteString ty msg = Some (Some t)"
  shows "\<exists>u. attr_string t = Some u \<and> length u = unat (at_length t)"
proof -
  have get: "GetAttribute ty msg = Some t" and ty: "class_of_type ty = Some CBytes"
    using assms(2) by (auto simp: GetByteString_def class_of_type_def attr_codes split: if_splits)
  have "t \<in> set (sm_attrs msg)" using get by (auto simp: GetAttribute_def find_Some_iff)
  then have fill: "attr_filled t"
    using message_read_filled [OF assms(1)] by (simp add: StunMessage_def list_all_iff)
  have "list_all attr_typed (sm_attrs msg)"
    by (rule message_read_typed [OF assms(1)]) (simp add: StunMessage_def)
  then have "class_of_type ty = Some (body_class (at_body t))" using get by (rule GetAttribute_typed)
  then have "body_class (at_body t) = CBytes" using ty by simp
  then show ?thesis using fill
    by (cases "at_body t") (auto simp: body_class_def attr_filled_def attr_string_def)
qed

lemma read_value:
  assumes "message_read StunMessage b = Some (ok, msg, b')" "GetUInt32 ty msg = Some (Some t)"
  shows "\<exists>v. attr_value t = Some v"
proof -
  have get: "GetAttribute ty msg = Some t" and ty: "class_of_type ty = Some CUInt32"
    using assms(2) by (auto simp: GetUInt32_def class_of_type_def attr_codes split: if_splits)
  have "list_all attr_typed (sm_attrs msg)"
    by (rule message_read_typed [OF assms(1)]) (simp add: StunMessage_def)
  then have "class_of_type ty = Some (body_class (at_body t))" using get by (rule GetAttribute_typed)
  then show ?thesis using ty by (cases "at_body t") (auto simp: body_class_def attr_value_def)
qed

lemma read_address:
  assumes "message_read StunMessage b = Some (ok, msg, b')" "GetAddress STUN_ATTR_DESTINATION_ADDRESS msg = Some (Some t)"
  shows "\<exists>a. attr_address t = Some a"
proof -
  have get: "GetAttribute STUN_ATTR_DESTINATION_ADDRESS msg = Some t"
    using assms(2) by (simp add: GetAddress_def attr_codes)
  have "list_all attr_typed (sm_attrs msg)"
    by (rule message_read_typed [OF assms(1)]) (simp add: StunMessage_def)
  then have "class_of_type STUN_ATTR_DESTINATION_ADDRESS = Some (body_class (at_body t))" using get by (rule GetAttribute_typed)
  then have "body_class (at_body t) = CAddress" by (simp add: class_of_type_def attr_codes)
  then show ?thesis by (cases "at_body t") (auto simp: body_class_def attr_address_def)
qed

lemma read_tid: "message_read StunMessage b = Some (ok, msg, b') \<Longrightarrow> IsValidTransactionId (sm_tid msg)"
  by (rule message_read_tid, assumption)
     (simp add: StunMessage_def EMPTY_TRANSACTION_ID_def IsValidTransactionId_def kStunLegacyTransactionIdLength_def)

text \<open>The outcome of parsing a request: a reply to the sender, or a request with its user name.\<close>

definition parsed :: "bytes \<Rightarrow> stun_message \<Rightarrow> bool" where
  "parsed data msg \<longleftrightarrow> (\<exists>b'. message_read StunMessage (ByteBuffer_of data ORDER_NETWORK) = Some (True, msg, b'))"

lemma HandleStun_cases:
  obtains (replied) d where "relay_HandleStun data a k s = Some (None, relay_send k d a s)"
  | (request) msg u t where "relay_HandleStun data a k s = Some (Some (msg, u), s)" "parsed data msg"
      "GetByteString STUN_ATTR_USERNAME msg = Some (Some t)" "attr_string t = Some u"
proof -
  obtain ok msg b' where r: "message_read StunMessage (ByteBuffer_of data ORDER_NETWORK) = Some (ok, msg, b')"
    using message_read_facts by blast
  note tid = read_tid [OF r]
  show thesis
  proof (cases ok)
    case False
    obtain d where "SendStunError msg k a 400 (ascii ''Bad Request'') [] s = Some (relay_send k d a s)"
      using SendStunError_Some [OF tid] by blast
    then show thesis using replied r False by (simp add: relay_HandleStun_def)
  next
    case True
    obtain g where g: "GetByteString STUN_ATTR_USERNAME msg = Some g" by (simp add: GetByteString_def)
    show thesis
    proof (cases g)
      case None
      obtain d where "SendStunError msg k a 432 (ascii ''Missing Username'') [] s = Some (relay_send k d a s)"
        using SendStunError_Some [OF tid] by blast
      then show thesis using replied r True g None by (simp add: relay_HandleStun_def)
    next
      case (Some t)
      then obtain u where u: "attr_string t = Some u" using read_string [OF r, of STUN_ATTR_USERNAME t] g by blast
      then show thesis using request [of msg u t] r True g Some by (simp add: relay_HandleStun_def parsed_def)
    qed
  qed
qed

lemma allocate_response_Some:
  assumes "IsValidTransactionId (sm_tid msg)"
  shows "\<exists>m. allocate_response msg bd a = Some m \<and> IsValidTransactionId (sm_tid m)"
proof -
  obtain t where "magic_cookie_attr (rb_magic_cookie bd) = Some t" using magic_cookie_attr_Some by blast
  then show ?thesis using assms by (simp add: allocate_response_def Let_def CreateAddress_def CreateUInt32_def)
qed

lemma send_response_Some:
  assumes "IsValidTransactionId (sm_tid msg)"
  shows "\<exists>m. send_response msg bd = Some m \<and> IsValidTransactionId (sm_tid m)"
proof -
  obtain t where "magic_cookie_attr (rb_magic_cookie bd) = Some t" using magic_cookie_attr_Some by blast
  then show ?thesis using assms by (simp add: send_response_def Let_def CreateUInt32_def)
qed

lemma HandleStunAllocate_runs:
  assumes "relay_ok s" "link_of b c s" "IsValidTransactionId (sm_tid msg)" "rs_external_sockets s \<noteq> []"
  shows "runs_to (rsteps b) (HandleStunAllocate env c msg s) s"
proof -
  obtain cn where cn: "rs_conn_at s c = Some cn" "rl_binding cn = b" using assms(2) unfolding link_of_def by blast
  obtain bd where bd: "rs_binding_at s b = Some bd" using link_binding [OF assms(1) cn(1)] cn(2) by blast
  let ?a = "re_local env (rs_external_sockets s ! (re_rand env mod length (rs_external_sockets s)))"
  obtain m where m: "allocate_response msg bd ?a = Some m" "IsValidTransactionId (sm_tid m)"
    using allocate_response_Some [OF assms(3)] by blast
  show ?thesis unfolding HandleStunAllocate_def cn bd bind.bind_lunit Let_def
    using link_SendStun_runs [OF assms(1,2) m(2)] assms(4) m(1) by (simp add: ASSERT_def)
qed

lemma lock_destination_runs:
  assumes "relay_ok s" "link_of b c s" "parsed data msg"
  shows "runs_to (rsteps b) (lock_destination env c msg a s) s"
proof -
  obtain b' where r: "message_read StunMessage (ByteBuffer_of data ORDER_NETWORK) = Some (True, msg, b')"
    using assms(3) unfolding parsed_def by blast
  obtain g where g: "GetUInt32 STUN_ATTR_OPTIONS msg = Some g" by (simp add: GetUInt32_def)
  obtain v where v: "(case g of None \<Rightarrow> Some 0 | Some t \<Rightarrow> attr_value t) = Some v"
    using read_value [OF r, of STUN_ATTR_OPTIONS] g by (cases g) auto
  have last: "runs_to (rsteps b) (do { cn \<leftarrow> rs_conn_at s2 c; bd \<leftarrow> rs_binding_at s2 (rl_binding cn);
      response \<leftarrow> send_response msg bd; link_SendStun (re_now env) c response s2 }) s2"
    if s2: "relay_ok s2" "link_of b c s2" for s2
  proof -
    obtain cn where cn: "rs_conn_at s2 c = Some cn" "rl_binding cn = b" using s2(2) unfolding link_of_def by blast
    obtain bd where bd: "rs_binding_at s2 b = Some bd" using link_binding [OF s2(1) cn(1)] cn(2) by blast
    obtain m where m: "send_response msg bd = Some m" "IsValidTransactionId (sm_tid m)"
      using send_response_Some [OF read_tid [OF r]] by blast
    show ?thesis unfolding cn bd bind.bind_lunit m(1) by (rule link_SendStun_runs [OF s2 m(2)])
  qed
  have "runs_to (rsteps b) (set_default_destination c a s \<bind> (\<lambda>s. link_Lock c s \<bind> (\<lambda>s. rs_conn_at s c \<bind>
      (\<lambda>cn. rs_binding_at s (rl_binding cn) \<bind> (\<lambda>bd. send_response msg bd \<bind> (\<lambda>response. link_SendStun (re_now env) c response s)))))) s"
  proof (rule relay.runs_bind [OF set_default_destination_runs [OF assms(1,2)]])
    fix s1 assume s1: "rsteps b s s1"
    note l1 = link_of_steps [OF assms(2) s1]
    show "runs_to (rsteps b) (link_Lock c s1 \<bind> (\<lambda>s. rs_conn_at s c \<bind> (\<lambda>cn. rs_binding_at s (rl_binding cn) \<bind>
      (\<lambda>bd. send_response msg bd \<bind> (\<lambda>response. link_SendStun (re_now env) c response s))))) s1"
      by (rule relay.runs_bind [OF link_Lock_runs [OF rsteps_ok [OF s1] l1]]) (use last link_of_steps [OF l1] rsteps_ok in blast)
  qed
  then show ?thesis unfolding lock_destination_def g bind.bind_lunit v
    using rsteps_refl [OF assms(1)] by (auto intro: runs_toI [OF refl])
qed

section \<open>Send requests\<close>

text \<open>No connection but an external one of this binding has the address as its peer on the external socket.\<close>

definition dest_free :: "relay_env \<Rightarrow> nat \<Rightarrow> sock_addr \<Rightarrow> relay_server \<Rightarrow> bool" where
  "dest_free env b a s =
     (case smap_find addr_pair_less (a, re_local env (rs_external_sockets s ! 0)) (rs_connections s) of
        None \<Rightarrow> True
      | Some c \<Rightarrow> (case rs_binding_at s b of None \<Rightarrow> True | Some bd \<Rightarrow> c \<in> set (rb_external bd)))"

lemma external_for_runs:
  assumes ok: "relay_ok s" and b: "rs_binding_at s b = Some bd" and one: "length (rs_external_sockets s) = 1"
    and dest: "dest_free env b a s"
  shows "runs_val (rsteps b) (external_for env b a s) s (\<lambda>c s'. link_of b c s')"
proof -
  obtain r where r: "GetExternalConnection b a s = Some r" "\<And>c. r = Some c \<Longrightarrow> link_of b c s"
      "r = None \<Longrightarrow> \<forall>c \<in> set (rb_external bd). \<forall>cn. rs_conn_at s c = Some cn \<longrightarrow> \<not> sa_equal a (fst (rl_addr_pair cn))"
    using GetExternalConnection_Some [OF ok b] by blast
  show ?thesis
  proof (cases r)
    case (Some c)
    then show ?thesis using r rsteps_refl [OF ok] by (auto simp: external_for_def intro: runs_valI)
  next
    case None
    let ?ap = "(a, re_local env (rs_external_sockets s ! 0))"
    have free: "smap_find addr_pair_less ?ap (rs_connections s) = None"
    proof (cases "smap_find addr_pair_less ?ap (rs_connections s)")
      case (Some c)
      obtain cn where cn: "rs_conn_at s c = Some cn" "pair_equal ?ap (rl_addr_pair cn)" using inv_find_link [OF ok Some] by blast
      have "c \<in> set (rb_external bd)" using dest b Some by (simp add: dest_free_def)
      moreover have "sa_equal a (fst (rl_addr_pair cn))" using cn(2) by (simp add: pair_equal_def)
      ultimately show ?thesis using r(3) [OF None] cn(1) by blast
    qed
    let ?s = "with_link False (re_now env) b bd ?ap (rs_external_sockets s ! 0) s"
    have "external_for env b a s = Some (rs_next s, ?s)"
      using r(1) None one new_connection(2) [OF b free, of "re_now env" "rs_external_sockets s ! 0" "\<lambda>c s. Some (c, s)"]
      by (simp add: external_for_def ASSERT_def Let_def)
    moreover have "rsteps b s ?s"
      using inv_with_link [OF ok b free, of False] grows_with_link [OF ok b free] by (simp add: rsteps_def)
    ultimately show ?thesis using link_of_with_link by (rule runs_valI)
  qed
qed

text \<open>This holds for the destination of a request.\<close>

definition destinations_free :: "relay_env \<Rightarrow> bytes \<Rightarrow> nat \<Rightarrow> relay_server \<Rightarrow> bool" where
  "destinations_free env data b s =
     (case message_read StunMessage (ByteBuffer_of data ORDER_NETWORK) of
        Some (True, msg, _) \<Rightarrow>
          (case GetAddress STUN_ATTR_DESTINATION_ADDRESS msg of
             Some (Some t) \<Rightarrow> (case attr_address t of
                 None \<Rightarrow> True | Some a \<Rightarrow> dest_free env b (SocketAddress_of (sa_ip a) (sa_port a)) s)
           | _ \<Rightarrow> True)
      | _ \<Rightarrow> True)"

lemma HandleStunSend_runs:
  assumes ok: "relay_ok s" and l: "link_of b c s" and p: "parsed data msg" and one: "length (rs_external_sockets s) = 1"
    and dest: "destinations_free env data b s"
  shows "runs_to (rsteps b) (HandleStunSend env c msg s) s"
proof -
  obtain b' where r: "message_read StunMessage (ByteBuffer_of data ORDER_NETWORK) = Some (True, msg, b')"
    using p unfolding parsed_def by blast
  obtain g h where g: "GetAddress STUN_ATTR_DESTINATION_ADDRESS msg = Some g" "GetByteString STUN_ATTR_DATA msg = Some h"
    by (simp add: GetAddress_def GetByteString_def attr_codes)
  show ?thesis
  proof (cases "g = None \<or> h = None")
    case True
    then have "HandleStunSend env c msg s = link_SendStunError c msg 400 (ascii ''Bad Request'') s"
      using g by (auto simp: HandleStunSend_def split: option.split)
    then show ?thesis using link_SendStunError_runs [OF ok l read_tid [OF r]] by simp
  next
    case False
    then obtain t u where tu: "g = Some t" "h = Some u" by auto
    obtain a where a: "attr_address t = Some a" using read_address [OF r] g(1) tu(1) by blast
    obtain d where d: "attr_string u = Some d" using read_string [OF r] g(2) tu(2) by blast
    obtain cn where cn: "rs_conn_at s c = Some cn" "rl_binding cn = b" using l unfolding link_of_def by blast
    obtain bd where bd: "rs_binding_at s b = Some bd" using link_binding [OF ok cn(1)] cn(2) by blast
    let ?a = "SocketAddress_of (sa_ip a) (sa_port a)"
    have ext: "runs_val (rsteps b) (external_for env b ?a s) s (\<lambda>c s'. link_of b c s')"
      by (rule external_for_runs [OF ok bd one]) (use dest r g tu a in \<open>auto simp: destinations_free_def\<close>)
    show ?thesis unfolding HandleStunSend_def g tu bind.bind_lunit prod.case option.case a d cn Let_def
    proof (rule relay.val_runs_bind [OF ext])
      fix e s1 assume s1: "rsteps b s s1" "link_of b e s1"
      note ok1 = rsteps_ok [OF s1(1)]
      obtain en where en: "rs_conn_at s1 e = Some en" using s1(2) unfolding link_of_def by blast
      have send: "runs_to (rsteps b) (if rl_locked en then link_Send (re_now env) e d s1 else Some s1) s1"
        using link_Send_runs [OF ok1 s1(2)] rsteps_refl [OF ok1] by (simp add: runs_to_def)
      have "runs_to (rsteps b) (lock_destination env c msg ?a s2) s2" if "rsteps b s1 s2" for s2
        by (rule lock_destination_runs [OF rsteps_ok [OF that] link_of_steps [OF link_of_steps [OF l s1(1)] that] p])
      then show "runs_to (rsteps b) (case (e, s1) of (ext_conn, s) \<Rightarrow> rs_conn_at s ext_conn \<bind> (\<lambda>ext.
          (if rl_locked ext then link_Send (re_now env) ext_conn d s else Some s) \<bind> lock_destination env c msg ?a)) s1"
        unfolding prod.case en bind.bind_lunit by (rule relay.runs_bind [OF send])
    qed
  qed
qed

text \<open>A request of a client that has a connection.\<close>

lemma HandleStun_conn_runs:
  assumes ok: "relay_ok s" and l: "link_of b c s" and one: "length (rs_external_sockets s) = 1"
    and dest: "destinations_free env data b s"
  shows "runs_to (rsteps b) (HandleStun_conn env c data s) s"
proof -
  obtain cn where cn: "rs_conn_at s c = Some cn" "rl_binding cn = b" using l unfolding link_of_def by blast
  obtain bd where bd: "rs_binding_at s b = Some bd" using link_binding [OF ok cn(1)] cn(2) by blast
  show ?thesis
  proof (cases rule: HandleStun_cases [of data "fst (rl_addr_pair cn)" "rl_socket cn" s])
    case (replied d)
    then show ?thesis using cn rsteps_send [OF ok cn(1), of d]
      by (auto simp: HandleStun_conn_def intro: runs_toI [OF refl])
  next
    case (request msg u t)
    note tid = read_tid [of _ True msg]
    have v: "IsValidTransactionId (sm_tid msg)" using request(2) tid unfolding parsed_def by blast
    have "rs_external_sockets s \<noteq> []" using one by auto
    then show ?thesis
      unfolding HandleStun_conn_def cn bind.bind_lunit request(1) prod.case option.case bd
      using link_SendStunError_runs [OF ok l v] HandleStunSend_runs [OF ok l request(2) one dest]
        HandleStunAllocate_runs [OF ok l v] by simp
  qed
qed

section \<open>Packets\<close>

text \<open>
  The outcome of a packet that came from an address to a socket: nothing, an answer to the sender, or
  steps of the binding to which the sender's connection belongs.
\<close>

definition packet_step :: "relay_env \<Rightarrow> nat \<Rightarrow> sock_addr \<Rightarrow> relay_server \<Rightarrow> relay_server \<Rightarrow> bool" where
  "packet_step env k a s s' \<longleftrightarrow> s' = s \<or> (\<exists>d. s' = relay_send k d a s)
     \<or> (\<exists>c cn. smap_find addr_pair_less (a, re_local env k) (rs_connections s') = Some c \<and> rs_conn_at s' c = Some cn
          \<and> rsteps (rl_binding cn) s s')"

lemma packet_step_ok: "relay_ok s \<Longrightarrow> packet_step env k a s s' \<Longrightarrow> relay_ok s'"
  by (auto simp: packet_step_def rsteps_def relay_send_def)

lemma packet_step_reply: "packet_step env k a s (relay_send k d a s)"
  unfolding packet_step_def by blast

lemma packet_step_refl: "packet_step env k a s s"
  unfolding packet_step_def by blast

lemma packet_stepI:
  assumes "rsteps b s s'" "smap_find addr_pair_less (a, re_local env k) (rs_connections s) = Some c" "link_of b c s"
  shows "packet_step env k a s s'"
proof -
  have "link_of b c s'" by (rule link_of_steps [OF assms(3,1)])
  moreover have "smap_find addr_pair_less (a, re_local env k) (rs_connections s') = Some c"
    using assms(1,2) unfolding rsteps_def grows_def by blast
  ultimately show ?thesis using assms(1) unfolding packet_step_def link_of_def by blast
qed

lemma binding_steps:
  "rs_binding_at s x = Some bd \<Longrightarrow> rsteps b s s' \<Longrightarrow> \<exists>bd'. rs_binding_at s' x = Some bd' \<and> rb_username bd' = rb_username bd"
  unfolding rsteps_def grows_def by blast

lemma grows_rsteps: "grows b s s' \<Longrightarrow> rsteps b s' s'' \<Longrightarrow> rsteps b s s''"
  using relay_grows_trans unfolding rsteps_def by blast

text \<open>A new connection, then steps of its binding.\<close>

lemma with_link_packet_step:
  assumes inv: "relay_inv E s1" and g: "\<And>b. grows b s s1" and b: "rs_binding_at s1 b = Some bd"
    and free: "smap_find addr_pair_less (a, re_local env k) (rs_connections s1) = None"
    and r: "runs_to (rsteps b) r (with_link i now b bd (a, re_local env k) k s1)"
  shows "runs_to (packet_step env k a) r s"
proof -
  let ?s2 = "with_link i now b bd (a, re_local env k) k s1"
  obtain s3 where s3: "r = Some s3" "rsteps b ?s2 s3" using r unfolding runs_to_def by blast
  have "grows b s ?s2" using relay_grows_trans [OF g grows_with_link [OF inv b free]] .
  then have step: "rsteps b s s3" using s3(2) by (rule grows_rsteps)
  have "smap_find addr_pair_less (a, re_local env k) (rs_connections s3) = Some (rs_next s1)"
    using s3(2) unfolding rsteps_def grows_def by (simp add: with_link_fields)
  moreover have "link_of b (rs_next s1) s3" by (rule link_of_steps [OF link_of_with_link s3(2)])
  ultimately have "packet_step env k a s s3" using step unfolding packet_step_def link_of_def by blast
  then show ?thesis using s3(1) by (simp add: runs_to_def)
qed

lemma find_or_create_binding_Some:
  assumes ok: "relay_ok s" and p: "parsed data msg"
  shows "\<exists>b s1 bd. find_or_create_binding env u msg s = Some (b, s1) \<and> relay_inv {b} s1 \<and> (\<forall>x. grows x s s1)
    \<and> rs_binding_at s1 b = Some bd \<and> rb_username bd = u \<and> rs_connections s1 = rs_connections s"
proof (cases "smap_find str_less u (rs_bindings s)")
  case None
  obtain b' where r: "message_read StunMessage (ByteBuffer_of data ORDER_NETWORK) = Some (True, msg, b')"
    using p unfolding parsed_def by blast
  obtain g where g: "GetUInt32 STUN_ATTR_LIFETIME msg = Some g" by (simp add: GetUInt32_def)
  obtain l where l: "(case g of None \<Rightarrow> Some MAX_LIFETIME | Some t \<Rightarrow> map_option (\<lambda>v. min MAX_LIFETIME (v * 1000)) (attr_value t)) = Some l"
    using read_value [OF r, of STUN_ATTR_LIFETIME] g by (cases g) auto
  have "find_or_create_binding env u msg s = Some (rs_next s, with_binding (re_now env) u l s)"
    using None g l by (simp add: find_or_create_binding_def RelayServerBinding_def Let_def put_binding_def with_binding_def new_binding_def)
  then show ?thesis using inv_with_binding [OF ok None, of "re_now env" l] grows_with_binding [OF ok]
    by (auto simp: with_binding_fields new_binding_def)
next
  case (Some b)
  have "relay_inv {b} s" using ok unfolding relay_inv_def binding_ok_def by simp
  then show ?thesis using Some inv_find_binding [OF ok Some] by (auto simp: find_or_create_binding_def)
qed

lemma HandleStunAllocate_new_runs:
  assumes ok: "relay_ok s" and free: "smap_find addr_pair_less (a, re_local env k) (rs_connections s) = None"
    and ext: "rs_external_sockets s \<noteq> []"
  shows "runs_to (packet_step env k a) (HandleStunAllocate_new env data (a, re_local env k) k s) s"
proof (cases rule: HandleStun_cases [of data a k s])
  case (replied d)
  then show ?thesis by (simp add: HandleStunAllocate_new_def runs_to_def packet_step_reply)
next
  case (request msg u t)
  have tid: "IsValidTransactionId (sm_tid msg)" using request(2) read_tid unfolding parsed_def by blast
  show ?thesis
  proof (cases "sm_type msg = STUN_ALLOCATE_REQUEST")
    case False
    obtain d where "SendStunError msg k a 600 (ascii ''Operation Not Supported'') [] s = Some (relay_send k d a s)"
      using SendStunError_Some [OF tid] by blast
    then show ?thesis using request(1) False
      by (simp add: HandleStunAllocate_new_def runs_to_def packet_step_reply)
  next
    case True
    obtain b s1 bd where f: "find_or_create_binding env u msg s = Some (b, s1)" "relay_inv {b} s1" "\<And>x. grows x s s1"
        "rs_binding_at s1 b = Some bd" "rs_connections s1 = rs_connections s"
      using find_or_create_binding_Some [OF ok request(2)] by blast
    have free1: "smap_find addr_pair_less (a, re_local env k) (rs_connections s1) = None" using free f(5) by simp
    let ?s2 = "with_link True (re_now env) b bd (a, re_local env k) k s1"
    have inv2: "relay_ok ?s2" using inv_with_link [OF f(2,4) free1, of True] by simp
    have ext2: "rs_external_sockets ?s2 \<noteq> []" using f(3) ext by (simp add: with_link_fields grows_def)
    have run: "HandleStunAllocate_new env data (a, re_local env k) k s = HandleStunAllocate env (rs_next s1) msg ?s2"
      unfolding HandleStunAllocate_new_def fst_conv request(1) bind.bind_lunit prod.case option.case f(1)
      using True new_connection(1) [OF f(4) free1, of "re_now env" k "\<lambda>c s. HandleStunAllocate env c msg s"] by simp
    show ?thesis unfolding run
      by (rule with_link_packet_step [OF f(2,3,4) free1 HandleStunAllocate_runs [OF inv2 link_of_with_link tid ext2]])
  qed
qed

lemma runs_existing:
  assumes "runs_to (rsteps b) r s" "smap_find addr_pair_less (a, re_local env k) (rs_connections s) = Some c" "link_of b c s"
  shows "runs_to (packet_step env k a) r s"
  using assms packet_stepI unfolding runs_to_def by blast

lemma OnInternalPacket_runs:
  assumes ok: "relay_ok s" and one: "length (rs_external_sockets s) = 1" and "\<not> IsAnyIP (re_local env k)"
    and dest: "\<And>c cn. smap_find addr_pair_less (a, re_local env k) (rs_connections s) = Some c \<Longrightarrow> rs_conn_at s c = Some cn
      \<Longrightarrow> destinations_free env data (rl_binding cn) s"
  shows "runs_to (packet_step env k a) (OnInternalPacket env k data a s) s"
proof (cases "smap_find addr_pair_less (a, re_local env k) (rs_connections s)")
  case None
  have "rs_external_sockets s \<noteq> []" using one by auto
  then show ?thesis using HandleStunAllocate_new_runs [OF ok None] None assms(3)
    by (simp add: OnInternalPacket_def ASSERT_def)
next
  case (Some c)
  obtain cn where cn: "rs_conn_at s c = Some cn" using inv_find_link [OF ok Some] by blast
  let ?b = "rl_binding cn"
  have l: "link_of ?b c s" using cn by (simp add: link_of_def)
  obtain bd where bd: "rs_binding_at s ?b = Some bd" using link_binding [OF ok cn] by blast
  obtain r where r: "GetExternalConnection ?b (rl_default_dest cn) s = Some r" "\<And>e. r = Some e \<Longrightarrow> link_of ?b e s"
    using GetExternalConnection_Some [OF ok bd] by blast
  have forward: "runs_to (rsteps ?b) (case r of None \<Rightarrow> Some s | Some e \<Rightarrow> rs_conn_at s e \<bind>
      (\<lambda>ext. if rl_locked ext then link_Send (re_now env) e data s else Some s)) s"
  proof (cases r)
    case (Some e)
    then obtain en where "rs_conn_at s e = Some en" using r(2) unfolding link_of_def by blast
    then show ?thesis using Some link_Send_runs [OF ok r(2)] rsteps_refl [OF ok] by (simp add: runs_to_def)
  qed (simp add: rsteps_refl [OF ok] runs_to_def)
  have "runs_to (rsteps ?b) (OnInternalPacket env k data a s) s"
    unfolding OnInternalPacket_def Let_def Some option.case cn bd bind.bind_lunit snd_conv r(1)
    using forward HandleStun_conn_runs [OF ok l one dest [OF Some cn]] rsteps_refl [OF ok] assms(3)
    by (simp add: ASSERT_def runs_to_def)
  then show ?thesis using runs_existing Some l by blast
qed

lemma join_binding_runs:
  assumes ok: "relay_ok s" and b: "rs_binding_at s b = Some bd" and len: "length data \<le> 65536"
    and free: "smap_find addr_pair_less (a, re_local env k) (rs_connections s) = None"
  shows "runs_to (packet_step env k a) (join_binding env k data (a, re_local env k) b s) s"
proof -
  let ?s1 = "with_link False (re_now env) b bd (a, re_local env k) k s" and ?c = "rs_next s"
  have ok1: "relay_ok ?s1" using inv_with_link [OF ok b free, of False] by simp
  let ?rest = "\<lambda>c s. link_Lock c s \<bind> (\<lambda>s. GetInternalConnection b a s \<bind> (\<lambda>i. link_SendFrom (re_now env) i data a s))"
  have run: "join_binding env k data (a, re_local env k) b s = ?rest ?c ?s1"
    using new_connection(2) [OF b free, of "re_now env" k ?rest] by (simp add: join_binding_def)
  have "runs_to (rsteps b) (?rest ?c ?s1) ?s1"
  proof (rule relay.runs_bind [OF link_Lock_runs [OF ok1 link_of_with_link]])
    fix s2 assume s2: "rsteps b ?s1 s2"
    have "rs_binding_at ?s1 b = Some (filed_in False (re_now env) ?c bd)" by (simp add: with_link_fields)
    then obtain bd2 where "rs_binding_at s2 b = Some bd2" using binding_steps s2 by blast
    then obtain i where i: "GetInternalConnection b a s2 = Some i" "link_of b i s2"
      using GetInternalConnection_Some [OF rsteps_ok [OF s2]] by blast
    then show "runs_to (rsteps b) (GetInternalConnection b a s2 \<bind> (\<lambda>i. link_SendFrom (re_now env) i data a s2)) s2"
      using link_SendFrom_runs [OF rsteps_ok [OF s2] i(2) len] by simp
  qed
  then show ?thesis unfolding run by (rule with_link_packet_step [OF ok relay_grows_refl b free])
qed

lemma OnExternalPacket_runs:
  assumes ok: "relay_ok s" and "\<not> IsAnyIP (re_local env k)" and len: "length data \<le> 65536"
  shows "runs_to (packet_step env k a) (OnExternalPacket env k data a s) s"
proof (cases "smap_find addr_pair_less (a, re_local env k) (rs_connections s)")
  case (Some c)
  obtain cn where cn: "rs_conn_at s c = Some cn" using inv_find_link [OF ok Some] by blast
  let ?b = "rl_binding cn"
  have l: "link_of ?b c s" using cn by (simp add: link_of_def)
  obtain bd where bd: "rs_binding_at s ?b = Some bd" using link_binding [OF ok cn] by blast
  obtain i where i: "GetInternalConnection ?b (fst (rl_addr_pair cn)) s = Some i" "link_of ?b i s"
    using GetInternalConnection_Some [OF ok bd] by blast
  have "runs_to (rsteps ?b) (link_SendFrom (re_now env) i data (fst (rl_addr_pair cn)) s \<bind> link_Lock c) s"
    by (rule relay.runs_bind [OF link_SendFrom_runs [OF ok i(2) len]])
       (use link_Lock_runs link_of_steps [OF l] rsteps_ok in blast)
  then have "runs_to (rsteps ?b) (OnExternalPacket env k data a s) s"
    using Some cn i(1) assms(2) by (simp add: OnExternalPacket_def ASSERT_def)
  then show ?thesis using runs_existing Some l by blast
next
  case None
  obtain rok msg b' where r: "message_read StunMessage (ByteBuffer_of data ORDER_NETWORK) = Some (rok, msg, b')"
    using message_read_facts by blast
  obtain g where g: "GetByteString STUN_ATTR_USERNAME msg = Some g" by (simp add: GetByteString_def)
  have head: "OnExternalPacket env k data a s = (if \<not> rok then Some s else case g of None \<Rightarrow> Some s | Some t \<Rightarrow> do {
      username \<leftarrow> attr_string t;
      case smap_find str_less (take (min (unat (at_length t)) USERNAME_LENGTH) username) (rs_bindings s) of
        None \<Rightarrow> Some s | Some b \<Rightarrow> join_binding env k data (a, re_local env k) b s })"
    unfolding OnExternalPacket_def Let_def snd_conv None option.case r bind.bind_lunit prod.case g
    using assms(2) by (simp add: ASSERT_def)
  show ?thesis
  proof (cases "rok \<and> g \<noteq> None")
    case False
    then show ?thesis unfolding head by (auto simp: runs_to_def packet_step_refl)
  next
    case True
    then obtain t where t: "rok" "g = Some t" by auto
    obtain u where u: "attr_string t = Some u" using read_string [OF r, of STUN_ATTR_USERNAME t] g t by blast
    let ?u = "take (min (unat (at_length t)) USERNAME_LENGTH) u"
    show ?thesis
    proof (cases "smap_find str_less ?u (rs_bindings s)")
      case None
      then show ?thesis unfolding head using t u by (simp add: runs_to_def packet_step_refl)
    next
      case (Some b)
      obtain bd where "rs_binding_at s b = Some bd" using inv_find_binding [OF ok Some] by blast
      from join_binding_runs [OF ok this len None] show ?thesis unfolding head using t u Some by simp
    qed
  qed
qed

end
