(* ===== verification/Relay_Ends.thy ===== *)
theory Relay_Ends
  imports Relay_Steps
begin

text \<open>
  The end of a binding of the relay server: the timer, the deletion by the thread with all connections, and
  the destructor of the server.
\<close>

section \<open>Deleting connections\<close>

text \<open>The maps and the heap agree on the connections.\<close>

definition links_match :: "(addr_pair \<times> nat) list \<Rightarrow> (nat \<Rightarrow> relay_conn option) \<Rightarrow> bool" where
  "links_match m h \<longleftrightarrow> (\<forall>ap c. smap_find addr_pair_less ap m = Some c \<longrightarrow> (\<exists>cn. h c = Some cn \<and> pair_equal ap (rl_addr_pair cn)))
     \<and> (\<forall>c cn. h c = Some cn \<longrightarrow> smap_find addr_pair_less (rl_addr_pair cn) m = Some c)"

lemma find_erase_match:
  assumes "links_match m h" "h c = Some cn"
  shows "smap_find addr_pair_less ap (smap_erase addr_pair_less (rl_addr_pair cn) m)
    = (if smap_find addr_pair_less ap m = Some c then None else smap_find addr_pair_less ap m)"
proof -
  have c: "smap_find addr_pair_less (rl_addr_pair cn) m = Some c" using assms unfolding links_match_def by blast
  have "pair_equal ap (rl_addr_pair cn) \<longleftrightarrow> smap_find addr_pair_less ap m = Some c"
  proof
    assume "pair_equal ap (rl_addr_pair cn)"
    then show "smap_find addr_pair_less ap m = Some c" using find_pair_cong c by metis
  next
    assume "smap_find addr_pair_less ap m = Some c"
    then show "pair_equal ap (rl_addr_pair cn)" using assms unfolding links_match_def by fastforce
  qed
  then show ?thesis by (simp add: pair.find_erase pair_equivalent)
qed

lemma links_match_erase:
  assumes "links_match m h" "h c = Some cn"
  shows "links_match (smap_erase addr_pair_less (rl_addr_pair cn) m) (h(c := None))"
proof -
  note f = find_erase_match [OF assms]
  have 1: "\<exists>y. (h(c := None)) x = Some y \<and> pair_equal ap (rl_addr_pair y)"
    if "smap_find addr_pair_less ap (smap_erase addr_pair_less (rl_addr_pair cn) m) = Some x" for ap x
  proof -
    have "smap_find addr_pair_less ap m = Some x" "x \<noteq> c" using that f by (auto split: if_splits)
    then obtain y where "h x = Some y" "pair_equal ap (rl_addr_pair y)" using assms(1) unfolding links_match_def by blast
    then show ?thesis using \<open>x \<noteq> c\<close> by simp
  qed
  have 2: "smap_find addr_pair_less (rl_addr_pair y) (smap_erase addr_pair_less (rl_addr_pair cn) m) = Some x"
    if "(h(c := None)) x = Some y" for x y
  proof -
    have "h x = Some y" "x \<noteq> c" using that by (auto split: if_splits)
    then have "smap_find addr_pair_less (rl_addr_pair y) m = Some x" using assms(1) unfolding links_match_def by blast
    then show ?thesis using f \<open>x \<noteq> c\<close> by simp
  qed
  show ?thesis unfolding links_match_def using 1 2 by blast
qed

definition dropped :: "nat list \<Rightarrow> (nat \<Rightarrow> relay_conn option) \<Rightarrow> nat \<Rightarrow> relay_conn option" where
  "dropped cs h = (\<lambda>c. if c \<in> set cs then None else h c)"

lemma delete_links_run:
  assumes "links_match (rs_connections s) (rs_conn_at s)" "\<And>c. c \<in> set cs \<Longrightarrow> rs_conn_at s c \<noteq> None" "distinct cs"
    "smap_sorted addr_pair_less (rs_connections s)"
  shows "\<exists>m. delete_links cs s = Some (s\<lparr>rs_conn_at := dropped cs (rs_conn_at s), rs_connections := m\<rparr>)
     \<and> links_match m (dropped cs (rs_conn_at s)) \<and> smap_sorted addr_pair_less m"
  using assms
proof (induction cs arbitrary: s)
  case Nil
  have "dropped [] (rs_conn_at s) = rs_conn_at s" by (simp add: dropped_def)
  then show ?case using Nil by (intro exI [of _ "rs_connections s"]) simp
next
  case (Cons c cs)
  obtain cn where cn: "rs_conn_at s c = Some cn" using Cons.prems(2) by auto
  let ?m = "smap_erase addr_pair_less (rl_addr_pair cn) (rs_connections s)"
  let ?s = "s\<lparr>rs_connections := ?m, rs_conn_at := (rs_conn_at s)(c := None)\<rparr>"
  have f: "smap_find addr_pair_less (rl_addr_pair cn) (rs_connections s) = Some c"
    using Cons.prems(1) cn unfolding links_match_def by blast
  have step: "delete_links (c # cs) s = delete_links cs ?s"
    using cn f by (simp add: RemoveConnection_def ASSERT_def)
  have match: "links_match (rs_connections ?s) (rs_conn_at ?s)" using links_match_erase [OF Cons.prems(1) cn] by simp
  have live: "rs_conn_at ?s d \<noteq> None" if "d \<in> set cs" for d using Cons.prems(2,3) that by auto
  have sort: "smap_sorted addr_pair_less (rs_connections ?s)" using Cons.prems(4) smap_erase_sorted by simp
  have drop: "dropped cs (rs_conn_at ?s) = dropped (c # cs) (rs_conn_at s)" by (auto simp: dropped_def)
  have "distinct cs" using Cons.prems(3) by simp
  from Cons.IH [OF match live this sort] obtain m where
      "delete_links cs ?s = Some (?s\<lparr>rs_conn_at := dropped (c # cs) (rs_conn_at s), rs_connections := m\<rparr>)"
      "links_match m (dropped (c # cs) (rs_conn_at s))" "smap_sorted addr_pair_less m"
    unfolding drop by blast
  then show ?case unfolding step by (intro exI [of _ m]) simp
qed

section \<open>Deleting a binding\<close>

definition without_binding :: "nat \<Rightarrow> relay_server \<Rightarrow> relay_server \<Rightarrow> bool" where
  "without_binding b s s' \<longleftrightarrow>
     (\<forall>c. rs_conn_at s' c = (case rs_conn_at s c of None \<Rightarrow> None | Some cn \<Rightarrow> if rl_binding cn = b then None else Some cn))
     \<and> rs_binding_at s' = (rs_binding_at s)(b := None)
     \<and> rs_next s' = rs_next s \<and> rs_sent s' = rs_sent s \<and> rs_internal_sockets s' = rs_internal_sockets s
     \<and> rs_external_sockets s' = rs_external_sockets s \<and> rs_server_sockets s' = rs_server_sockets s"

lemma inv_match: "relay_inv E s \<Longrightarrow> links_match (rs_connections s) (rs_conn_at s)"
  unfolding links_match_def using inv_find_link inv_link link_ok_def by blast

lemma inv_thread:
  assumes "relay_inv E s" "distinct (map message_binding t)" "set (map message_binding t) = dom (rs_binding_at s)"
  shows "relay_inv E (s\<lparr>rs_thread := t\<rparr>)"
proof -
  have "binding_ok E (s\<lparr>rs_thread := t\<rparr>) b bd = binding_ok E s b bd" "link_ok (s\<lparr>rs_thread := t\<rparr>) c cn = link_ok s c cn"
    for b bd c cn by (simp_all add: binding_ok_def link_ok_def)
  then show ?thesis using assms unfolding relay_inv_def by simp
qed

lemma delete_binding_run:
  assumes inv: "relay_ok (s\<lparr>rs_thread := t\<rparr>)" and b: "rs_binding_at s b = Some bd"
  shows "\<exists>s'. delete_binding b s = Some s' \<and> without_binding b s s'
     \<and> relay_ok (s'\<lparr>rs_thread := filter (\<lambda>m. message_binding m \<noteq> b) t\<rparr>)
     \<and> rs_thread s' = filter (\<lambda>m. \<forall>d. m \<noteq> LifetimeTimer d b) (rs_thread s)
     \<and> rs_bindings s' = smap_erase str_less (rb_username bd) (rs_bindings s)"
proof -
  let ?t = "filter (\<lambda>m. \<forall>d. m \<noteq> LifetimeTimer d b) (rs_thread s)"
  let ?s0 = "s\<lparr>rs_thread := ?t\<rparr>"
  have bd: "binding_ok {} (s\<lparr>rs_thread := t\<rparr>) b bd" using inv_binding [OF inv] b by simp
  then have d: "distinct (rb_internal bd @ rb_external bd)" and f: "smap_find str_less (rb_username bd) (rs_bindings s) = Some b"
      and of_b: "\<And>c. c \<in> set (rb_internal bd @ rb_external bd) \<Longrightarrow> \<exists>cn. rs_conn_at s c = Some cn \<and> rl_binding cn = b"
    unfolding binding_ok_def binding_links_def by auto
  have match: "links_match (rs_connections ?s0) (rs_conn_at ?s0)" using inv_match [OF inv] by simp
  have sort: "smap_sorted addr_pair_less (rs_connections ?s0)" using inv unfolding relay_inv_def by simp
  have di: "distinct (rb_internal bd)" "distinct (rb_external bd)" using d by auto
  have live: "rs_conn_at ?s0 c \<noteq> None" if "c \<in> set (rb_internal bd)" for c using of_b [of c] that by auto
  obtain m1 where m1: "delete_links (rb_internal bd) ?s0
      = Some (?s0\<lparr>rs_conn_at := dropped (rb_internal bd) (rs_conn_at ?s0), rs_connections := m1\<rparr>)"
      "links_match m1 (dropped (rb_internal bd) (rs_conn_at ?s0))" "smap_sorted addr_pair_less m1"
    using delete_links_run [OF match live di(1) sort] by blast
  let ?s1 = "?s0\<lparr>rs_conn_at := dropped (rb_internal bd) (rs_conn_at ?s0), rs_connections := m1\<rparr>"
  have match1: "links_match (rs_connections ?s1) (rs_conn_at ?s1)" "smap_sorted addr_pair_less (rs_connections ?s1)"
    using m1 by simp_all
  have live1: "rs_conn_at ?s1 c \<noteq> None" if "c \<in> set (rb_external bd)" for c
    using of_b [of c] that d by (auto simp: dropped_def)
  obtain m2 where m2: "delete_links (rb_external bd) ?s1
      = Some (?s1\<lparr>rs_conn_at := dropped (rb_external bd) (rs_conn_at ?s1), rs_connections := m2\<rparr>)"
      "links_match m2 (dropped (rb_external bd) (rs_conn_at ?s1))" "smap_sorted addr_pair_less m2"
    using delete_links_run [OF match1(1) live1 di(2) match1(2)] by blast
  have gone: "dropped (rb_external bd) (rs_conn_at ?s1)
      = (\<lambda>c. case rs_conn_at s c of None \<Rightarrow> None | Some cn \<Rightarrow> if rl_binding cn = b then None else Some cn)" (is "_ = ?h")
  proof
    fix c
    show "dropped (rb_external bd) (rs_conn_at ?s1) c = ?h c"
    proof (cases "rs_conn_at s c")
      case (Some cn)
      have "rl_binding cn = b \<longleftrightarrow> c \<in> set (rb_internal bd @ rb_external bd)"
        using link_binding [OF inv, of c cn] of_b [of c] Some b by (auto simp: binding_links_def)
      then show ?thesis using Some by (simp add: dropped_def)
    qed (simp add: dropped_def)
  qed
  let ?s2 = "?s1\<lparr>rs_conn_at := ?h, rs_connections := m2\<rparr>"
  let ?s = "?s2\<lparr>rs_bindings := smap_erase str_less (rb_username bd) (rs_bindings s), rs_binding_at := (rs_binding_at s)(b := None)\<rparr>"
  have run: "delete_binding b s = Some ?s"
    unfolding delete_binding_def b bind.bind_lunit Let_def m1(1) m2(1) gone
    using b f by (simp add: RemoveBinding_def ASSERT_def)
  have wo: "without_binding b s ?s" by (simp add: without_binding_def)
  let ?r = "?s\<lparr>rs_thread := filter (\<lambda>m. message_binding m \<noteq> b) t\<rparr>"
  have match2: "links_match m2 ?h" using m2(2) unfolding gone .
  have find: "smap_find str_less u (smap_erase str_less (rb_username bd) (rs_bindings s))
      = (if u = rb_username bd then None else smap_find str_less u (rs_bindings s))" for u
    by (simp add: str.find_erase str_equivalent)
  have "binding_ok {} ?r x y" if y: "rs_binding_at ?r x = Some y" for x y
  proof -
    have x: "x \<noteq> b" "rs_binding_at s x = Some y" using y by (auto split: if_splits)
    then have ok: "binding_ok {} (s\<lparr>rs_thread := t\<rparr>) x y" using inv_binding [OF inv] by simp
    then have "rb_username y \<noteq> rb_username bd" using x(1) f unfolding binding_ok_def by auto
    then show ?thesis using ok x(1) find unfolding binding_ok_def by auto
  qed
  moreover have "link_ok ?r c cn" if cn: "rs_conn_at ?r c = Some cn" for c cn
  proof -
    have c: "rs_conn_at s c = Some cn" "rl_binding cn \<noteq> b" using cn by (auto split: option.splits if_splits)
    then have ok: "link_ok (s\<lparr>rs_thread := t\<rparr>) c cn" using inv_link [OF inv] by simp
    moreover have "smap_find addr_pair_less (rl_addr_pair cn) m2 = Some c" using match2 cn unfolding links_match_def by simp
    ultimately show ?thesis using c(2) unfolding link_ok_def by simp
  qed
  moreover have "\<exists>y. rs_binding_at ?r x = Some y \<and> rb_username y = u" if u: "smap_find str_less u (rs_bindings ?r) = Some x" for u x
  proof -
    have u': "u \<noteq> rb_username bd" "smap_find str_less u (rs_bindings s) = Some x" using u find by (auto split: if_splits)
    then have "\<exists>y. rs_binding_at s x = Some y \<and> rb_username y = u" using inv_find_binding [OF inv] by simp
    then show ?thesis using u'(1) b by auto
  qed
  moreover have "\<exists>y. rs_conn_at ?r x = Some y \<and> pair_equal q (rl_addr_pair y)"
    if "smap_find addr_pair_less q (rs_connections ?r) = Some x" for q x
  proof -
    have "smap_find addr_pair_less q m2 = Some x" using that by simp
    then have "\<exists>y. ?h x = Some y \<and> pair_equal q (rl_addr_pair y)" using match2 unfolding links_match_def by blast
    then show ?thesis by simp
  qed
  moreover have "distinct (map message_binding (rs_thread ?r)) \<and> message_binding ` set (rs_thread ?r) = dom (rs_binding_at ?r)"
  proof -
    have t: "distinct (map message_binding t)" "message_binding ` set t = dom (rs_binding_at s)"
      using inv unfolding relay_inv_def by simp_all
    have "message_binding ` set (filter (\<lambda>m. message_binding m \<noteq> b) t) = message_binding ` set t - {b}" by auto
    then show ?thesis using t by (auto simp: distinct_map inj_on_def)
  qed
  moreover have "smap_sorted str_less (rs_bindings ?r)" "smap_sorted addr_pair_less (rs_connections ?r)"
  proof -
    have "smap_sorted str_less (rs_bindings s)" using inv unfolding relay_inv_def by simp
    from smap_erase_sorted [OF this, of "rb_username bd"] m2(3)
    show "smap_sorted str_less (rs_bindings ?r)" "smap_sorted addr_pair_less (rs_connections ?r)" by simp_all
  qed
  ultimately have "relay_ok ?r" unfolding relay_inv_def by blast
  then show ?thesis using run wo by (intro exI [of _ ?s]) simp
qed

section \<open>Messages of the thread\<close>

lemma timer_message:
  assumes "distinct (map message_binding t)" "i < length t" "t ! i = m"
  shows "filter (\<lambda>x. message_binding x \<noteq> message_binding m) t = take i t @ drop (Suc i) t"
proof -
  have t: "t = take i t @ m # drop (Suc i) t" using id_take_nth_drop [OF assms(2)] assms(3) by simp
  then have "distinct (map message_binding (take i t @ m # drop (Suc i) t))" using assms(1) by simp
  then have "\<forall>x \<in> set (take i t) \<union> set (drop (Suc i) t). message_binding x \<noteq> message_binding m" by (auto simp: image_iff)
  then have "filter (\<lambda>x. message_binding x \<noteq> message_binding m) (take i t @ m # drop (Suc i) t) = take i t @ drop (Suc i) t"
    by (simp add: filter_id_conv)
  then show ?thesis using t by simp
qed

text \<open>The thread with a message of the binding put at its end.\<close>

lemma inv_rotate:
  assumes "relay_inv E s" "i < length (rs_thread s)" "message_binding (rs_thread s ! i) = message_binding m"
  shows "relay_inv E (s\<lparr>rs_thread := take i (rs_thread s) @ drop (Suc i) (rs_thread s) @ [m]\<rparr>)"
proof -
  let ?t = "rs_thread s" and ?u = "take i (rs_thread s) @ drop (Suc i) (rs_thread s) @ [m]"
  have t: "?t = take i ?t @ ?t ! i # drop (Suc i) ?t" by (rule id_take_nth_drop [OF assms(2)])
  have m: "mset (map message_binding ?u) = mset (map message_binding ?t)"
    using assms(3) arg_cong [OF t, of "\<lambda>x. mset (map message_binding x)"] by simp
  have d: "distinct (map message_binding ?t)" "set (map message_binding ?t) = dom (rs_binding_at s)"
    using assms(1) unfolding relay_inv_def by simp_all
  show ?thesis
    by (rule inv_thread [OF assms(1)]) (use d m mset_eq_imp_distinct_iff mset_eq_setD in metis)+
qed

text \<open>What happens when the thread delivers a message.\<close>

definition delivered :: "u32 \<Rightarrow> relay_message \<Rightarrow> relay_server \<Rightarrow> relay_server \<Rightarrow> bool" where
  "delivered now m s s' \<longleftrightarrow> (case m of
       DisposeBinding b \<Rightarrow> without_binding b s s'
     | LifetimeTimer d b \<Rightarrow> (\<exists>bd. rs_binding_at s b = Some bd
          \<and> s' = s\<lparr>rs_thread := filter (\<lambda>x. message_binding x \<noteq> b) (rs_thread s)
                 @ [if now \<ge> rb_last_used bd + rb_lifetime bd then DisposeBinding b else LifetimeTimer (rb_lifetime bd) b]\<rparr>))"

lemma deliver_message_runs:
  assumes ok: "relay_ok s" and i: "i < length (rs_thread s)"
  shows "\<exists>s'. deliver_message now i s = Some s' \<and> relay_ok s' \<and> delivered now (rs_thread s ! i) s s'"
proof -
  let ?m = "rs_thread s ! i"
  let ?b = "message_binding ?m"
  let ?rest = "take i (rs_thread s) @ drop (Suc i) (rs_thread s)"
  have t: "distinct (map message_binding (rs_thread s))" "message_binding ` set (rs_thread s) = dom (rs_binding_at s)"
    using ok unfolding relay_inv_def by simp_all
  have "?b \<in> dom (rs_binding_at s)" using t(2) nth_mem [OF i] by blast
  then obtain bd where bd: "rs_binding_at s ?b = Some bd" by blast
  note rest = timer_message [OF t(1) i refl]
  show ?thesis
  proof (cases ?m)
    case (LifetimeTimer d b)
    let ?n = "if now \<ge> rb_last_used bd + rb_lifetime bd then DisposeBinding b else LifetimeTimer (rb_lifetime bd) b"
    have "message_binding ?n = ?b" using LifetimeTimer by (simp add: message_binding_def)
    then have "relay_ok (s\<lparr>rs_thread := ?rest @ [?n]\<rparr>)" using inv_rotate [OF ok i, of ?n] by simp
    moreover have "deliver_message now i s = Some (s\<lparr>rs_thread := ?rest @ [?n]\<rparr>)"
      using i bd LifetimeTimer by (simp add: deliver_message_def binding_OnMessage_def message_binding_def)
    ultimately show ?thesis using bd rest LifetimeTimer by (auto simp: delivered_def message_binding_def)
  next
    case (DisposeBinding b)
    then have b: "?b = b" by (simp add: message_binding_def)
    let ?s = "s\<lparr>rs_thread := ?rest\<rparr>"
    have "relay_ok (?s\<lparr>rs_thread := rs_thread s\<rparr>)" using ok by simp
    moreover have "rs_binding_at ?s b = Some bd" using bd b by simp
    ultimately obtain s' where s': "delete_binding b ?s = Some s'" "without_binding b ?s s'"
        "relay_ok (s'\<lparr>rs_thread := filter (\<lambda>m. message_binding m \<noteq> b) (rs_thread s)\<rparr>)"
        "rs_thread s' = filter (\<lambda>m. \<forall>d. m \<noteq> LifetimeTimer d b) ?rest"
      using delete_binding_run [of "rs_thread s" ?s b bd] by auto
    have "filter (\<lambda>m. \<forall>d. m \<noteq> LifetimeTimer d b) (filter (\<lambda>m. message_binding m \<noteq> b) (rs_thread s))
        = filter (\<lambda>m. message_binding m \<noteq> b) (rs_thread s)"
      unfolding filter_filter by (rule filter_cong [OF refl]) (auto simp: message_binding_def)
    then have "rs_thread s' = filter (\<lambda>m. message_binding m \<noteq> b) (rs_thread s)" 
      using s'(4) unfolding rest [unfolded b, symmetric] by (rule trans [rotated])
    then have "s'\<lparr>rs_thread := filter (\<lambda>m. message_binding m \<noteq> b) (rs_thread s)\<rparr> = s'" by simp
    moreover have "deliver_message now i s = Some s'" using i DisposeBinding s'(1) by (simp add: deliver_message_def)
    moreover have "without_binding b s s'" using s'(2) by (simp add: without_binding_def)
    ultimately show ?thesis using s'(3) DisposeBinding by (auto simp: delivered_def)
  qed
qed

section \<open>The destructor\<close>

lemma first_binding:
  assumes "relay_inv E s" "rs_bindings s = (u, b) # rest"
  shows "\<exists>bd. rs_binding_at s b = Some bd \<and> rb_username bd = u"
  using inv_find_binding [OF assms(1), of u b] assms(2) by (simp add: str_equivalent)

lemma delete_bindings_run:
  assumes "relay_ok (s\<lparr>rs_thread := t\<rparr>)" "length (rs_bindings s) \<le> n"
  shows "\<exists>s' t'. delete_bindings n s = Some s' \<and> rs_bindings s' = [] \<and> relay_ok (s'\<lparr>rs_thread := t'\<rparr>)
    \<and> (\<forall>m \<in> set (rs_thread s'). m \<in> set (rs_thread s)) \<and> (\<forall>b. DisposeBinding b \<in> set (rs_thread s) \<longrightarrow> DisposeBinding b \<in> set (rs_thread s'))"
  using assms
proof (induction n arbitrary: s t)
  case 0
  then show ?case by auto
next
  case (Suc n)
  show ?case
  proof (cases "rs_bindings s")
    case Nil
    then show ?thesis using Suc.prems by auto
  next
    case (Cons e rest)
    obtain u b where e: "e = (u, b)" by (cases e)
    have "rs_bindings (s\<lparr>rs_thread := t\<rparr>) = (u, b) # rest" using Cons e by simp
    then obtain bd where bd: "rs_binding_at s b = Some bd" "rb_username bd = u"
      using first_binding [OF Suc.prems(1)] by auto
    obtain s1 where s1: "delete_binding b s = Some s1"
        "relay_ok (s1\<lparr>rs_thread := filter (\<lambda>m. message_binding m \<noteq> b) t\<rparr>)"
        "rs_thread s1 = filter (\<lambda>m. \<forall>d. m \<noteq> LifetimeTimer d b) (rs_thread s)"
        "rs_bindings s1 = smap_erase str_less (rb_username bd) (rs_bindings s)"
      using delete_binding_run [OF Suc.prems(1) bd(1)] by blast
    have "smap_find str_less u (rs_bindings s) \<noteq> None" using Cons e by (simp add: str_equivalent)
    then have "length (rs_bindings s1) \<le> n" using smap_erase_length [of str_less u "rs_bindings s"] s1(4) bd(2) Suc.prems(2) by simp
    then obtain s' t' where "delete_bindings n s1 = Some s'" "rs_bindings s' = []" "relay_ok (s'\<lparr>rs_thread := t'\<rparr>)"
        "\<forall>m \<in> set (rs_thread s'). m \<in> set (rs_thread s1)"
        "\<forall>b. DisposeBinding b \<in> set (rs_thread s1) \<longrightarrow> DisposeBinding b \<in> set (rs_thread s')"
      using Suc.IH [OF s1(2)] by blast
    then show ?thesis using s1(1,3) Cons e by auto
  qed
qed

lemma no_bindings: "relay_inv E s \<Longrightarrow> rs_bindings s = [] \<Longrightarrow> rs_binding_at s b = None \<and> rs_conn_at s c = None"
  using inv_binding [of E s b] link_binding [of E s c] inv_binding [of E s]
  by (cases "rs_binding_at s b"; cases "rs_conn_at s c") (auto simp: binding_ok_def)

text \<open>
  The destructor succeeds and leaves no object. A deletion that was already handed to the thread stays
  with the thread, and deletes the binding again.
\<close>

lemma delete_RelayServer_run:
  assumes "relay_ok s"
  shows "\<exists>s'. delete_RelayServer s = Some s' \<and> (\<forall>b. rs_binding_at s' b = None) \<and> (\<forall>c. rs_conn_at s' c = None)
    \<and> (\<forall>b. DisposeBinding b \<in> set (rs_thread s) \<longrightarrow> DisposeBinding b \<in> set (rs_thread s'))"
proof -
  have "relay_ok (s\<lparr>rs_thread := rs_thread s\<rparr>)" using assms by simp
  then obtain s' t' where s': "delete_bindings (length (rs_bindings s)) s = Some s'" "rs_bindings s' = []"
      "relay_ok (s'\<lparr>rs_thread := t'\<rparr>)" "\<forall>b. DisposeBinding b \<in> set (rs_thread s) \<longrightarrow> DisposeBinding b \<in> set (rs_thread s')"
    using delete_bindings_run by blast
  have "rs_binding_at s' b = None \<and> rs_conn_at s' c = None" for b c
    using no_bindings [OF s'(3), of b c] s'(2) by simp
  then show ?thesis using s' by (simp add: delete_RelayServer_def)
qed

lemma pending_disposal_dangles:
  assumes "rs_binding_at s b = None" "i < length (rs_thread s)" "rs_thread s ! i = DisposeBinding b"
  shows "deliver_message now i s = None"
  using assms by (simp add: deliver_message_def delete_binding_def)

end
