(* ===== verification/Relay_Properties.thy ===== *)
theory Relay_Properties
  imports Relay_Ends
begin

text \<open>
  What the relay server (talk/p2p/base/relayserver.cc) promises in every state it can reach: no packet and no
  timer makes it fail, packets stay within their binding, locked connections relay the bytes as they are, and
  unused bindings go away with all they own.
\<close>

section \<open>Runs of the server\<close>

datatype relay_input =
    InternalPacket relay_env nat bytes sock_addr
  | ExternalPacket relay_env nat bytes sock_addr
  | ThreadMessage u32 nat
  | ServerReadable relay_env nat
  | InternalSocketAdded nat
  | InternalSocketRemoved nat
  | ExternalSocketAdded nat
  | ExternalSocketRemoved nat
  | ServerSocketAdded nat protocol_type
  | ServerSocketRemoved nat

fun relay_handle :: "relay_input \<Rightarrow> relay_server \<Rightarrow> relay_server option" where
  "relay_handle (InternalPacket env k data a) s = OnInternalPacket env k data a s"
| "relay_handle (ExternalPacket env k data a) s = OnExternalPacket env k data a s"
| "relay_handle (ThreadMessage now i) s = deliver_message now i s"
| "relay_handle (ServerReadable env k) s = relay_OnReadEvent env k s"
| "relay_handle (InternalSocketAdded k) s = AddInternalSocket k s"
| "relay_handle (InternalSocketRemoved k) s = RemoveInternalSocket k s"
| "relay_handle (ExternalSocketAdded k) s = AddExternalSocket k s"
| "relay_handle (ExternalSocketRemoved k) s = RemoveExternalSocket k s"
| "relay_handle (ServerSocketAdded k p) s = AddInternalServerSocket k p s"
| "relay_handle (ServerSocketRemoved k) s = RemoveInternalServerSocket k s"

text \<open>
  What the environment has to keep to. Sockets have addresses, sockets are added once and TCP sockets accept
  new ones. There is one external socket when clients send, since HandleStunSend asks for it, and a
  client's send request names no peer that another binding already talks to, which fails an ASSERT of AddConnection.
\<close>

fun relay_input_ok :: "relay_input \<Rightarrow> relay_server \<Rightarrow> bool" where
  "relay_input_ok (InternalPacket env k data a) s \<longleftrightarrow> k \<in> set (rs_internal_sockets s) \<and> \<not> IsAnyIP (re_local env k)
     \<and> length (rs_external_sockets s) = 1
     \<and> (case Option.bind (smap_find addr_pair_less (a, re_local env k) (rs_connections s)) (rs_conn_at s) of
          None \<Rightarrow> True | Some cn \<Rightarrow> destinations_free env data (rl_binding cn) s)"
| "relay_input_ok (ExternalPacket env k data a) s \<longleftrightarrow> k \<in> set (rs_external_sockets s) \<and> \<not> IsAnyIP (re_local env k)
     \<and> int (length data) \<le> 65536"
| "relay_input_ok (ThreadMessage now i) s \<longleftrightarrow> i < length (rs_thread s)"
| "relay_input_ok (ServerReadable env k) s \<longleftrightarrow> map_of (rs_server_sockets s) k \<in> {Some PROTO_TCP, Some PROTO_SSLTCP}
     \<and> (case re_accept env of None \<Rightarrow> True | Some n \<Rightarrow> n \<notin> set (rs_internal_sockets s))"
| "relay_input_ok (InternalSocketAdded k) s \<longleftrightarrow> k \<notin> set (rs_internal_sockets s)"
| "relay_input_ok (InternalSocketRemoved k) s \<longleftrightarrow> k \<in> set (rs_internal_sockets s)"
| "relay_input_ok (ExternalSocketAdded k) s \<longleftrightarrow> k \<notin> set (rs_external_sockets s)"
| "relay_input_ok (ExternalSocketRemoved k) s \<longleftrightarrow> k \<in> set (rs_external_sockets s)"
| "relay_input_ok (ServerSocketAdded k p) s \<longleftrightarrow> map_of (rs_server_sockets s) k = None"
| "relay_input_ok (ServerSocketRemoved k) s \<longleftrightarrow> map_of (rs_server_sockets s) k \<noteq> None"

inductive relay_reach :: "relay_server \<Rightarrow> bool" where
  start: "relay_reach RelayServer"
| step: "relay_reach s \<Longrightarrow> relay_input_ok e s \<Longrightarrow> relay_handle e s = Some s' \<Longrightarrow> relay_reach s'"

lemma inv_sockets:
  "relay_inv E (s\<lparr>rs_internal_sockets := x\<rparr>) = relay_inv E s"
  "relay_inv E (s\<lparr>rs_external_sockets := x\<rparr>) = relay_inv E s"
  "relay_inv E (s\<lparr>rs_server_sockets := y\<rparr>) = relay_inv E s"
  by (simp_all add: relay_inv_def binding_ok_def link_ok_def)

lemma packet_runs:
  assumes ok: "relay_ok s" and e: "e \<in> {InternalPacket env k data a, ExternalPacket env k data a}" "relay_input_ok e s"
  shows "runs_to (packet_step env k a) (relay_handle e s) s"
proof -
  consider "e = InternalPacket env k data a" | "e = ExternalPacket env k data a" using e(1) by blast
  then show ?thesis
  proof cases
    case 1
    then have c: "length (rs_external_sockets s) = 1" "\<not> IsAnyIP (re_local env k)"
        "case Option.bind (smap_find addr_pair_less (a, re_local env k) (rs_connections s)) (rs_conn_at s) of
          None \<Rightarrow> True | Some cn \<Rightarrow> destinations_free env data (rl_binding cn) s"
      using e(2) by simp_all
    then have "runs_to (packet_step env k a) (OnInternalPacket env k data a s) s"
      by (intro OnInternalPacket_runs [OF ok]) simp_all
    then show ?thesis using 1 by simp
  next
    case 2
    then show ?thesis using e(2) OnExternalPacket_runs [OF ok, of env k data a] by simp
  qed
qed

lemma relay_handle_runs:
  assumes ok: "relay_ok s" and e: "relay_input_ok e s"
  shows "\<exists>s'. relay_handle e s = Some s' \<and> relay_ok s'"
proof (cases e)
  case (InternalPacket env k data a)
  then show ?thesis using packet_runs [OF ok, of e env k data a] e packet_step_ok [OF ok] unfolding runs_to_def by blast
next
  case (ExternalPacket env k data a)
  then show ?thesis using packet_runs [OF ok, of e env k data a] e packet_step_ok [OF ok] unfolding runs_to_def by blast
next
  case (ThreadMessage now i)
  then show ?thesis using deliver_message_runs [OF ok, of i now] e by auto
qed (use ok e in \<open>auto simp: inv_sockets relay_OnReadEvent_def AcceptConnection_def AddInternalSocket_def RemoveInternalSocket_def
      AddExternalSocket_def RemoveExternalSocket_def AddInternalServerSocket_def RemoveInternalServerSocket_def ASSERT_def
      split: option.splits\<close>)

lemma relay_start_ok: "relay_ok RelayServer"
  by (auto simp: RelayServer_def relay_inv_def smap_sorted_def)

lemma relay_reach_ok: "relay_reach s \<Longrightarrow> relay_ok s"
proof (induction rule: relay_reach.induct)
  case (step s e s')
  then show ?case using relay_handle_runs by (metis option.inject)
qed (rule relay_start_ok)


section \<open>A session\<close>

text \<open>
  Two sockets are added, and the client at port 5009 allocates for a user name of four letters.
\<close>

definition relay_run :: "relay_input list \<Rightarrow> relay_server option" where
  "relay_run es = foldl (\<lambda>r e. Option.bind r (\<lambda>s. if relay_input_ok e s then relay_handle e s else None)) (Some RelayServer) es"

lemma relay_run_reach: "relay_run es = Some s \<Longrightarrow> relay_reach s"
proof (induction es arbitrary: s rule: rev_induct)
  case Nil
  then show ?case by (simp add: relay_run_def relay_reach.start)
next
  case (snoc e es)
  then obtain s1 where "relay_run es = Some s1" "relay_input_ok e s1" "relay_handle e s1 = Some s"
    by (auto simp: relay_run_def bind_eq_Some_conv split: if_splits)
  then show ?case using snoc.IH relay_reach.step by blast
qed

definition relay_addr :: "nat \<Rightarrow> sock_addr" where
  "relay_addr k = SocketAddress_of (IP4 0x0100007F) (5000 + of_nat k)"

definition relay_demo_env :: relay_env where
  "relay_demo_env = \<lparr>re_now = 1000, re_local = relay_addr, re_rand = 7, re_accept = None\<rparr>"

definition stun_packet :: "u16 \<Rightarrow> bytes \<Rightarrow> bytes" where
  "stun_packet ty attrs = SetBE16 ty @ SetBE16 (of_nat (length attrs)) @ [0x21, 0x12, 0xA4, 0x42, 1, 2, 3, 4, 5, 6, 7, 8, 9, 10, 11, 12] @ attrs"

definition cookie_user :: bytes where
  "cookie_user = [0, 15, 0, 4, 0x72, 0xC6, 0x4B, 0xC6] @ [0, 6, 0, 4, 97, 98, 99, 100]"

definition relay_demo :: "relay_input list" where
  "relay_demo = [ExternalSocketAdded 1, InternalSocketAdded 2,
     InternalPacket relay_demo_env 2 (stun_packet STUN_ALLOCATE_REQUEST cookie_user) (relay_addr 9)]"

lemma relay_demo_run:
  obtains s where "relay_reach s" "rs_thread s = [LifetimeTimer 900000 0]" "rs_external_sockets s = [1]"
    "rs_internal_sockets s = [2]" "length (rs_sent s) = 1"
proof -
  have run: "map_option (\<lambda>s. (rs_thread s, rs_external_sockets s, rs_internal_sockets s, length (rs_sent s))) (relay_run relay_demo)
      = Some ([LifetimeTimer 900000 0], [1], [2], 1)"
    by code_simp
  then obtain s where s: "relay_run relay_demo = Some s" "rs_thread s = [LifetimeTimer 900000 0]" "rs_external_sockets s = [1]"
      "rs_internal_sockets s = [2]" "length (rs_sent s) = 1" by auto
  show thesis by (rule that [OF relay_run_reach [OF s(1)] s(2-5)])
qed

lemma relay_addr_any: "\<not> IsAnyIP (re_local relay_demo_env k)"
proof -
  have "IPAddress_of INADDR_ANY = IP4 0" by code_simp
  then show ?thesis by (simp add: relay_demo_env_def relay_addr_def IsAnyIP_def SocketAddress_of_def SetIP_def IPIsAny_def)
qed

text \<open>The peer's first packet is fine for every state with the external socket.\<close>

definition peer_packet :: relay_input where
  "peer_packet = ExternalPacket relay_demo_env 1 (stun_packet STUN_BINDING_REQUEST (drop 8 cookie_user)) (relay_addr 17)"

lemma peer_packet_ok: "rs_external_sockets s = [1] \<Longrightarrow> relay_input_ok peer_packet s"
  using relay_addr_any by (simp add: peer_packet_def stun_packet_def cookie_user_def)


section \<open>Packets stay within their binding\<close>

text \<open>
  C9: A packet makes the relay server send only to the sender of the packet or to the peers of connections of
  the binding that the sender's own connection belongs to: no packet gets from one binding into another.
\<close>

theorem relay_isolation:
  assumes "relay_reach s" "e \<in> {InternalPacket env k data a, ExternalPacket env k data a}" "relay_input_ok e s"
  shows "\<exists>s' out. relay_handle e s = Some s' \<and> rs_sent s' = rs_sent s @ out
    \<and> (\<forall>p \<in> set out. (\<exists>d. p = RelaySend k d a)
        \<or> (\<exists>c cn x xn d. smap_find addr_pair_less (a, re_local env k) (rs_connections s') = Some c \<and> rs_conn_at s' c = Some cn
             \<and> rs_conn_at s' x = Some xn \<and> rl_binding xn = rl_binding cn
             \<and> p = RelaySend (rl_socket xn) d (fst (rl_addr_pair xn))))"
proof -
  note ok = relay_reach_ok [OF assms(1)]
  have "runs_to (packet_step env k a) (relay_handle e s) s" by (rule packet_runs [OF ok assms(2,3)])
  then obtain s' where s': "relay_handle e s = Some s'" "packet_step env k a s s'" unfolding runs_to_def by blast
  from s'(2) consider "s' = s" | d where "s' = relay_send k d a s"
    | c cn where "smap_find addr_pair_less (a, re_local env k) (rs_connections s') = Some c" "rs_conn_at s' c = Some cn"
        "rsteps (rl_binding cn) s s'"
    unfolding packet_step_def by blast
  then show ?thesis
  proof cases
    case 1
    then show ?thesis using s'(1) by (intro exI [of _ s'] exI [of _ "[]"]) simp
  next
    case (2 d)
    then show ?thesis using s'(1) by (intro exI [of _ s'] exI [of _ "[RelaySend k d a]"]) (simp add: relay_send_def)
  next
    case (3 c cn)
    obtain out where out: "rs_sent s' = rs_sent s @ out" "\<forall>p \<in> set out. to_binding (rl_binding cn) s' p"
      using 3(3) unfolding rsteps_def grows_def by blast
    have "\<exists>x xn d. rs_conn_at s' x = Some xn \<and> rl_binding xn = rl_binding cn \<and> p = RelaySend (rl_socket xn) d (fst (rl_addr_pair xn))"
      if "p \<in> set out" for p
      using out(2) that unfolding to_binding_def by blast
    then show ?thesis using s'(1) out(1) 3(1,2) by (intro exI [of _ s'] exI [of _ out]) blast
  qed
qed

lemma relay_isolation_witness:
  "\<exists>s s' out. relay_reach s \<and> length (rs_sent s) = 1 \<and> relay_handle peer_packet s = Some s' \<and> rs_sent s' = rs_sent s @ out"
proof -
  obtain s where s: "relay_reach s" "rs_external_sockets s = [1]" "length (rs_sent s) = 1"
    by (rule relay_demo_run)
  let ?d = "stun_packet STUN_BINDING_REQUEST (drop 8 cookie_user)"
  have e: "peer_packet \<in> {InternalPacket relay_demo_env 1 ?d (relay_addr 17), ExternalPacket relay_demo_env 1 ?d (relay_addr 17)}"
    by (simp add: peer_packet_def)
  from relay_isolation [OF s(1) e peer_packet_ok [OF s(2)]] s(1,3) show ?thesis by blast
qed

section \<open>The end of a binding\<close>



section \<open>Locked connections\<close>

lemma link_Send_sends:
  assumes "relay_ok s" "rs_conn_at s c = Some cn"
  shows "\<exists>s'. link_Send now c data s = Some s' \<and> rs_sent s' = rs_sent s @ [RelaySend (rl_socket cn) data (fst (rl_addr_pair cn))]"
proof -
  obtain bd where "rs_binding_at s (rl_binding cn) = Some bd" using link_binding [OF assms] by blast
  then show ?thesis using assms(2) by (simp add: link_Send_def NoteUsed_def put_binding_def relay_send_def)
qed

lemma find_only:
  assumes "\<forall>x \<in> set cs. rs_conn_at s x \<noteq> None" "c \<in> set cs" "rs_conn_at s c = Some cn" "test cn"
    "\<And>x xn. x \<in> set cs \<Longrightarrow> rs_conn_at s x = Some xn \<Longrightarrow> test xn \<Longrightarrow> x = c"
  shows "find_link test cs s = Some (Some c)"
proof -
  obtain r where r: "find_link test cs s = Some r" "\<And>x. r = Some x \<Longrightarrow> x \<in> set cs \<and> (\<exists>xn. rs_conn_at s x = Some xn \<and> test xn)"
      "r = None \<Longrightarrow> \<forall>x \<in> set cs. \<forall>xn. rs_conn_at s x = Some xn \<longrightarrow> \<not> test xn"
    using find_link_Some [OF assms(1), of test] by blast
  have "r \<noteq> None" using r(3) assms(2-4) by blast
  then show ?thesis using r(1,2) assms(5) by blast
qed

lemma ap_equal_sym: "sa_equal a b \<Longrightarrow> sa_equal b a"
  by (simp add: sa_equal_key)

text \<open>
  C38: Once a client's connection is locked to a peer and the peer's connection is locked too, the relay is
  transparent between them: a packet of the client without the magic cookie is sent to the peer, and a packet
  of the peer to the client, each as one packet with exactly these bytes. (No other connection of the binding
  has the same peer, or is locked to it.)
\<close>

theorem relay_transparent:
  assumes ok: "relay_ok s" and b: "rs_binding_at s b = Some bd"
    and i: "smap_find addr_pair_less (client, re_local env ki) (rs_connections s) = Some i" "rs_conn_at s i = Some cn"
      "i \<in> set (rb_internal bd)" "rl_locked cn"
    and e: "smap_find addr_pair_less (peer, re_local env ke) (rs_connections s) = Some e" "rs_conn_at s e = Some en"
      "e \<in> set (rb_external bd)" "rl_locked en"
    and peer: "sa_equal (rl_default_dest cn) (fst (rl_addr_pair en))"
    and only: "\<And>x xn. x \<in> set (rb_internal bd) \<Longrightarrow> rs_conn_at s x = Some xn \<Longrightarrow> rl_locked xn
        \<Longrightarrow> sa_equal (fst (rl_addr_pair en)) (rl_default_dest xn) \<Longrightarrow> x = i"
      "\<And>x xn. x \<in> set (rb_external bd) \<Longrightarrow> rs_conn_at s x = Some xn \<Longrightarrow> sa_equal (rl_default_dest cn) (fst (rl_addr_pair xn)) \<Longrightarrow> x = e"
    and sockets: "\<not> IsAnyIP (re_local env ki)" "\<not> IsAnyIP (re_local env ke)"
    and cookie: "take 4 (drop 24 data) \<noteq> TURN_MAGIC_COOKIE_VALUE"
  shows "(\<exists>s'. OnInternalPacket env ki data client s = Some s'
           \<and> rs_sent s' = rs_sent s @ [RelaySend (rl_socket en) data (fst (rl_addr_pair en))])
       \<and> (\<exists>s'. OnExternalPacket env ke data peer s = Some s'
           \<and> rs_sent s' = rs_sent s @ [RelaySend (rl_socket cn) data (fst (rl_addr_pair cn))])"
proof -
  have live: "\<exists>xn. rs_conn_at s x = Some xn \<and> rl_binding xn = b" if "x \<in> set (rb_internal bd) \<union> set (rb_external bd)" for x
    using binding_link [OF ok b] that by (auto simp: binding_links_def)
  have of_b: "rl_binding cn = b" "rl_binding en = b" using live [of i] live [of e] i(2,3) e(2,3) by auto
  have lives: "\<forall>x \<in> set (rb_internal bd). rs_conn_at s x \<noteq> None" "\<forall>x \<in> set (rb_external bd). rs_conn_at s x \<noteq> None"
    using live by force+
  have "find_link (\<lambda>xn. sa_equal (rl_default_dest cn) (fst (rl_addr_pair xn))) (rb_external bd) s = Some (Some e)"
  proof (rule find_only [where cn = en])
    show "x = e" if "x \<in> set (rb_external bd)" "rs_conn_at s x = Some xn" "sa_equal (rl_default_dest cn) (fst (rl_addr_pair xn))" for x xn
      by (rule only(2) [OF that])
  qed (fact lives(2) e(2) e(3) peer)+
  then have ext: "GetExternalConnection b (rl_default_dest cn) s = Some (Some e)"
    by (simp add: GetExternalConnection_def b)
  have "find_link (\<lambda>c. rl_locked c \<and> sa_equal (fst (rl_addr_pair en)) (rl_default_dest c)) (rb_internal bd) s = Some (Some i)"
  proof (rule find_only [where cn = cn])
    show "x = i" if "x \<in> set (rb_internal bd)" "rs_conn_at s x = Some xn"
      "rl_locked xn \<and> sa_equal (fst (rl_addr_pair en)) (rl_default_dest xn)" for x xn
      using only(1) [OF that(1,2)] that(3) by blast
    show "rl_locked cn \<and> sa_equal (fst (rl_addr_pair en)) (rl_default_dest cn)" using i(4) ap_equal_sym [OF peer] by blast
  qed (fact lives(1) i(2) i(3))+
  then have int: "GetInternalConnection b (fst (rl_addr_pair en)) s = Some i"
    using b by (simp add: GetInternalConnection_def)
  have "rb_magic_cookie bd = TURN_MAGIC_COOKIE_VALUE" using inv_binding [OF ok b] by (simp add: binding_ok_def)
  moreover have "length TURN_MAGIC_COOKIE_VALUE = 4" by (simp add: TURN_MAGIC_COOKIE_VALUE_def)
  ultimately have plain: "\<not> HasMagicCookie data bd" using cookie by (simp add: HasMagicCookie_def)
  obtain s1 where s1: "link_Send (re_now env) e data s = Some s1"
      "rs_sent s1 = rs_sent s @ [RelaySend (rl_socket en) data (fst (rl_addr_pair en))]"
    using link_Send_sends [OF ok e(2)] by blast
  have client: "OnInternalPacket env ki data client s = Some s1"
    unfolding OnInternalPacket_def Let_def using sockets(1) i(1,2,4) of_b b plain ext e(2,4) s1(1) by (simp add: ASSERT_def)
  obtain s2 where s2: "link_Send (re_now env) i data s = Some s2"
      "rs_sent s2 = rs_sent s @ [RelaySend (rl_socket cn) data (fst (rl_addr_pair cn))]"
    using link_Send_sends [OF ok i(2)] by blast
  have "runs_to (rsteps b) (link_Send (re_now env) i data s) s"
    by (rule link_Send_runs [OF ok]) (use i(2) of_b in \<open>simp add: link_of_def\<close>)
  then have "rsteps b s s2" using s2(1) by (simp add: runs_to_def)
  then obtain en' where en': "rs_conn_at s2 e = Some en'" using e(2) unfolding rsteps_def grows_def by blast
  have "link_SendFrom (re_now env) i data (fst (rl_addr_pair en)) s = Some s2"
    using i(2,4) peer s2(1) ap_equal_sym by (simp add: link_SendFrom_def)
  then have "OnExternalPacket env ke data peer s = Some (put_link e (en'\<lparr>rl_locked := True\<rparr>) s2)"
    unfolding OnExternalPacket_def Let_def using sockets(2) e(1,2) of_b int en' by (simp add: ASSERT_def link_Lock_def)
  then show ?thesis using client s1(2) s2(2) by (simp add: put_link_def)
qed

text \<open>The client at port 5009 and a peer at port 5017, both locked.\<close>

definition locked_relay :: relay_server where
  "locked_relay =
     (let client = relay_addr 9; peer = relay_addr 17;
          s = with_binding 1000 [97] 900000 RelayServer;
          s = with_link True 1000 0 (new_binding 1000 [97] 900000) (client, relay_addr 2) 2 s;
          s = with_link False 1000 0 (filed_in True 1000 1 (new_binding 1000 [97] 900000)) (peer, relay_addr 1) 1 s
      in put_link 2 ((new_link 0 (peer, relay_addr 1) 1)\<lparr>rl_locked := True\<rparr>)
           (put_link 1 ((new_link 0 (client, relay_addr 2) 2)\<lparr>rl_locked := True, rl_default_dest := peer\<rparr>) s))"

lemma relay_addr_differ: "\<not> sa_equal (relay_addr 17) (relay_addr 9)" "\<not> sa_equal (relay_addr 9) (relay_addr 17)"
  "sa_equal (relay_addr 9) (relay_addr 9)" "sa_equal (relay_addr 17) (relay_addr 17)"
  by code_simp+

lemma locked_relay_ok: "relay_ok locked_relay"
proof -
  let ?bd = "new_binding 1000 [97] 900000"
  let ?s1 = "with_binding 1000 [97] 900000 RelayServer"
  let ?s2 = "with_link True 1000 0 ?bd (relay_addr 9, relay_addr 2) 2 ?s1"
  let ?s3 = "with_link False 1000 0 (filed_in True 1000 1 ?bd) (relay_addr 17, relay_addr 1) 1 ?s2"
  have n: "rs_next RelayServer = 0" "rs_bindings RelayServer = []" "rs_connections RelayServer = []"
    by (simp_all add: RelayServer_def)
  have 1: "relay_inv {0} ?s1" using inv_with_binding [OF relay_start_ok, of "[97]" 1000 900000] n by simp
  have 2: "relay_ok ?s2"
    using inv_with_link [OF 1, of 0 ?bd "(relay_addr 9, relay_addr 2)" True 1000 2] n by (simp add: with_binding_fields)
  have "rs_binding_at ?s2 0 = Some (filed_in True 1000 1 ?bd)" by (simp add: with_link_fields with_binding_fields n)
  moreover have "smap_find addr_pair_less (relay_addr 17, relay_addr 1) (rs_connections ?s2) = None"
    by (simp add: with_link_fields with_binding_fields n pair_equal_def relay_addr_differ)
  ultimately have 3: "relay_ok ?s3" using inv_with_link [OF 2, of 0 _ _ False] by simp
  have c: "rs_conn_at ?s3 1 = Some (new_link 0 (relay_addr 9, relay_addr 2) 2)"
      "rs_conn_at ?s3 2 = Some (new_link 0 (relay_addr 17, relay_addr 1) 1)"
    by (simp_all add: with_link_fields with_binding_fields n)
  let ?s4 = "put_link 1 ((new_link 0 (relay_addr 9, relay_addr 2) 2)\<lparr>rl_locked := True, rl_default_dest := relay_addr 17\<rparr>) ?s3"
  have 4: "relay_ok ?s4" by (rule inv_put_link [OF 3 c(1)]) (simp add: same_link_def)
  have "rs_conn_at ?s4 2 = Some (new_link 0 (relay_addr 17, relay_addr 1) 1)" using c(2) by (simp add: put_link_def)
  from inv_put_link [OF 4 this] show ?thesis unfolding locked_relay_def Let_def by (simp add: same_link_def)
qed

lemma locked_relay_fields:
  "rs_binding_at locked_relay 0 = Some (filed_in False 1000 2 (filed_in True 1000 1 (new_binding 1000 [97] 900000)))"
  "rs_conn_at locked_relay 1 = Some ((new_link 0 (relay_addr 9, relay_addr 2) 2)\<lparr>rl_locked := True, rl_default_dest := relay_addr 17\<rparr>)"
  "rs_conn_at locked_relay 2 = Some ((new_link 0 (relay_addr 17, relay_addr 1) 1)\<lparr>rl_locked := True\<rparr>)"
  "smap_find addr_pair_less (relay_addr 9, relay_addr 2) (rs_connections locked_relay) = Some 1"
  "smap_find addr_pair_less (relay_addr 17, relay_addr 1) (rs_connections locked_relay) = Some 2"
proof -
  have n: "rs_next RelayServer = 0" by (simp add: RelayServer_def)
  note f = locked_relay_def Let_def put_link_def with_link_fields with_binding_fields n
  have p: "\<not> pair_equal (relay_addr 9, relay_addr 2) (relay_addr 17, relay_addr 1)" by (simp add: pair_equal_def relay_addr_differ)
  show "rs_binding_at locked_relay 0 = Some (filed_in False 1000 2 (filed_in True 1000 1 (new_binding 1000 [97] 900000)))"
    "rs_conn_at locked_relay 1 = Some ((new_link 0 (relay_addr 9, relay_addr 2) 2)\<lparr>rl_locked := True, rl_default_dest := relay_addr 17\<rparr>)"
    "rs_conn_at locked_relay 2 = Some ((new_link 0 (relay_addr 17, relay_addr 1) 1)\<lparr>rl_locked := True\<rparr>)"
    "smap_find addr_pair_less (relay_addr 9, relay_addr 2) (rs_connections locked_relay) = Some 1"
    "smap_find addr_pair_less (relay_addr 17, relay_addr 1) (rs_connections locked_relay) = Some 2"
    using p by (simp_all add: f numeral_2_eq_2)
qed

lemma relay_transparent_witness:
  "(\<exists>s'. OnInternalPacket relay_demo_env 2 [104, 105] (relay_addr 9) locked_relay = Some s'
      \<and> rs_sent s' = rs_sent locked_relay @ [RelaySend 1 [104, 105] (relay_addr 17)])
   \<and> (\<exists>s'. OnExternalPacket relay_demo_env 1 [104, 105] (relay_addr 17) locked_relay = Some s'
      \<and> rs_sent s' = rs_sent locked_relay @ [RelaySend 2 [104, 105] (relay_addr 9)])"
proof -
  note f = locked_relay_fields
  have local: "re_local relay_demo_env k = relay_addr k" for k by (simp add: relay_demo_env_def)
  show ?thesis
    using relay_transparent [OF locked_relay_ok f(1), of "relay_addr 9" relay_demo_env 2 1 _ "relay_addr 17" 1 2 _ "[104, 105]",
        unfolded local, OF f(4,2) _ _ f(5,3)] relay_addr_any
    by (simp add: new_link_def filed_in_def new_binding_def relay_addr_differ TURN_MAGIC_COOKIE_VALUE_def f local)
qed

text \<open>
  The peer of one binding cannot be the destination of another: the connection for it is created and put into the
  lists of the binding, and then AddConnection fails, since the map has the pair of addresses already.
\<close>

lemma shared_peer_aborts:
  assumes "rs_binding_at s b = Some bd" "GetExternalConnection b peer s = Some None" "length (rs_external_sockets s) = 1"
    "smap_find addr_pair_less (peer, re_local env (rs_external_sockets s ! 0)) (rs_connections s) = Some c"
  shows "external_for env b peer s = None"
  using assms
  by (simp add: external_for_def ASSERT_def RelayServerConnection_def NoteUsed_def put_link_def put_binding_def
      AddExternalConnection_def relay_AddConnection_def Let_def)

end
