(* ===== verification/Stun_Server.thy ===== *)
theory Stun_Server
  imports Stun_Properties
begin

text \<open>
  talk/p2p/base/stunserver.cc: the server that tells a client the address its request came from. The result
  of a handler is the packet sent back to the sender; \<open>None\<close> is a failing ASSERT.
\<close>

section \<open>The server\<close>

definition SendResponse :: "stun_message \<Rightarrow> bytes option" where
  "SendResponse msg = map_option Data (message_write msg (ByteBuffer_empty ORDER_NETWORK))"

definition SendErrorResponse :: "stun_message \<Rightarrow> nat \<Rightarrow> bytes \<Rightarrow> bytes option" where
  "SendErrorResponse msg code error_desc =
     (let err_msg = SetMessageType (GetStunErrorResponseType (sm_type msg)) StunMessage;
          err_msg = snd (SetTransactionID (sm_tid msg) err_msg);
          err_code = SetErrorClass (of_nat (code div 100)) CreateErrorCode;
          err_code = SetReason error_desc (SetNumber (of_nat (code mod 100)) err_code)
      in SendResponse (AddAttribute err_code err_msg))"

definition server_binding_response :: "stun_message \<Rightarrow> sock_addr \<Rightarrow> stun_message option" where
  "server_binding_response msg remote_addr =
     (let response = snd (SetTransactionID (sm_tid msg) (SetMessageType STUN_BINDING_RESPONSE StunMessage))
      in case IsLegacy msg of
           None \<Rightarrow> None
         | Some legacy \<Rightarrow>
             map_option (\<lambda>mapped_addr. AddAttribute (attr_SetIP (sa_ip remote_addr) (attr_SetPort (sa_port remote_addr) mapped_addr)) response)
               (CreateAddress (if \<not> legacy then STUN_ATTR_MAPPED_ADDRESS else STUN_ATTR_XOR_MAPPED_ADDRESS)))"



definition OnSharedSecretRequest :: "stun_message \<Rightarrow> bytes option" where
  "OnSharedSecretRequest msg = SendErrorResponse msg 600 (ascii ''Operation Not Supported'')"

definition OnSendRequest :: "stun_message \<Rightarrow> bytes option" where
  "OnSendRequest msg = SendErrorResponse msg 600 (ascii ''Operation Not Supported'')"


section \<open>What a client learns\<close>











text \<open>
  Requests with an id of sixteen bytes (of the older protocol) are answered with the XORed address, and
  those of the current protocol with the plain one: the wrong way around. From IPv6, the older ones get a response
  that is no message, since its address attribute is cut short (\<open>xor_ipv6_legacy_short\<close>).
\<close>

lemma legacy_gets_xored_address:
  assumes "length (sm_tid m) = 16"
  shows "\<exists>r. server_binding_response m a = Some r \<and> map at_type (sm_attrs r) = [STUN_ATTR_XOR_MAPPED_ADDRESS]"
  using assms
  by (simp add: server_binding_response_def IsLegacy_def kStunLegacyTransactionIdLength_def CreateAddress_def attr_codes AddAttribute_def
      SetTransactionID_def SetMessageType_def StunMessage_def IsValidTransactionId_def set_owner_def attr_SetIP_def attr_SetPort_def
      SetAddress_def)

end
