(* ===== verification/Base64.thy ===== *)
theory Base64
  imports Prelude "HOL-Library.Monad_Syntax"
begin

text \<open>
  talk/base/base64.cc: the Base64 encoding and its decoder, which can skip white space or anything
  that is not Base64, ask for padding, take or refuse it, and stop at the end, at a character or anywhere.
  Characters are bytes. \<open>None\<close> is a failing ASSERT.
\<close>

section \<open>Tables and flags\<close>

definition kPad :: byte where "kPad = 0x3D"
definition pd :: byte where "pd = 0xFD"
definition sp :: byte where "sp = 0xFE"
definition il :: byte where "il = 0xFF"

definition Base64Table :: bytes where
  "Base64Table = map of_char ''ABCDEFGHIJKLMNOPQRSTUVWXYZabcdefghijklmnopqrstuvwxyz0123456789+/''"

definition DecodeTable :: bytes where
  "DecodeTable =
    [il, il, il, il, il, il, il, il, il, sp, sp, sp, sp, sp, il, il,
     il, il, il, il, il, il, il, il, il, il, il, il, il, il, il, il,
     sp, il, il, il, il, il, il, il, il, il, il, 62, il, il, il, 63,
     52, 53, 54, 55, 56, 57, 58, 59, 60, 61, il, il, il, pd, il, il,
     il, 0, 1, 2, 3, 4, 5, 6, 7, 8, 9, 10, 11, 12, 13, 14,
     15, 16, 17, 18, 19, 20, 21, 22, 23, 24, 25, il, il, il, il, il,
     il, 26, 27, 28, 29, 30, 31, 32, 33, 34, 35, 36, 37, 38, 39, 40,
     41, 42, 43, 44, 45, 46, 47, 48, 49, 50, 51, il, il, il, il, il,
     il, il, il, il, il, il, il, il, il, il, il, il, il, il, il, il,
     il, il, il, il, il, il, il, il, il, il, il, il, il, il, il, il,
     il, il, il, il, il, il, il, il, il, il, il, il, il, il, il, il,
     il, il, il, il, il, il, il, il, il, il, il, il, il, il, il, il,
     il, il, il, il, il, il, il, il, il, il, il, il, il, il, il, il,
     il, il, il, il, il, il, il, il, il, il, il, il, il, il, il, il,
     il, il, il, il, il, il, il, il, il, il, il, il, il, il, il, il,
     il, il, il, il, il, il, il, il, il, il, il, il, il, il, il, il]"

definition DO_PARSE_STRICT :: u32 where "DO_PARSE_STRICT = 1"
definition DO_PARSE_WHITE :: u32 where "DO_PARSE_WHITE = 2"
definition DO_PARSE_ANY :: u32 where "DO_PARSE_ANY = 3"
definition DO_PARSE_MASK :: u32 where "DO_PARSE_MASK = 3"
definition DO_PAD_YES :: u32 where "DO_PAD_YES = 4"
definition DO_PAD_ANY :: u32 where "DO_PAD_ANY = 8"
definition DO_PAD_NO :: u32 where "DO_PAD_NO = 12"
definition DO_PAD_MASK :: u32 where "DO_PAD_MASK = 12"
definition DO_TERM_BUFFER :: u32 where "DO_TERM_BUFFER = 16"
definition DO_TERM_CHAR :: u32 where "DO_TERM_CHAR = 32"
definition DO_TERM_ANY :: u32 where "DO_TERM_ANY = 48"
definition DO_TERM_MASK :: u32 where "DO_TERM_MASK = 48"

definition IsBase64Char :: "byte \<Rightarrow> bool" where
  "IsBase64Char ch \<longleftrightarrow> 65 \<le> ch \<and> ch \<le> 90 \<or> 97 \<le> ch \<and> ch \<le> 122 \<or> 48 \<le> ch \<and> ch \<le> 57 \<or> ch = 43 \<or> ch = 47"

definition IsBase64Encoded :: "bytes \<Rightarrow> bool" where
  "IsBase64Encoded str \<longleftrightarrow> (\<forall>ch \<in> set str. IsBase64Char ch)"

section \<open>Encoding\<close>

text \<open>Three bytes at a time; what is missing of the last three is padded.\<close>

fun EncodeFromArray :: "bytes \<Rightarrow> bytes" where
  "EncodeFromArray [] = []"
| "EncodeFromArray [a] =
     [Base64Table ! unat (drop_bit 2 a AND 0x3F), Base64Table ! unat (push_bit 4 a AND 0x3F), kPad, kPad]"
| "EncodeFromArray [a, b] =
     [Base64Table ! unat (drop_bit 2 a AND 0x3F), Base64Table ! unat (push_bit 4 a AND 0x3F OR drop_bit 4 b AND 0x0F),
      Base64Table ! unat (push_bit 2 b AND 0x3F), kPad]"
| "EncodeFromArray (a # b # c # data) =
     [Base64Table ! unat (drop_bit 2 a AND 0x3F), Base64Table ! unat (push_bit 4 a AND 0x3F OR drop_bit 4 b AND 0x0F),
      Base64Table ! unat (push_bit 2 b AND 0x3F OR drop_bit 6 c AND 0x03), Base64Table ! unat (c AND 0x3F)]
     @ EncodeFromArray data"

section \<open>Decoding\<close>

text \<open>
  The loop of \<open>GetNextQuantum\<close> over the characters from \<open>dpos\<close> on: \<open>qs\<close> are the codes found so far
  (\<open>byte_len\<close> is their number). Its result is the position, the codes, \<open>pad_len\<close> and \<open>pad_start\<close>.
\<close>

fun quantum_loop :: "u32 \<Rightarrow> bool \<Rightarrow> bytes \<Rightarrow> nat \<Rightarrow> bytes \<Rightarrow> nat \<Rightarrow> nat \<Rightarrow> nat \<times> bytes \<times> nat \<times> nat" where
  "quantum_loop parse_flags illegal_pads [] dpos qs pad_len pad_start = (dpos, qs, pad_len, pad_start)"
| "quantum_loop parse_flags illegal_pads (ch # data) dpos qs pad_len pad_start =
     (let stop = (dpos, qs, pad_len, pad_start);
          skip = quantum_loop parse_flags illegal_pads data (dpos + 1) qs pad_len pad_start;
          q = DecodeTable ! unat ch
      in if \<not> length qs < 4 then stop
         else if q = il \<or> illegal_pads \<and> q = pd then (if parse_flags \<noteq> DO_PARSE_ANY then stop else skip)
         else if q = sp then (if parse_flags = DO_PARSE_STRICT then stop else skip)
         else if q = pd
         then if length qs < 2 then (if parse_flags \<noteq> DO_PARSE_ANY then stop else skip)
              else if length qs + pad_len \<ge> 4 then (if parse_flags \<noteq> DO_PARSE_ANY then stop else skip)
              else quantum_loop parse_flags illegal_pads data (dpos + 1) qs (pad_len + 1) (if pad_len + 1 = 1 then dpos else pad_start)
         else if pad_len > 0
         then (if parse_flags \<noteq> DO_PARSE_ANY then stop
               else quantum_loop parse_flags illegal_pads data (dpos + 1) (qs @ [q]) 0 pad_start)
         else quantum_loop parse_flags illegal_pads data (dpos + 1) (qs @ [q]) pad_len pad_start)"

text \<open>The number of codes, the four codes, whether the quantum is padded, and the position.\<close>

definition GetNextQuantum :: "u32 \<Rightarrow> bool \<Rightarrow> bytes \<Rightarrow> nat \<Rightarrow> nat \<times> bytes \<times> bool \<times> nat" where
  "GetNextQuantum parse_flags illegal_pads data dpos =
     (let (dpos, qs, pad_len, pad_start) = quantum_loop parse_flags illegal_pads (drop dpos data) dpos [] 0 0;
          qbuf = qs @ replicate (4 - length qs) 0
      in if length qs + pad_len = 4 then (length qs, qbuf, True, dpos)
         else (length qs, qbuf, False, if pad_len \<noteq> 0 then pad_start else dpos))"

lemma quantum_loop_advances:
  "quantum_loop f ill data dpos qs pl ps = (dpos', qs', pl', ps') \<Longrightarrow> (length qs = 4 \<longrightarrow> pl = 0)
     \<Longrightarrow> dpos + length qs' \<le> dpos' + length qs \<and> length qs \<le> length qs' \<and> (length qs' = 4 \<longrightarrow> pl' = 0)"
  by (induction f ill data dpos qs pl ps rule: quantum_loop.induct) (fastforce simp: Let_def split: if_splits)+

lemma GetNextQuantum_advances: "GetNextQuantum f ill data dpos = (4, qbuf, padded, dpos') \<Longrightarrow> dpos < dpos'"
proof -
  assume a: "GetNextQuantum f ill data dpos = (4, qbuf, padded, dpos')"
  obtain d qs pl ps where q: "quantum_loop f ill (drop dpos data) dpos [] 0 0 = (d, qs, pl, ps)" by (metis prod_cases4)
  have "length qs = 4" using a q by (auto simp: GetNextQuantum_def Let_def split: if_splits)
  then show ?thesis using a q quantum_loop_advances [OF q] by (auto simp: GetNextQuantum_def Let_def split: if_splits)
qed

definition decoded_bytes :: "nat \<Rightarrow> bytes \<Rightarrow> bytes \<times> byte" where
  "decoded_bytes qlen qbuf =
     (let c0 = push_bit 2 (qbuf ! 0) OR drop_bit 4 (qbuf ! 1) AND 0x3;
          c1 = push_bit 4 (qbuf ! 1) AND 0xF0 OR drop_bit 2 (qbuf ! 2) AND 0xF;
          c2 = push_bit 6 (qbuf ! 2) AND 0xC0 OR qbuf ! 3
      in if qlen \<ge> 4 then ([c0, c1, c2], 0)
         else if qlen \<ge> 3 then ([c0, c1], c2)
         else if qlen \<ge> 2 then ([c0], c1)
         else ([], c0))"

text \<open>The loop of the decoder; its result is the success, the bytes and the position.\<close>

function decode_loop :: "u32 \<Rightarrow> u32 \<Rightarrow> u32 \<Rightarrow> bytes \<Rightarrow> nat \<Rightarrow> bool \<times> bytes \<times> nat" where
  "decode_loop parse_flags pad_flags term_flags data dpos =
     (if \<not> dpos < length data then (True, [], dpos)
      else case GetNextQuantum parse_flags (pad_flags = DO_PAD_NO) data dpos of (qlen, qbuf, padded, dpos) \<Rightarrow>
        (case decoded_bytes qlen qbuf of (out, c) \<Rightarrow>
           if qlen = 4
           then (case decode_loop parse_flags pad_flags term_flags data dpos of (success, result, dpos) \<Rightarrow> (success, out @ result, dpos))
           else (\<not> (term_flags \<noteq> DO_TERM_ANY \<and> c \<noteq> 0) \<and> \<not> (pad_flags = DO_PAD_YES \<and> \<not> padded), out, dpos)))"
  by pat_completeness auto
termination
proof (relation "measure (\<lambda>(_, _, _, data, dpos). length data - dpos)", goal_cases)
  case (2 pf pa tf data dpos qlen rest qbuf rest' padded dpos')
  have "GetNextQuantum pf (pa = DO_PAD_NO) data dpos = (4, qbuf, padded, dpos')" using 2 by simp
  then have "dpos < dpos'" by (rule GetNextQuantum_advances)
  then show ?case using 2(1) by simp
qed simp

declare decode_loop.simps [simp del]

definition DecodeFromArray :: "bytes \<Rightarrow> u32 \<Rightarrow> (bool \<times> bytes \<times> nat) option" where
  "DecodeFromArray data flags = do {
     ASSERT (sint flags \<le> sint (DO_PARSE_MASK OR DO_PAD_MASK OR DO_TERM_MASK));
     let parse_flags = flags AND DO_PARSE_MASK;
     let pad_flags = flags AND DO_PAD_MASK;
     let term_flags = flags AND DO_TERM_MASK;
     ASSERT (0 \<noteq> parse_flags);
     ASSERT (0 \<noteq> pad_flags);
     ASSERT (0 \<noteq> term_flags);
     let (success, result, dpos) = decode_loop parse_flags pad_flags term_flags data 0;
     Some (if term_flags = DO_TERM_BUFFER \<and> dpos \<noteq> length data then False else success, result, dpos)
   }"

end
