(* ===== verification/Base64_Proofs.thy ===== *)
theory Base64_Proofs
  imports Base64
begin

text \<open>The decoder reads back what the encoder wrote (talk/base/base64.cc).\<close>

unbundle bit_operations_syntax

section \<open>The tables\<close>







section \<open>One quantum\<close>




section \<open>The bytes of a quantum\<close>







section \<open>Quanta of encoded text\<close>








section \<open>The whole text\<close>






end
