(* ===== verification/Message_Queue.thy ===== *)
theory Message_Queue
  imports Prelude Time_Utils "HOL-Library.Monad_Syntax"
begin

text \<open>
  talk/base/messagequeue.cc and messagehandler.cc: the queue of a thread with its posted and its delayed
  messages, and the manager that knows the queues in use. A handler and the data of a message are
  addresses, \<open>None\<close> the null pointer. An operation returns what it does as a list of events: its outside effects,
  and \<open>Queued\<close> for each message that enters the queue;
  it returns \<open>None\<close> where an ASSERT or a VERIFY fails. The clock is an argument. What other threads and the sockets do while
  \<open>Get\<close> waits is the list of calls they make on the queue during each wait, with the answer of Wait and the
  time after it. Log output is left out.
\<close>

section \<open>Messages\<close>

definition kForever :: int where "kForever = - 1"
definition kMaxMsgLatency :: u32 where "kMaxMsgLatency = 150"
definition MQID_ANY :: u32 where "MQID_ANY = 0xFFFFFFFF"
definition MQID_DISPOSE :: u32 where "MQID_DISPOSE = 0xFFFFFFFE"

definition TimeUntil :: "u32 \<Rightarrow> u32 \<Rightarrow> int" where
  "TimeUntil now later = TimeDiff later now"

record message =
  mg_phandler :: "nat option"
  mg_id :: u32
  mg_pdata :: "nat option"
  mg_ts_sensitive :: u32

definition Message_new :: message where
  "Message_new = \<lparr>mg_phandler = None, mg_id = 0, mg_pdata = None, mg_ts_sensitive = 0\<rparr>"

definition Match :: "nat option \<Rightarrow> u32 \<Rightarrow> message \<Rightarrow> bool" where
  "Match handler ident m \<longleftrightarrow> (handler = None \<or> handler = mg_phandler m) \<and> (ident = MQID_ANY \<or> ident = mg_id m)"

record delayed_message =
  dm_cmsDelay :: int
  dm_msTrigger :: u32
  dm_num :: u32
  dm_msg :: message

text \<open>The order of the priority queue, whose top is the greatest.\<close>

definition dm_less :: "delayed_message \<Rightarrow> delayed_message \<Rightarrow> bool" where
  "dm_less d dmsg \<longleftrightarrow> dm_msTrigger dmsg < dm_msTrigger d \<or> dm_msTrigger dmsg = dm_msTrigger d \<and> dm_num dmsg < dm_num d"

text \<open>std::priority_queue: a list with the top in front. (The order of its container below the top is the library's.)\<close>

fun pq_push :: "delayed_message \<Rightarrow> delayed_message list \<Rightarrow> delayed_message list" where
  "pq_push d [] = [d]"
| "pq_push d (e # es) = (if dm_less e d then d # e # es else e # pq_push d es)"

section \<open>The queue\<close>

record message_queue =
  mq_stop :: bool
  mq_peek_keep :: bool
  mq_peek :: message
  mq_active :: bool
  mq_msgq :: "message list"
  mq_dmsgq :: "delayed_message list"
  mq_next_num :: u32

datatype mq_event = AddToManager | WakeUp | WaitFor int | DeleteData nat | Queued message

definition MessageQueue_new :: message_queue where
  "MessageQueue_new = \<lparr>mq_stop = False, mq_peek_keep = False, mq_peek = Message_new, mq_active = False,
     mq_msgq = [], mq_dmsgq = [], mq_next_num = 0\<rparr>"

definition delete_data :: "message \<Rightarrow> mq_event list" where
  "delete_data m = (case mg_pdata m of None \<Rightarrow> [] | Some p \<Rightarrow> [DeleteData p])"

definition Quit :: "message_queue \<Rightarrow> mq_event list \<times> message_queue" where
  "Quit q = ([WakeUp], q\<lparr>mq_stop := True\<rparr>)"

definition IsQuitting :: "message_queue \<Rightarrow> bool" where
  "IsQuitting q = mq_stop q"

definition Restart :: "message_queue \<Rightarrow> message_queue" where
  "Restart q = q\<lparr>mq_stop := False\<rparr>"

definition mq_empty :: "message_queue \<Rightarrow> bool" where
  "mq_empty q \<longleftrightarrow> mq_msgq q = [] \<and> mq_dmsgq q = [] \<and> \<not> mq_peek_keep q"

definition mq_size :: "message_queue \<Rightarrow> nat" where
  "mq_size q = length (mq_msgq q) + length (mq_dmsgq q) + (if mq_peek_keep q then 1 else 0)"

definition EnsureActive :: "message_queue \<Rightarrow> mq_event list \<times> message_queue" where
  "EnsureActive q = (if \<not> mq_active q then ([AddToManager], q\<lparr>mq_active := True\<rparr>) else ([], q))"

definition Post :: "u32 \<Rightarrow> nat option \<Rightarrow> u32 \<Rightarrow> nat option \<Rightarrow> bool \<Rightarrow> message_queue \<Rightarrow> mq_event list \<times> message_queue" where
  "Post now phandler ident pdata time_sensitive q =
     (if mq_stop q then ([], q)
      else let (evs, q) = EnsureActive q;
               msg = Message_new\<lparr>mg_phandler := phandler, mg_id := ident, mg_pdata := pdata\<rparr>;
               msg = (if time_sensitive then msg\<lparr>mg_ts_sensitive := now + kMaxMsgLatency\<rparr> else msg)
           in (evs @ [Queued msg, WakeUp], q\<lparr>mq_msgq := mq_msgq q @ [msg]\<rparr>))"

definition Dispose :: "u32 \<Rightarrow> nat option \<Rightarrow> message_queue \<Rightarrow> mq_event list \<times> message_queue" where
  "Dispose now doomed q = (if doomed \<noteq> None then Post now None MQID_DISPOSE doomed False q else ([], q))"

definition DoDelayPost ::
  "int \<Rightarrow> u32 \<Rightarrow> nat option \<Rightarrow> u32 \<Rightarrow> nat option \<Rightarrow> message_queue \<Rightarrow> (mq_event list \<times> message_queue) option" where
  "DoDelayPost cmsDelay tstamp phandler ident pdata q =
     (if mq_stop q then Some ([], q)
      else do {
        let (evs, q) = EnsureActive q;
        let msg = Message_new\<lparr>mg_phandler := phandler, mg_id := ident, mg_pdata := pdata\<rparr>;
        let dmsg = \<lparr>dm_cmsDelay = cmsDelay, dm_msTrigger = tstamp, dm_num = mq_next_num q, dm_msg = msg\<rparr>;
        let q = q\<lparr>mq_dmsgq := pq_push dmsg (mq_dmsgq q), mq_next_num := mq_next_num q + 1\<rparr>;
        ASSERT (0 \<noteq> mq_next_num q);
        Some (evs @ [Queued msg, WakeUp], q)
      })"

definition PostDelayed ::
  "u32 \<Rightarrow> int \<Rightarrow> nat option \<Rightarrow> u32 \<Rightarrow> nat option \<Rightarrow> message_queue \<Rightarrow> (mq_event list \<times> message_queue) option" where
  "PostDelayed now cmsDelay phandler ident pdata q = DoDelayPost cmsDelay (TimeAfter now cmsDelay) phandler ident pdata q"

definition PostAt ::
  "u32 \<Rightarrow> u32 \<Rightarrow> nat option \<Rightarrow> u32 \<Rightarrow> nat option \<Rightarrow> message_queue \<Rightarrow> (mq_event list \<times> message_queue) option" where
  "PostAt now tstamp phandler ident pdata q = DoDelayPost (TimeUntil now tstamp) tstamp phandler ident pdata q"

definition GetDelay :: "u32 \<Rightarrow> message_queue \<Rightarrow> int" where
  "GetDelay now q =
     (if mq_msgq q \<noteq> [] then 0
      else case mq_dmsgq q of
        d # _ \<Rightarrow> (let delay = TimeUntil now (dm_msTrigger d) in if delay < 0 then 0 else delay)
      | [] \<Rightarrow> kForever)"

text \<open>
  The messages that match leave the queue: they are returned if the caller gives a list for them, and
  otherwise their data is deleted.
\<close>

definition matching :: "nat option \<Rightarrow> u32 \<Rightarrow> message_queue \<Rightarrow> message list" where
  "matching phandler ident q =
     (if mq_peek_keep q \<and> Match phandler ident (mq_peek q) then [mq_peek q] else [])
     @ filter (Match phandler ident) (mq_msgq q) @ map dm_msg (filter (\<lambda>d. Match phandler ident (dm_msg d)) (mq_dmsgq q))"

definition not_matching :: "nat option \<Rightarrow> u32 \<Rightarrow> message_queue \<Rightarrow> message_queue" where
  "not_matching phandler ident q = q\<lparr>
     mq_peek_keep := mq_peek_keep q \<and> \<not> Match phandler ident (mq_peek q),
     mq_msgq := filter (\<lambda>m. \<not> Match phandler ident m) (mq_msgq q),
     mq_dmsgq := filter (\<lambda>d. \<not> Match phandler ident (dm_msg d)) (mq_dmsgq q)\<rparr>"

definition MessageQueue_Clear ::
  "nat option \<Rightarrow> u32 \<Rightarrow> bool \<Rightarrow> message_queue \<Rightarrow> message list \<times> mq_event list \<times> message_queue" where
  "MessageQueue_Clear phandler ident removed q =
     (let hits = matching phandler ident q
      in if removed then (hits, [], not_matching phandler ident q)
         else ([], concat (map delete_data hits), not_matching phandler ident q))"

section \<open>What others call while the queue waits\<close>

datatype mq_call =
    CallPost u32 "nat option" u32 "nat option" bool
  | CallPostDelayed u32 int "nat option" u32 "nat option"
  | CallPostAt u32 u32 "nat option" u32 "nat option"
  | CallClear "nat option" u32
  | CallQuit
  | CallRestart

fun run_call :: "mq_call \<Rightarrow> message_queue \<Rightarrow> (mq_event list \<times> message_queue) option" where
  "run_call (CallPost now h ident p ts) q = Some (Post now h ident p ts q)"
| "run_call (CallPostDelayed now d h ident p) q = PostDelayed now d h ident p q"
| "run_call (CallPostAt now t h ident p) q = PostAt now t h ident p q"
| "run_call (CallClear h ident) q = (case MessageQueue_Clear h ident False q of (_, evs, q) \<Rightarrow> Some (evs, q))"
| "run_call CallQuit q = Some (Quit q)"
| "run_call CallRestart q = Some ([], Restart q)"

fun run_calls :: "mq_call list \<Rightarrow> message_queue \<Rightarrow> (mq_event list \<times> message_queue) option" where
  "run_calls [] q = Some ([], q)"
| "run_calls (c # cs) q = do { (evs, q) \<leftarrow> run_call c q; (evs', q) \<leftarrow> run_calls cs q; Some (evs @ evs', q) }"

section \<open>Taking messages out\<close>

text \<open>The first inner loop of \<open>Get\<close>: triggered messages move to the posted ones; the delay until the next one.\<close>

fun trigger_loop :: "u32 \<Rightarrow> message list \<Rightarrow> delayed_message list \<Rightarrow> int \<times> message list \<times> delayed_message list" where
  "trigger_loop msCurrent msgq [] = (kForever, msgq, [])"
| "trigger_loop msCurrent msgq (d # ds) =
     (if TimeIsLater msCurrent (dm_msTrigger d) then (TimeDiff (dm_msTrigger d) msCurrent, msgq, d # ds)
      else trigger_loop msCurrent (msgq @ [dm_msg d]) ds)"

text \<open>The second one: the first posted message that is not an object to be deleted.\<close>

fun posted_loop :: "message list \<Rightarrow> (message option \<times> mq_event list \<times> message list) option" where
  "posted_loop [] = Some (None, [], [])"
| "posted_loop (m # ms) =
     (if MQID_DISPOSE = mg_id m
      then do {
        ASSERT (mg_phandler m = None);
        (r, evs, rest) \<leftarrow> posted_loop ms;
        Some (r, delete_data m @ evs, rest)
      }
      else Some (Some m, [], ms))"

definition next_wait :: "int \<Rightarrow> int \<Rightarrow> int \<Rightarrow> int" where
  "next_wait cmsWait cmsElapsed cmsDelayNext =
     (if cmsWait = kForever then cmsDelayNext
      else let cmsNext = max 0 (cmsWait - cmsElapsed)
           in if cmsDelayNext \<noteq> kForever \<and> cmsDelayNext < cmsNext then cmsDelayNext else cmsNext)"

text \<open>\<open>Get\<close> returns a message or nothing, or is still in Wait when the list of waits ends.\<close>

datatype get_result = Got message | GotNothing | Waiting

type_synonym mq_wait = "mq_call list \<times> bool \<times> u32"

fun Get_loop :: "int \<Rightarrow> u32 \<Rightarrow> u32 \<Rightarrow> mq_wait list \<Rightarrow> message_queue \<Rightarrow> (get_result \<times> mq_event list \<times> message_queue) option" where
  "Get_loop cmsWait msStart msCurrent waits q = do {
     let (cmsDelayNext, msgq, dmsgq) = trigger_loop msCurrent (mq_msgq q) (mq_dmsgq q);
     (r, evs, rest) \<leftarrow> posted_loop msgq;
     let q = q\<lparr>mq_msgq := rest, mq_dmsgq := dmsgq\<rparr>;
     case r of
       Some m \<Rightarrow> Some (Got m, evs, q)
     | None \<Rightarrow>
         if mq_stop q then Some (GotNothing, evs, q)
         else do {
           let evs = evs @ [WaitFor (next_wait cmsWait (TimeDiff msCurrent msStart) cmsDelayNext)];
           (case waits of
              [] \<Rightarrow> Some (Waiting, evs, q)
            | (calls, ok, now) # waits \<Rightarrow> do {
                (evs', q) \<leftarrow> run_calls calls q;
                if \<not> ok \<or> cmsWait \<noteq> kForever \<and> TimeDiff now msStart \<ge> cmsWait then Some (GotNothing, evs @ evs', q)
                else do {
                  (res, evs'', q) \<leftarrow> Get_loop cmsWait msStart now waits q;
                  Some (res, evs @ evs' @ evs'', q)
                }
              })
         }
   }"

declare Get_loop.simps [simp del]

definition MessageQueue_Get :: "int \<Rightarrow> u32 \<Rightarrow> mq_wait list \<Rightarrow> message_queue \<Rightarrow> (get_result \<times> mq_event list \<times> message_queue) option" where
  "MessageQueue_Get cmsWait now waits q =
     (if mq_peek_keep q then Some (Got (mq_peek q), [], q\<lparr>mq_peek_keep := False\<rparr>)
      else Get_loop cmsWait now now waits q)"

definition MessageQueue_Peek :: "int \<Rightarrow> u32 \<Rightarrow> mq_wait list \<Rightarrow> message_queue \<Rightarrow> (get_result \<times> mq_event list \<times> message_queue) option" where
  "MessageQueue_Peek cmsWait now waits q =
     (if mq_peek_keep q then Some (Got (mq_peek q), [], q)
      else do {
        (r, evs, q) \<leftarrow> MessageQueue_Get cmsWait now waits q;
        (case r of
           Got m \<Rightarrow> Some (r, evs, q\<lparr>mq_peek := m, mq_peek_keep := True\<rparr>)
         | _ \<Rightarrow> Some (r, evs, q))
      })"

section \<open>The manager of the queues\<close>

text \<open>The manager, if it exists, holds the queues in use; the queues themselves are found by their address.\<close>

record mq_world =
  mw_instance :: "nat list option"
  mw_queues :: "nat \<rightharpoonup> message_queue"

definition Instance :: "mq_world \<Rightarrow> nat list" where
  "Instance w = (case mw_instance w of None \<Rightarrow> [] | Some l \<Rightarrow> l)"

definition Manager_Add :: "nat \<Rightarrow> mq_world \<Rightarrow> mq_world" where
  "Manager_Add p w = w\<lparr>mw_instance := Some (Instance w @ [p])\<rparr>"

definition Manager_Remove :: "nat \<Rightarrow> mq_world \<Rightarrow> mq_world" where
  "Manager_Remove p w = (let l = remove1 p (Instance w) in w\<lparr>mw_instance := (if l = [] then None else Some l)\<rparr>)"

fun Manager_Clear_loop :: "nat option \<Rightarrow> nat list \<Rightarrow> mq_world \<Rightarrow> (mq_event list \<times> mq_world) option" where
  "Manager_Clear_loop handler [] w = Some ([], w)"
| "Manager_Clear_loop handler (p # ps) w = do {
     q \<leftarrow> mw_queues w p;
     let (_, evs, q) = MessageQueue_Clear handler MQID_ANY False q;
     (evs', w) \<leftarrow> Manager_Clear_loop handler ps (w\<lparr>mw_queues := (mw_queues w)(p \<mapsto> q)\<rparr>);
     Some (evs @ evs', w)
   }"

definition Manager_Clear :: "nat option \<Rightarrow> mq_world \<Rightarrow> (mq_event list \<times> mq_world) option" where
  "Manager_Clear handler w = (let l = Instance w in Manager_Clear_loop handler l (w\<lparr>mw_instance := Some l\<rparr>))"

definition delete_MessageHandler :: "nat \<Rightarrow> mq_world \<Rightarrow> (mq_event list \<times> mq_world) option" where
  "delete_MessageHandler h w = Manager_Clear (Some h) w"

definition new_MessageQueue :: "nat \<Rightarrow> mq_world \<Rightarrow> mq_world" where
  "new_MessageQueue p w = w\<lparr>mw_queues := (mw_queues w)(p \<mapsto> MessageQueue_new)\<rparr>"

definition delete_MessageQueue :: "nat \<Rightarrow> mq_world \<Rightarrow> (mq_event list \<times> mq_world) option" where
  "delete_MessageQueue p w = do {
     q \<leftarrow> mw_queues w p;
     let (evs, w) = (if mq_active q then (fst (snd (MessageQueue_Clear None MQID_ANY False q)), Manager_Remove p w) else ([], w));
     Some (evs, w\<lparr>mw_queues := (mw_queues w)(p := None)\<rparr>)
   }"

text \<open>An operation on the queue at an address; a queue that becomes active joins the manager.\<close>

definition finish_queue :: "nat \<Rightarrow> mq_event list \<Rightarrow> message_queue \<Rightarrow> mq_world \<Rightarrow> mq_world" where
  "finish_queue p evs q w =
     (let w = w\<lparr>mw_queues := (mw_queues w)(p \<mapsto> q)\<rparr>
      in if AddToManager \<in> set evs then Manager_Add p w else w)"

end
