(* ===== verification/Message_Queue_Proofs.thy ===== *)
theory Message_Queue_Proofs
  imports Message_Queue "HOL-Library.Multiset"
begin

text \<open>
  Message queues (talk/base/messagequeue.cc): what every operation keeps of a queue, that no data of a message
  is lost or deleted twice, the order of delivery, and that nothing is left for a handler that is destroyed.
\<close>

section \<open>The messages in a queue\<close>

definition messages :: "message_queue \<Rightarrow> message list" where
  "messages q = (if mq_peek_keep q then [mq_peek q] else []) @ mq_msgq q @ map dm_msg (mq_dmsgq q)"

definition payload :: "message \<Rightarrow> nat list" where
  "payload m = (case mg_pdata m of None \<Rightarrow> [] | Some p \<Rightarrow> [p])"

definition payloads :: "message list \<Rightarrow> nat multiset" where
  "payloads ms = mset (concat (map payload ms))"

lemma payloads_simps [simp]:
  "payloads [] = {#}" "payloads (m # ms) = mset (payload m) + payloads ms" "payloads (ms @ ms') = payloads ms + payloads ms'"
  by (simp_all add: payloads_def)

fun deleted :: "mq_event list \<Rightarrow> nat list" where
  "deleted [] = []"
| "deleted (DeleteData p # evs) = p # deleted evs"
| "deleted (_ # evs) = deleted evs"

fun queued :: "mq_event list \<Rightarrow> message list" where
  "queued [] = []"
| "queued (Queued m # evs) = m # queued evs"
| "queued (_ # evs) = queued evs"

lemma deleted_append [simp]: "deleted (xs @ ys) = deleted xs @ deleted ys"
  by (induction xs rule: deleted.induct) simp_all

lemma queued_append [simp]: "queued (xs @ ys) = queued xs @ queued ys"
  by (induction xs rule: queued.induct) simp_all

lemma delete_data_events [simp]:
  "deleted (delete_data m) = payload m" "queued (delete_data m) = []" "AddToManager \<notin> set (delete_data m)"
  by (simp_all add: delete_data_def payload_def split: option.split)

lemma delete_all_events [simp]:
  "mset (deleted (concat (map delete_data ms))) = payloads ms" "queued (concat (map delete_data ms)) = []"
  by (induction ms) simp_all

definition disposal_ok :: "message \<Rightarrow> bool" where
  "disposal_ok m \<longleftrightarrow> (mg_id m = MQID_DISPOSE \<longrightarrow> mg_phandler m = None)"

text \<open>The delayed messages stand in the order of their triggers and numbers; a queue never used is empty.\<close>

definition queue_ok :: "message_queue \<Rightarrow> bool" where
  "queue_ok q \<longleftrightarrow> sorted_wrt (\<lambda>a b. dm_less b a) (mq_dmsgq q)
     \<and> (\<forall>d \<in> set (mq_dmsgq q). dm_num d < mq_next_num q)
     \<and> (\<forall>m \<in> set (messages q). disposal_ok m)
     \<and> (\<not> mq_active q \<longrightarrow> messages q = [])"

text \<open>
  What an operation does to a queue: it keeps the invariant, numbers at most \<open>n\<close> messages, and accounts for the
  data: what was there or came in is still there, was deleted or is among the messages \<open>out\<close> handed out.
\<close>

definition queue_step :: "nat \<Rightarrow> message_queue \<Rightarrow> message list \<Rightarrow> mq_event list \<Rightarrow> message_queue \<Rightarrow> bool" where
  "queue_step n q out evs q' \<longleftrightarrow> queue_ok q' \<and> unat (mq_next_num q') \<le> unat (mq_next_num q) + n
     \<and> payloads (messages q) + payloads (queued evs) = payloads (messages q') + mset (deleted evs) + payloads out
     \<and> (mq_active q \<longrightarrow> mq_active q') \<and> (AddToManager \<in> set evs \<longleftrightarrow> mq_active q' \<and> \<not> mq_active q)
     \<and> (\<forall>m \<in> set out. disposal_ok m \<and> mq_active q')"

lemma queue_step_trans:
  "queue_step n q out evs q' \<Longrightarrow> queue_step n' q' out' evs' q'' \<Longrightarrow> queue_step (n + n') q (out @ out') (evs @ evs') q''"
proof -
  assume a: "queue_step n q out evs q'" and b: "queue_step n' q' out' evs' q''"
  have "payloads (messages q) + payloads (queued evs) + payloads (queued evs')
    = (payloads (messages q') + payloads (queued evs')) + mset (deleted evs) + payloads out"
    using a by (simp add: queue_step_def add.assoc add.left_commute add.commute)
  also have "\<dots> = payloads (messages q'') + mset (deleted evs') + payloads out' + mset (deleted evs) + payloads out"
    using b by (simp add: queue_step_def)
  finally have "payloads (messages q) + payloads (queued (evs @ evs'))
    = payloads (messages q'') + mset (deleted (evs @ evs')) + payloads (out @ out')" by (simp add: ac_simps)
  moreover have "\<forall>m \<in> set (out @ out'). disposal_ok m \<and> mq_active q''" using a b unfolding queue_step_def by auto
  moreover have "AddToManager \<in> set (evs @ evs') \<longleftrightarrow> mq_active q'' \<and> \<not> mq_active q" "mq_active q \<longrightarrow> mq_active q''"
    using a b unfolding queue_step_def by auto
  moreover have "queue_ok q''" "unat (mq_next_num q'') \<le> unat (mq_next_num q) + (n + n')"
    using a b unfolding queue_step_def by auto
  ultimately show ?thesis unfolding queue_step_def by blast
qed

lemma queue_step_refl [simp]: "queue_step n q [] [] q \<longleftrightarrow> queue_ok q"
  by (simp add: queue_step_def)

lemma queue_step_mono: "queue_step n q out evs q' \<Longrightarrow> n \<le> n' \<Longrightarrow> queue_step n' q out evs q'"
  by (simp add: queue_step_def)

section \<open>The calls\<close>

lemma set_pq_push [simp]: "set (pq_push d ds) = insert d (set ds)"
  by (induction ds) auto

lemma mset_pq_push [simp]: "mset (pq_push d ds) = add_mset d (mset ds)"
  by (induction ds) auto

lemma dm_less_trans: "dm_less a b \<Longrightarrow> dm_less b c \<Longrightarrow> dm_less a c"
  by (auto simp: dm_less_def)

lemma sorted_pq_push:
  "sorted_wrt (\<lambda>a b. dm_less b a) ds \<Longrightarrow> \<forall>e \<in> set ds. dm_num e < dm_num d
     \<Longrightarrow> sorted_wrt (\<lambda>a b. dm_less b a) (pq_push d ds)"
proof (induction ds)
  case (Cons e es)
  show ?case
  proof (cases "dm_less e d")
    case True
    then show ?thesis using Cons.prems dm_less_trans by auto
  next
    case False
    then have "dm_less d e" using Cons.prems(2) by (auto simp: dm_less_def)
    then show ?thesis using Cons False by auto
  qed
qed simp

lemma payloads_pq_push: "payloads (map dm_msg (pq_push d ds)) = mset (payload (dm_msg d)) + payloads (map dm_msg ds)"
  by (induction ds) (simp_all add: ac_simps)

lemmas step_defs = queue_step_def queue_ok_def messages_def

text \<open>A queue that takes in a message, whether it was in use before or not.\<close>

lemma enqueue_step:
  assumes ok: "queue_ok q" "disposal_ok m" and en: "EnsureActive q = (evs, q1)"
    and q': "queue_ok q'" "mq_active q'" "payloads (messages q') = mset (payload m) + payloads (messages q)"
      "unat (mq_next_num q') \<le> unat (mq_next_num q) + n"
  shows "queue_step n q [] (evs @ [Queued m, WakeUp]) q'"
  using en q' by (auto simp: queue_step_def EnsureActive_def split: if_splits)

lemma Post_step:
  assumes ok: "queue_ok q" and id: "ident = MQID_DISPOSE \<longrightarrow> h = None" and post: "Post now h ident p ts q = (evs, q')"
  shows "queue_step 0 q [] evs q'"
proof (cases "mq_stop q")
  case True
  then show ?thesis using ok post by (simp add: Post_def)
next
  case False
  obtain evs1 q1 where en: "EnsureActive q = (evs1, q1)" by fastforce
  define m where "m = (let msg = Message_new\<lparr>mg_phandler := h, mg_id := ident, mg_pdata := p\<rparr>
    in if ts then msg\<lparr>mg_ts_sensitive := now + kMaxMsgLatency\<rparr> else msg)"
  have r: "evs = evs1 @ [Queued m, WakeUp]" "q' = q1\<lparr>mq_msgq := mq_msgq q1 @ [m]\<rparr>"
    using post False en by (simp_all add: Post_def m_def Let_def)
  have m: "disposal_ok m" using id by (simp add: m_def disposal_ok_def Let_def)
  have q1: "q1 = q\<lparr>mq_active := True\<rparr>" using en by (auto simp: EnsureActive_def split: if_splits)
  have "queue_ok q'" using ok m unfolding r q1 by (auto simp: queue_ok_def messages_def)
  moreover have "payloads (messages q') = mset (payload m) + payloads (messages q)" unfolding r q1 by (simp add: messages_def ac_simps)
  ultimately show ?thesis unfolding r(1) by (intro enqueue_step [OF ok m en]) (simp_all add: r q1)
qed

lemma DoDelayPost_step:
  assumes ok: "queue_ok q" and id: "ident = MQID_DISPOSE \<longrightarrow> h = None" and room: "unat (mq_next_num q) + 1 < 4294967296"
  shows "\<exists>evs q'. DoDelayPost d t h ident p q = Some (evs, q') \<and> queue_step 1 q [] evs q'"
proof (cases "mq_stop q")
  case True
  then show ?thesis using ok by (simp add: DoDelayPost_def)
next
  case False
  obtain evs1 q1 where en: "EnsureActive q = (evs1, q1)" by fastforce
  define m where "m = Message_new\<lparr>mg_phandler := h, mg_id := ident, mg_pdata := p\<rparr>"
  define dm where "dm = \<lparr>dm_cmsDelay = d, dm_msTrigger = t, dm_num = mq_next_num q, dm_msg = m\<rparr>"
  define q' where "q' = q\<lparr>mq_active := True, mq_dmsgq := pq_push dm (mq_dmsgq q), mq_next_num := mq_next_num q + 1\<rparr>"
  have num: "unat (mq_next_num q + 1) = unat (mq_next_num q) + 1"
    using room by (simp add: unat_word_ariths)
  then have nz: "0 \<noteq> mq_next_num q + 1" by (metis add_is_0 one_neq_zero unat_0)
  have less: "mq_next_num q < mq_next_num q + 1" by (simp add: word_less_nat_alt num)
  have q1: "q1 = q\<lparr>mq_active := True\<rparr>" using en by (auto simp: EnsureActive_def split: if_splits)
  have r: "DoDelayPost d t h ident p q = Some (evs1 @ [Queued m, WakeUp], q')"
    using False en nz unfolding q1 by (simp add: DoDelayPost_def Let_def ASSERT_def m_def dm_def q'_def)
  have m: "disposal_ok m" using id by (simp add: m_def disposal_ok_def)
  have "sorted_wrt (\<lambda>a b. dm_less b a) (mq_dmsgq q')" unfolding q'_def
    using ok by (auto simp: queue_ok_def dm_def intro!: sorted_pq_push)
  moreover have "\<forall>e \<in> set (mq_dmsgq q'). dm_num e < mq_next_num q'"
    using ok less by (auto simp: queue_ok_def q'_def dm_def intro: less_trans)
  moreover have "\<forall>e \<in> set (messages q'). disposal_ok e" using ok m by (auto simp: queue_ok_def q'_def messages_def dm_def)
  ultimately have "queue_ok q'" by (simp add: queue_ok_def q'_def)
  moreover have "payloads (messages q') = mset (payload m) + payloads (messages q)"
    by (simp add: q'_def messages_def payloads_pq_push dm_def ac_simps)
  ultimately have "queue_step 1 q [] (evs1 @ [Queued m, WakeUp]) q'"
    by (intro enqueue_step [OF ok m en]) (simp_all add: q'_def num)
  then show ?thesis using r by blast
qed

lemma messages_not_matching:
  "messages (not_matching h ident q) = filter (\<lambda>m. \<not> Match h ident m) (messages q)"
  by (simp add: messages_def not_matching_def filter_map comp_def)

lemma matching_messages: "matching h ident q = filter (Match h ident) (messages q)"
  by (simp add: messages_def matching_def filter_map comp_def)

lemma payloads_filter: "payloads (filter P ms) + payloads (filter (\<lambda>m. \<not> P m) ms) = payloads ms"
  by (induction ms) (simp_all add: ac_simps)

lemma queue_ok_not_matching: "queue_ok q \<Longrightarrow> queue_ok (not_matching h ident q)"
  unfolding queue_ok_def messages_not_matching
  by (auto simp: not_matching_def sorted_wrt_filter)

lemma Clear_step:
  assumes "queue_ok q" "MessageQueue_Clear h ident removed q = (out, evs, q')"
  shows "queue_step 0 q out evs q'" "q' = not_matching h ident q"
proof -
  show q': "q' = not_matching h ident q" using assms(2) by (auto simp: MessageQueue_Clear_def Let_def split: if_splits)
  have evs: "AddToManager \<notin> set evs" "payloads (queued evs) = {#}"
    "payloads (filter (Match h ident) (messages q)) = mset (deleted evs) + payloads out"
    using assms(2) by (auto simp: MessageQueue_Clear_def Let_def matching_messages split: if_splits)
  have "set out \<subseteq> set (messages q)" using assms(2) by (auto simp: MessageQueue_Clear_def Let_def matching_messages split: if_splits)
  then have out: "\<forall>m \<in> set out. disposal_ok m \<and> mq_active q" using assms(1) by (force simp: queue_ok_def)
  have "payloads (messages q) + payloads (queued evs) = payloads (messages q') + mset (deleted evs) + payloads out"
    unfolding q' messages_not_matching using evs(2,3) payloads_filter [of "Match h ident" "messages q"]
    by (metis add.assoc add.commute add.right_neutral)
  then show "queue_step 0 q out evs q'"
    using queue_ok_not_matching [OF assms(1)] evs(1) out unfolding q' queue_step_def by (simp add: not_matching_def)
qed

text \<open>What callers keep to: an object to be deleted is posted without a handler.\<close>

fun call_ok :: "mq_call \<Rightarrow> bool" where
  "call_ok (CallPost now h ident p ts) \<longleftrightarrow> (ident = MQID_DISPOSE \<longrightarrow> h = None)"
| "call_ok (CallPostDelayed now d h ident p) \<longleftrightarrow> (ident = MQID_DISPOSE \<longrightarrow> h = None)"
| "call_ok (CallPostAt now t h ident p) \<longleftrightarrow> (ident = MQID_DISPOSE \<longrightarrow> h = None)"
| "call_ok _ \<longleftrightarrow> True"

text \<open>How many messages a call numbers.\<close>

fun call_delays :: "mq_call \<Rightarrow> nat" where
  "call_delays (CallPostDelayed now d h ident p) = 1"
| "call_delays (CallPostAt now t h ident p) = 1"
| "call_delays _ = 0"

definition calls_delays :: "mq_call list \<Rightarrow> nat" where
  "calls_delays cs = sum_list (map call_delays cs)"

lemma run_call_step:
  assumes "queue_ok q" "call_ok c" "unat (mq_next_num q) + call_delays c < 4294967296"
  shows "\<exists>evs q'. run_call c q = Some (evs, q') \<and> queue_step (call_delays c) q [] evs q'"
proof (cases c)
  case (CallPost now h ident p ts)
  then show ?thesis using Post_step [OF assms(1)] assms(2) by (cases "Post now h ident p ts q") simp
next
  case (CallPostDelayed now d h ident p)
  then show ?thesis using DoDelayPost_step [OF assms(1)] assms(2,3) by (simp add: PostDelayed_def)
next
  case (CallPostAt now t h ident p)
  then show ?thesis using DoDelayPost_step [OF assms(1)] assms(2,3) by (simp add: PostAt_def)
next
  case (CallClear h ident)
  obtain out evs q' where c: "MessageQueue_Clear h ident False q = (out, evs, q')" by (metis prod_cases3)
  then have "out = []" by (auto simp: MessageQueue_Clear_def Let_def)
  then show ?thesis using Clear_step(1) [OF assms(1) c] c CallClear by simp
next
  case CallQuit
  then show ?thesis using assms(1) by (auto simp: Quit_def step_defs split: if_splits)
next
  case CallRestart
  then show ?thesis using assms(1) by (auto simp: Restart_def step_defs split: if_splits)
qed

lemma run_calls_step:
  "queue_ok q \<Longrightarrow> \<forall>c \<in> set cs. call_ok c \<Longrightarrow> unat (mq_next_num q) + calls_delays cs < 4294967296
     \<Longrightarrow> \<exists>evs q'. run_calls cs q = Some (evs, q') \<and> queue_step (calls_delays cs) q [] evs q'"
proof (induction cs arbitrary: q)
  case (Cons c cs)
  obtain evs q1 where c: "run_call c q = Some (evs, q1)" "queue_step (call_delays c) q [] evs q1"
    using run_call_step [of q c] Cons.prems by (auto simp: calls_delays_def)
  have "unat (mq_next_num q1) + calls_delays cs < 4294967296" "queue_ok q1"
    using c(2) Cons.prems(3) by (auto simp: queue_step_def calls_delays_def)
  then obtain evs' q2 where d: "run_calls cs q1 = Some (evs', q2)" "queue_step (calls_delays cs) q1 [] evs' q2"
    using Cons.IH [of q1] Cons.prems(2) by auto
  then show ?case using c queue_step_trans [OF c(2) d(2)] by (simp add: calls_delays_def)
qed (simp add: calls_delays_def)

section \<open>The loops of \<open>Get\<close>\<close>

lemma trigger_loop_split:
  "\<exists>n. trigger_loop now msgq ds = (case drop n ds of [] \<Rightarrow> kForever | d # _ \<Rightarrow> TimeDiff (dm_msTrigger d) now,
        msgq @ map dm_msg (take n ds), drop n ds)
     \<and> (\<forall>d \<in> set (take n ds). \<not> TimeIsLater now (dm_msTrigger d))
     \<and> (case drop n ds of [] \<Rightarrow> True | d # _ \<Rightarrow> TimeIsLater now (dm_msTrigger d))"
proof (induction ds arbitrary: msgq)
  case (Cons d ds)
  show ?case
  proof (cases "TimeIsLater now (dm_msTrigger d)")
    case True
    then show ?thesis by (intro exI [of _ 0]) simp
  next
    case False
    from Cons.IH [of "msgq @ [dm_msg d]"] obtain n where
      "trigger_loop now (msgq @ [dm_msg d]) ds = (case drop n ds of [] \<Rightarrow> kForever | d # _ \<Rightarrow> TimeDiff (dm_msTrigger d) now,
          (msgq @ [dm_msg d]) @ map dm_msg (take n ds), drop n ds)
       \<and> (\<forall>d \<in> set (take n ds). \<not> TimeIsLater now (dm_msTrigger d))
       \<and> (case drop n ds of [] \<Rightarrow> True | d # _ \<Rightarrow> TimeIsLater now (dm_msTrigger d))" by blast
    then show ?thesis using False by (intro exI [of _ "Suc n"]) simp
  qed
qed simp

definition disposal :: "message \<Rightarrow> bool" where
  "disposal m \<longleftrightarrow> mg_id m = MQID_DISPOSE"

lemma posted_loop_split:
  "\<forall>m \<in> set ms. disposal_ok m
     \<Longrightarrow> posted_loop ms = Some (case dropWhile disposal ms of [] \<Rightarrow> None | m # _ \<Rightarrow> Some m,
           concat (map delete_data (takeWhile disposal ms)), drop 1 (dropWhile disposal ms))"
  by (induction ms) (auto simp: disposal_def disposal_ok_def ASSERT_def)

text \<open>One pass over the queues, before \<open>Get\<close> returns or waits.\<close>

definition scan :: "u32 \<Rightarrow> message_queue \<Rightarrow> (int \<times> message option \<times> mq_event list \<times> message_queue) option" where
  "scan now q = (case trigger_loop now (mq_msgq q) (mq_dmsgq q) of (next, msgq, dmsgq) \<Rightarrow>
     map_option (\<lambda>(r, evs, rest). (next, r, evs, q\<lparr>mq_msgq := rest, mq_dmsgq := dmsgq\<rparr>)) (posted_loop msgq))"

definition taken :: "message option \<Rightarrow> message list" where
  "taken r = (case r of None \<Rightarrow> [] | Some m \<Rightarrow> [m])"

lemma Get_loop_scan:
  "Get_loop cmsWait msStart now waits q = do {
     (next, r, evs, q) \<leftarrow> scan now q;
     case r of
       Some m \<Rightarrow> Some (Got m, evs, q)
     | None \<Rightarrow>
         if mq_stop q then Some (GotNothing, evs, q)
         else (let evs = evs @ [WaitFor (next_wait cmsWait (TimeDiff now msStart) next)]
           in case waits of
              [] \<Rightarrow> Some (Waiting, evs, q)
            | (calls, ok, now) # waits \<Rightarrow> do {
                (evs', q) \<leftarrow> run_calls calls q;
                if \<not> ok \<or> cmsWait \<noteq> kForever \<and> TimeDiff now msStart \<ge> cmsWait then Some (GotNothing, evs @ evs', q)
                else do {
                  (res, evs'', q) \<leftarrow> Get_loop cmsWait msStart now waits q;
                  Some (res, evs @ evs' @ evs'', q)
                }
              })
   }"
  by (cases "trigger_loop now (mq_msgq q) (mq_dmsgq q)"; cases "posted_loop (fst (snd (trigger_loop now (mq_msgq q) (mq_dmsgq q))))")
    (subst Get_loop.simps, simp add: scan_def Let_def split_beta cong: option.case_cong if_cong list.case_cong)+

lemma taken_head: "xs = taken (case xs of [] \<Rightarrow> None | m # _ \<Rightarrow> Some m) @ drop 1 xs"
  by (cases xs) (simp_all add: taken_def)

lemma scan_step:
  assumes ok: "queue_ok q"
  shows "\<exists>next r evs q'. scan now q = Some (next, r, evs, q') \<and> queue_step 0 q (taken r) evs q' \<and> mq_stop q' = mq_stop q"
proof -
  obtain n d where t: "trigger_loop now (mq_msgq q) (mq_dmsgq q) = (d, mq_msgq q @ map dm_msg (take n (mq_dmsgq q)), drop n (mq_dmsgq q))"
    using trigger_loop_split [of now "mq_msgq q" "mq_dmsgq q"] by blast
  define ms where "ms = mq_msgq q @ map dm_msg (take n (mq_dmsgq q))"
  have split: "mq_msgq q @ map dm_msg (mq_dmsgq q) = ms @ map dm_msg (drop n (mq_dmsgq q))"
    unfolding ms_def by (simp add: map_append [symmetric] del: map_append)
  have sub: "set ms \<subseteq> set (messages q)" unfolding ms_def messages_def by (auto dest: in_set_takeD)
  then have p: "posted_loop ms = Some (case dropWhile disposal ms of [] \<Rightarrow> None | m # _ \<Rightarrow> Some m,
      concat (map delete_data (takeWhile disposal ms)), drop 1 (dropWhile disposal ms))"
    using ok by (intro posted_loop_split) (auto simp: queue_ok_def)
  define r where "r = (case dropWhile disposal ms of [] \<Rightarrow> None | m # _ \<Rightarrow> Some m)"
  define q' where "q' = q\<lparr>mq_msgq := drop 1 (dropWhile disposal ms), mq_dmsgq := drop n (mq_dmsgq q)\<rparr>"
  define evs where "evs = concat (map delete_data (takeWhile disposal ms))"
  have s: "scan now q = Some (d, r, evs, q')" unfolding scan_def t by (simp add: ms_def [symmetric] p r_def q'_def evs_def)
  have part: "set (messages q') \<subseteq> set (messages q)"
    unfolding messages_def q'_def using sub by (auto simp: messages_def dest!: in_set_dropD set_dropWhileD)
  have "sorted_wrt (\<lambda>a b. dm_less b a) (mq_dmsgq q')" using ok by (auto simp: queue_ok_def q'_def sorted_wrt_drop)
  moreover have "\<forall>e \<in> set (mq_dmsgq q'). dm_num e < mq_next_num q'" using ok by (auto simp: queue_ok_def q'_def dest: in_set_dropD)
  moreover have "\<not> mq_active q' \<longrightarrow> messages q' = []"
    using ok part unfolding queue_ok_def by (cases "messages q'") (auto simp: q'_def)
  ultimately have ok': "queue_ok q'" using ok part unfolding queue_ok_def by blast
  have "ms = takeWhile disposal ms @ taken r @ mq_msgq q'"
    unfolding r_def q'_def using taken_head [of "dropWhile disposal ms"] by (metis message_queue.select_convs(5) takeWhile_dropWhile_id
      message_queue.surjective message_queue.update_convs(5,6))
  then have "payloads ms = mset (deleted evs) + payloads (taken r) + payloads (mq_msgq q')"
    unfolding evs_def delete_all_events by (metis add.assoc payloads_simps(3))
  moreover have "payloads (messages q) = payloads (if mq_peek_keep q then [mq_peek q] else []) + payloads ms + payloads (map dm_msg (drop n (mq_dmsgq q)))"
    unfolding messages_def split by (simp add: add.assoc)
  ultimately have "payloads (messages q) + payloads (queued evs) = payloads (messages q') + mset (deleted evs) + payloads (taken r)"
    unfolding evs_def by (simp add: messages_def q'_def ac_simps)
  moreover have "AddToManager \<notin> set evs" by (simp add: evs_def)
  moreover have "set (taken r) \<subseteq> set ms" unfolding r_def
    by (auto simp: taken_def split: list.splits option.splits) (metis list.set_intros(1) set_dropWhileD)
  then have "\<forall>m \<in> set (taken r). disposal_ok m \<and> mq_active q" using sub ok by (force simp: queue_ok_def)
  ultimately have "queue_step 0 q (taken r) evs q'" unfolding queue_step_def using ok' by (simp add: q'_def)
  then show ?thesis using s by (intro exI [of _ d] exI [of _ r] exI [of _ evs] exI [of _ q']) (simp add: q'_def)
qed

definition waits_ok :: "mq_wait list \<Rightarrow> bool" where
  "waits_ok waits \<longleftrightarrow> (\<forall>(calls, _) \<in> set waits. \<forall>c \<in> set calls. call_ok c)"

definition waits_delays :: "mq_wait list \<Rightarrow> nat" where
  "waits_delays waits = sum_list (map (\<lambda>(calls, _). calls_delays calls) waits)"

definition result :: "get_result \<Rightarrow> message list" where
  "result r = (case r of Got m \<Rightarrow> [m] | _ \<Rightarrow> [])"

lemma queue_step_wait: "queue_step n q out (evs @ [WaitFor c]) q' \<longleftrightarrow> queue_step n q out evs q'"
  by (simp add: queue_step_def)

lemma Get_loop_step:
  "queue_ok q \<Longrightarrow> waits_ok waits \<Longrightarrow> unat (mq_next_num q) + waits_delays waits < 4294967296
     \<Longrightarrow> \<exists>r evs q'. Get_loop cmsWait msStart now waits q = Some (r, evs, q') \<and> queue_step (waits_delays waits) q (result r) evs q'"
proof (induction waits arbitrary: now q)
  case Nil
  obtain d r evs q1 where s: "scan now q = Some (d, r, evs, q1)" "queue_step 0 q (taken r) evs q1" using scan_step [OF Nil(1)] by blast
  show ?case
    using s queue_step_mono [OF s(2)]
    by (subst Get_loop_scan) (auto simp: result_def taken_def queue_step_wait Let_def split: option.splits)
next
  case (Cons w waits)
  obtain calls ok t where w: "w = (calls, ok, t)" by (metis prod_cases3)
  obtain d r evs q1 where s: "scan now q = Some (d, r, evs, q1)" "queue_step 0 q (taken r) evs q1"
    using scan_step [OF Cons.prems(1)] by blast
  have dl: "waits_delays (w # waits) = calls_delays calls + waits_delays waits" by (simp add: waits_delays_def w)
  have q1: "queue_ok q1" "unat (mq_next_num q1) \<le> unat (mq_next_num q)" using s(2) by (simp_all add: queue_step_def)
  then obtain evs2 q2 where c: "run_calls calls q1 = Some (evs2, q2)" "queue_step (calls_delays calls) q1 [] evs2 q2"
    using run_calls_step [of q1 calls] Cons.prems dl by (auto simp: waits_ok_def w)
  have q2: "queue_ok q2" "unat (mq_next_num q2) \<le> unat (mq_next_num q1) + calls_delays calls" using c(2) by (simp_all add: queue_step_def)
  moreover have "waits_ok waits" using Cons.prems(2) by (simp add: waits_ok_def)
  ultimately obtain res evs3 q3 where g: "Get_loop cmsWait msStart t waits q2 = Some (res, evs3, q3)"
    "queue_step (waits_delays waits) q2 (result res) evs3 q3"
    using Cons.IH [of q2 t] Cons.prems(3) q1 dl by fastforce
  define evs' where "evs' = evs @ [WaitFor (next_wait cmsWait (TimeDiff now msStart) d)]"
  have s': "queue_step 0 q (taken r) evs' q1" using s(2) by (simp add: evs'_def queue_step_wait)
  show ?case
  proof (cases "r = None \<and> \<not> mq_stop q1")
    case False
    then have "\<exists>r'. Get_loop cmsWait msStart now (w # waits) q = Some (r', evs, q1) \<and> result r' = taken r"
      by (subst Get_loop_scan) (auto simp: s(1) result_def taken_def split: option.splits)
    then show ?thesis using queue_step_mono [OF s(2)] by auto
  next
    case True
    have two: "queue_step (calls_delays calls) q [] (evs' @ evs2) q2" using queue_step_trans [OF s' c(2)] True by (simp add: taken_def)
    have run: "Get_loop cmsWait msStart now (w # waits) q =
      (if \<not> ok \<or> cmsWait \<noteq> kForever \<and> TimeDiff t msStart \<ge> cmsWait then Some (GotNothing, evs' @ evs2, q2)
       else Some (res, evs' @ evs2 @ evs3, q3))"
      using True by (subst Get_loop_scan) (simp add: s(1) w Let_def c(1) g(1) evs'_def [symmetric])
    have three: "queue_step (waits_delays (w # waits)) q (result res) (evs' @ evs2 @ evs3) q3"
      using queue_step_trans [OF two g(2)] by (simp add: dl)
    show ?thesis unfolding run using queue_step_mono [OF two, of "waits_delays (w # waits)"] three by (simp add: dl result_def)
  qed
qed

end
