(* ===== verification/Message_Queue_Properties.thy ===== *)
theory Message_Queue_Properties
  imports Message_Queue_Proofs
begin

text \<open>The properties of message queues and of their manager (talk/base/messagequeue.cc, messagehandler.cc).\<close>

section \<open>Peeking\<close>

lemma run_call_peek: "run_call c q = Some (evs, q') \<Longrightarrow> mq_peek_keep q' \<Longrightarrow> mq_peek_keep q"
  by (cases c)
    (auto simp: Post_def PostDelayed_def PostAt_def DoDelayPost_def EnsureActive_def MessageQueue_Clear_def not_matching_def
      Quit_def Restart_def Let_def ASSERT_def split: if_splits)

lemma run_calls_peek: "run_calls cs q = Some (evs, q') \<Longrightarrow> mq_peek_keep q' \<Longrightarrow> mq_peek_keep q"
  by (induction cs arbitrary: q evs) (fastforce split: bind_splits dest: run_call_peek)+

lemma scan_peek: "scan now q = Some (d, r, evs, q') \<Longrightarrow> mq_peek_keep q' = mq_peek_keep q"
  by (auto simp: scan_def split: prod.splits)

lemma Get_loop_peek:
  "Get_loop cmsWait msStart now waits q = Some (r, evs, q') \<Longrightarrow> mq_peek_keep q' \<Longrightarrow> mq_peek_keep q"
proof (induction waits arbitrary: now q evs)
  case Nil
  then show ?case by (subst (asm) Get_loop_scan) (auto simp: Let_def dest!: scan_peek split: bind_splits option.splits if_splits)
next
  case (Cons w waits)
  then show ?case
    by (subst (asm) (2) Get_loop_scan)
      (auto simp: Let_def dest!: scan_peek run_calls_peek split: bind_splits option.splits if_splits prod.splits)
qed

section \<open>Operations of the owner of a queue\<close>

datatype mq_op =
    OpCall mq_call
  | OpGet int u32 "mq_wait list"
  | OpPeek int u32 "mq_wait list"
  | OpClearInto "nat option" u32

text \<open>The messages handed out, the events and the queue. A message that is only peeked at stays in the queue.\<close>

fun run_op :: "mq_op \<Rightarrow> message_queue \<Rightarrow> (message list \<times> mq_event list \<times> message_queue) option" where
  "run_op (OpCall c) q = map_option (\<lambda>(evs, q). ([], evs, q)) (run_call c q)"
| "run_op (OpGet cmsWait now waits) q = map_option (\<lambda>(r, evs, q). (result r, evs, q)) (MessageQueue_Get cmsWait now waits q)"
| "run_op (OpPeek cmsWait now waits) q = map_option (\<lambda>(r, evs, q). ([], evs, q)) (MessageQueue_Peek cmsWait now waits q)"
| "run_op (OpClearInto h ident) q = Some (MessageQueue_Clear h ident True q)"

fun run_ops :: "mq_op list \<Rightarrow> message_queue \<Rightarrow> (message list \<times> mq_event list \<times> message_queue) option" where
  "run_ops [] q = Some ([], [], q)"
| "run_ops (op # ops) q = do {
     (out, evs, q) \<leftarrow> run_op op q;
     (out', evs', q) \<leftarrow> run_ops ops q;
     Some (out @ out', evs @ evs', q)
   }"

fun op_ok :: "mq_op \<Rightarrow> bool" where
  "op_ok (OpCall c) \<longleftrightarrow> call_ok c"
| "op_ok (OpGet cmsWait now waits) \<longleftrightarrow> waits_ok waits"
| "op_ok (OpPeek cmsWait now waits) \<longleftrightarrow> waits_ok waits"
| "op_ok (OpClearInto h ident) \<longleftrightarrow> True"

fun op_delays :: "mq_op \<Rightarrow> nat" where
  "op_delays (OpCall c) = call_delays c"
| "op_delays (OpGet cmsWait now waits) = waits_delays waits"
| "op_delays (OpPeek cmsWait now waits) = waits_delays waits"
| "op_delays (OpClearInto h ident) = 0"

lemma Get_step:
  assumes "queue_ok q" "waits_ok waits" "unat (mq_next_num q) + waits_delays waits < 4294967296"
  shows "\<exists>r evs q'. MessageQueue_Get cmsWait now waits q = Some (r, evs, q')
    \<and> queue_step (waits_delays waits) q (result r) evs q' \<and> \<not> mq_peek_keep q'"
proof (cases "mq_peek_keep q")
  case True
  then have "queue_step (waits_delays waits) q [mq_peek q] [] (q\<lparr>mq_peek_keep := False\<rparr>)"
    using assms(1) by (auto simp: queue_step_def queue_ok_def messages_def)
  then show ?thesis using True by (simp add: MessageQueue_Get_def result_def)
next
  case False
  obtain r evs q' where g: "Get_loop cmsWait now now waits q = Some (r, evs, q')" "queue_step (waits_delays waits) q (result r) evs q'"
    using Get_loop_step [OF assms] by blast
  then show ?thesis using False Get_loop_peek [OF g(1)] by (auto simp: MessageQueue_Get_def)
qed

lemma Peek_step:
  assumes "queue_ok q" "waits_ok waits" "unat (mq_next_num q) + waits_delays waits < 4294967296"
  shows "\<exists>r evs q'. MessageQueue_Peek cmsWait now waits q = Some (r, evs, q') \<and> queue_step (waits_delays waits) q [] evs q'"
proof (cases "mq_peek_keep q")
  case True
  then show ?thesis using assms(1) by (simp add: MessageQueue_Peek_def)
next
  case False
  obtain r evs q1 where g: "MessageQueue_Get cmsWait now waits q = Some (r, evs, q1)"
    "queue_step (waits_delays waits) q (result r) evs q1" "\<not> mq_peek_keep q1"
    using Get_step [OF assms] by blast
  show ?thesis
  proof (cases r)
    case (Got m)
    have "queue_step (waits_delays waits) q [] evs (q1\<lparr>mq_peek := m, mq_peek_keep := True\<rparr>)"
      using g(2,3) by (auto simp: Got result_def queue_step_def queue_ok_def messages_def ac_simps)
    then show ?thesis using False g(1) Got by (simp add: MessageQueue_Peek_def)
  qed (use False g in \<open>simp_all add: MessageQueue_Peek_def result_def\<close>)
qed

lemma run_op_step:
  assumes "queue_ok q" "op_ok op" "unat (mq_next_num q) + op_delays op < 4294967296"
  shows "\<exists>out evs q'. run_op op q = Some (out, evs, q') \<and> queue_step (op_delays op) q out evs q'"
proof (cases op)
  case (OpCall c)
  then show ?thesis using run_call_step [of q c] assms by auto
next
  case (OpGet cmsWait now waits)
  then show ?thesis using Get_step [of q waits cmsWait now] assms by auto
next
  case (OpPeek cmsWait now waits)
  then show ?thesis using Peek_step [of q waits cmsWait now] assms by auto
next
  case (OpClearInto h ident)
  then show ?thesis using Clear_step(1) [OF assms(1)] by (cases "MessageQueue_Clear h ident True q") simp
qed



lemma new_queue_ok [simp]: "queue_ok MessageQueue_new" "messages MessageQueue_new = []" "mq_next_num MessageQueue_new = 0"
  by (simp_all add: queue_ok_def messages_def MessageQueue_new_def)




section \<open>The manager\<close>

text \<open>What a program can do: make and delete queues, use them, and destroy handlers.\<close>

inductive mq_reach :: "mq_world \<Rightarrow> bool" where
  start: "mq_reach \<lparr>mw_instance = None, mw_queues = Map.empty\<rparr>"
| create: "mq_reach w \<Longrightarrow> mw_queues w p = None \<Longrightarrow> mq_reach (new_MessageQueue p w)"
| operate: "mq_reach w \<Longrightarrow> mw_queues w p = Some q \<Longrightarrow> op_ok op \<Longrightarrow> unat (mq_next_num q) + op_delays op < 4294967296
    \<Longrightarrow> run_op op q = Some (out, evs, q') \<Longrightarrow> mq_reach (finish_queue p evs q' w)"
| handler_gone: "mq_reach w \<Longrightarrow> delete_MessageHandler h w = Some (evs, w') \<Longrightarrow> mq_reach w'"
| queue_gone: "mq_reach w \<Longrightarrow> delete_MessageQueue p w = Some (evs, w') \<Longrightarrow> mq_reach w'"

text \<open>The manager knows exactly the queues that are in use, each once.\<close>

definition world_ok :: "mq_world \<Rightarrow> bool" where
  "world_ok w \<longleftrightarrow> distinct (Instance w)
     \<and> (\<forall>p. p \<in> set (Instance w) \<longleftrightarrow> (\<exists>q. mw_queues w p = Some q \<and> mq_active q))
     \<and> (\<forall>p q. mw_queues w p = Some q \<longrightarrow> queue_ok q)"

lemma Instance_update [simp]:
  "Instance (w\<lparr>mw_queues := qs\<rparr>) = Instance w" "Instance (w\<lparr>mw_instance := Some l\<rparr>) = l" "Instance (w\<lparr>mw_instance := None\<rparr>) = []"
  by (simp_all add: Instance_def)

lemma Clear_active [simp]: "mq_active (not_matching h ident q) = mq_active q"
  by (simp add: not_matching_def)

lemma Manager_Clear_loop_run:
  "distinct ps \<Longrightarrow> \<forall>p \<in> set ps. mw_queues w p \<noteq> None
     \<Longrightarrow> \<exists>evs w'. Manager_Clear_loop h ps w = Some (evs, w') \<and> Instance w' = Instance w
       \<and> mw_queues w' = (\<lambda>p. if p \<in> set ps then map_option (not_matching h MQID_ANY) (mw_queues w p) else mw_queues w p)"
proof (induction ps arbitrary: w)
  case (Cons p ps)
  obtain q where q: "mw_queues w p = Some q" using Cons.prems by auto
  obtain out evs q' where c: "MessageQueue_Clear h MQID_ANY False q = (out, evs, q')" by (metis prod_cases3)
  then have q': "q' = not_matching h MQID_ANY q" by (auto simp: MessageQueue_Clear_def Let_def)
  let ?w = "w\<lparr>mw_queues := (mw_queues w)(p \<mapsto> q')\<rparr>"
  have "\<forall>p' \<in> set ps. mw_queues ?w p' \<noteq> None" using Cons.prems by auto
  from Cons.IH [OF _ this] Cons.prems(1) obtain evs' w' where r: "Manager_Clear_loop h ps ?w = Some (evs', w')" "Instance w' = Instance ?w"
    "mw_queues w' = (\<lambda>p'. if p' \<in> set ps then map_option (not_matching h MQID_ANY) (mw_queues ?w p') else mw_queues ?w p')" by auto
  have "mw_queues w' = (\<lambda>p'. if p' \<in> set (p # ps) then map_option (not_matching h MQID_ANY) (mw_queues w p') else mw_queues w p')"
    unfolding r(3) using Cons.prems(1) q q' by (intro ext) auto
  then show ?case using q c r(1,2) by simp
qed simp

text \<open>A queue that the manager does not know has no messages, so clearing it changes nothing.\<close>

lemma not_matching_idle: "queue_ok q \<Longrightarrow> \<not> mq_active q \<Longrightarrow> messages (not_matching h ident q) = messages q"
  by (simp add: messages_not_matching queue_ok_def)

lemma Manager_Clear_run:
  assumes ok: "world_ok w"
  shows "\<exists>evs w'. Manager_Clear h w = Some (evs, w') \<and> world_ok w' \<and> dom (mw_queues w') = dom (mw_queues w)
    \<and> (\<forall>p q. mw_queues w p = Some q \<longrightarrow> (\<exists>q'. mw_queues w' p = Some q' \<and> messages q' = filter (\<lambda>m. \<not> Match h MQID_ANY m) (messages q)))"
proof -
  let ?w = "w\<lparr>mw_instance := Some (Instance w)\<rparr>"
  have "\<forall>p \<in> set (Instance w). mw_queues ?w p \<noteq> None" "distinct (Instance w)" using ok by (auto simp: world_ok_def)
  then obtain evs w' where r: "Manager_Clear_loop h (Instance w) ?w = Some (evs, w')" "Instance w' = Instance w"
    "mw_queues w' = (\<lambda>p. if p \<in> set (Instance w) then map_option (not_matching h MQID_ANY) (mw_queues w p) else mw_queues w p)"
    using Manager_Clear_loop_run [of "Instance w" ?w h] by (auto cong: if_cong)
  have m: "Manager_Clear h w = Some (evs, w')" using r(1) by (simp add: Manager_Clear_def Let_def)
  have all: "\<exists>q'. mw_queues w' p = Some q' \<and> messages q' = filter (\<lambda>m. \<not> Match h MQID_ANY m) (messages q)
      \<and> queue_ok q' \<and> mq_active q' = mq_active q" if q: "mw_queues w p = Some q" for p q
  proof (cases "p \<in> set (Instance w)")
    case True
    then show ?thesis using q ok by (auto simp: r(3) messages_not_matching world_ok_def intro: queue_ok_not_matching)
  next
    case False
    then have "\<not> mq_active q" "queue_ok q" using q ok by (auto simp: world_ok_def)
    then show ?thesis using q False by (simp add: r(3) queue_ok_def)
  qed
  have d: "dom (mw_queues w') = dom (mw_queues w)" unfolding r(3) by (auto split: if_splits)
  have "world_ok w'" unfolding world_ok_def r(2)
  proof (intro conjI allI impI)
    show "distinct (Instance w)" using ok by (simp add: world_ok_def)
    fix p
    show "p \<in> set (Instance w) \<longleftrightarrow> (\<exists>q. mw_queues w' p = Some q \<and> mq_active q)"
    proof (cases "mw_queues w p")
      case None
      then have "mw_queues w' p = None" using d by blast
      then show ?thesis using None ok by (simp add: world_ok_def)
    next
      case (Some q)
      then show ?thesis using all [OF Some] ok by (auto simp: world_ok_def)
    qed
  next
    fix p q'
    assume q': "mw_queues w' p = Some q'"
    then obtain q where "mw_queues w p = Some q" using d by blast
    then show "queue_ok q'" using all q' by fastforce
  qed
  then show ?thesis using m d all by blast
qed

lemma finish_queue_ok:
  assumes ok: "world_ok w" and q: "mw_queues w p = Some q" and s: "queue_step n q out evs q'"
  shows "world_ok (finish_queue p evs q' w)"
proof -
  have a: "AddToManager \<in> set evs \<longleftrightarrow> mq_active q' \<and> \<not> mq_active q" "mq_active q \<longrightarrow> mq_active q'" "queue_ok q'"
    using s by (simp_all add: queue_step_def)
  then show ?thesis using ok q by (auto simp: world_ok_def finish_queue_def Manager_Add_def Let_def)
qed

lemma delete_queue_ok:
  assumes ok: "world_ok w" and d: "delete_MessageQueue p w = Some (evs, w')"
  shows "world_ok w'"
proof -
  obtain q where q: "mw_queues w p = Some q" using d by (auto simp: delete_MessageQueue_def split: bind_splits)
  have "Instance w' = (if mq_active q then remove1 p (Instance w) else Instance w)" "mw_queues w' = (mw_queues w)(p := None)"
    using d q by (auto simp: delete_MessageQueue_def Manager_Remove_def Let_def split: if_splits)
  then show ?thesis using ok q unfolding world_ok_def by (auto simp: fun_upd_def)
qed

lemma mq_reach_ok: "mq_reach w \<Longrightarrow> world_ok w"
proof (induction rule: mq_reach.induct)
  case start
  then show ?case by (simp add: world_ok_def Instance_def)
next
  case (create w p)
  then show ?case by (auto simp: world_ok_def new_MessageQueue_def) (auto simp: MessageQueue_new_def)
next
  case (operate w p q op out evs q')
  then have "queue_ok q" by (auto simp: world_ok_def)
  then have "queue_step (op_delays op) q out evs q'" using run_op_step [of q op] operate by auto
  then show ?case using finish_queue_ok operate by blast
next
  case (handler_gone w h evs w')
  then show ?case using Manager_Clear_run [of w "Some h"] by (auto simp: delete_MessageHandler_def)
next
  case (queue_gone w p evs w')
  then show ?case using delete_queue_ok by blast
qed

text \<open>
  C14: In every state a program can reach, destroying a handler succeeds and leaves in all the queues, posted,
  timed or peeked at, no message for it, and every other message in its place: the manager knows each queue that holds a message.
\<close>

theorem handler_leaves_no_message:
  assumes "mq_reach w"
  shows "\<exists>evs w'. delete_MessageHandler h w = Some (evs, w') \<and> dom (mw_queues w') = dom (mw_queues w)
    \<and> (\<forall>p q. mw_queues w p = Some q
         \<longrightarrow> (\<exists>q'. mw_queues w' p = Some q' \<and> messages q' = filter (\<lambda>m. mg_phandler m \<noteq> Some h) (messages q)))"
proof -
  have "\<not> Match (Some h) MQID_ANY m \<longleftrightarrow> mg_phandler m \<noteq> Some h" for m by (auto simp: Match_def)
  then show ?thesis using Manager_Clear_run [OF mq_reach_ok [OF assms], of "Some h"] by (auto simp: delete_MessageHandler_def)
qed

text \<open>A queue with a message for handler 1 and one for handler 2, after which handler 1 is destroyed.\<close>

definition demo_queue :: message_queue where
  "demo_queue = snd (Post 5 (Some 2) 9 None False (snd (Post 5 (Some 1) 7 (Some 10) False MessageQueue_new)))"

definition demo_world :: mq_world where
  "demo_world = finish_queue 3 [Queued (Message_new\<lparr>mg_phandler := Some 2, mg_id := 9\<rparr>), WakeUp] demo_queue
     (finish_queue 3 [AddToManager, Queued (Message_new\<lparr>mg_phandler := Some 1, mg_id := 7, mg_pdata := Some 10\<rparr>), WakeUp]
       (snd (Post 5 (Some 1) 7 (Some 10) False MessageQueue_new))
       (new_MessageQueue 3 \<lparr>mw_instance = None, mw_queues = Map.empty\<rparr>))"

lemma demo_world_reach: "mq_reach demo_world"
proof -
  let ?w0 = "new_MessageQueue 3 \<lparr>mw_instance = None, mw_queues = Map.empty\<rparr>"
  let ?q1 = "snd (Post 5 (Some 1) 7 (Some 10) False MessageQueue_new)"
  have w0: "mq_reach ?w0" by (rule mq_reach.create [OF mq_reach.start]) simp
  have "mq_reach (finish_queue 3 [AddToManager, Queued (Message_new\<lparr>mg_phandler := Some 1, mg_id := 7, mg_pdata := Some 10\<rparr>), WakeUp] ?q1 ?w0)"
    by (rule mq_reach.operate [OF w0, of 3 MessageQueue_new "OpCall (CallPost 5 (Some 1) 7 (Some 10) False)" "[]"])
      (simp_all add: Let_def new_MessageQueue_def MQID_DISPOSE_def Post_def EnsureActive_def MessageQueue_new_def Message_new_def)
  then show ?thesis unfolding demo_world_def
    by (rule mq_reach.operate [of _ 3 ?q1 "OpCall (CallPost 5 (Some 2) 9 None False)" "[]"])
      (simp_all add: finish_queue_def Manager_Add_def Let_def MQID_DISPOSE_def demo_queue_def Post_def EnsureActive_def
        MessageQueue_new_def Message_new_def)
qed

theorem handler_leaves_no_message_witness:
  "\<exists>evs w'. delete_MessageHandler 1 demo_world = Some (evs, w') \<and> dom (mw_queues w') = dom (mw_queues demo_world)
    \<and> (\<forall>p q. mw_queues demo_world p = Some q
         \<longrightarrow> (\<exists>q'. mw_queues w' p = Some q' \<and> messages q' = filter (\<lambda>m. mg_phandler m \<noteq> Some 1) (messages q)))"
  by (rule handler_leaves_no_message [OF demo_world_reach])

section \<open>The order of delivery\<close>













text \<open>
  Around the wrap of the clock it is different: a message timed for 4 ms before the wrap waits behind one that is timed for
  after it, since the triggers are compared as numbers. Here the first one is 3 ms overdue, and \<open>Get\<close> waits for 8 ms more.
\<close>

lemma overdue_behind_the_wrap:
  "map_option (\<lambda>(_, evs, q). (evs, map dm_msTrigger (mq_dmsgq q)))
     (run_ops [OpCall (CallPostAt 0xFFFFFF00 0xFFFFFFFC (Some 1) 7 None), OpCall (CallPostAt 0xFFFFFF00 7 (Some 2) 8 None),
        OpGet (- 1) 0xFFFFFFFF []] (MessageQueue_new\<lparr>mq_active := True\<rparr>))
   = Some ([Queued (Message_new\<lparr>mg_phandler := Some 1, mg_id := 7\<rparr>), WakeUp,
        Queued (Message_new\<lparr>mg_phandler := Some 2, mg_id := 8\<rparr>), WakeUp, WaitFor 8], [7, 0xFFFFFFFC])"
  by code_simp

end
