(* ===== verification/Spec2Isabelle.thy ===== *)
theory Spec2Isabelle
  imports Tcp_Properties Fifo_Spec Stun_Properties Stun_Request_Proofs Socket_Address Rate_Tracker
    Byte_Buffer Time_Utils Port_Properties Channel_Properties Async_Tcp_Proofs Relay_Properties Stun_Server
    Base64_Proofs Message_Queue_Properties
begin

text \<open>
  Verification of libjingle (jni/talk): the peer-to-peer data path.

  The program. Two peers talk through a P2P channel. Candidate addresses are exchanged over XMPP; on
  every pair of a local port and a remote candidate a connection is probed with STUN binding requests
  (p2p/base/port.cc, stunrequest.cc, stun.cc), and the channel (p2p/base/p2ptransportchannel.cc) sends
  over the best one. Reliable streams run over the channel through PseudoTcp (p2p/base/pseudotcp.cc),
  which keeps its data in two FifoBuffers (base/stream.cc). Below lie byte buffers, byte order,
  addresses and timestamps (base/). The code is read as it is built: for armeabi (32 bits,
  little-endian, jni/Application.mk) and with _DEBUG, so that a failing ASSERT ends the program.

  Conventions. A class is a record with its fields, a method a function from the object to its result
  and the changed object. \<open>None\<close> stands for what must not happen: a failing ASSERT, undefined
  behaviour (a deleted object, a division by zero, a read out of bounds), or a loop that runs out of fuel; that
  it does not happen is proved. Calls out of a class (sockets, signals, the posting of messages) are
  values in its result, or arguments that answer them: the network's answers to a packet, the reading of the
  clock, the application's reaction to a notification, random numbers. Integers keep the width
  they have in the code where it can be reached; an \<open>int\<close> is an int of the code.

  Theories and sources.
  \<^item> Prelude: machine integers, \<open>size_t\<close> arithmetic, collections of rules. Weak_Order: the contract of
    std::stable_sort and std::map (a locale, interpreted on the order of addresses).
  \<^item> Time_Utils: base/timeutils.cc, 32-bit timestamps that wrap around, with both implementations of
    each comparison.
  \<^item> Byte_Order: base/byteorder.h. Byte_Buffer: base/bytebuffer.cc, typed reads and writes.
    Wire_Codec: the contract between packet formats and the byte buffer (locale \<open>codec\<close>, interpreted on
    each typed operation).
  \<^item> Fifo: class FifoBuffer of base/stream.cc. Byte_Queue: the interface PseudoTcp uses (locales
    for the send and the receive buffer, interpreted on FifoBuffer). Fifo_Spec: FifoBuffer refines
    a bounded list of bytes.
  \<^item> Pseudo_Tcp and Pseudo_Tcp_Proc: p2p/base/pseudotcp.cc, every method. Send_Queue, Tcp_Invariant,
    Tcp_Send_Proofs, Tcp_Ack_Proofs, Tcp_Control_Proofs, Tcp_Recv_Proofs, Tcp_Safety: the invariant
    (the segments of the send queue tile the unacknowledged bytes of the send buffer, the reorder list covers
    bytes of the receive buffer that are the peer's), kept by each handler. Tcp_Run: events and
    runs. Tcp_Properties: the properties.
  \<^item> Ip_Address and Socket_Address: base/ipaddress.cc and base/socketaddress.cc.
  \<^item> Stun: p2p/base/stun.cc. Stun_Codec: well-formed messages and their bytes. Stun_Properties.
  \<^item> Stun_Request: p2p/base/stunrequest.cc; request objects in a heap, pending deliveries as a list.
    Stun_Request_Proofs: the book-keeping of the manager (locale \<open>request_client\<close> for the virtual
    methods of a request class).
  \<^item> Rate_Tracker: base/ratetracker.cc.
  \<^item> Async_Tcp and Async_Tcp_Proofs: base/asynctcpsocket.cc, packets over a TCP stream.
  \<^item> Port and Port_Ops: p2p/base/port.cc, candidate.h and udpport.cc: ports and connections in a heap, the
    pings of a connection and its states, authentication of STUN messages, creation and end of both.
    Port_Proofs and Port_Packet_Proofs: the invariant of the heap and which operations keep it without
    failing. Port_Properties: the properties.
  \<^item> P2P_Channel and P2P_Channel_Ops: p2p/base/p2ptransportchannel.cc, the flags of transportchannel.cc
    and the ports of a session of client/basicportallocator.cc. Channel_Order: the comparison of
    connections (locale \<open>weak_order\<close>). Channel_Proofs: sorting. Channel_Heap, Channel_Create,
    Channel_Steps, Channel_Ends: creating and destroying ports and connections, the calls of the
    channel. Channel_Run: events and reachable states. Channel_Properties: the properties.
  \<^item> Safe_Run: computations that keep a transitive relation (locale \<open>step_trans\<close>). Std_Map: std::map over a
    weak order. Socket_Address_Pair: base/socketaddresspair.cc, the keys of one of the relay's maps.
  \<^item> Relay_Server: p2p/base/relayserver.cc: bindings and connections in heaps, the maps by user name and by
    address, the messages of the thread. Relay_Proofs, Relay_Steps, Relay_Ends: the invariant
    of these maps and the operations that keep it. Relay_Properties: runs and the properties.
  \<^item> Stun_Server: p2p/base/stunserver.cc. Base64 and Base64_Proofs: base/base64.cc.
  \<^item> Message_Queue: base/messagequeue.cc and messagehandler.cc, the queue of a thread, what others call on it
    while it waits, and the manager of all queues. Message_Queue_Proofs: what an operation keeps and the
    account of the data of messages. Message_Queue_Properties: runs and the properties.

  What is shown. PseudoTcp: in every state reachable by events of a sane environment (\<open>seg_sane\<close>,
  \<open>ack_sane\<close>: sequence numbers do not wrap within 4 GiB, acknowledgements are at segment boundaries) no
  event ends the program, the send loop terminates and respects the window, what is read is the
  peer's stream, and what can be delivered is. STUN: round trip, type safety and totality of the parser on
  any bytes. Requests: no use of a deleted request, the retransmission schedule. Channel: in every state
  reachable by events that satisfy \<open>event_ok\<close> (UDP candidates, fresh random ids, a socket that never sends
  zero bytes) no event fails and no port or connection dangles; the best connection is of the best write
  state; the pings and their answers get through. FifoBuffer: refinement.
  Addresses: order, hash and equality agree; text round trip; masks against bits. Buffers, packet headers
  and options: round trips; packets over TCP arrive whole whatever the pieces in which the stream carries them.
  Relay server: in every state reachable by packets that satisfy \<open>relay_input_ok\<close> (no two
  bindings share a peer) no packet and no timer fails, packets go only to the parties of the sender's binding, between
  locked parties they arrive unchanged, and unused bindings end. STUN server: any bytes are answered without failing, and with
  the sender's address. Message queues: data is handed out or deleted exactly once, delivery is in order, a
  destroyed handler gets nothing. Base64: round trip under all options. Clocks and rates: equivalence with the reference implementation, no lost units.

  Fuel and bounds. \<open>attemptSend_loop\<close> and \<open>transmit_loop\<close> take fuel; attemptSend gives the loop
  as many rounds as there are unsent bytes and segments (each round sends bytes or splits a segment), the
  MTU loop as many as the table has entries, and attemptSend_terminates shows that it never runs out.

  Not modelled, and why. Sockets and socket servers, threads, TLS, HTTP proxies and platform code are
  interfaces to the operating system; what the modelled parts need of them is an argument or an event. Expat,
  srtp and sigslot are third-party. The STUN, relay and TCP ports and the phases of their allocation are mostly calls into
  sockets and HTTP services; the port and connection logic they share with the UDP port is modelled. Transports
  and sessions negotiate through XML stanzas and calls between two threads; with them, and with xmpp/ and
  xmllite/, the text formats above the data path are left out, as are the applications, their Java glue and
  the tests.
\<close>

end
